(* ===== verification/Ports.thy ===== *)
theory Ports
  imports Frp_Prelude
begin

text \<open>
  The port manager of the server, \<open>server/ports/ports.go\<close>: which ports of the allowed ranges are
  free, which are used and by which proxy, and which port a proxy name had last.

  The source keeps pointers to \<open>PortCtx\<close> values in two maps, and \<open>Release\<close> marks the value
  closed through one map so that the worker sees it through the other. The model therefore has an
  explicit store \<open>pm_heap\<close> of contexts, addressed by numbers, and both maps hold addresses.
  The operating system is a record of functions (\<open>net_env\<close>) that say whether an address can be
  resolved or listened on at the time of the call; the random iteration order of Go's
  \<open>range\<close> over \<open>freePorts\<close> is the argument \<open>ks\<close>. Times are integers, in nanoseconds.
\<close>

section \<open>State\<close>

record net_env =
  env_resolveUDP :: "string \<Rightarrow> int \<Rightarrow> bool"
  env_listenUDP :: "string \<Rightarrow> int \<Rightarrow> bool"
  env_listen :: "string \<Rightarrow> string \<Rightarrow> int \<Rightarrow> bool"

datatype port_error = ErrPortAlreadyUsed | ErrPortNotAllowed | ErrPortUnAvailable | ErrNoAvailablePort

definition MinPort :: int where "MinPort = 1"
definition MaxPort :: int where "MaxPort = 65535"
definition MaxPortReservedDuration :: int where
  "MaxPortReservedDuration = 24 * 3600 * 1000000000"

record port_ctx =
  pc_ProxyName :: string
  pc_Port :: int
  pc_Closed :: bool
  pc_UpdateTime :: int

record port_mgr =
  pm_heap :: "nat \<rightharpoonup> port_ctx"
  pm_next :: nat
  pm_reservedPorts :: "string \<rightharpoonup> nat"
  pm_usedPorts :: "int \<rightharpoonup> nat"
  pm_freePorts :: "int set"
  pm_bindAddr :: string
  pm_netType :: string

record ports_range =
  pr_Start :: int
  pr_End :: int
  pr_Single :: int

section \<open>Operations\<close>

definition range_ports :: "ports_range \<Rightarrow> int set" where
  "range_ports r = (if pr_Single r > 0 then {pr_Single r} else {pr_Start r .. pr_End r})"

definition allowed_ports :: "ports_range list \<Rightarrow> int set" where
  "allowed_ports rs =
     (if length rs > 0 then foldl (\<lambda>free r. free \<union> range_ports r) {} rs
      else {MinPort .. MaxPort})"

definition NewManager :: "string \<Rightarrow> string \<Rightarrow> ports_range list \<Rightarrow> port_mgr" where
  "NewManager netType bindAddr allowPorts =
     \<lparr>pm_heap = Map.empty, pm_next = 0, pm_reservedPorts = Map.empty, pm_usedPorts = Map.empty,
      pm_freePorts = allowed_ports allowPorts, pm_bindAddr = bindAddr, pm_netType = netType\<rparr>"

definition isPortAvailable :: "net_env \<Rightarrow> port_mgr \<Rightarrow> int \<Rightarrow> bool" where
  "isPortAvailable env pm port =
     (if pm_netType pm = ''udp'' then
        (if \<not> env_resolveUDP env (pm_bindAddr pm) port then False
         else env_listenUDP env (pm_bindAddr pm) port)
      else env_listen env (pm_netType pm) (pm_bindAddr pm) port)"

text \<open>The loop over the free ports gives up after \<open>maxTryTimes\<close> keys.\<close>

fun pick_port :: "(int \<Rightarrow> bool) \<Rightarrow> nat \<Rightarrow> int list \<Rightarrow> int option" where
  "pick_port av n [] = None"
| "pick_port av 0 (k # ks) = None"
| "pick_port av (Suc n) (k # ks) = (if av k then Some k else pick_port av n ks)"

definition take_port :: "string \<Rightarrow> int \<Rightarrow> nat \<Rightarrow> port_mgr \<Rightarrow> port_mgr" where
  "take_port name p c pm =
     pm\<lparr>pm_usedPorts := (pm_usedPorts pm)(p \<mapsto> c),
        pm_reservedPorts := (pm_reservedPorts pm)(name \<mapsto> c),
        pm_freePorts := pm_freePorts pm - {p}\<rparr>"

text \<open>The deferred function of \<open>Acquire\<close>: the context gets its port when there is no error.\<close>

definition set_ctx_port :: "nat \<Rightarrow> int \<Rightarrow> port_mgr \<Rightarrow> port_mgr" where
  "set_ctx_port c p pm =
     (case pm_heap pm c of
        None \<Rightarrow> pm
      | Some ctx \<Rightarrow> pm\<lparr>pm_heap := (pm_heap pm)(c \<mapsto> ctx\<lparr>pc_Port := p\<rparr>)\<rparr>)"

definition alloc_ctx :: "string \<Rightarrow> int \<Rightarrow> port_mgr \<Rightarrow> port_mgr" where
  "alloc_ctx name now pm =
     pm\<lparr>pm_heap := (pm_heap pm)(pm_next pm \<mapsto>
           \<lparr>pc_ProxyName = name, pc_Port = 0, pc_Closed = False, pc_UpdateTime = now\<rparr>),
        pm_next := Suc (pm_next pm)\<rparr>"

definition acquire_random ::
  "net_env \<Rightarrow> int list \<Rightarrow> string \<Rightarrow> nat \<Rightarrow> port_mgr \<Rightarrow> (port_error + int) \<times> port_mgr" where
  "acquire_random env ks name c pm =
     (case pick_port (isPortAvailable env pm) 5 ks of
        None \<Rightarrow> (Inl ErrNoAvailablePort, pm)
      | Some k \<Rightarrow>
          (let pm' = take_port name k c pm in
           if k = 0 then (Inl ErrNoAvailablePort, pm')
           else (Inr k, set_ctx_port c k pm')))"

definition acquire_specified ::
  "net_env \<Rightarrow> string \<Rightarrow> int \<Rightarrow> nat \<Rightarrow> port_mgr \<Rightarrow> (port_error + int) \<times> port_mgr" where
  "acquire_specified env name port c pm =
     (if port \<in> pm_freePorts pm then
        (if isPortAvailable env pm port
         then (Inr port, set_ctx_port c port (take_port name port c pm))
         else (Inl ErrPortUnAvailable, pm))
      else (case pm_usedPorts pm port of
              Some _ \<Rightarrow> (Inl ErrPortAlreadyUsed, pm)
            | None \<Rightarrow> (Inl ErrPortNotAllowed, pm)))"

definition reserved_port :: "port_mgr \<Rightarrow> string \<Rightarrow> int option" where
  "reserved_port pm name =
     (case pm_reservedPorts pm name of
        None \<Rightarrow> None
      | Some c \<Rightarrow> map_option pc_Port (pm_heap pm c))"

definition Acquire ::
  "net_env \<Rightarrow> int \<Rightarrow> int list \<Rightarrow> string \<Rightarrow> int \<Rightarrow> port_mgr \<Rightarrow> (port_error + int) \<times> port_mgr" where
  "Acquire env now ks name port pm0 =
     (let c = pm_next pm0; pm = alloc_ctx name now pm0 in
      if port = 0 then
        (case reserved_port pm name of
           Some p \<Rightarrow>
             (if isPortAvailable env pm p
              then (Inr p, set_ctx_port c p (take_port name p c pm))
              else acquire_random env ks name c pm)
         | None \<Rightarrow> acquire_random env ks name c pm)
      else acquire_specified env name port c pm)"

definition Release :: "int \<Rightarrow> int \<Rightarrow> port_mgr \<Rightarrow> port_mgr" where
  "Release now port pm =
     (case pm_usedPorts pm port of
        None \<Rightarrow> pm
      | Some c \<Rightarrow>
          pm\<lparr>pm_freePorts := insert port (pm_freePorts pm),
             pm_usedPorts := (pm_usedPorts pm)(port := None),
             pm_heap := (case pm_heap pm c of
                None \<Rightarrow> pm_heap pm
              | Some ctx \<Rightarrow> (pm_heap pm)(c \<mapsto> ctx\<lparr>pc_Closed := True, pc_UpdateTime := now\<rparr>))\<rparr>)"

text \<open>One round of \<open>cleanReservedPortsWorker\<close>.\<close>

definition expired_ctx :: "int \<Rightarrow> port_ctx \<Rightarrow> bool" where
  "expired_ctx now ctx = (pc_Closed ctx \<and> now - pc_UpdateTime ctx > MaxPortReservedDuration)"

definition cleanReservedPorts :: "int \<Rightarrow> port_mgr \<Rightarrow> port_mgr" where
  "cleanReservedPorts now pm =
     pm\<lparr>pm_reservedPorts := restrict_by
          (\<lambda>name c. \<not> (case pm_heap pm c of None \<Rightarrow> False | Some ctx \<Rightarrow> expired_ctx now ctx))
          (pm_reservedPorts pm)\<rparr>"

section \<open>Steps and reachable states\<close>

inductive port_step :: "port_mgr \<Rightarrow> port_mgr \<Rightarrow> bool" where
  acquire: "distinct ks \<Longrightarrow> set ks = pm_freePorts pm \<Longrightarrow>
     port_step pm (snd (Acquire env now ks name port pm))"
| acquire_fixed: "port \<noteq> 0 \<Longrightarrow> port_step pm (snd (Acquire env now ks name port pm))"
| release: "port_step pm (Release now port pm)"
| clean: "port_step pm (cleanReservedPorts now pm)"

inductive ports_reachable :: "string \<Rightarrow> string \<Rightarrow> ports_range list \<Rightarrow> port_mgr \<Rightarrow> bool"
  for net addr allow where
  start: "ports_reachable net addr allow (NewManager net addr allow)"
| step: "ports_reachable net addr allow pm \<Longrightarrow> port_step pm pm' \<Longrightarrow>
     ports_reachable net addr allow pm'"

section \<open>Invariant\<close>

text \<open>
  Every allowed port is either free or used, never both; a used port has a live, open context
  that records it; contexts are not shared between used ports; a reserved port is an allowed one.
\<close>

definition ports_inv :: "int set \<Rightarrow> port_mgr \<Rightarrow> bool" where
  "ports_inv A pm \<longleftrightarrow>
     dom (pm_usedPorts pm) \<inter> pm_freePorts pm = {} \<and>
     dom (pm_usedPorts pm) \<union> pm_freePorts pm = A \<and>
     (\<forall>p c. pm_usedPorts pm p = Some c \<longrightarrow>
        (\<exists>ctx. pm_heap pm c = Some ctx \<and> pc_Port ctx = p \<and> \<not> pc_Closed ctx)) \<and>
     (\<forall>n c. pm_reservedPorts pm n = Some c \<longrightarrow>
        (\<exists>ctx. pm_heap pm c = Some ctx \<and> pc_ProxyName ctx = n \<and> pc_Port ctx \<in> A)) \<and>
     (\<forall>c \<ge> pm_next pm. pm_heap pm c = None)"

lemma ports_invI:
  assumes "dom (pm_usedPorts pm) \<inter> pm_freePorts pm = {}"
    and "dom (pm_usedPorts pm) \<union> pm_freePorts pm = A"
    and "\<And>p c. pm_usedPorts pm p = Some c \<Longrightarrow>
           \<exists>ctx. pm_heap pm c = Some ctx \<and> pc_Port ctx = p \<and> \<not> pc_Closed ctx"
    and "\<And>n c. pm_reservedPorts pm n = Some c \<Longrightarrow>
           \<exists>ctx. pm_heap pm c = Some ctx \<and> pc_ProxyName ctx = n \<and> pc_Port ctx \<in> A"
    and "\<And>c. pm_next pm \<le> c \<Longrightarrow> pm_heap pm c = None"
  shows "ports_inv A pm"
  using assms by (auto simp: ports_inv_def)

lemma ports_invD:
  assumes "ports_inv A pm"
  shows "dom (pm_usedPorts pm) \<inter> pm_freePorts pm = {}"
    and "dom (pm_usedPorts pm) \<union> pm_freePorts pm = A"
    and "\<And>p c. pm_usedPorts pm p = Some c \<Longrightarrow>
           \<exists>ctx. pm_heap pm c = Some ctx \<and> pc_Port ctx = p \<and> \<not> pc_Closed ctx"
    and "\<And>n c. pm_reservedPorts pm n = Some c \<Longrightarrow>
           \<exists>ctx. pm_heap pm c = Some ctx \<and> pc_ProxyName ctx = n \<and> pc_Port ctx \<in> A"
    and "\<And>c. pm_next pm \<le> c \<Longrightarrow> pm_heap pm c = None"
  using assms by (auto simp: ports_inv_def)

lemma NewManager_inv: "ports_inv (allowed_ports allow) (NewManager net addr allow)"
  by (simp add: ports_inv_def NewManager_def)

lemma alloc_ctx_sel [simp]:
  "pm_usedPorts (alloc_ctx n t pm) = pm_usedPorts pm"
  "pm_reservedPorts (alloc_ctx n t pm) = pm_reservedPorts pm"
  "pm_freePorts (alloc_ctx n t pm) = pm_freePorts pm"
  "pm_next (alloc_ctx n t pm) = Suc (pm_next pm)"
  "pm_netType (alloc_ctx n t pm) = pm_netType pm"
  "pm_bindAddr (alloc_ctx n t pm) = pm_bindAddr pm"
  "pm_heap (alloc_ctx n t pm) = (pm_heap pm)(pm_next pm \<mapsto>
     \<lparr>pc_ProxyName = n, pc_Port = 0, pc_Closed = False, pc_UpdateTime = t\<rparr>)"
  by (simp_all add: alloc_ctx_def)

lemma isPortAvailable_alloc [simp]: "isPortAvailable env (alloc_ctx n t pm) = isPortAvailable env pm"
  by (simp add: isPortAvailable_def fun_eq_iff)

text \<open>The context that \<open>Acquire\<close> allocates: fresh, so no table refers to it yet.\<close>

definition fresh_ctx :: "string \<Rightarrow> nat \<Rightarrow> port_mgr \<Rightarrow> bool" where
  "fresh_ctx name c pm \<longleftrightarrow>
     (\<exists>t. pm_heap pm c = Some \<lparr>pc_ProxyName = name, pc_Port = 0, pc_Closed = False, pc_UpdateTime = t\<rparr>) \<and>
     c \<notin> ran (pm_usedPorts pm) \<and> c \<notin> ran (pm_reservedPorts pm) \<and> c < pm_next pm"

lemma alloc_ctx_inv:
  assumes "ports_inv A pm"
  shows "ports_inv A (alloc_ctx n t pm)" and "fresh_ctx n (pm_next pm) (alloc_ctx n t pm)"
proof -
  note D = ports_invD [OF assms]
  have f: "pm_heap pm (pm_next pm) = None" using D(5) by simp
  show "ports_inv A (alloc_ctx n t pm)"
    using D f by (intro ports_invI) (auto, fastforce+)
  show "fresh_ctx n (pm_next pm) (alloc_ctx n t pm)"
    using D(3,4) f by (fastforce simp: fresh_ctx_def ran_def)
qed

lemma take_port_inv:
  assumes inv: "ports_inv A pm" and fr: "fresh_ctx name c pm" and p: "p \<in> A"
  shows "ports_inv A (set_ctx_port c p (take_port name p c pm))"
proof -
  note D = ports_invD [OF inv]
  obtain t where h: "pm_heap pm c = Some \<lparr>pc_ProxyName = name, pc_Port = 0, pc_Closed = False, pc_UpdateTime = t\<rparr>"
    and u: "\<And>q. pm_usedPorts pm q \<noteq> Some c" and r: "\<And>m. pm_reservedPorts pm m \<noteq> Some c"
    and n: "c < pm_next pm"
    using fr by (auto simp: fresh_ctx_def ran_def)
  show ?thesis
  proof (rule ports_invI)
    fix q d
    assume "pm_usedPorts (set_ctx_port c p (take_port name p c pm)) q = Some d"
    then show "\<exists>ctx. pm_heap (set_ctx_port c p (take_port name p c pm)) d = Some ctx \<and>
        pc_Port ctx = q \<and> \<not> pc_Closed ctx"
      using h u D(3) by (auto simp: set_ctx_port_def take_port_def split: if_splits)
  next
    fix m d
    assume "pm_reservedPorts (set_ctx_port c p (take_port name p c pm)) m = Some d"
    then show "\<exists>ctx. pm_heap (set_ctx_port c p (take_port name p c pm)) d = Some ctx \<and>
        pc_ProxyName ctx = m \<and> pc_Port ctx \<in> A"
      using h r p D(4) by (auto simp: set_ctx_port_def take_port_def split: if_splits)
  qed (use h n p D(1,2,5) in \<open>auto simp: set_ctx_port_def take_port_def\<close>)
qed

lemma take_port_0: "fresh_ctx name c pm \<Longrightarrow> set_ctx_port c 0 (take_port name 0 c pm) = take_port name 0 c pm"
  by (auto simp: fresh_ctx_def set_ctx_port_def take_port_def fun_upd_idem)

lemma pick_port_Some: "pick_port av n ks = Some k \<Longrightarrow> k \<in> set ks \<and> av k"
  by (induction av n ks rule: pick_port.induct) (auto split: if_splits)

lemma pick_port_first: "av k \<Longrightarrow> pick_port av (Suc n) (k # ks) = Some k"
  by simp

lemma pick_port_None_few:
  "length ks \<le> n \<Longrightarrow> pick_port av n ks = None \<longleftrightarrow> (\<forall>k \<in> set ks. \<not> av k)"
  by (induction av n ks rule: pick_port.induct) auto

lemma acquire_random_inv:
  assumes "ports_inv A pm" and "fresh_ctx name c pm" and "set ks = pm_freePorts pm"
  shows "ports_inv A (snd (acquire_random env ks name c pm))"
proof (cases "pick_port (isPortAvailable env pm) 5 ks")
  case None
  then show ?thesis using assms by (simp add: acquire_random_def)
next
  case (Some k)
  then have "k \<in> A" using pick_port_Some assms(3) ports_invD(2) [OF assms(1)] by blast
  note inv = take_port_inv [OF assms(1,2) this]
  show ?thesis using Some inv take_port_0 [OF assms(2)] by (auto simp: acquire_random_def Let_def)
qed

lemma acquire_specified_inv:
  assumes "ports_inv A pm" and "fresh_ctx name c pm"
  shows "ports_inv A (snd (acquire_specified env name port c pm))"
  using take_port_inv [OF assms, of port] ports_invD(2) [OF assms(1)] assms(1)
  by (auto simp: acquire_specified_def split: option.splits)

lemma reserved_port_in:
  assumes "ports_inv A pm" and "reserved_port pm name = Some p"
  shows "p \<in> A"
  using ports_invD(4) [OF assms(1)] assms(2) by (fastforce simp: reserved_port_def split: option.splits)

lemma Acquire_inv [inv_intros]:
  assumes inv: "ports_inv A pm" and ks: "port = 0 \<Longrightarrow> set ks = pm_freePorts pm"
  shows "ports_inv A (snd (Acquire env now ks name port pm))"
proof -
  note a = alloc_ctx_inv [OF inv, of name now]
  show ?thesis
    using acquire_random_inv [OF a, of ks env] acquire_specified_inv [OF a, of env port]
      take_port_inv [OF a] reserved_port_in [OF a(1)] ks
    by (auto simp: Acquire_def Let_def split: option.splits)
qed

lemma Release_inv [inv_intros]:
  assumes inv: "ports_inv A pm"
  shows "ports_inv A (Release now port pm)"
proof (cases "pm_usedPorts pm port")
  case None
  then show ?thesis using inv by (simp add: Release_def)
next
  case (Some c)
  note D = ports_invD [OF inv]
  obtain ctx where h: "pm_heap pm c = Some ctx" "pc_Port ctx = port"
    using D(3) [OF Some] by blast
  have ne: "d \<noteq> c" if "pm_usedPorts pm q = Some d" "q \<noteq> port" for q d
    using D(3) [OF that(1)] h that(2) by auto
  show ?thesis
  proof (rule ports_invI)
    fix q d
    assume "pm_usedPorts (Release now port pm) q = Some d"
    then show "\<exists>ctx. pm_heap (Release now port pm) d = Some ctx \<and> pc_Port ctx = q \<and> \<not> pc_Closed ctx"
      using Some h ne D(3) by (auto simp: Release_def split: if_splits)
  next
    fix m d
    assume "pm_reservedPorts (Release now port pm) m = Some d"
    then show "\<exists>ctx. pm_heap (Release now port pm) d = Some ctx \<and> pc_ProxyName ctx = m \<and> pc_Port ctx \<in> A"
      using Some h D(4) by (fastforce simp: Release_def)
  next
    fix d assume "pm_next (Release now port pm) \<le> d"
    then show "pm_heap (Release now port pm) d = None"
      using Some h D(5) by (auto simp: Release_def)
  qed (use Some h D(1,2) in \<open>auto simp: Release_def\<close>)
qed

lemma cleanReservedPorts_inv [inv_intros]: "ports_inv A pm \<Longrightarrow> ports_inv A (cleanReservedPorts now pm)"
  by (auto simp: ports_inv_def cleanReservedPorts_def)

lemma port_step_inv: "port_step pm pm' \<Longrightarrow> ports_inv A pm \<Longrightarrow> ports_inv A pm'"
  by (induction rule: port_step.induct) (auto intro: inv_intros)

lemma ports_reachable_inv:
  "ports_reachable net addr allow pm \<Longrightarrow> ports_inv (allowed_ports allow) pm"
  by (induction rule: ports_reachable.induct) (auto intro: NewManager_inv port_step_inv)

section \<open>Behaviour of the operations\<close>

lemma set_take_sel [simp]:
  "pm_usedPorts (set_ctx_port c p pm) = pm_usedPorts pm"
  "pm_reservedPorts (set_ctx_port c p pm) = pm_reservedPorts pm"
  "pm_freePorts (set_ctx_port c p pm) = pm_freePorts pm"
  "pm_usedPorts (take_port n p c pm) = (pm_usedPorts pm)(p \<mapsto> c)"
  "pm_reservedPorts (take_port n p c pm) = (pm_reservedPorts pm)(n \<mapsto> c)"
  "pm_freePorts (take_port n p c pm) = pm_freePorts pm - {p}"
  "pm_heap (take_port n p c pm) = pm_heap pm"
  by (auto simp: set_ctx_port_def take_port_def split: option.splits)

text \<open>A successful \<open>Acquire\<close> is one \<open>take_port\<close> on the fresh context.\<close>

lemma Acquire_Inr:
  assumes "Acquire env now ks name port pm = (Inr p, pm')"
  shows "pm' = set_ctx_port (pm_next pm) p (take_port name p (pm_next pm) (alloc_ctx name now pm)) \<and>
         isPortAvailable env pm p \<and>
         (port \<noteq> 0 \<longrightarrow> p = port \<and> p \<in> pm_freePorts pm) \<and>
         (port = 0 \<longrightarrow> reserved_port (alloc_ctx name now pm) name = Some p \<or> p \<in> set ks)"
  using assms pick_port_Some
  by (fastforce simp: Acquire_def Let_def acquire_random_def acquire_specified_def
      split: if_splits option.splits)

lemma Acquire_specified_fst:
  "port \<noteq> 0 \<Longrightarrow> fst (Acquire env now ks name port pm) =
     (if port \<in> pm_freePorts pm then
        (if isPortAvailable env pm port then Inr port else Inl ErrPortUnAvailable)
      else if port \<in> dom (pm_usedPorts pm) then Inl ErrPortAlreadyUsed
      else Inl ErrPortNotAllowed)"
  by (auto simp: Acquire_def Let_def acquire_specified_def split: option.splits)

lemma Acquire_Inl_specified:
  assumes "Acquire env now ks name port pm = (Inl e, pm')" and "port \<noteq> 0"
  shows "pm' = alloc_ctx name now pm"
  using assms by (auto simp: Acquire_def Let_def acquire_specified_def split: if_splits option.splits)

lemma Acquire_Inr_ctx:
  assumes "ports_inv A pm" and "Acquire env now ks name port pm = (Inr p, pm')"
  shows "pm_usedPorts pm' p = Some (pm_next pm) \<and> pm_reservedPorts pm' name = Some (pm_next pm) \<and>
         pm_heap pm' (pm_next pm) = Some \<lparr>pc_ProxyName = name, pc_Port = p, pc_Closed = False, pc_UpdateTime = now\<rparr>"
  using Acquire_Inr [OF assms(2)] by (auto simp: set_ctx_port_def)

lemma Acquire_fixed_free:
  assumes "port \<noteq> 0" and "port \<in> pm_freePorts pm" and "isPortAvailable env pm port"
  shows "\<exists>pm'. Acquire env now ks name port pm = (Inr port, pm') \<and> pm_usedPorts pm' port = Some (pm_next pm)"
  using assms by (simp add: Acquire_def Let_def acquire_specified_def set_ctx_port_def take_port_def)

lemma reserved_port_after:
  assumes "pm_reservedPorts pm name = Some c" and "pm_heap pm c = Some ctx"
    and "c < pm_next pm"
  shows "reserved_port (alloc_ctx n t pm) name = Some (pc_Port ctx)"
  using assms by (simp add: reserved_port_def)

lemma isPortAvailable_cong:
  "pm_netType pm = pm_netType pm' \<Longrightarrow> pm_bindAddr pm = pm_bindAddr pm' \<Longrightarrow>
   isPortAvailable env pm = isPortAvailable env pm'"
  by (simp add: isPortAvailable_def fun_eq_iff)

lemma Acquire_addr:
  "pm_netType (snd (Acquire env now ks name port pm)) = pm_netType pm"
  "pm_bindAddr (snd (Acquire env now ks name port pm)) = pm_bindAddr pm"
  by (auto simp: Acquire_def Let_def acquire_random_def acquire_specified_def set_ctx_port_def
      take_port_def split: option.splits)

lemma Release_addr:
  "pm_netType (Release now p pm) = pm_netType pm" "pm_bindAddr (Release now p pm) = pm_bindAddr pm"
  "pm_reservedPorts (Release now p pm) = pm_reservedPorts pm" "pm_next (Release now p pm) = pm_next pm"
  by (auto simp: Release_def split: option.splits)

lemma cleanReservedPorts_sel [simp]:
  "pm_netType (cleanReservedPorts now pm) = pm_netType pm"
  "pm_bindAddr (cleanReservedPorts now pm) = pm_bindAddr pm"
  "pm_next (cleanReservedPorts now pm) = pm_next pm"
  "pm_heap (cleanReservedPorts now pm) = pm_heap pm"
  "pm_usedPorts (cleanReservedPorts now pm) = pm_usedPorts pm"
  "pm_freePorts (cleanReservedPorts now pm) = pm_freePorts pm"
  by (auto simp: cleanReservedPorts_def)

section \<open>Interface for the users of a port manager\<close>

text \<open>
  What the TCP and UDP proxies and the TCP groups rely on: a request either adds one port to the
  used ports or, refused, changes nothing that matters to them; a release removes that port.
  A request is the argument tuple of \<open>Acquire\<close>.
\<close>

locale port_pool =
  fixes inv :: "'s \<Rightarrow> bool"
    and used :: "'s \<Rightarrow> int set"
    and valid :: "'r \<Rightarrow> 's \<Rightarrow> bool"
    and acq :: "'r \<Rightarrow> 's \<Rightarrow> ('e + int) \<times> 's"
    and rel :: "int \<Rightarrow> int \<Rightarrow> 's \<Rightarrow> 's"
  assumes acq_inv: "inv s \<Longrightarrow> valid r s \<Longrightarrow> inv (snd (acq r s))"
    and acq_ok: "inv s \<Longrightarrow> valid r s \<Longrightarrow> acq r s = (Inr p, s') \<Longrightarrow> used s' = insert p (used s)"
    and acq_refused: "inv s \<Longrightarrow> valid r s \<Longrightarrow> acq r s = (Inl e, s') \<Longrightarrow> used s' = used s"
    and rel_inv: "inv s \<Longrightarrow> inv (rel t p s)"
    and rel_used: "inv s \<Longrightarrow> used (rel t p s) = used s - {p}"
begin

lemma acq_rel_balanced:
  assumes "inv s" and "valid r s" and "acq r s = (Inr p, s')" and "p \<notin> used s"
  shows "used (rel t p s') = used s"
proof -
  have i: "inv s'" using acq_inv [OF assms(1,2)] assms(3) by simp
  show ?thesis using rel_used [OF i, of t p] acq_ok [OF assms(1-3)] assms(4) by simp
qed

lemma rel_twice:
  assumes "inv s"
  shows "used (rel t p (rel t' p s)) = used (rel t' p s)"
  using rel_used [OF rel_inv [OF assms, of t' p], of t p] rel_used [OF assms, of t' p] by auto

end

definition used_ports :: "port_mgr \<Rightarrow> int set" where
  "used_ports pm = dom (pm_usedPorts pm)"

text \<open>
  A valid request enumerates the free ports when it asks for any port. Port 0 is excluded from the
  pool: with a range that starts at 0, \<open>Acquire\<close> can mark port 0 used and still report an error.
\<close>

definition valid_request :: "net_env \<times> int \<times> int list \<times> string \<times> int \<Rightarrow> port_mgr \<Rightarrow> bool" where
  "valid_request r pm = (case r of (env, now, ks, name, port) \<Rightarrow>
     port = 0 \<longrightarrow> distinct ks \<and> set ks = pm_freePorts pm)"

definition acquire_req ::
  "net_env \<times> int \<times> int list \<times> string \<times> int \<Rightarrow> port_mgr \<Rightarrow> (port_error + int) \<times> port_mgr" where
  "acquire_req r pm = (case r of (env, now, ks, name, port) \<Rightarrow> Acquire env now ks name port pm)"

definition pool_inv :: "port_mgr \<Rightarrow> bool" where
  "pool_inv pm \<longleftrightarrow> ports_inv (used_ports pm \<union> pm_freePorts pm) pm \<and> 0 \<notin> used_ports pm \<union> pm_freePorts pm"

lemma pool_invI: "ports_inv A pm \<Longrightarrow> 0 \<notin> A \<Longrightarrow> pool_inv pm"
  using ports_invD(2) [of A pm] by (simp add: pool_inv_def used_ports_def)

lemma pool_invE: "pool_inv pm \<Longrightarrow> \<exists>A. ports_inv A pm \<and> 0 \<notin> A"
  by (auto simp: pool_inv_def)

lemma Acquire_refused_used:
  assumes "pool_inv pm" and "port = 0 \<Longrightarrow> set ks = pm_freePorts pm"
    and "Acquire env now ks name port pm = (Inl e, pm')"
  shows "pm_usedPorts pm' = pm_usedPorts pm"
proof -
  have "k \<noteq> 0" if "pick_port av 5 ks = Some k" "port = 0" for av k
    using pick_port_Some [OF that(1)] assms(1,2) that(2) by (auto simp: pool_inv_def)
  then show ?thesis
    using assms(3)
    by (fastforce simp: Acquire_def Let_def acquire_random_def acquire_specified_def
        split: if_splits option.splits)
qed

lemma Release_used: "pm_usedPorts (Release now p pm) = (pm_usedPorts pm)(p := None)"
  by (auto simp: Release_def split: option.splits)

interpretation pool: port_pool pool_inv used_ports valid_request acquire_req Release
proof unfold_locales
  fix s :: port_mgr and r :: "net_env \<times> int \<times> int list \<times> string \<times> int"
  obtain env now ks name port where r: "r = (env, now, ks, name, port)" by (cases r)
  assume i: "pool_inv s" and v: "valid_request r s"
  from pool_invE [OF i] obtain A where A: "ports_inv A s" "0 \<notin> A" by blast
  show "pool_inv (snd (acquire_req r s))"
    using pool_invI [OF Acquire_inv [OF A(1), of port ks env now name] A(2)] v
    by (auto simp: r acquire_req_def valid_request_def)
  show "used_ports s' = insert p (used_ports s)" if "acquire_req r s = (Inr p, s')" for p s'
    using Acquire_Inr [of env now ks name port s p s'] that
    by (auto simp: r acquire_req_def used_ports_def)
  show "used_ports s' = used_ports s" if "acquire_req r s = (Inl e, s')" for e s'
    using Acquire_refused_used [OF i, of port ks] that v
    by (auto simp: r acquire_req_def valid_request_def used_ports_def)
next
  fix s :: port_mgr and t p :: int
  assume i: "pool_inv s"
  from pool_invE [OF i] obtain A where A: "ports_inv A s" "0 \<notin> A" by blast
  show "pool_inv (Release t p s)" using Release_inv [OF A(1)] A(2) by (rule pool_invI)
  show "used_ports (Release t p s) = used_ports s - {p}"
    by (auto simp: used_ports_def Release_used)
qed

section \<open>Properties\<close>

text \<open>C3: in every state that the manager can reach, the used and the free ports partition the
  allowed ports, and a used port is recorded in an open context that names exactly that port.\<close>

theorem ports_partition:
  assumes "ports_reachable net addr allow pm"
  shows "dom (pm_usedPorts pm) \<inter> pm_freePorts pm = {} \<and>
         dom (pm_usedPorts pm) \<union> pm_freePorts pm = allowed_ports allow \<and>
         (\<forall>p c. pm_usedPorts pm p = Some c \<longrightarrow>
            (\<exists>ctx. pm_heap pm c = Some ctx \<and> pc_Port ctx = p \<and> \<not> pc_Closed ctx))"
  using ports_invD(1-3) [OF ports_reachable_inv [OF assms]] by blast

text \<open>A concrete environment and manager for the witnesses.\<close>

definition env_all :: net_env where
  "env_all = \<lparr>env_resolveUDP = \<lambda>_ _. True, env_listenUDP = \<lambda>_ _. True, env_listen = \<lambda>_ _ _. True\<rparr>"

definition range_6000 :: ports_range where
  "range_6000 = \<lparr>pr_Start = 6000, pr_End = 6001, pr_Single = 0\<rparr>"

definition pm_demo :: port_mgr where
  "pm_demo = snd (Acquire env_all 5 [] ''ssh'' 6000 (NewManager ''tcp'' [] [range_6000]))"

lemma pm_demo_reachable: "ports_reachable ''tcp'' [] [range_6000] pm_demo"
  unfolding pm_demo_def
  by (rule ports_reachable.step [OF ports_reachable.start]) (rule port_step.acquire_fixed, simp)

lemma NewManager_6000:
  "pm_freePorts (NewManager ''tcp'' [] [range_6000]) = {6000, 6001}"
  "allowed_ports [range_6000] = {6000, 6001}"
  by (auto simp: NewManager_def allowed_ports_def range_ports_def range_6000_def)

lemma isPortAvailable_env_all [simp]: "isPortAvailable env_all pm p"
  by (simp add: isPortAvailable_def env_all_def)

lemma pm_demo_used: "pm_usedPorts pm_demo = [6000 \<mapsto> 0]" "pm_freePorts pm_demo = {6001}"
  by (simp_all add: pm_demo_def Acquire_def Let_def acquire_specified_def NewManager_6000)
    (simp add: NewManager_def)

theorem ports_partition_witness:
  "pm_usedPorts pm_demo 6000 = Some 0 \<and> 6000 \<notin> pm_freePorts pm_demo \<and>
   dom (pm_usedPorts pm_demo) \<union> pm_freePorts pm_demo = {6000, 6001}"
  using ports_partition [OF pm_demo_reachable] by (auto simp: pm_demo_used NewManager_6000)

text \<open>Acquiring a given port answers exactly by the state of that port: outside the allowed
  ports it is not allowed, a used one is already used, a free one is granted if the system can
  listen on it and is unavailable otherwise.\<close>

theorem Acquire_specified_result:
  assumes "ports_reachable net addr allow pm" and "port \<noteq> 0"
  shows "fst (Acquire env now ks name port pm) =
     (if port \<notin> allowed_ports allow then Inl ErrPortNotAllowed
      else if port \<in> dom (pm_usedPorts pm) then Inl ErrPortAlreadyUsed
      else if isPortAvailable env pm port then Inr port
      else Inl ErrPortUnAvailable)"
  using ports_invD(1,2) [OF ports_reachable_inv [OF assms(1)]] assms(2)
  by (auto simp: Acquire_specified_fst)

theorem Acquire_specified_result_witness:
  "fst (Acquire env_all 7 [] ''web'' 6000 pm_demo) = Inl ErrPortAlreadyUsed \<and>
   fst (Acquire env_all 7 [] ''web'' 80 pm_demo) = Inl ErrPortNotAllowed"
  using Acquire_specified_result [OF pm_demo_reachable, of 6000 env_all 7 "[]" "''web''"]
    Acquire_specified_result [OF pm_demo_reachable, of 80 env_all 7 "[]" "''web''"]
  by (simp add: NewManager_6000 pm_demo_used)

text \<open>A granted port is allowed, was available, and is from then on used by the asking proxy
  and not free; every other used port keeps its holder.\<close>

theorem Acquire_grants:
  assumes "ports_reachable net addr allow pm"
    and "port = 0 \<longrightarrow> set ks = pm_freePorts pm"
    and "Acquire env now ks name port pm = (Inr p, pm')"
  shows "p \<in> allowed_ports allow \<and> isPortAvailable env pm p \<and> p \<notin> pm_freePorts pm' \<and>
         (\<exists>c ctx. pm_usedPorts pm' p = Some c \<and> pm_heap pm' c = Some ctx \<and>
            pc_ProxyName ctx = name \<and> pc_Port ctx = p) \<and>
         (\<forall>q. q \<noteq> p \<longrightarrow> pm_usedPorts pm' q = pm_usedPorts pm q)"
proof -
  note inv = ports_reachable_inv [OF assms(1)]
  note A = Acquire_Inr [OF assms(3)] and C = Acquire_Inr_ctx [OF inv assms(3)]
  have "p \<in> allowed_ports allow"
    using A assms(2) ports_invD(2) [OF inv] reserved_port_in [OF alloc_ctx_inv(1) [OF inv]] by blast
  with A C show ?thesis by auto
qed

theorem Acquire_grants_witness:
  "fst (Acquire env_all 7 [] ''web'' 6001 pm_demo) = Inr 6001 \<and>
   6001 \<notin> pm_freePorts (snd (Acquire env_all 7 [] ''web'' 6001 pm_demo)) \<and>
   pm_usedPorts (snd (Acquire env_all 7 [] ''web'' 6001 pm_demo)) 6000 = Some 0"
proof -
  have r: "fst (Acquire env_all 7 [] ''web'' 6001 pm_demo) = Inr 6001"
    by (simp add: Acquire_specified_fst pm_demo_used)
  then have e: "Acquire env_all 7 [] ''web'' 6001 pm_demo =
      (Inr 6001, snd (Acquire env_all 7 [] ''web'' 6001 pm_demo))"
    by (simp add: prod_eq_iff)
  show ?thesis using r Acquire_grants [OF pm_demo_reachable _ e] by (simp add: pm_demo_used)
qed

text \<open>A proxy gets its port back. After a port was granted to a name and released, a run of
  the cleaning worker keeps the reservation exactly when it is not later than
  \<open>MaxPortReservedDuration\<close> after the release, and while it is kept the name that asks for any
  port is given the same port whenever the system can listen on it.\<close>

theorem Acquire_same_port_again:
  assumes "ports_reachable net addr allow pm"
    and "Acquire env now ks name port pm = (Inr p, pm1)"
    and "pm3 = cleanReservedPorts t2 (Release t1 p pm1)"
  shows "reserved_port pm3 name = (if t2 - t1 \<le> MaxPortReservedDuration then Some p else None) \<and>
     (t2 - t1 \<le> MaxPortReservedDuration \<and> isPortAvailable env' pm p \<longrightarrow>
        fst (Acquire env' now' ks' name 0 pm3) = Inr p)"
proof -
  let ?c = "pm_next pm" and ?pm2 = "Release t1 p pm1"
  note C = Acquire_Inr_ctx [OF ports_reachable_inv [OF assms(1)] assms(2)]
  have h: "pm_heap ?pm2 ?c = Some \<lparr>pc_ProxyName = name, pc_Port = p, pc_Closed = True, pc_UpdateTime = t1\<rparr>"
    using C by (simp add: Release_def)
  have r: "pm_reservedPorts pm3 name = (if t2 - t1 \<le> MaxPortReservedDuration then Some ?c else None)"
    using C h by (simp add: assms(3) cleanReservedPorts_def Release_addr expired_ctx_def restrict_by_def)
  have n: "pm_next pm1 = Suc ?c"
    using Acquire_Inr [OF assms(2)] by (simp add: set_ctx_port_def take_port_def)
  have av: "isPortAvailable env' pm3 = isPortAvailable env' pm"
    using Acquire_addr [of env now ks name port pm] assms(2)
    by (intro isPortAvailable_cong) (simp_all add: assms(3) Release_addr)
  have "reserved_port (alloc_ctx name now' pm3) name = Some p" if "t2 - t1 \<le> MaxPortReservedDuration"
    using reserved_port_after [of pm3 name ?c] r h n that by (simp add: assms(3) Release_addr)
  then show ?thesis using r h av by (auto simp: Acquire_def Let_def reserved_port_def assms(3))
qed

theorem Acquire_same_port_again_witness:
  "fst (Acquire env_all 20 [6001] ''ssh'' 0 (cleanReservedPorts 15 (Release 10 6000 pm_demo))) = Inr 6000"
proof -
  have g: "Acquire env_all 5 [] ''ssh'' 6000 (NewManager ''tcp'' [] [range_6000]) = (Inr 6000, pm_demo)"
    using Acquire_specified_fst [of 6000 env_all 5 "[]" "''ssh''" "NewManager ''tcp'' [] [range_6000]"]
    by (simp add: prod_eq_iff pm_demo_def NewManager_6000)
  show ?thesis
    using Acquire_same_port_again [OF ports_reachable.start g refl, of 15 10 env_all 20 "[6001]"]
    by (simp add: MaxPortReservedDuration_def)
qed

definition pm_stolen :: port_mgr where
  "pm_stolen = snd (Acquire env_all 20 [] ''web'' 6000 (Release 10 6000 pm_demo))"

text \<open>the reservation path of \<open>Acquire\<close> does not look at the used ports. There is a reachable
  state in which a port is used by one proxy, its listener not bound yet, and another proxy that
  had the port before is granted the same port.\<close>

theorem reserved_port_granted_twice:
  "ports_reachable ''tcp'' [] [range_6000] pm_stolen \<and>
   pm_usedPorts pm_stolen 6000 = Some 1 \<and>
   map_option pc_ProxyName (pm_heap pm_stolen 1) = Some ''web'' \<and>
   fst (Acquire env_all 30 [6001] ''ssh'' 0 pm_stolen) = Inr 6000"
proof -
  have r: "ports_reachable ''tcp'' [] [range_6000] pm_stolen"
    unfolding pm_stolen_def
    by (rule ports_reachable.step [OF ports_reachable.step [OF pm_demo_reachable port_step.release]])
      (rule port_step.acquire_fixed, simp)
  have f: "6000 \<in> pm_freePorts (Release 10 6000 pm_demo)" by (simp add: Release_def pm_demo_used)
  have h: "pm_reservedPorts pm_demo = [''ssh'' \<mapsto> 0]" "pm_next pm_demo = 1" "pm_heap pm_demo =
      [0 \<mapsto> \<lparr>pc_ProxyName = ''ssh'', pc_Port = 6000, pc_Closed = False, pc_UpdateTime = 5\<rparr>]"
    by (simp_all add: pm_demo_def Acquire_def Let_def acquire_specified_def NewManager_6000 set_ctx_port_def take_port_def)
      (simp_all add: NewManager_def)
  have s: "pm_usedPorts pm_stolen 6000 = Some 1" "pm_reservedPorts pm_stolen ''ssh'' = Some 0"
      "map_option pc_ProxyName (pm_heap pm_stolen 1) = Some ''web''"
      "map_option pc_Port (pm_heap pm_stolen 0) = Some 6000" "pm_next pm_stolen = 2"
    using f by (simp_all add: pm_stolen_def Acquire_def Let_def acquire_specified_def set_ctx_port_def
        Release_addr h) (simp_all add: Release_def pm_demo_used h take_port_def)
  have "reserved_port (alloc_ctx ''ssh'' 30 pm_stolen) ''ssh'' = Some 6000"
    using s by (auto simp: reserved_port_def)
  then show ?thesis using r s by (simp add: Acquire_def Let_def)
qed

end
