(* ===== verification/Registry.thy ===== *)
theory Registry
  imports Frp_Prelude
begin

text \<open>
  The contract that the managers of the server share. \<open>proxy.Manager\<close>, \<open>visitor.Manager\<close>,
  the client table of \<open>nathole.Controller\<close> and \<open>vhost.Routers\<close> all keep a table in which
  a key is added at most once: adding a present key is refused, deleting a key removes it and
  nothing else. The locale states the contract by the lookup function; \<open>norm\<close> is what a manager
  does to a key before it uses it (\<open>vhost.Routers\<close> lower-cases the domain, the others keep the
  key). The lemmas are proved once here and reused through the interpretations in the component
  theories.
\<close>

section \<open>The interface\<close>

locale name_registry =
  fixes invar :: "'s \<Rightarrow> bool"
    and norm :: "'k \<Rightarrow> 'k"
    and lookup :: "'s \<Rightarrow> 'k \<Rightarrow> 'v option"
    and add :: "'k \<Rightarrow> 'v \<Rightarrow> 's \<Rightarrow> 'e + 's"
    and del :: "'k \<Rightarrow> 's \<Rightarrow> 's"
  assumes add_taken: "invar s \<Longrightarrow> lookup s (norm k) \<noteq> None \<Longrightarrow> \<exists>e. add k v s = Inl e"
    and add_fresh: "invar s \<Longrightarrow> lookup s (norm k) = None \<Longrightarrow>
          \<exists>s'. add k v s = Inr s' \<and> invar s' \<and> lookup s' = (lookup s)(norm k \<mapsto> v)"
    and lookup_del: "invar s \<Longrightarrow> lookup (del k s) = (lookup s)(norm k := None)"
    and invar_del: "invar s \<Longrightarrow> invar (del k s)"
begin

lemma add_Inr:
  assumes "invar s" and "add k v s = Inr s'"
  shows "lookup s (norm k) = None" and "lookup s' = (lookup s)(norm k \<mapsto> v)" and "invar s'"
proof -
  show n: "lookup s (norm k) = None"
    using add_taken [OF assms(1), of k v] assms(2) by fastforce
  show "lookup s' = (lookup s)(norm k \<mapsto> v)" and "invar s'"
    using add_fresh [OF assms(1) n, of v] assms(2) by auto
qed

lemma add_refused_iff:
  assumes "invar s"
  shows "(\<exists>e. add k v s = Inl e) \<longleftrightarrow> lookup s (norm k) \<noteq> None"
  using add_taken [OF assms, of k v] add_fresh [OF assms, of k v]
  by (cases "lookup s (norm k)") fastforce+

text \<open>A key that was added stays taken until it is deleted, and can be added again after that.\<close>

lemma add_twice_refused:
  assumes "invar s" and "add k v s = Inr s'" and "norm j = norm k"
  shows "\<exists>e. add j w s' = Inl e"
  using add_Inr [OF assms(1,2)] add_taken [of s' j w] assms(3) by simp

lemma add_after_del:
  assumes "invar s"
  shows "\<exists>s'. add k v (del k s) = Inr s' \<and> invar s' \<and> lookup s' = (lookup s)(norm k \<mapsto> v)"
  using add_fresh [OF invar_del [OF assms], of k k v] lookup_del [OF assms, of k] by auto

lemma del_add_restores:
  assumes "invar s" and "add k v s = Inr s'"
  shows "lookup (del k s') = lookup s"
  using add_Inr [OF assms] lookup_del [of s' k] by (auto simp: fun_upd_idem)

text \<open>Operations on one key do not touch another.\<close>

lemma add_frame:
  assumes "invar s" and "add k v s = Inr s'" and "j \<noteq> norm k"
  shows "lookup s' j = lookup s j"
  using add_Inr [OF assms(1,2)] assms(3) by simp

lemma del_frame: "invar s \<Longrightarrow> j \<noteq> norm k \<Longrightarrow> lookup (del k s) j = lookup s j"
  by (simp add: lookup_del)

end

end
