(* ===== verification/Vhost_Router.thy ===== *)
theory Vhost_Router
  imports Registry
begin

text \<open>
  The route table of the virtual hosts, \<open>pkg/util/vhost/router.go\<close>: routes indexed by domain and
  HTTP user, each list sorted by location in descending order so that the first location that is
  a prefix of the request path is the longest one. Both the HTTP reverse proxy and the HTTPS and
  tcpmux multiplexers look routes up here; \<open>'p\<close> is the payload they store.
\<close>

section \<open>Data\<close>

datatype router_error = ErrRouterConfigConflict

lemma router_error_all: "(e :: router_error) = ErrRouterConfigConflict"
  by (cases e) simp

record 'p router =
  rt_domain :: string
  rt_location :: string
  rt_httpUser :: string
  rt_payload :: 'p

type_synonym 'p routers = "string \<rightharpoonup> (string \<rightharpoonup> 'p router list)"

section \<open>Operations\<close>

definition NewRouters :: "'p routers" where
  "NewRouters = Map.empty"

definition routers_exist :: "'p routers \<Rightarrow> string \<Rightarrow> string \<Rightarrow> string \<Rightarrow> 'p router option" where
  "routers_exist r host path httpUser =
     (case r host of None \<Rightarrow> None
      | Some byUser \<Rightarrow> (case byUser httpUser of None \<Rightarrow> None
         | Some vrs \<Rightarrow> List.find (\<lambda>route. path = rt_location route) vrs))"

text \<open>\<open>slices.SortFunc\<close> by descending location. The locations of one list are distinct
  (\<open>routers_inv\<close>), so the sorted order is unique.\<close>

fun insert_desc :: "'p router \<Rightarrow> 'p router list \<Rightarrow> 'p router list" where
  "insert_desc x [] = [x]"
| "insert_desc x (y # ys) =
     (if rt_location x < rt_location y then y # insert_desc x ys else x # y # ys)"

definition sort_desc :: "'p router list \<Rightarrow> 'p router list" where
  "sort_desc xs = foldr insert_desc xs []"

definition routers_Add ::
  "string \<Rightarrow> string \<Rightarrow> string \<Rightarrow> 'p \<Rightarrow> 'p routers \<Rightarrow> router_error + 'p routers" where
  "routers_Add domain0 location httpUser payload r =
     (let domain = to_lower domain0 in
      case routers_exist r domain location httpUser of
        Some _ \<Rightarrow> Inl ErrRouterConfigConflict
      | None \<Rightarrow>
          (let byUser = (case r domain of None \<Rightarrow> Map.empty | Some m \<Rightarrow> m);
               vrs = (case byUser httpUser of None \<Rightarrow> [] | Some l \<Rightarrow> l);
               vr = \<lparr>rt_domain = domain, rt_location = location, rt_httpUser = httpUser, rt_payload = payload\<rparr>
           in Inr (r(domain \<mapsto> byUser(httpUser \<mapsto> sort_desc (vrs @ [vr]))))))"

definition routers_Del :: "string \<Rightarrow> string \<Rightarrow> string \<Rightarrow> 'p routers \<Rightarrow> 'p routers" where
  "routers_Del domain0 location httpUser r =
     (let domain = to_lower domain0 in
      case r domain of None \<Rightarrow> r
      | Some byUser \<Rightarrow> (case byUser httpUser of None \<Rightarrow> r
         | Some vrs \<Rightarrow>
             r(domain \<mapsto> byUser(httpUser \<mapsto> filter (\<lambda>vr. rt_location vr \<noteq> location) vrs))))"

definition routers_Get :: "'p routers \<Rightarrow> string \<Rightarrow> string \<Rightarrow> string \<Rightarrow> 'p router option" where
  "routers_Get r host0 path httpUser =
     (let host = to_lower host0 in
      case r host of None \<Rightarrow> None
      | Some byUser \<Rightarrow> (case byUser httpUser of None \<Rightarrow> None
         | Some vrs \<Rightarrow> List.find (\<lambda>vr. has_prefix path (rt_location vr)) vrs))"

section \<open>Invariant\<close>

abbreviation desc_locs :: "'p router list \<Rightarrow> bool" where
  "desc_locs \<equiv> sorted_wrt (\<lambda>a b. rt_location b < rt_location a)"

definition vrs_of :: "'p routers \<Rightarrow> string \<Rightarrow> string \<Rightarrow> 'p router list" where
  "vrs_of r d u = (case r d of None \<Rightarrow> [] | Some m \<Rightarrow> (case m u of None \<Rightarrow> [] | Some l \<Rightarrow> l))"

definition routers_inv :: "'p routers \<Rightarrow> bool" where
  "routers_inv r \<longleftrightarrow> (\<forall>d u. desc_locs (vrs_of r d u) \<and>
     (\<forall>vr \<in> set (vrs_of r d u). rt_domain vr = d \<and> rt_httpUser vr = u \<and> to_lower d = d))"

lemma routers_exist_vrs: "routers_exist r d l u = List.find (\<lambda>route. l = rt_location route) (vrs_of r d u)"
  by (simp add: routers_exist_def vrs_of_def split: option.splits)

lemma routers_Get_vrs:
  "routers_Get r h p u = List.find (\<lambda>vr. has_prefix p (rt_location vr)) (vrs_of r (to_lower h) u)"
  by (simp add: routers_Get_def vrs_of_def Let_def split: option.splits)

lemma set_insert_desc [simp]: "set (insert_desc x xs) = insert x (set xs)"
  by (induction xs) auto

lemma desc_insert_desc:
  "desc_locs xs \<Longrightarrow> (\<forall>y \<in> set xs. rt_location y \<noteq> rt_location x) \<Longrightarrow> desc_locs (insert_desc x xs)"
proof (induction xs)
  case (Cons y ys)
  show ?case
  proof (cases "rt_location x < rt_location y")
    case True
    with Cons show ?thesis by auto
  next
    case False
    then have "rt_location y < rt_location x"
      using Cons.prems(2) by (meson linorder_less_linear list.set_intros(1))
    with False Cons.prems(1) show ?thesis by (auto intro: order.strict_trans)
  qed
qed simp

lemma set_sort_desc [simp]: "set (sort_desc xs) = set xs"
  by (induction xs) (auto simp: sort_desc_def)

lemma desc_sort_desc: "distinct (map rt_location xs) \<Longrightarrow> desc_locs (sort_desc xs)"
proof (induction xs)
  case (Cons x xs)
  then have "\<forall>y \<in> set (sort_desc xs). rt_location y \<noteq> rt_location x"
    by (auto simp: image_iff)
  with Cons show ?case by (simp add: sort_desc_def desc_insert_desc)
qed (simp add: sort_desc_def)

lemma desc_distinct: "desc_locs xs \<Longrightarrow> distinct (map rt_location xs)"
  by (induction xs) (auto simp: order_less_le)

lemma distinct_snoc:
  assumes "desc_locs vrs" and "\<forall>vr \<in> set vrs. rt_location vr \<noteq> rt_location x"
  shows "distinct (map rt_location (vrs @ [x]))"
  using desc_distinct [OF assms(1)] assms(2) by (auto simp: image_iff)

lemma NewRouters_inv: "routers_inv NewRouters"
  by (simp add: routers_inv_def NewRouters_def vrs_of_def)

lemma routers_Add_Inr:
  assumes "routers_Add d l u p r = Inr r'"
  shows "(\<forall>vr \<in> set (vrs_of r (to_lower d) u). rt_location vr \<noteq> l) \<and>
    (\<forall>e w. vrs_of r' e w =
      (if e = to_lower d \<and> w = u
       then sort_desc (vrs_of r e w @
              [\<lparr>rt_domain = to_lower d, rt_location = l, rt_httpUser = u, rt_payload = p\<rparr>])
       else vrs_of r e w))"
  using assms
  by (auto simp: routers_Add_def Let_def routers_exist_vrs find_None_all vrs_of_def
      split: option.splits if_splits)

lemma routers_Del_vrs:
  "vrs_of (routers_Del d l u r) e w =
     (if e = to_lower d \<and> w = u then filter (\<lambda>vr. rt_location vr \<noteq> l) (vrs_of r e w) else vrs_of r e w)"
  by (auto simp: routers_Del_def vrs_of_def Let_def split: option.splits)

lemma routers_Add_inv [inv_intros]:
  assumes "routers_inv r" and "routers_Add d l u p r = Inr r'"
  shows "routers_inv r'"
  using assms(1) routers_Add_Inr [OF assms(2)]
  by (auto simp: routers_inv_def intro!: desc_sort_desc distinct_snoc)

lemma routers_Del_inv [inv_intros]: "routers_inv r \<Longrightarrow> routers_inv (routers_Del d l u r)"
  by (auto simp: routers_inv_def routers_Del_vrs sorted_wrt_filter)

section \<open>The route table as a registry\<close>

abbreviation route_key :: "string \<times> string \<times> string \<Rightarrow> string \<times> string \<times> string" where
  "route_key k \<equiv> (case k of (d, l, u) \<Rightarrow> (to_lower d, l, u))"

definition route_lookup :: "'p routers \<Rightarrow> string \<times> string \<times> string \<Rightarrow> 'p option" where
  "route_lookup r k = (case k of (d, l, u) \<Rightarrow> map_option rt_payload (routers_exist r d l u))"

lemma find_location_unique:
  assumes "desc_locs vrs" and "vr \<in> set vrs"
  shows "List.find (\<lambda>route. rt_location vr = rt_location route) vrs = Some vr"
  using assms by (induction vrs) (auto simp: order_less_le)

lemma find_location_sort_desc:
  assumes "distinct (map rt_location xs)"
  shows "List.find (\<lambda>route. l = rt_location route) (sort_desc xs) = List.find (\<lambda>route. l = rt_location route) xs"
proof (cases "List.find (\<lambda>route. l = rt_location route) xs")
  case None
  then have "\<forall>x \<in> set (sort_desc xs). \<not> l = rt_location x" by (simp add: find_None_all)
  then show ?thesis using None by (simp only: find_None_all [symmetric])
next
  case (Some vr)
  then have "vr \<in> set (sort_desc xs)" "l = rt_location vr" using find_Some_in by fastforce+
  then show ?thesis using Some find_location_unique [OF desc_sort_desc [OF assms]] by auto
qed

lemma find_append: "List.find P (xs @ ys) = (case List.find P xs of None \<Rightarrow> List.find P ys | Some x \<Rightarrow> Some x)"
  by (induction xs) auto

lemma find_filter_ne:
  "List.find (\<lambda>x. j = f x) (filter (\<lambda>x. f x \<noteq> k) xs) = (if j = k then None else List.find (\<lambda>x. j = f x) xs)"
  by (induction xs) auto

lemma routers_Add_exist:
  assumes "routers_inv r" and "routers_Add d l u p r = Inr r'"
  shows "route_lookup r' = (route_lookup r)((to_lower d, l, u) \<mapsto> p)"
proof -
  note A = routers_Add_Inr [OF assms(2)]
  let ?vrs = "vrs_of r (to_lower d) u"
  have d: "distinct (map rt_location (?vrs @
      [\<lparr>rt_domain = to_lower d, rt_location = l, rt_httpUser = u, rt_payload = p\<rparr>]))"
    using assms(1) A by (auto simp: routers_inv_def simp del: map_append intro!: distinct_snoc)
  have n: "List.find (\<lambda>route. l = rt_location route) ?vrs = None"
    using A by (auto simp: find_None_all)
  show ?thesis
    using A n by (auto simp: fun_eq_iff route_lookup_def routers_exist_vrs find_append
        find_location_sort_desc [OF d] split: option.splits)
qed

interpretation routes: name_registry routers_inv route_key route_lookup
  "\<lambda>k p r. case k of (d, l, u) \<Rightarrow> routers_Add d l u p r"
  "\<lambda>k r. case k of (d, l, u) \<Rightarrow> routers_Del d l u r"
proof unfold_locales
  fix s :: "'p routers" and k :: "string \<times> string \<times> string" and v :: 'p
  obtain d l u where k: "k = (d, l, u)" by (cases k)
  assume i: "routers_inv s"
  show "\<exists>e. (case k of (d, l, u) \<Rightarrow> routers_Add d l u v s) = Inl e" if "route_lookup s (route_key k) \<noteq> None"
    using that by (auto simp: k route_lookup_def routers_Add_def Let_def)
  show "\<exists>s'. (case k of (d, l, u) \<Rightarrow> routers_Add d l u v s) = Inr s' \<and> routers_inv s' \<and>
      route_lookup s' = (route_lookup s)(route_key k \<mapsto> v)" if "route_lookup s (route_key k) = None"
  proof -
    from that obtain s' where s': "routers_Add d l u v s = Inr s'"
      by (auto simp: k route_lookup_def routers_Add_def Let_def)
    then show ?thesis using routers_Add_inv [OF i s'] routers_Add_exist [OF i s'] by (simp add: k)
  qed
  show "route_lookup (case k of (d, l, u) \<Rightarrow> routers_Del d l u s) = (route_lookup s)(route_key k := None)"
    by (auto simp: k fun_eq_iff route_lookup_def routers_exist_vrs routers_Del_vrs find_filter_ne)
  show "routers_inv (case k of (d, l, u) \<Rightarrow> routers_Del d l u s)"
    using routers_Del_inv [OF i] by (simp add: k)
qed

section \<open>Longest prefix\<close>

lemma prefix_le: "prefix p q \<Longrightarrow> p \<le> (q :: string)"
proof -
  assume "prefix p q"
  then obtain t where "q = p @ t" by (auto simp: prefix_def)
  then show "p \<le> q"
    by (cases t) (auto simp: list_le_def list_less_def intro: lexord_append_rightI)
qed

lemma longer_of_greater:
  assumes "prefix p s" and "prefix q s" and "p < (q :: string)"
  shows "length p < length q"
  using assms prefix_le [of q p] prefix_length_less [of p q]
  by (metis leD prefix_same_cases strict_prefix_def)

lemma find_first_desc:
  assumes "desc_locs vrs" and "List.find P vrs = Some vr" and "vr' \<in> set vrs" and "P vr'"
  shows "vr' = vr \<or> rt_location vr' < rt_location vr"
  using assms by (induction vrs) (auto split: if_splits)

inductive routers_reachable :: "'p routers \<Rightarrow> bool" where
  start: "routers_reachable NewRouters"
| add: "routers_reachable r \<Longrightarrow> routers_Add d l u p r = Inr r' \<Longrightarrow> routers_reachable r'"
| del: "routers_reachable r \<Longrightarrow> routers_reachable (routers_Del d l u r)"

lemma routers_reachable_inv: "routers_reachable r \<Longrightarrow> routers_inv r"
  by (induction rule: routers_reachable.induct) (auto intro: NewRouters_inv inv_intros)

lemma route_lookup_vrs:
  assumes "routers_inv r"
  shows "route_lookup r (d, l, u) = Some p \<longleftrightarrow> (\<exists>vr \<in> set (vrs_of r d u). rt_location vr = l \<and> rt_payload vr = p)"
proof
  assume "route_lookup r (d, l, u) = Some p"
  then show "\<exists>vr \<in> set (vrs_of r d u). rt_location vr = l \<and> rt_payload vr = p"
    using find_Some_in by (fastforce simp: route_lookup_def routers_exist_vrs)
next
  assume "\<exists>vr \<in> set (vrs_of r d u). rt_location vr = l \<and> rt_payload vr = p"
  then show "route_lookup r (d, l, u) = Some p"
    using assms find_location_unique [of "vrs_of r d u"]
    by (auto simp: route_lookup_def routers_exist_vrs routers_inv_def)
qed

section \<open>Properties\<close>

text \<open>C8: the answer of \<open>Get\<close> is the route with the longest registered location that is a prefix of
  the request path, for the lower-cased host and the given HTTP user; \<open>Get\<close> finds nothing only
  when no registered location is a prefix.\<close>

theorem routers_Get_longest_prefix:
  assumes "routers_reachable r"
  shows "case routers_Get r host path httpUser of
     None \<Rightarrow> \<forall>l. has_prefix path l \<longrightarrow> route_lookup r (to_lower host, l, httpUser) = None
   | Some vr \<Rightarrow>
       has_prefix path (rt_location vr) \<and>
       route_lookup r (to_lower host, rt_location vr, httpUser) = Some (rt_payload vr) \<and>
       (\<forall>l. has_prefix path l \<and> route_lookup r (to_lower host, l, httpUser) \<noteq> None \<and>
            l \<noteq> rt_location vr \<longrightarrow> length l < length (rt_location vr))"
proof (cases "routers_Get r host path httpUser")
  case None
  note inv = routers_reachable_inv [OF assms]
  from None have "\<forall>vr \<in> set (vrs_of r (to_lower host) httpUser). \<not> has_prefix path (rt_location vr)"
    by (simp add: routers_Get_vrs find_None_all)
  then have "route_lookup r (to_lower host, l, httpUser) \<noteq> Some p" if "has_prefix path l" for l p
    using that by (auto simp: route_lookup_vrs [OF inv])
  then have "\<forall>l. has_prefix path l \<longrightarrow> route_lookup r (to_lower host, l, httpUser) = None"
    by (metis not_Some_eq)
  then show ?thesis using None by simp
next
  case (Some vr)
  note inv = routers_reachable_inv [OF assms]
  let ?vrs = "vrs_of r (to_lower host) httpUser"
  have f: "List.find (\<lambda>vr. has_prefix path (rt_location vr)) ?vrs = Some vr"
    using Some by (simp add: routers_Get_vrs)
  have d: "desc_locs ?vrs" using inv by (simp add: routers_inv_def)
  have vr: "vr \<in> set ?vrs" "has_prefix path (rt_location vr)" using find_Some_in [OF f] by auto
  have "length l < length (rt_location vr)"
    if l: "has_prefix path l" "route_lookup r (to_lower host, l, httpUser) \<noteq> None" "l \<noteq> rt_location vr" for l
  proof -
    from l(2) obtain w where w: "w \<in> set ?vrs" "rt_location w = l"
      using route_lookup_vrs [OF inv] by blast
    then have "l < rt_location vr" using find_first_desc [OF d f w(1)] l by auto
    then show ?thesis using longer_of_greater l(1) vr(2) by (simp add: has_prefix_prefix)
  qed
  then show ?thesis using Some vr route_lookup_vrs [OF inv] by auto
qed

text \<open>Two routes of one domain for the witnesses.\<close>

definition routers_demo :: "nat routers" where
  "routers_demo =
     (case routers_Add ''Example.com'' ''/'' [] 1 NewRouters of
        Inl _ \<Rightarrow> NewRouters
      | Inr r \<Rightarrow> (case routers_Add ''example.COM'' ''/api'' [] 2 r of Inl _ \<Rightarrow> r | Inr r' \<Rightarrow> r'))"

lemma routers_demo_reachable: "routers_reachable routers_demo"
  by (auto simp: routers_demo_def intro: routers_reachable.start routers_reachable.add
      [OF routers_reachable.start] routers_reachable.add [OF routers_reachable.add [OF routers_reachable.start]]
      split: sum.splits)

lemma routers_demo_Get:
  "map_option rt_payload (routers_Get routers_demo ''EXAMPLE.com'' ''/api/x'' []) = Some 2"
  "map_option rt_location (routers_Get routers_demo ''EXAMPLE.com'' ''/api/x'' []) = Some ''/api''"
  by code_simp+

theorem routers_Get_longest_prefix_witness:
  "map_option rt_location (routers_Get routers_demo ''EXAMPLE.com'' ''/api/x'' []) = Some ''/api'' \<and>
   route_lookup routers_demo (''example.com'', ''/'', []) = Some 1 \<and>
   length ''/'' < length (rt_location (the (routers_Get routers_demo ''EXAMPLE.com'' ''/api/x'' [])))"
proof -
  obtain vr where vr: "routers_Get routers_demo ''EXAMPLE.com'' ''/api/x'' [] = Some vr"
      "rt_location vr = ''/api''"
    using routers_demo_Get(2) by auto
  have k: "to_lower ''EXAMPLE.com'' = ''example.com''" "has_prefix ''/api/x'' ''/''" by code_simp+
  have l: "route_lookup routers_demo (''example.com'', ''/'', []) = Some 1" by code_simp
  have "\<forall>l. has_prefix ''/api/x'' l \<and> route_lookup routers_demo (''example.com'', l, []) \<noteq> None \<and>
      l \<noteq> rt_location vr \<longrightarrow> length l < length (rt_location vr)"
    using routers_Get_longest_prefix [OF routers_demo_reachable,
      where host = "''EXAMPLE.com''" and path = "''/api/x''" and httpUser = "[]"]
    unfolding vr(1) k(1) option.case by (elim conjE)
  from spec [OF this, of "''/''"] have "length ''/'' < length (rt_location vr)"
    using k(2) l by (simp add: vr(2))
  then show ?thesis using vr l by simp
qed

text \<open>The route table is a registry of (domain, location, user) keys up to the case of the domain.
  \<open>Add\<close> is refused exactly when the key is registered, otherwise it registers that key and no
  other; \<open>Del\<close> removes that key and no other.\<close>

theorem routers_Add_Del_spec:
  assumes "routers_reachable r"
  shows "(routers_Add d l u p r = Inl ErrRouterConfigConflict \<longleftrightarrow> route_lookup r (to_lower d, l, u) \<noteq> None) \<and>
    (\<forall>r'. routers_Add d l u p r = Inr r' \<longrightarrow> route_lookup r' = (route_lookup r)((to_lower d, l, u) \<mapsto> p) \<and>
       route_lookup (routers_Del d l u r') = route_lookup r) \<and>
    route_lookup (routers_Del d l u r) = (route_lookup r)((to_lower d, l, u) := None)"
  using routes.add_refused_iff [OF routers_reachable_inv [OF assms], where k = "(d, l, u)" and v = p]
    routes.add_Inr(2) [OF routers_reachable_inv [OF assms], where k = "(d, l, u)" and v = p]
    routes.del_add_restores [OF routers_reachable_inv [OF assms], where k = "(d, l, u)" and v = p]
    routes.lookup_del [OF routers_reachable_inv [OF assms], where k = "(d, l, u)"]
  by (auto simp: router_error_all)

theorem routers_Add_Del_spec_witness:
  "routers_Add ''EXAMPLE.COM'' ''/api'' [] 3 routers_demo = Inl ErrRouterConfigConflict \<and>
   route_lookup (routers_Del ''EXAMPLE.COM'' ''/api'' [] routers_demo) (''example.com'', ''/api'', []) = None \<and>
   route_lookup (routers_Del ''EXAMPLE.COM'' ''/api'' [] routers_demo) (''example.com'', ''/'', []) = Some 1"
proof -
  have k: "to_lower ''EXAMPLE.COM'' = ''example.com''" by code_simp
  have "route_lookup routers_demo (''example.com'', ''/api'', []) = Some 2"
      "route_lookup routers_demo (''example.com'', ''/'', []) = Some 1" by code_simp+
  then show ?thesis
    using routers_Add_Del_spec [OF routers_demo_reachable,
        where d = "''EXAMPLE.COM''" and l = "''/api''" and u = "[]" and p = 3] k by simp
qed

end
