(* ===== verification/Http_Util.thy ===== *)
theory Http_Util
  imports Frp_Prelude
begin

text \<open>
  Host names and basic authentication of HTTP requests: \<open>pkg/util/http/http.go\<close>, with what it uses
  of Go's library (\<open>net.SplitHostPort\<close>, \<open>base64.StdEncoding\<close>) written out.
\<close>

section \<open>Host and port\<close>

definition hasPort :: "string \<Rightarrow> bool" where
  "hasPort host =
     (let colons = length (filter (\<lambda>c. c = CHR '':'') host) in
      if colons = 0 then False else if colons = 1 then True
      else hd host = CHR ''['' \<and> contains_str host '']:'')"

definition index_byte :: "char \<Rightarrow> string \<Rightarrow> nat option" where
  "index_byte c s = (if c \<in> set s then Some (length (takeWhile (\<lambda>x. x \<noteq> c) s)) else None)"

definition last_index_byte :: "char \<Rightarrow> string \<Rightarrow> nat option" where
  "last_index_byte c s =
     (if c \<in> set s then Some (length s - 1 - length (takeWhile (\<lambda>x. x \<noteq> c) (rev s))) else None)"

datatype addr_error = MissingPort | TooManyColons | MissingBracket | UnexpectedBracket

definition SplitHostPort :: "string \<Rightarrow> addr_error + string \<times> string" where
  "SplitHostPort hp =
     (case last_index_byte (CHR '':'') hp of
        None \<Rightarrow> Inl MissingPort
      | Some i \<Rightarrow>
          (let finish = (\<lambda>host j k.
             if CHR ''['' \<in> set (drop j hp) \<or> CHR '']'' \<in> set (drop k hp) then Inl UnexpectedBracket
             else Inr (host, drop (Suc i) hp))
           in if hd hp = CHR ''['' then
                (case index_byte (CHR '']'') hp of
                   None \<Rightarrow> Inl MissingBracket
                 | Some e \<Rightarrow>
                     if Suc e = length hp then Inl MissingPort
                     else if Suc e \<noteq> i then
                       (if hp ! Suc e = CHR '':'' then Inl TooManyColons else Inl MissingPort)
                     else finish (drop 1 (take e hp)) 1 (Suc e))
              else if CHR '':'' \<in> set (take i hp) then Inl TooManyColons
              else finish (take i hp) 0 0))"

definition CanonicalHost :: "string \<Rightarrow> addr_error + string" where
  "CanonicalHost host0 =
     (let host = to_lower host0 in
      if hasPort host then
        (case SplitHostPort host of
           Inl e \<Rightarrow> Inl e
         | Inr (h, _) \<Rightarrow> Inr (trim_suffix h ''.''))
      else Inr (trim_suffix host ''.''))"

section \<open>Base64\<close>

definition b64_alphabet :: string where
  "b64_alphabet = ''ABCDEFGHIJKLMNOPQRSTUVWXYZabcdefghijklmnopqrstuvwxyz0123456789+/''"

definition b64_char :: "nat \<Rightarrow> char" where
  "b64_char n = b64_alphabet ! n"

definition b64_val :: "char \<Rightarrow> nat option" where
  "b64_val c = index_byte c b64_alphabet"

text \<open>\<open>EncodeToString\<close> on the bytes as numbers.\<close>

fun b64_encode :: "nat list \<Rightarrow> string" where
  "b64_encode [] = []"
| "b64_encode [a] = [b64_char (a div 4), b64_char (a mod 4 * 16), CHR ''='', CHR ''='']"
| "b64_encode [a, b] =
     [b64_char (a div 4), b64_char (a mod 4 * 16 + b div 16), b64_char (b mod 16 * 4), CHR ''='']"
| "b64_encode (a # b # c # r) =
     b64_char (a div 4) # b64_char (a mod 4 * 16 + b div 16) # b64_char (b mod 16 * 4 + c div 64) #
     b64_char (c mod 64) # b64_encode r"

text \<open>\<open>DecodeString\<close>: line breaks are skipped, padding only ends the last group.\<close>

fun b64_decode_groups :: "string \<Rightarrow> nat list option" where
  "b64_decode_groups [] = Some []"
| "b64_decode_groups (w # x # y # z # r) =
     (case (b64_val w, b64_val x) of
        (Some p, Some q) \<Rightarrow>
          (if y = CHR ''='' then (if z = CHR ''='' \<and> r = [] then Some [p * 4 + q div 16] else None)
           else (case b64_val y of
              None \<Rightarrow> None
            | Some u \<Rightarrow>
                if z = CHR ''='' then
                  (if r = [] then Some [p * 4 + q div 16, q mod 16 * 16 + u div 4] else None)
                else (case (b64_val z, b64_decode_groups r) of
                   (Some v, Some rest) \<Rightarrow>
                     Some ((p * 4 + q div 16) # (q mod 16 * 16 + u div 4) # (u mod 4 * 64 + v) # rest)
                 | _ \<Rightarrow> None)))
      | _ \<Rightarrow> None)"
| "b64_decode_groups _ = None"

definition b64_DecodeString :: "string \<Rightarrow> string option" where
  "b64_DecodeString s =
     map_option (map char_of) (b64_decode_groups (filter (\<lambda>c. c \<noteq> CHR 0x0A \<and> c \<noteq> CHR 0x0D) s))"

definition b64_EncodeToString :: "string \<Rightarrow> string" where
  "b64_EncodeToString s = b64_encode (map of_char s)"

section \<open>Basic authentication\<close>

definition ParseBasicAuth :: "string \<Rightarrow> (string \<times> string) option" where
  "ParseBasicAuth auth =
     (if length auth < 6 \<or> to_lower (take 6 auth) \<noteq> to_lower ''Basic '' then None
      else (case b64_DecodeString (drop 6 auth) of
              None \<Rightarrow> None
            | Some cs \<Rightarrow>
                (case index_byte (CHR '':'') cs of
                   None \<Rightarrow> None
                 | Some s \<Rightarrow> Some (take s cs, drop (Suc s) cs))))"

definition BasicAuth :: "string \<Rightarrow> string \<Rightarrow> string" where
  "BasicAuth username passwd = ''Basic '' @ b64_EncodeToString (username @ '':'' @ passwd)"

section \<open>Base64 round trip\<close>

lemma index_byte_append:
  "c \<notin> set s \<Longrightarrow> index_byte c (s @ c # t) = Some (length s)"
proof -
  assume "c \<notin> set s"
  then have "takeWhile (\<lambda>x. x \<noteq> c) (s @ c # t) = s" by (induction s) auto
  then show ?thesis by (simp add: index_byte_def)
qed

lemma last_index_byte_append:
  assumes "c \<notin> set t"
  shows "last_index_byte c (s @ c # t) = Some (length s)"
proof -
  have "takeWhile (\<lambda>x. x \<noteq> c) (rev t @ c # rev s) = rev t" using assms by (induction t rule: rev_induct) auto
  then show ?thesis by (simp add: last_index_byte_def)
qed

lemma b64_val_char_all: "list_all (\<lambda>n. b64_val (b64_char n) = Some n) [0..<64]"
  by code_simp

lemma b64_val_char: "n < 64 \<Longrightarrow> b64_val (b64_char n) = Some n"
  using b64_val_char_all by (simp add: list_all_iff)

lemma b64_char_plain_all:
  "list_all (\<lambda>n. b64_char n \<noteq> CHR ''='' \<and> b64_char n \<noteq> CHR 0x0A \<and> b64_char n \<noteq> CHR 0x0D \<and> b64_char n \<noteq> CHR ''.'')
     [0..<64]"
  by code_simp

lemma b64_char_plain:
  "n < 64 \<Longrightarrow> b64_char n \<noteq> CHR ''='' \<and> b64_char n \<noteq> CHR 0x0A \<and> b64_char n \<noteq> CHR 0x0D \<and> b64_char n \<noteq> CHR ''.''"
  using b64_char_plain_all by (simp add: list_all_iff)

lemma b64_bits:
  assumes "a < (256 :: nat)" and "b < 256" and "c < 256"
  shows "a div 4 < 64" "a mod 4 * 16 < 64" "a mod 4 * 16 + b div 16 < 64" "b mod 16 * 4 < 64"
    "b mod 16 * 4 + c div 64 < 64" "c mod 64 < 64"
proof -
  have "a div 4 < 64" "b div 16 < 16" "c div 64 < 4" using assms by (simp_all add: div_less_iff_less_mult)
  moreover have "a mod 4 < 4" "b mod 16 < 16" "c mod 64 < 64" by simp_all
  ultimately show "a div 4 < 64" "a mod 4 * 16 < 64" "a mod 4 * 16 + b div 16 < 64" "b mod 16 * 4 < 64"
    "b mod 16 * 4 + c div 64 < 64" "c mod 64 < 64" by linarith+
qed

lemma b64_join:
  "b < (256 :: nat) \<Longrightarrow> c < 256 \<Longrightarrow> a div 4 * 4 + (a mod 4 * 16 + b div 16) div 16 = a"
  "b < 256 \<Longrightarrow> c < 256 \<Longrightarrow> (a mod 4 * 16 + b div 16) mod 16 * 16 + (b mod 16 * 4 + c div 64) div 4 = b"
  "c < 256 \<Longrightarrow> (b mod 16 * 4 + c div 64) mod 4 * 64 + c mod 64 = c"
proof -
  show "a div 4 * 4 + (a mod 4 * 16 + b div 16) div 16 = a" if "b < 256"
    using div_mult_mod_eq [of a 4] that by (simp add: div_less_iff_less_mult)
  show "(a mod 4 * 16 + b div 16) mod 16 * 16 + (b mod 16 * 4 + c div 64) div 4 = b" if "b < 256" "c < 256"
    using div_mult_mod_eq [of b 16] that by (simp add: div_less_iff_less_mult)
  show "(b mod 16 * 4 + c div 64) mod 4 * 64 + c mod 64 = c" if "c < 256"
    using div_mult_mod_eq [of c 64] that by (simp add: div_less_iff_less_mult)
qed

lemma b64_decode_group:
  assumes "p < 64" and "q < 64"
  shows "b64_decode_groups [b64_char p, b64_char q, CHR ''='', CHR ''=''] = Some [p * 4 + q div 16]"
    and "u < 64 \<Longrightarrow> b64_decode_groups [b64_char p, b64_char q, b64_char u, CHR ''=''] =
      Some [p * 4 + q div 16, q mod 16 * 16 + u div 4]"
    and "u < 64 \<Longrightarrow> v < 64 \<Longrightarrow> b64_decode_groups r = Some rest \<Longrightarrow>
      b64_decode_groups (b64_char p # b64_char q # b64_char u # b64_char v # r) =
      Some ((p * 4 + q div 16) # (q mod 16 * 16 + u div 4) # (u mod 4 * 64 + v) # rest)"
  using assms by (simp_all add: b64_val_char b64_char_plain)

lemma b64_groups_roundtrip:
  "\<forall>b \<in> set bs. b < 256 \<Longrightarrow> b64_decode_groups (b64_encode bs) = Some bs"
proof (induction bs rule: b64_encode.induct)
  case (2 a)
  then have a: "a < 256" by simp
  show ?case
    using b64_decode_group(1) [of "a div 4" "a mod 4 * 16"] b64_bits(1,2) [OF a, of 0 0] b64_join(1) [of 0 0 a]
    by simp
next
  case (3 a b)
  then have ab: "a < 256" "b < 256" by simp_all
  note B = b64_bits [OF ab, of 0]
  have "b64_decode_groups (b64_encode [a, b]) =
      Some [a div 4 * 4 + (a mod 4 * 16 + b div 16) div 16,
            (a mod 4 * 16 + b div 16) mod 16 * 16 + b mod 16 * 4 div 4]"
    unfolding b64_encode.simps by (rule b64_decode_group(2)) (use B in \<open>simp_all only: zero_less_numeral\<close>)
  also have "\<dots> = Some [a, b]"
    using b64_join(1) [of b 0 a] b64_join(2) [of b 0 a] ab by simp
  finally show ?case .
next
  case (4 a b c r)
  then have abc: "a < 256" "b < 256" "c < 256" and r: "b64_decode_groups (b64_encode r) = Some r" by simp_all
  note B = b64_bits [OF abc]
  have "b64_decode_groups (b64_encode (a # b # c # r)) =
      Some ((a div 4 * 4 + (a mod 4 * 16 + b div 16) div 16) #
            ((a mod 4 * 16 + b div 16) mod 16 * 16 + (b mod 16 * 4 + c div 64) div 4) #
            ((b mod 16 * 4 + c div 64) mod 4 * 64 + c mod 64) # r)"
    unfolding b64_encode.simps by (rule b64_decode_group(3) [OF B(1,3,5,6) r])
  also have "\<dots> = Some (a # b # c # r)"
    by (simp only: b64_join(1,2) [OF abc(2,3)] b64_join(3) [OF abc(3)])
  finally show ?case .
qed simp

lemma b64_encode_plain:
  "\<forall>b \<in> set bs. b < 256 \<Longrightarrow> c \<in> set (b64_encode bs) \<Longrightarrow> c \<noteq> CHR 0x0A \<and> c \<noteq> CHR 0x0D \<and> c \<noteq> CHR ''.''"
proof (induction bs arbitrary: c rule: b64_encode.induct)
  case (2 a)
  then show ?case using b64_bits [of a 0 0] b64_char_plain by auto
next
  case (3 a b)
  then show ?case using b64_bits [of a b 0] b64_char_plain by auto
next
  case (4 x y z r)
  then show ?case using b64_bits [of x y z] b64_char_plain by (auto dest: 4(1))
qed simp

lemma of_char_bytes: "\<forall>b \<in> set (map of_char s). b < (256 :: nat)"
  by (auto simp: nat_of_char_less_256)

lemma b64_roundtrip: "b64_DecodeString (b64_EncodeToString s) = Some s"
proof -
  have "filter (\<lambda>c. c \<noteq> CHR 0x0A \<and> c \<noteq> CHR 0x0D) (b64_encode (map of_char s)) = b64_encode (map of_char s)"
    using b64_encode_plain [OF of_char_bytes] by (simp add: filter_id_conv)
  then show ?thesis
    by (simp add: b64_DecodeString_def b64_EncodeToString_def b64_groups_roundtrip [OF of_char_bytes] comp_def)
qed

lemma b64_EncodeToString_inj: "b64_EncodeToString s = b64_EncodeToString t \<longleftrightarrow> s = t"
  using b64_roundtrip by (metis option.inject)

lemma b64_no_dot: "CHR ''.'' \<notin> set (b64_EncodeToString s)"
  using b64_encode_plain [OF of_char_bytes] by (auto simp: b64_EncodeToString_def)

section \<open>Properties\<close>

lemma lower_char_colon: "lower_char c = d \<Longrightarrow> of_char d < (97 :: nat) \<or> 122 < (of_char d :: nat) \<Longrightarrow> c = d"
  by (auto simp: lower_char_def Let_def of_char_of split: if_splits)

lemma to_lower_special:
  assumes that: "of_char c < (65 :: nat) \<or> (90 < (of_char c :: nat) \<and> of_char c < (97 :: nat))"
  shows "c \<in> set (to_lower s) \<longleftrightarrow> c \<in> set s"
proof
  assume "c \<in> set (to_lower s)"
  then obtain x where "x \<in> set s" "lower_char x = c" by (auto simp: to_lower_def)
  then show "c \<in> set s" using lower_char_colon [of x c] that by auto
next
  assume "c \<in> set s"
  moreover have "lower_char c = c" using that by (auto simp: lower_char_def Let_def)
  ultimately show "c \<in> set (to_lower s)" by (force simp: to_lower_def)
qed

text \<open>A basic authentication header is read back as the user and password it was made from, for every
  user name without a colon and every password.\<close>

theorem BasicAuth_roundtrip:
  assumes "CHR '':'' \<notin> set username"
  shows "ParseBasicAuth (BasicAuth username passwd) = Some (username, passwd)"
proof -
  have "index_byte (CHR '':'') (username @ CHR '':'' # passwd) = Some (length username)"
    using index_byte_append [OF assms] .
  then show ?thesis by (simp add: ParseBasicAuth_def BasicAuth_def b64_roundtrip)
qed

theorem BasicAuth_roundtrip_witness:
  "ParseBasicAuth (BasicAuth ''admin'' ''a:b'') = Some (''admin'', ''a:b'')"
  using BasicAuth_roundtrip [of "''admin''" "''a:b''"] by simp

text \<open>The canonical host does not depend on the case of the name or on a port: for a name without colons
  and brackets, with or without a port, it is the lower-case name without its final dot.\<close>

theorem CanonicalHost_port:
  assumes "CHR '':'' \<notin> set host" and "CHR ''['' \<notin> set host" and "CHR '']'' \<notin> set host"
    and "CHR '':'' \<notin> set port" and "CHR ''['' \<notin> set port" and "CHR '']'' \<notin> set port"
  shows "CanonicalHost host = Inr (trim_suffix (to_lower host) ''.'') \<and>
         CanonicalHost (host @ '':'' @ port) = Inr (trim_suffix (to_lower host) ''.'')"
proof -
  let ?h = "to_lower host" and ?p = "to_lower port"
  have n: "CHR '':'' \<notin> set ?h" "CHR ''['' \<notin> set ?h" "CHR '']'' \<notin> set ?h"
    "CHR '':'' \<notin> set ?p" "CHR ''['' \<notin> set ?p" "CHR '']'' \<notin> set ?p"
    using assms by (simp_all add: to_lower_special)
  have z: "filter (\<lambda>c. c = CHR '':'') ?h = []" "filter (\<lambda>c. c = CHR '':'') ?p = []"
    using n by (auto simp: filter_empty_conv)
  have l: "to_lower (host @ CHR '':'' # port) = ?h @ CHR '':'' # ?p"
    by (simp add: to_lower_def lower_char_def)
  have "hd (?h @ CHR '':'' # ?p) \<noteq> CHR ''[''" using n by (cases ?h) auto
  then have "SplitHostPort (?h @ CHR '':'' # ?p) = Inr (?h, ?p)"
    using n last_index_byte_append [OF n(4)] by (simp add: SplitHostPort_def Let_def)
  then show ?thesis
    using z by (simp add: CanonicalHost_def l hasPort_def Let_def)
qed

theorem CanonicalHost_port_witness:
  "CanonicalHost (''Example.COM.'' @ '':'' @ ''8080'') = Inr ''example.com''"
proof -
  have "trim_suffix (to_lower ''Example.COM.'') ''.'' = ''example.com''" by code_simp
  then show ?thesis using CanonicalHost_port [of "''Example.COM.''" "''8080''"] by simp
qed

end
