(* ===== verification/Vhost.thy ===== *)
theory Vhost
  imports Vhost_Router Http_Util
begin

text \<open>
  Virtual hosts: the multiplexer of HTTPS and tcpmux connections (\<open>pkg/util/vhost/vhost.go\<close>, with
  the CONNECT functions of \<open>pkg/util/tcpmux/httpconnect.go\<close>) and the HTTP reverse proxy
  (\<open>pkg/util/vhost/http.go\<close>). Both look a host up in the route table, first as it is, then as
  wildcard domains, then as \<open>*\<close>. Connections and the functions of a route are opaque (\<open>'f\<close>); what a
  handler does is the value it returns: the sequence of its effects, or where the request goes.
\<close>

section \<open>Looking up a host\<close>

text \<open>The closure \<open>findRouter\<close> of the reverse proxy: the user's route, else the one for all users.\<close>

definition findRouter :: "'p routers \<Rightarrow> string \<Rightarrow> string \<Rightarrow> string \<Rightarrow> 'p router option" where
  "findRouter r name path httpUser =
     (case routers_Get r name path httpUser of
        Some vr \<Rightarrow> Some vr
      | None \<Rightarrow> routers_Get r name path [])"

text \<open>The loop over the labels; the first label is overwritten by the star and then dropped.\<close>

fun wildcard_loop :: "'p routers \<Rightarrow> string \<Rightarrow> string \<Rightarrow> string list \<Rightarrow> 'p router option" where
  "wildcard_loop r path httpUser (l1 # l2 # l3 # ls) =
     (case findRouter r (join_with ''.'' (''*'' # l2 # l3 # ls)) path httpUser of
        Some vr \<Rightarrow> Some vr
      | None \<Rightarrow> wildcard_loop r path httpUser (l2 # l3 # ls))"
| "wildcard_loop r path httpUser _ = None"

definition getVhost :: "'p routers \<Rightarrow> string \<Rightarrow> string \<Rightarrow> string \<Rightarrow> 'p router option" where
  "getVhost r domain location routeByHTTPUser =
     (case findRouter r domain location routeByHTTPUser of
        Some vr \<Rightarrow> Some vr
      | None \<Rightarrow>
          (case wildcard_loop r location routeByHTTPUser (split_on (CHR ''.'') domain) of
             Some vr \<Rightarrow> Some vr
           | None \<Rightarrow> findRouter r ''*'' location routeByHTTPUser))"

text \<open>The multiplexer has its own closure, which yields the listener, and its own loop.\<close>

definition findListener :: "'p routers \<Rightarrow> string \<Rightarrow> string \<Rightarrow> string \<Rightarrow> 'p option" where
  "findListener r name path httpUser =
     (case routers_Get r name path httpUser of
        Some vr \<Rightarrow> Some (rt_payload vr)
      | None \<Rightarrow> (case routers_Get r name path [] of Some vr \<Rightarrow> Some (rt_payload vr) | None \<Rightarrow> None))"

fun listener_loop :: "'p routers \<Rightarrow> string \<Rightarrow> string \<Rightarrow> string list \<Rightarrow> 'p option" where
  "listener_loop r path httpUser domainSplit =
     (if length domainSplit < 3 then None
      else
        (case findListener r (join_with ''.'' (domainSplit[0 := ''*''])) path httpUser of
           Some l \<Rightarrow> Some l
         | None \<Rightarrow> listener_loop r path httpUser (tl domainSplit)))"

declare listener_loop.simps [simp del]

definition getListener :: "'p routers \<Rightarrow> string \<Rightarrow> string \<Rightarrow> string \<Rightarrow> 'p option" where
  "getListener r name path httpUser =
     (case findListener r name path httpUser of
        Some l \<Rightarrow> Some l
      | None \<Rightarrow>
          (case listener_loop r path httpUser (split_on (CHR ''.'') name) of
             Some l \<Rightarrow> Some l
           | None \<Rightarrow> findListener r ''*'' path httpUser))"

section \<open>The multiplexer\<close>

record mux_listener =
  ml_name :: string
  ml_location :: string
  ml_routeByHTTPUser :: string
  ml_rewriteHost :: string
  ml_username :: string
  ml_password :: string
  ml_acceptClosed :: bool

record req_info =
  ri_Host :: string
  ri_Path :: string
  ri_HTTPUser :: string
  ri_HTTPPwd :: string

text \<open>The multiplexer: the route table points to listeners in a store. \<open>mx_checkAuth\<close> and
  \<open>mx_successHook\<close> say whether the function is set, as tcpmux does and HTTPS does not.\<close>

record muxer =
  mx_router :: "nat routers"
  mx_listeners :: "nat \<rightharpoonup> mux_listener"
  mx_next :: nat
  mx_checkAuth :: bool
  mx_successHook :: bool
  mx_passthrough :: bool

definition NewMuxer :: "bool \<Rightarrow> bool \<Rightarrow> bool \<Rightarrow> muxer" where
  "NewMuxer checkAuth successHook passthrough =
     \<lparr>mx_router = NewRouters, mx_listeners = Map.empty, mx_next = 0, mx_checkAuth = checkAuth,
      mx_successHook = successHook, mx_passthrough = passthrough\<rparr>"

definition NewHTTPSMuxer :: muxer where
  "NewHTTPSMuxer = NewMuxer False False False"

definition NewHTTPConnectTCPMuxer :: "bool \<Rightarrow> muxer" where
  "NewHTTPConnectTCPMuxer passthrough = NewMuxer True True passthrough"

record 'f route_config =
  rc_Domain :: string
  rc_Location :: string
  rc_RewriteHost :: string
  rc_Username :: string
  rc_Password :: string
  rc_Headers :: "(string \<times> string) list"
  rc_ResponseHeaders :: "(string \<times> string) list"
  rc_RouteByHTTPUser :: string
  rc_CreateConnFn :: "'f option"
  rc_ChooseEndpointFn :: "'f option"
  rc_CreateConnByEndpointFn :: "'f option"

definition mux_Listen :: "'f route_config \<Rightarrow> muxer \<Rightarrow> (router_error + nat) \<times> muxer" where
  "mux_Listen cfg v =
     (let l = \<lparr>ml_name = rc_Domain cfg, ml_location = rc_Location cfg, ml_routeByHTTPUser = rc_RouteByHTTPUser cfg,
               ml_rewriteHost = rc_RewriteHost cfg, ml_username = rc_Username cfg,
               ml_password = rc_Password cfg, ml_acceptClosed = False\<rparr>;
          a = mx_next v
      in case routers_Add (rc_Domain cfg) (rc_Location cfg) (rc_RouteByHTTPUser cfg) a (mx_router v) of
           Inl e \<Rightarrow> (Inl e, v)
         | Inr r \<Rightarrow> (Inr a, v\<lparr>mx_router := r, mx_listeners := (mx_listeners v)(a \<mapsto> l), mx_next := Suc a\<rparr>))"

text \<open>\<open>Listener.Close\<close>; closing twice panics (\<open>None\<close>).\<close>

definition mux_Close :: "nat \<Rightarrow> muxer \<Rightarrow> muxer option" where
  "mux_Close a v =
     (case mx_listeners v a of
        None \<Rightarrow> Some v
      | Some l \<Rightarrow>
          (let v' = v\<lparr>mx_router := routers_Del (ml_name l) (ml_location l) (ml_routeByHTTPUser l) (mx_router v)\<rparr> in
           if ml_acceptClosed l then None
           else Some (v'\<lparr>mx_listeners := (mx_listeners v)(a \<mapsto> l\<lparr>ml_acceptClosed := True\<rparr>)\<rparr>)))"

datatype mux_action = MuxClose | MuxFailHook | MuxOkResponse | MuxUnauthorized | MuxDeliver nat | MuxDropped nat

text \<open>\<open>HTTPConnectTCPMuxer.auth\<close>\<close>

definition connect_auth :: "string \<Rightarrow> string \<Rightarrow> req_info \<Rightarrow> bool" where
  "connect_auth username password info = (username = ri_HTTPUser info \<and> password = ri_HTTPPwd info)"

text \<open>\<open>sendConnectResponse\<close>: nothing is sent when the request is passed through; \<open>wrote\<close> says
  whether the write succeeds.\<close>

definition success_hook :: "muxer \<Rightarrow> bool \<Rightarrow> mux_action list \<times> bool" where
  "success_hook v wrote =
     (if \<not> mx_successHook v \<or> mx_passthrough v then ([], True) else ([MuxOkResponse], wrote))"

text \<open>\<open>Muxer.handle\<close>: \<open>dl1\<close>, \<open>dl2\<close> say whether the deadlines could be set, \<open>info\<close> is the outcome
  of \<open>vhostFunc\<close>. Sending to a closed channel panics, which is caught: the connection is dropped.\<close>

definition mux_handle :: "muxer \<Rightarrow> bool \<Rightarrow> bool \<Rightarrow> bool \<Rightarrow> req_info option \<Rightarrow> mux_action list" where
  "mux_handle v dl1 wrote dl2 info =
     (if \<not> dl1 then [MuxClose]
      else (case info of
        None \<Rightarrow> [MuxClose]
      | Some i \<Rightarrow>
          (case getListener (mx_router v) (to_lower (ri_Host i)) (to_lower (ri_Path i)) (ri_HTTPUser i) of
             None \<Rightarrow> [MuxFailHook]
           | Some a \<Rightarrow>
               (case mx_listeners v a of
                  None \<Rightarrow> []
                | Some l \<Rightarrow>
                    (case success_hook v wrote of (acts, ok) \<Rightarrow>
                       if \<not> ok then acts @ [MuxClose]
                       else if mx_checkAuth v \<and> ml_username l \<noteq> [] \<and> \<not> connect_auth (ml_username l) (ml_password l) i
                       then acts @ [MuxUnauthorized, MuxClose]
                       else if \<not> dl2 then acts @ [MuxClose]
                       else if ml_acceptClosed l then acts @ [MuxDropped a]
                       else acts @ [MuxDeliver a])))))"

text \<open>\<open>readHTTPConnectRequest\<close> on a parsed request; \<open>None\<close> is the error.\<close>

record http_request =
  rq_Method :: string
  rq_Host :: string
  rq_URLPath :: string
  rq_URLHost :: string
  rq_Authorization :: string
  rq_ProxyAuthorization :: string
  rq_RemoteAddr :: string

definition canonical_host :: "string \<Rightarrow> string" where
  "canonical_host h = (case CanonicalHost h of Inl _ \<Rightarrow> [] | Inr x \<Rightarrow> x)"

definition basic_auth :: "string \<Rightarrow> string \<times> string" where
  "basic_auth header =
     (if header = [] then ([], [])
      else (case ParseBasicAuth header of None \<Rightarrow> ([], []) | Some up \<Rightarrow> up))"

definition getHostFromHTTPConnect :: "http_request \<Rightarrow> req_info option" where
  "getHostFromHTTPConnect req =
     (if rq_Method req \<noteq> ''CONNECT'' then None
      else Some \<lparr>ri_Host = canonical_host (rq_Host req), ri_Path = [],
                 ri_HTTPUser = fst (basic_auth (rq_ProxyAuthorization req)),
                 ri_HTTPPwd = snd (basic_auth (rq_ProxyAuthorization req))\<rparr>)"

section \<open>The HTTP reverse proxy\<close>

type_synonym 'f http_router = "'f route_config routers"

definition rp_Register :: "'f route_config \<Rightarrow> 'f http_router \<Rightarrow> router_error + 'f http_router" where
  "rp_Register cfg r = routers_Add (rc_Domain cfg) (rc_Location cfg) (rc_RouteByHTTPUser cfg) cfg r"

definition rp_UnRegister :: "'f route_config \<Rightarrow> 'f http_router \<Rightarrow> 'f http_router" where
  "rp_UnRegister cfg r = routers_Del (rc_Domain cfg) (rc_Location cfg) (rc_RouteByHTTPUser cfg) r"

definition GetRouteConfig :: "'f http_router \<Rightarrow> string \<Rightarrow> string \<Rightarrow> string \<Rightarrow> 'f route_config option" where
  "GetRouteConfig r domain location routeByHTTPUser =
     map_option rt_payload (getVhost r domain location routeByHTTPUser)"

definition CheckAuth :: "'f http_router \<Rightarrow> string \<Rightarrow> string \<Rightarrow> string \<Rightarrow> string \<Rightarrow> string \<Rightarrow> bool" where
  "CheckAuth r domain location routeByHTTPUser user passwd =
     (case getVhost r domain location routeByHTTPUser of
        None \<Rightarrow> True
      | Some vr \<Rightarrow>
          (let checkUser = rc_Username (rt_payload vr); checkPasswd = rc_Password (rt_payload vr) in
           \<not> ((checkUser \<noteq> [] \<or> checkPasswd \<noteq> []) \<and> (checkUser \<noteq> user \<or> checkPasswd \<noteq> passwd))))"

record route_info =
  in_URL :: string
  in_Host :: string
  in_HTTPUser :: string
  in_RemoteAddr :: string
  in_URLHost :: string
  in_Endpoint :: string

datatype 'f conn_call = ByEndpoint 'f string string | ByCreate 'f string | NoRouteFound

definition CreateConnection :: "'f http_router \<Rightarrow> route_info \<Rightarrow> bool \<Rightarrow> 'f conn_call" where
  "CreateConnection r info byEndpoint =
     (case getVhost r (canonical_host (in_Host info)) (in_URL info) (in_HTTPUser info) of
        None \<Rightarrow> NoRouteFound
      | Some vr \<Rightarrow>
          (case (if byEndpoint then rc_CreateConnByEndpointFn (rt_payload vr) else None) of
             Some fn \<Rightarrow> ByEndpoint fn (in_Endpoint info) (in_RemoteAddr info)
           | None \<Rightarrow>
               (case rc_CreateConnFn (rt_payload vr) of
                  Some fn \<Rightarrow> ByCreate fn (in_RemoteAddr info)
                | None \<Rightarrow> NoRouteFound)))"

definition injectRequestInfoToCtx ::
  "'f http_router \<Rightarrow> http_request \<Rightarrow> route_info \<times> 'f route_config option" where
  "injectRequestInfoToCtx r req =
     (let user0 = (if rq_URLHost req \<noteq> [] then fst (basic_auth (rq_ProxyAuthorization req)) else []);
          user = (if user0 = [] then fst (basic_auth (rq_Authorization req)) else user0);
          info = \<lparr>in_URL = rq_URLPath req, in_Host = rq_Host req, in_HTTPUser = user,
                  in_RemoteAddr = rq_RemoteAddr req, in_URLHost = rq_URLHost req, in_Endpoint = []\<rparr>
      in (info, GetRouteConfig r (canonical_host (rq_Host req)) (rq_URLPath req) user))"

datatype 'f served = Unauthorized | ConnectTo route_info "'f route_config option"
  | ProxyTo route_info "'f route_config option"

definition ServeHTTP :: "'f http_router \<Rightarrow> http_request \<Rightarrow> 'f served" where
  "ServeHTTP r req =
     (let domain = canonical_host (rq_Host req); (user, passwd) = basic_auth (rq_Authorization req) in
      if \<not> CheckAuth r domain (rq_URLPath req) user user passwd then Unauthorized
      else (case injectRequestInfoToCtx r req of (info, rc) \<Rightarrow>
              if rq_Method req = ''CONNECT'' then ConnectTo info rc else ProxyTo info rc))"

text \<open>The \<open>Rewrite\<close> function: the outgoing host header, the URL host under which the transport pools
  connections, and the headers to set. \<open>endpoint\<close> is what \<open>ChooseEndpointFn\<close> returned.\<close>

definition url_host_key :: "string \<Rightarrow> string \<Rightarrow> string \<Rightarrow> string \<Rightarrow> string" where
  "url_host_key domain location httpUser endpoint =
     domain @ ''.'' @ b64_EncodeToString location @ ''.'' @ b64_EncodeToString httpUser @ ''.'' @
     b64_EncodeToString endpoint"

definition rewrite_request ::
  "http_request \<Rightarrow> 'f route_config option \<Rightarrow> string \<Rightarrow> string \<times> string \<times> (string \<times> string) list" where
  "rewrite_request req rc endpoint0 =
     (case rc of
        None \<Rightarrow> (rq_Host req, rq_Host req, [])
      | Some c \<Rightarrow>
          (let host = (if rc_RewriteHost c \<noteq> [] then rc_RewriteHost c else rq_Host req);
               endpoint = (case rc_ChooseEndpointFn c of None \<Rightarrow> [] | Some _ \<Rightarrow> endpoint0)
           in (host, url_host_key (rc_Domain c) (rc_Location c) (rc_RouteByHTTPUser c) endpoint, rc_Headers c)))"

section \<open>Lemmas\<close>

text \<open>The names that a host is looked up as, in order: with the labels \<open>l1 ... ln\<close> of the host, the host itself, then
  for every \<open>k\<close> from 1 to \<open>n - 2\<close> the star and the labels after the first \<open>k\<close>, then the star alone.\<close>

definition host_patterns :: "string \<Rightarrow> string list" where
  "host_patterns name =
     (let ls = split_on (CHR ''.'') name
      in name # map (\<lambda>k. ''*.'' @ join_with ''.'' (drop k ls)) [1..<length ls - 1] @ [''*''])"

fun first_some :: "('a \<Rightarrow> 'b option) \<Rightarrow> 'a list \<Rightarrow> 'b option" where
  "first_some f [] = None"
| "first_some f (x # xs) = (case f x of Some y \<Rightarrow> Some y | None \<Rightarrow> first_some f xs)"











lemma first_some_map_option: "first_some (\<lambda>n. map_option g (f n)) xs = map_option g (first_some f xs)"
  by (induction xs) (auto split: option.splits)


lemma append_sep_unique:
  assumes "c \<notin> set b" and "c \<notin> set b'" and "a @ c # b = a' @ c # b'"
  shows "a = a' \<and> b = b'"
proof -
  have t: "takeWhile (\<lambda>x. x \<noteq> c) (rev (a @ c # b)) = rev b" if "c \<notin> set b" for a b
    using that takeWhile_append2 [of "rev b" "\<lambda>x. x \<noteq> c" "c # rev a"] by fastforce
  have "rev b = rev b'" using t [OF assms(1), of a] t [OF assms(2), of a'] assms(3) by metis
  then show ?thesis using assms(3) by simp
qed

section \<open>Properties\<close>


theorem wildcard_needs_two_labels:
  "host_patterns ''test.example.com'' = [''test.example.com'', ''*.example.com'', ''*''] \<and>
   ''*.com'' \<notin> set (host_patterns ''test.example.com'')"
  by code_simp

text \<open>Connections to different routes are never pooled together: the URL host under which the transport
  keeps idle connections determines the domain, the location, the user and the endpoint.\<close>

theorem url_host_key_injective:
  "url_host_key d l u e = url_host_key d' l' u' e' \<longleftrightarrow> d = d' \<and> l = l' \<and> u = u' \<and> e = e'"
proof
  let ?b = b64_EncodeToString
  have e: "url_host_key d l u e = (((d @ CHR ''.'' # ?b l) @ CHR ''.'' # ?b u) @ CHR ''.'' # ?b e)" for d l u e
    by (simp add: url_host_key_def)
  assume "url_host_key d l u e = url_host_key d' l' u' e'"
  then have "(d @ CHR ''.'' # ?b l) @ CHR ''.'' # ?b u = (d' @ CHR ''.'' # ?b l') @ CHR ''.'' # ?b u' \<and> ?b e = ?b e'"
    using append_sep_unique [OF b64_no_dot b64_no_dot] unfolding e by blast
  moreover from this have "d @ CHR ''.'' # ?b l = d' @ CHR ''.'' # ?b l' \<and> ?b u = ?b u'"
    using append_sep_unique [OF b64_no_dot b64_no_dot] by blast
  moreover from this have "d = d' \<and> ?b l = ?b l'"
    using append_sep_unique [OF b64_no_dot b64_no_dot] by blast
  ultimately show "d = d' \<and> l = l' \<and> u = u' \<and> e = e'" by (simp add: b64_EncodeToString_inj)
qed simp

text \<open>C25: a request that is not a proxy request is only passed to a protected route with the credentials of
  that route: if the request is served by a route with a user name or password, its basic
  authentication header carries exactly these.\<close>

theorem ServeHTTP_checks_auth:
  assumes "rq_URLHost req = []"
    and "ServeHTTP r req = ProxyTo info (Some rc) \<or> ServeHTTP r req = ConnectTo info (Some rc)"
    and "rc_Username rc \<noteq> [] \<or> rc_Password rc \<noteq> []"
  shows "basic_auth (rq_Authorization req) = (rc_Username rc, rc_Password rc)"
proof -
  let ?d = "canonical_host (rq_Host req)" and ?u = "fst (basic_auth (rq_Authorization req))"
  have rc: "GetRouteConfig r ?d (rq_URLPath req) ?u = Some rc"
    using assms(1,2)
    by (auto simp: ServeHTTP_def injectRequestInfoToCtx_def Let_def split: prod.splits if_splits)
  have "CheckAuth r ?d (rq_URLPath req) ?u ?u (snd (basic_auth (rq_Authorization req)))"
    using assms(2) by (auto simp: ServeHTTP_def Let_def split: prod.splits if_splits)
  then show ?thesis
    using rc assms(3) by (auto simp: CheckAuth_def GetRouteConfig_def Let_def prod_eq_iff)
qed

text \<open>A protected route for the user alice, and requests to it.\<close>

definition rc_alice :: "nat route_config" where
  "rc_alice = \<lparr>rc_Domain = ''a.com'', rc_Location = ''/'', rc_RewriteHost = [], rc_Username = ''alice'',
     rc_Password = ''pw'', rc_Headers = [], rc_ResponseHeaders = [], rc_RouteByHTTPUser = ''alice'',
     rc_CreateConnFn = Some 1, rc_ChooseEndpointFn = None, rc_CreateConnByEndpointFn = None\<rparr>"

definition router_alice :: "nat http_router" where
  "router_alice = (case rp_Register rc_alice NewRouters of Inl _ \<Rightarrow> NewRouters | Inr r \<Rightarrow> r)"

definition req_alice :: "string \<Rightarrow> string \<Rightarrow> string \<Rightarrow> http_request" where
  "req_alice urlHost auth proxyAuth = \<lparr>rq_Method = ''GET'', rq_Host = ''a.com'', rq_URLPath = ''/x'',
     rq_URLHost = urlHost, rq_Authorization = auth, rq_ProxyAuthorization = proxyAuth, rq_RemoteAddr = []\<rparr>"

definition info_alice :: "string \<Rightarrow> route_info" where
  "info_alice urlHost = \<lparr>in_URL = ''/x'', in_Host = ''a.com'', in_HTTPUser = ''alice'', in_RemoteAddr = [],
     in_URLHost = urlHost, in_Endpoint = []\<rparr>"

lemma serve_alice:
  "ServeHTTP router_alice (req_alice [] (BasicAuth ''alice'' ''pw'') []) = ProxyTo (info_alice []) (Some rc_alice)"
  by code_simp

theorem ServeHTTP_checks_auth_witness:
  "basic_auth (rq_Authorization (req_alice [] (BasicAuth ''alice'' ''pw'') [])) = (''alice'', ''pw'')"
proof -
  have "rq_URLHost (req_alice [] (BasicAuth ''alice'' ''pw'') []) = []" "rc_Username rc_alice = ''alice''"
      "rc_Password rc_alice = ''pw''"
    by (simp_all add: req_alice_def rc_alice_def)
  then show ?thesis using ServeHTTP_checks_auth [OF _ disjI1 [OF serve_alice]] by simp
qed

text \<open>C40: the password of a proxy request, one with a host in its first line, is never looked at. The route is chosen by
  the user of the Proxy-Authorization header, but the check looks up the route of the user of the
  Authorization header. So a proxy request without an Authorization header that names a user is passed to the
  route of that user, protected or not, whatever password it gives or none, exactly when the route for requests
  without a user is missing or has no credentials.\<close>

theorem proxy_request_bypasses_auth:
  assumes "rq_URLHost req \<noteq> []" and "rq_Authorization req = []"
    and "basic_auth (rq_ProxyAuthorization req) = (user, password)" and "user \<noteq> []"
    and "GetRouteConfig r (canonical_host (rq_Host req)) (rq_URLPath req) user = Some rc"
  shows "(\<exists>info. ServeHTTP r req = ProxyTo info (Some rc) \<or> ServeHTTP r req = ConnectTo info (Some rc)) \<longleftrightarrow>
    (case GetRouteConfig r (canonical_host (rq_Host req)) (rq_URLPath req) [] of
       None \<Rightarrow> True | Some open_rc \<Rightarrow> rc_Username open_rc = [] \<and> rc_Password open_rc = [])"
proof -
  let ?d = "canonical_host (rq_Host req)"
  have b: "basic_auth (rq_Authorization req) = ([], [])" using assms(2) by (simp add: basic_auth_def)
  have c: "CheckAuth r ?d (rq_URLPath req) [] [] [] \<longleftrightarrow>
    (case GetRouteConfig r ?d (rq_URLPath req) [] of None \<Rightarrow> True | Some open_rc \<Rightarrow> rc_Username open_rc = [] \<and> rc_Password open_rc = [])"
    by (auto simp: CheckAuth_def GetRouteConfig_def Let_def split: option.splits)
  have i: "\<exists>info. injectRequestInfoToCtx r req = (info, Some rc)"
    using assms(1,3,4,5) by (simp add: injectRequestInfoToCtx_def Let_def)
  show ?thesis using i unfolding ServeHTTP_def b Let_def prod.case c by auto
qed

theorem proxy_request_bypasses_auth_witness:
  "(\<exists>info. ServeHTTP router_alice (req_alice ''a.com'' [] (BasicAuth ''alice'' [])) = ProxyTo info (Some rc_alice) \<or>
      ServeHTTP router_alice (req_alice ''a.com'' [] (BasicAuth ''alice'' [])) = ConnectTo info (Some rc_alice)) \<and>
   rc_Password rc_alice = ''pw''"
proof -
  let ?q = "req_alice ''a.com'' [] (BasicAuth ''alice'' [])"
  have "rq_URLHost ?q \<noteq> []" "rq_Authorization ?q = []" by (simp_all add: req_alice_def)
  moreover have "basic_auth (rq_ProxyAuthorization ?q) = (''alice'', [])" by code_simp
  moreover have "GetRouteConfig router_alice (canonical_host (rq_Host ?q)) (rq_URLPath ?q) ''alice'' = Some rc_alice" by code_simp
  moreover have "GetRouteConfig router_alice (canonical_host (rq_Host ?q)) (rq_URLPath ?q) [] = None" by code_simp
  ultimately show ?thesis
    using proxy_request_bypasses_auth [of ?q "''alice''" "[]" router_alice rc_alice] by (simp add: rc_alice_def)
qed

text \<open>the multiplexer hands a connection only to the listener that its host, path and user select, and,
  when the listener has a user name and the multiplexer checks authentication, only if the
  connection carries that user name and password. Without a listener for it the connection gets the
  not-found answer.\<close>

theorem mux_handle_delivers:
  assumes "MuxDeliver a \<in> set (mux_handle v dl1 wrote dl2 (Some i))"
  shows "getListener (mx_router v) (to_lower (ri_Host i)) (to_lower (ri_Path i)) (ri_HTTPUser i) = Some a \<and>
    (\<exists>l. mx_listeners v a = Some l \<and> \<not> ml_acceptClosed l \<and>
       (mx_checkAuth v \<and> ml_username l \<noteq> [] \<longrightarrow> ml_username l = ri_HTTPUser i \<and> ml_password l = ri_HTTPPwd i))"
  using assms
  by (auto simp: mux_handle_def success_hook_def connect_auth_def split: option.splits prod.splits if_splits)

definition mux_demo :: muxer where
  "mux_demo = snd (mux_Listen rc_alice (NewHTTPConnectTCPMuxer False))"

definition info_mux :: "string \<Rightarrow> req_info" where
  "info_mux pwd = \<lparr>ri_Host = ''A.com'', ri_Path = ''/'', ri_HTTPUser = ''alice'', ri_HTTPPwd = pwd\<rparr>"

theorem mux_handle_delivers_witness:
  "mux_handle mux_demo True True True (Some (info_mux ''pw'')) = [MuxOkResponse, MuxDeliver 0] \<and>
   getListener (mx_router mux_demo) (to_lower ''A.com'') (to_lower ''/'') ''alice'' = Some 0"
proof -
  have h: "mux_handle mux_demo True True True (Some (info_mux ''pw'')) = [MuxOkResponse, MuxDeliver 0]"
    by code_simp
  then have "MuxDeliver 0 \<in> set (mux_handle mux_demo True True True (Some (info_mux ''pw'')))" by simp
  from mux_handle_delivers [OF this] show ?thesis using h by (simp add: info_mux_def)
qed

text \<open>A connection that fails authentication has already been told that it is connected: the success
  response is written before the check.\<close>

theorem mux_ok_before_auth:
  "mux_handle mux_demo True True True (Some (info_mux ''wrong'')) = [MuxOkResponse, MuxUnauthorized, MuxClose]"
  by code_simp

end
