(* ===== verification/Group_Http.thy ===== *)
theory Group_Http
  imports Vhost_Router "HOL-Library.Word" "HOL-Library.Multiset"
begin

text \<open>
  Load balancing of HTTP proxies, \<open>server/group/http.go\<close>. Proxies of one group share a route; the
  first one registers it in the route table with the group's own functions, the last one removes it,
  and requests go round the members. Groups are shared objects: the controller's map and the route
  table refer to them, so they live in a store addressed by numbers. \<open>Register\<close> takes the group
  from the map under one lock and registers under another, so it is two atomic steps; \<open>'f\<close> is the
  connection function of a proxy.
\<close>

section \<open>State\<close>

datatype group_error = ErrGroupAuthFailed | ErrGroupParamsInvalid | ErrListenerClosed
  | ErrGroupDifferentPort | ErrProxyRepeated | ErrRoute router_error

text \<open>What a route points to: the function of one proxy, or a group.\<close>

datatype 'f route_target = Direct 'f | ViaGroup nat

record 'f http_group =
  hg_group :: string
  hg_groupKey :: string
  hg_domain :: string
  hg_location :: string
  hg_routeByHTTPUser :: string
  hg_createFuncs :: "(string \<times> 'f) list"
  hg_pxyNames :: "string list"
  hg_index :: "64 word"

record 'f http_ctl =
  hc_groups :: "string \<rightharpoonup> nat"
  hc_heap :: "nat \<rightharpoonup> 'f http_group"
  hc_next :: nat
  hc_router :: "'f route_target routers"

record 'f group_route =
  gr_domain :: string
  gr_location :: string
  gr_routeByHTTPUser :: string
  gr_createConn :: 'f

definition NewHTTPGroupController :: "'f http_ctl" where
  "NewHTTPGroupController =
     \<lparr>hc_groups = Map.empty, hc_heap = Map.empty, hc_next = 0, hc_router = NewRouters\<rparr>"

definition NewHTTPGroup :: "'f http_group" where
  "NewHTTPGroup = \<lparr>hg_group = [], hg_groupKey = [], hg_domain = [], hg_location = [],
     hg_routeByHTTPUser = [], hg_createFuncs = [], hg_pxyNames = [], hg_index = 0\<rparr>"

section \<open>Operations\<close>

text \<open>First step of \<open>Register\<close>: the group object for the name, created when there is none.\<close>

definition hc_get_group :: "string \<Rightarrow> 'f http_ctl \<Rightarrow> nat \<times> 'f http_ctl" where
  "hc_get_group grp s =
     (case hc_groups s grp of
        Some a \<Rightarrow> (a, s)
      | None \<Rightarrow>
          (hc_next s, s\<lparr>hc_heap := (hc_heap s)(hc_next s \<mapsto> NewHTTPGroup), hc_next := Suc (hc_next s),
                        hc_groups := (hc_groups s)(grp \<mapsto> hc_next s)\<rparr>))"

definition hg_add_member :: "string \<Rightarrow> 'f group_route \<Rightarrow> 'f http_group \<Rightarrow> group_error + 'f http_group" where
  "hg_add_member proxyName rc g =
     (case map_of (hg_createFuncs g) proxyName of
        Some _ \<Rightarrow> Inl ErrProxyRepeated
      | None \<Rightarrow> Inr (g\<lparr>hg_createFuncs := (proxyName, gr_createConn rc) # hg_createFuncs g,
                       hg_pxyNames := hg_pxyNames g @ [proxyName]\<rparr>))"

text \<open>Second step: \<open>HTTPGroup.Register\<close> on the group at an address. The map
  \<open>createFuncs\<close> is an association list with distinct keys, so that its length is \<open>len\<close>.\<close>

definition hg_Register ::
  "nat \<Rightarrow> string \<Rightarrow> string \<Rightarrow> string \<Rightarrow> 'f group_route \<Rightarrow> 'f http_ctl \<Rightarrow> group_error option \<times> 'f http_ctl" where
  "hg_Register a proxyName grp groupKey rc s =
     (case hc_heap s a of
        None \<Rightarrow> (None, s)
      | Some g \<Rightarrow>
          if length (hg_createFuncs g) = 0 then
            (case routers_Add (gr_domain rc) (gr_location rc) (gr_routeByHTTPUser rc) (ViaGroup a) (hc_router s) of
               Inl e \<Rightarrow> (Some (ErrRoute e), s)
             | Inr r \<Rightarrow>
                 (let g' = g\<lparr>hg_group := grp, hg_groupKey := groupKey, hg_domain := gr_domain rc,
                             hg_location := gr_location rc, hg_routeByHTTPUser := gr_routeByHTTPUser rc\<rparr>
                  in case hg_add_member proxyName rc g' of
                       Inl e \<Rightarrow> (Some e, s\<lparr>hc_router := r, hc_heap := (hc_heap s)(a \<mapsto> g')\<rparr>)
                     | Inr g'' \<Rightarrow> (None, s\<lparr>hc_router := r, hc_heap := (hc_heap s)(a \<mapsto> g'')\<rparr>)))
          else if hg_group g \<noteq> grp \<or> hg_domain g \<noteq> gr_domain rc \<or> hg_location g \<noteq> gr_location rc \<or>
                  hg_routeByHTTPUser g \<noteq> gr_routeByHTTPUser rc then (Some ErrGroupParamsInvalid, s)
          else if hg_groupKey g \<noteq> groupKey then (Some ErrGroupAuthFailed, s)
          else (case hg_add_member proxyName rc g of
                  Inl e \<Rightarrow> (Some e, s)
                | Inr g' \<Rightarrow> (None, s\<lparr>hc_heap := (hc_heap s)(a \<mapsto> g')\<rparr>)))"

definition hc_Register ::
  "string \<Rightarrow> string \<Rightarrow> string \<Rightarrow> 'f group_route \<Rightarrow> 'f http_ctl \<Rightarrow> group_error option \<times> 'f http_ctl" where
  "hc_Register proxyName grp groupKey rc s =
     (case hc_get_group grp s of (a, s') \<Rightarrow> hg_Register a proxyName grp groupKey rc s')"

definition hg_UnRegister :: "nat \<Rightarrow> string \<Rightarrow> 'f http_ctl \<Rightarrow> bool \<times> 'f http_ctl" where
  "hg_UnRegister a proxyName s =
     (case hc_heap s a of
        None \<Rightarrow> (False, s)
      | Some g \<Rightarrow>
          (let g' = g\<lparr>hg_createFuncs := filter (\<lambda>p. fst p \<noteq> proxyName) (hg_createFuncs g),
                      hg_pxyNames := remove1 proxyName (hg_pxyNames g)\<rparr>;
               s' = s\<lparr>hc_heap := (hc_heap s)(a \<mapsto> g')\<rparr>
           in if length (hg_createFuncs g') = 0
              then (True, s'\<lparr>hc_router := routers_Del (hg_domain g) (hg_location g) (hg_routeByHTTPUser g) (hc_router s)\<rparr>)
              else (False, s')))"

definition hc_UnRegister :: "string \<Rightarrow> string \<Rightarrow> 'f http_ctl \<Rightarrow> 'f http_ctl" where
  "hc_UnRegister proxyName grp s =
     (case hc_groups s grp of
        None \<Rightarrow> s
      | Some a \<Rightarrow>
          (case hg_UnRegister a proxyName s of (isEmpty, s') \<Rightarrow>
             if isEmpty then s'\<lparr>hc_groups := (hc_groups s')(grp := None)\<rparr> else s'))"

text \<open>Choosing a member. \<open>int(newIndex) % len\<close> is negative when the top bit of the index is set, and
  indexing with it panics.\<close>

datatype 'a choice = Chosen 'a | NoEndpoint | IndexPanic

definition pick_member :: "64 word \<Rightarrow> string list \<Rightarrow> string choice" where
  "pick_member newIndex names =
     (if length names > 0 then
        (let i = sint newIndex in
         if i < 0 \<and> i mod int (length names) \<noteq> 0 then IndexPanic
         else Chosen (names ! nat (i mod int (length names))))
      else NoEndpoint)"

definition hg_chooseEndpoint :: "'f http_group \<Rightarrow> string choice \<times> 'f http_group" where
  "hg_chooseEndpoint g =
     (let newIndex = hg_index g + 1; g' = g\<lparr>hg_index := newIndex\<rparr> in
      case pick_member newIndex (hg_pxyNames g) of
        Chosen name \<Rightarrow> (if name = [] then NoEndpoint else Chosen name, g')
      | c \<Rightarrow> (c, g'))"

definition hg_createConn :: "'f http_group \<Rightarrow> 'f choice \<times> 'f http_group" where
  "hg_createConn g =
     (let newIndex = hg_index g + 1; g' = g\<lparr>hg_index := newIndex\<rparr> in
      case pick_member newIndex (hg_pxyNames g) of
        Chosen name \<Rightarrow> (case map_of (hg_createFuncs g) name of None \<Rightarrow> NoEndpoint | Some f \<Rightarrow> Chosen f, g')
      | NoEndpoint \<Rightarrow> (NoEndpoint, g')
      | IndexPanic \<Rightarrow> (IndexPanic, g'))"

definition hg_createConnByEndpoint :: "string \<Rightarrow> 'f http_group \<Rightarrow> 'f choice" where
  "hg_createConnByEndpoint endpoint g =
     (case map_of (hg_createFuncs g) endpoint of None \<Rightarrow> NoEndpoint | Some f \<Rightarrow> Chosen f)"

section \<open>Steps\<close>

text \<open>Calls that run one after the other: registrations, removal of members, and the routes that
  proxies without a group add to and remove from the same table.\<close>

inductive hc_step :: "'f http_ctl \<Rightarrow> 'f http_ctl \<Rightarrow> bool" where
  register: "hc_step s (snd (hc_Register proxyName grp groupKey rc s))"
| unregister: "hc_groups s grp = Some a \<Longrightarrow> hc_heap s a = Some g \<Longrightarrow> proxyName \<in> set (hg_pxyNames g) \<Longrightarrow>
     hc_step s (hc_UnRegister proxyName grp s)"
| add_direct: "routers_Add d l u (Direct f) (hc_router s) = Inr r \<Longrightarrow> hc_step s (s\<lparr>hc_router := r\<rparr>)"
| del_direct: "route_lookup (hc_router s) (to_lower d, l, u) = Some (Direct f) \<Longrightarrow>
     hc_step s (s\<lparr>hc_router := routers_Del d l u (hc_router s)\<rparr>)"
| choose: "hc_heap s a = Some g \<Longrightarrow>
     hc_step s (s\<lparr>hc_heap := (hc_heap s)(a \<mapsto> snd (hg_chooseEndpoint g))\<rparr>)"

inductive hc_reachable :: "'f http_ctl \<Rightarrow> bool" where
  start: "hc_reachable NewHTTPGroupController"
| step: "hc_reachable s \<Longrightarrow> hc_step s s' \<Longrightarrow> hc_reachable s'"

section \<open>Invariant\<close>

definition hg_wf :: "'f http_group \<Rightarrow> bool" where
  "hg_wf g \<longleftrightarrow> distinct (hg_pxyNames g) \<and> distinct (map fst (hg_createFuncs g)) \<and> set (hg_pxyNames g) = fst ` set (hg_createFuncs g)"

definition hg_key :: "'f http_group \<Rightarrow> string \<times> string \<times> string" where
  "hg_key g = (to_lower (hg_domain g), hg_location g, hg_routeByHTTPUser g)"

text \<open>The groups of the map are well-formed and distinct objects; one with members is registered under
  its own name, and the route of its parameters leads to it. Every route to a group belongs to a group
  of the map that has members.\<close>

definition hc_inv :: "'f http_ctl \<Rightarrow> bool" where
  "hc_inv s \<longleftrightarrow>
     routers_inv (hc_router s) \<and>
     (\<forall>a. hc_next s \<le> a \<longrightarrow> hc_heap s a = None) \<and>
     (\<forall>n m a. hc_groups s n = Some a \<and> hc_groups s m = Some a \<longrightarrow> n = m) \<and>
     (\<forall>n a. hc_groups s n = Some a \<longrightarrow> (\<exists>g. hc_heap s a = Some g \<and> hg_wf g \<and>
        (hg_pxyNames g \<noteq> [] \<longrightarrow> hg_group g = n \<and> route_lookup (hc_router s) (hg_key g) = Some (ViaGroup a)))) \<and>
     (\<forall>k a. route_lookup (hc_router s) k = Some (ViaGroup a) \<longrightarrow>
        (\<exists>n g. hc_groups s n = Some a \<and> hc_heap s a = Some g \<and> hg_pxyNames g \<noteq> [] \<and> hg_key g = k))"

lemma hc_invI:
  assumes "routers_inv (hc_router s)"
    and "\<And>a. hc_next s \<le> a \<Longrightarrow> hc_heap s a = None"
    and "\<And>n m a. hc_groups s n = Some a \<Longrightarrow> hc_groups s m = Some a \<Longrightarrow> n = m"
    and "\<And>n a. hc_groups s n = Some a \<Longrightarrow> \<exists>g. hc_heap s a = Some g \<and> hg_wf g \<and>
        (hg_pxyNames g \<noteq> [] \<longrightarrow> hg_group g = n \<and> route_lookup (hc_router s) (hg_key g) = Some (ViaGroup a))"
    and "\<And>k a. route_lookup (hc_router s) k = Some (ViaGroup a) \<Longrightarrow>
        \<exists>n g. hc_groups s n = Some a \<and> hc_heap s a = Some g \<and> hg_pxyNames g \<noteq> [] \<and> hg_key g = k"
  shows "hc_inv s"
  using assms by (auto simp: hc_inv_def)

lemma hc_invD:
  assumes "hc_inv s"
  shows "routers_inv (hc_router s)"
    and "\<And>a. hc_next s \<le> a \<Longrightarrow> hc_heap s a = None"
    and "\<And>n m a. hc_groups s n = Some a \<Longrightarrow> hc_groups s m = Some a \<Longrightarrow> n = m"
    and "\<And>n a. hc_groups s n = Some a \<Longrightarrow> \<exists>g. hc_heap s a = Some g \<and> hg_wf g \<and>
        (hg_pxyNames g \<noteq> [] \<longrightarrow> hg_group g = n \<and> route_lookup (hc_router s) (hg_key g) = Some (ViaGroup a))"
    and "\<And>k a. route_lookup (hc_router s) k = Some (ViaGroup a) \<Longrightarrow>
        \<exists>n g. hc_groups s n = Some a \<and> hc_heap s a = Some g \<and> hg_pxyNames g \<noteq> [] \<and> hg_key g = k"
  using assms unfolding hc_inv_def by blast+

lemma route_lookup_NewRouters: "route_lookup NewRouters k = None"
  by (cases k) (simp add: route_lookup_def routers_exist_def NewRouters_def)

lemma NewHTTPGroupController_inv: "hc_inv NewHTTPGroupController"
  by (simp add: hc_inv_def NewHTTPGroupController_def NewRouters_inv route_lookup_NewRouters)

lemma NewHTTPGroup_wf: "hg_wf NewHTTPGroup" "hg_pxyNames NewHTTPGroup = []"
  by (simp_all add: hg_wf_def NewHTTPGroup_def)

lemma hc_get_group_inv:
  assumes "hc_inv s" and "hc_get_group grp s = (a, s')"
  shows "hc_inv s'" and "hc_groups s' grp = Some a"
proof -
  note D = hc_invD [OF assms(1)]
  have f: "hc_heap s (hc_next s) = None" using D(2) by simp
  show "hc_groups s' grp = Some a"
    using assms(2) by (auto simp: hc_get_group_def split: option.splits)
  show "hc_inv s'"
  proof (cases "hc_groups s grp")
    case (Some b)
    then show ?thesis using assms by (simp add: hc_get_group_def)
  next
    case None
    then have s': "s' = s\<lparr>hc_heap := (hc_heap s)(hc_next s \<mapsto> NewHTTPGroup), hc_next := Suc (hc_next s),
        hc_groups := (hc_groups s)(grp \<mapsto> hc_next s)\<rparr>"
      using assms(2) by (auto simp: hc_get_group_def)
    have ne: "\<And>n. hc_groups s n \<noteq> Some (hc_next s)" using D(4) f by fastforce
    show ?thesis
    proof (rule hc_invI)
      fix n b assume "hc_groups s' n = Some b"
      then show "\<exists>g. hc_heap s' b = Some g \<and> hg_wf g \<and>
          (hg_pxyNames g \<noteq> [] \<longrightarrow> hg_group g = n \<and> route_lookup (hc_router s') (hg_key g) = Some (ViaGroup b))"
        using D(4) ne NewHTTPGroup_wf by (auto simp: s' split: if_splits)
    next
      fix k b assume "route_lookup (hc_router s') k = Some (ViaGroup b)"
      then have "\<exists>n g. hc_groups s n = Some b \<and> hc_heap s b = Some g \<and> hg_pxyNames g \<noteq> [] \<and> hg_key g = k"
        using D(5) by (simp add: s')
      then show "\<exists>n g. hc_groups s' n = Some b \<and> hc_heap s' b = Some g \<and> hg_pxyNames g \<noteq> [] \<and> hg_key g = k"
        using ne f None by (auto simp: s') (metis option.distinct(1))
    qed (use D ne in \<open>auto simp: s' split: if_splits\<close>)
  qed
qed

text \<open>Well-formed groups: empty lists go together, and members are added and removed in both.\<close>

lemma hg_wf_empty: "hg_wf g \<Longrightarrow> hg_createFuncs g = [] \<longleftrightarrow> hg_pxyNames g = []"
  by (auto simp: hg_wf_def)

lemma hg_add_member_wf:
  assumes "hg_wf g" and "hg_add_member n rc g = Inr g'"
  shows "hg_wf g' \<and> n \<notin> set (hg_pxyNames g) \<and> hg_pxyNames g' = hg_pxyNames g @ [n] \<and> hg_key g' = hg_key g \<and>
    hg_group g' = hg_group g \<and> hg_groupKey g' = hg_groupKey g"
  using assms
  by (auto simp: hg_add_member_def hg_wf_def hg_key_def map_of_eq_None_iff image_iff split: option.splits) force

lemma hg_add_member_empty:
  assumes "hg_createFuncs g = []"
  shows "\<exists>g'. hg_add_member n rc g = Inr g'"
  using assms by (simp add: hg_add_member_def)

text \<open>Replacing a registered group, and perhaps its route, keeps the invariant when the new one fits.\<close>

lemma hc_inv_update:
  assumes inv: "hc_inv s" and n: "hc_groups s n = Some a" and r: "routers_inv r"
    and g': "hg_wf g'" "hg_pxyNames g' \<noteq> []" "hg_group g' = n" "route_lookup r (hg_key g') = Some (ViaGroup a)"
    and old: "\<And>k. k \<noteq> hg_key g' \<Longrightarrow> route_lookup r k = route_lookup (hc_router s) k \<and>
        route_lookup (hc_router s) k \<noteq> Some (ViaGroup a)"
    and new: "\<And>b. route_lookup (hc_router s) (hg_key g') = Some (ViaGroup b) \<Longrightarrow> b = a"
  shows "hc_inv (s\<lparr>hc_router := r, hc_heap := (hc_heap s)(a \<mapsto> g')\<rparr>)"
proof -
  note D = hc_invD [OF inv]
  have a: "hc_heap s a \<noteq> None" using D(4) [OF n] by auto
  have other: "route_lookup r k = Some (ViaGroup b) \<longleftrightarrow> route_lookup (hc_router s) k = Some (ViaGroup b)"
    if "b \<noteq> a" for k b
    using old [of k] new [of b] g'(4) that by (cases "k = hg_key g'") auto
  show ?thesis
  proof (rule hc_invI)
    fix m b
    let ?s = "s\<lparr>hc_router := r, hc_heap := (hc_heap s)(a \<mapsto> g')\<rparr>"
    assume m: "hc_groups ?s m = Some b"
    show "\<exists>g. hc_heap ?s b = Some g \<and> hg_wf g \<and>
        (hg_pxyNames g \<noteq> [] \<longrightarrow> hg_group g = m \<and> route_lookup (hc_router ?s) (hg_key g) = Some (ViaGroup b))"
    proof (cases "b = a")
      case True
      then show ?thesis using g' D(3) [OF n] m by simp
    next
      case False
      then show ?thesis using D(4) [of m b] m other [OF False] by auto
    qed
  next
    fix k b
    let ?s = "s\<lparr>hc_router := r, hc_heap := (hc_heap s)(a \<mapsto> g')\<rparr>"
    assume k: "route_lookup (hc_router ?s) k = Some (ViaGroup b)"
    show "\<exists>n g. hc_groups ?s n = Some b \<and> hc_heap ?s b = Some g \<and> hg_pxyNames g \<noteq> [] \<and> hg_key g = k"
    proof (cases "b = a")
      case True
      then have "k = hg_key g'" using k old [of k] by (cases "k = hg_key g'") simp_all
      then show ?thesis using True n g' by auto
    next
      case False
      then show ?thesis using D(5) [of k b] k other [OF False] by auto
    qed
  qed (use D a r in auto)
qed

lemma routers_Add_lookup:
  assumes "routers_inv r" and "routers_Add d l u p r = Inr r'"
  shows "routers_inv r'" and "route_lookup r' = (route_lookup r)((to_lower d, l, u) \<mapsto> p)"
    and "route_lookup r (to_lower d, l, u) = None"
  using routes.add_Inr [OF assms(1), where k = "(d, l, u)" and v = p and s' = r'] assms(2) by simp_all

lemma routers_Del_lookup:
  assumes "routers_inv r"
  shows "routers_inv (routers_Del d l u r)"
    and "route_lookup (routers_Del d l u r) = (route_lookup r)((to_lower d, l, u) := None)"
  using routes.invar_del [OF assms, where k = "(d, l, u)"] routes.lookup_del [OF assms, where k = "(d, l, u)"] by simp_all

lemma hg_Register_inv:
  assumes inv: "hc_inv s" and n: "hc_groups s grp = Some a"
  shows "hc_inv (snd (hg_Register a proxyName grp groupKey rc s))"
proof -
  note D = hc_invD [OF inv]
  obtain g where g: "hc_heap s a = Some g" "hg_wf g"
    and m: "hg_pxyNames g \<noteq> [] \<Longrightarrow> hg_group g = grp \<and> route_lookup (hc_router s) (hg_key g) = Some (ViaGroup a)"
    using D(4) [OF n] by auto
  have only: "k = hg_key g" if "route_lookup (hc_router s) k = Some (ViaGroup a)" for k
    using D(5) [OF that] g by auto
  show ?thesis
  proof (cases "hg_createFuncs g = []")
    case True
    then have e: "hg_pxyNames g = []" using hg_wf_empty g by blast
    then have no: "route_lookup (hc_router s) k \<noteq> Some (ViaGroup a)" for k
      using D(5) [of k a] g by auto
    let ?g = "g\<lparr>hg_group := grp, hg_groupKey := groupKey, hg_domain := gr_domain rc,
        hg_location := gr_location rc, hg_routeByHTTPUser := gr_routeByHTTPUser rc\<rparr>"
    obtain g' where g': "hg_add_member proxyName rc ?g = Inr g'"
      using hg_add_member_empty [of ?g] True by auto
    have wf: "hg_wf ?g" using g(2) by (simp add: hg_wf_def)
    note G = hg_add_member_wf [OF wf g']
    have k: "hg_key g' = (to_lower (gr_domain rc), gr_location rc, gr_routeByHTTPUser rc)"
      using G by (simp add: hg_key_def)
    show ?thesis
    proof (cases "routers_Add (gr_domain rc) (gr_location rc) (gr_routeByHTTPUser rc) (ViaGroup a) (hc_router s)")
      case (Inl x)
      then show ?thesis using True g inv by (simp add: hg_Register_def)
    next
      case (Inr r)
      note R = routers_Add_lookup [OF D(1) Inr]
      have "hc_inv (s\<lparr>hc_router := r, hc_heap := (hc_heap s)(a \<mapsto> g')\<rparr>)"
        by (rule hc_inv_update [OF inv n R(1)]) (use G R k no in auto)
      then show ?thesis using True g Inr g' by (simp add: hg_Register_def Let_def)
    qed
  next
    case False
    then have ne: "hg_pxyNames g \<noteq> []" using hg_wf_empty g by blast
    show ?thesis
    proof (cases "hg_add_member proxyName rc g")
      case (Inl x)
      then show ?thesis using False g inv by (simp add: hg_Register_def)
    next
      case (Inr g')
      note G = hg_add_member_wf [OF g(2) Inr]
      have "hc_inv (s\<lparr>hc_router := hc_router s, hc_heap := (hc_heap s)(a \<mapsto> g')\<rparr>)"
        by (rule hc_inv_update [OF inv n D(1)]) (use G m [OF ne] only in auto)
      then show ?thesis using False g Inr inv by (simp add: hg_Register_def)
    qed
  qed
qed

lemma hc_Register_inv [inv_intros]:
  "hc_inv s \<Longrightarrow> hc_inv (snd (hc_Register proxyName grp groupKey rc s))"
  using hc_get_group_inv [of s grp] hg_Register_inv by (auto simp: hc_Register_def split: prod.splits)

lemma hc_UnRegister_inv:
  assumes inv: "hc_inv s" and n: "hc_groups s grp = Some a" and g: "hc_heap s a = Some g"
    and p: "p \<in> set (hg_pxyNames g)"
  shows "hc_inv (hc_UnRegister p grp s)"
proof -
  note D = hc_invD [OF inv]
  let ?g = "g\<lparr>hg_createFuncs := filter (\<lambda>q. fst q \<noteq> p) (hg_createFuncs g), hg_pxyNames := remove1 p (hg_pxyNames g)\<rparr>"
  have G: "hg_wf g" "hg_group g = grp" "route_lookup (hc_router s) (hg_key g) = Some (ViaGroup a)"
    using D(4) [OF n] g p by (auto simp: empty_iff)
  have wf: "hg_wf ?g" using G(1) by (auto simp: hg_wf_def distinct_map_filter)
  have k: "hg_key ?g = hg_key g" by (simp add: hg_key_def)
  have only: "k = hg_key g" if "route_lookup (hc_router s) k = Some (ViaGroup a)" for k
    using D(5) [OF that] g by auto
  show ?thesis
  proof (cases "hg_pxyNames ?g = []")
    case False
    then have "length (hg_createFuncs ?g) \<noteq> 0" using hg_wf_empty [OF wf] by simp
    moreover have "hc_inv (s\<lparr>hc_router := hc_router s, hc_heap := (hc_heap s)(a \<mapsto> ?g)\<rparr>)"
    proof (rule hc_inv_update [OF inv n D(1) wf False], unfold k)
      show "hg_group ?g = grp" using G by simp
      show "route_lookup (hc_router s) (hg_key g) = Some (ViaGroup a)" by (rule G)
      show "route_lookup (hc_router s) k = route_lookup (hc_router s) k \<and>
          route_lookup (hc_router s) k \<noteq> Some (ViaGroup a)" if "k \<noteq> hg_key g" for k
        using only that by blast
      show "b = a" if "route_lookup (hc_router s) (hg_key g) = Some (ViaGroup b)" for b
        using that G(3) by simp
    qed
    ultimately show ?thesis using n g by (simp add: hc_UnRegister_def hg_UnRegister_def Let_def)
  next
    case True
    then have z: "length (hg_createFuncs ?g) = 0" using hg_wf_empty [OF wf] by simp
    let ?r = "routers_Del (hg_domain g) (hg_location g) (hg_routeByHTTPUser g) (hc_router s)"
    note R = routers_Del_lookup [OF D(1), of "hg_domain g" "hg_location g" "hg_routeByHTTPUser g", folded hg_key_def]
    let ?s = "s\<lparr>hc_heap := (hc_heap s)(a \<mapsto> ?g), hc_router := ?r, hc_groups := (hc_groups s)(grp := None)\<rparr>"
    have u: "hc_UnRegister p grp s = ?s"
      using n g z by (simp add: hc_UnRegister_def hg_UnRegister_def Let_def)
    have ab: "b \<noteq> a" if "hc_groups s m = Some b" "m \<noteq> grp" for m b
      using D(3) [OF n] that by auto
    show ?thesis
      unfolding u
    proof (rule hc_invI)
      fix m b assume "hc_groups ?s m = Some b"
      then have m: "hc_groups s m = Some b" "m \<noteq> grp" by (auto split: if_splits)
      obtain h where h: "hc_heap s b = Some h" "hg_wf h" "hg_pxyNames h \<noteq> [] \<longrightarrow> hg_group h = m \<and>
          route_lookup (hc_router s) (hg_key h) = Some (ViaGroup b)"
        using D(4) [OF m(1)] by auto
      have "hg_key h \<noteq> hg_key g" if "hg_pxyNames h \<noteq> []" using h(3) G(3) ab [OF m] that by auto
      then show "\<exists>g. hc_heap ?s b = Some g \<and> hg_wf g \<and>
          (hg_pxyNames g \<noteq> [] \<longrightarrow> hg_group g = m \<and> route_lookup (hc_router ?s) (hg_key g) = Some (ViaGroup b))"
        using h ab [OF m] R(2) by auto
    next
      fix k b assume "route_lookup (hc_router ?s) k = Some (ViaGroup b)"
      then have kb: "k \<noteq> hg_key g" "route_lookup (hc_router s) k = Some (ViaGroup b)"
        using R(2) by (auto split: if_splits)
      then obtain m h where m: "hc_groups s m = Some b" "hc_heap s b = Some h" "hg_pxyNames h \<noteq> []" "hg_key h = k"
        using D(5) by blast
      then have "m \<noteq> grp" using n g kb(1) by auto
      then show "\<exists>n g. hc_groups ?s n = Some b \<and> hc_heap ?s b = Some g \<and> hg_pxyNames g \<noteq> [] \<and> hg_key g = k"
        using m ab by auto
    next
      fix m1 m2 b assume "hc_groups ?s m1 = Some b" "hc_groups ?s m2 = Some b"
      then show "m1 = m2" using D(3) [of m1 b m2] by (simp split: if_splits)
    qed (use D(2) R(1) g in \<open>auto split: if_splits\<close>)
  qed
qed

lemma add_direct_inv:
  assumes inv: "hc_inv s" and r: "routers_Add d l u (Direct f) (hc_router s) = Inr r"
  shows "hc_inv (s\<lparr>hc_router := r\<rparr>)"
proof -
  note D = hc_invD [OF inv] and R = routers_Add_lookup [OF hc_invD(1) [OF inv] r]
  have "route_lookup r k = Some (ViaGroup b) \<longleftrightarrow> route_lookup (hc_router s) k = Some (ViaGroup b)" for k b
    using R(2,3) by auto
  then show ?thesis using D(2-5) R(1) by (intro hc_invI) auto
qed

lemma del_direct_inv:
  assumes inv: "hc_inv s" and r: "route_lookup (hc_router s) (to_lower d, l, u) = Some (Direct f)"
  shows "hc_inv (s\<lparr>hc_router := routers_Del d l u (hc_router s)\<rparr>)"
proof -
  note D = hc_invD [OF inv] and R = routers_Del_lookup [OF hc_invD(1) [OF inv], of d l u]
  have "route_lookup (routers_Del d l u (hc_router s)) k = Some (ViaGroup b) \<longleftrightarrow>
      route_lookup (hc_router s) k = Some (ViaGroup b)" for k b
    using R(2) r by auto
  then show ?thesis using D(2-5) R(1) by (intro hc_invI) auto
qed

lemma hg_chooseEndpoint_sel:
  "hg_pxyNames (snd (hg_chooseEndpoint g)) = hg_pxyNames g" "hg_wf (snd (hg_chooseEndpoint g)) = hg_wf g"
  "hg_key (snd (hg_chooseEndpoint g)) = hg_key g" "hg_group (snd (hg_chooseEndpoint g)) = hg_group g"
  "hg_index (snd (hg_chooseEndpoint g)) = hg_index g + 1"
  by (simp_all add: hg_chooseEndpoint_def Let_def hg_wf_def hg_key_def split: choice.splits)

lemma choose_inv:
  assumes inv: "hc_inv s" and g: "hc_heap s a = Some g"
  shows "hc_inv (s\<lparr>hc_heap := (hc_heap s)(a \<mapsto> snd (hg_chooseEndpoint g))\<rparr>)"
proof (rule hc_invI)
  note D = hc_invD [OF inv]
  let ?s = "s\<lparr>hc_heap := (hc_heap s)(a \<mapsto> snd (hg_chooseEndpoint g))\<rparr>"
  show "hc_heap ?s b = None" if "hc_next ?s \<le> b" for b using D(2) [of b] g that by auto
  show "\<exists>h. hc_heap ?s b = Some h \<and> hg_wf h \<and>
      (hg_pxyNames h \<noteq> [] \<longrightarrow> hg_group h = n \<and> route_lookup (hc_router ?s) (hg_key h) = Some (ViaGroup b))"
    if "hc_groups ?s n = Some b" for n b
    using D(4) [of n b] that g by (auto simp: hg_chooseEndpoint_sel)
  show "\<exists>n h. hc_groups ?s n = Some b \<and> hc_heap ?s b = Some h \<and> hg_pxyNames h \<noteq> [] \<and> hg_key h = k"
    if "route_lookup (hc_router ?s) k = Some (ViaGroup b)" for k b
    using D(5) [of k b] that g by (auto simp: hg_chooseEndpoint_sel)
qed (use hc_invD(1,3) [OF inv] in auto)

lemma hc_reachable_inv: "hc_reachable s \<Longrightarrow> hc_inv s"
proof (induction rule: hc_reachable.induct)
  case (step s s')
  from step(2) step.IH show ?case
    by (cases rule: hc_step.cases)
      (auto intro: hc_Register_inv hc_UnRegister_inv add_direct_inv del_direct_inv choose_inv)
qed (rule NewHTTPGroupController_inv)

section \<open>Round robin\<close>

fun choose_n :: "nat \<Rightarrow> 'f http_group \<Rightarrow> string choice list" where
  "choose_n 0 g = []"
| "choose_n (Suc k) g = fst (hg_chooseEndpoint g) # choose_n k (snd (hg_chooseEndpoint g))"

lemma sint_small:
  assumes "unat w < 2 ^ 63"
  shows "sint (w :: 64 word) = int (unat w)"
proof -
  have u: "uint w = int (unat w)" by simp
  have "int (unat w) < int (2 ^ 63)" using assms by (simp only: of_nat_less_iff)
  then have "signed_take_bit 63 (int (unat w)) = int (unat w)"
    by (intro signed_take_bit_int_eq_self) (simp_all add: order_trans [OF _ unsigned_greater_eq])
  then show ?thesis by (simp only: sint_uint u) simp
qed

lemma chooseEndpoint_nth:
  assumes "hg_pxyNames g \<noteq> []" and "[] \<notin> set (hg_pxyNames g)" and "unat (hg_index g) + 1 < 2 ^ 63"
  shows "fst (hg_chooseEndpoint g) =
     Chosen (hg_pxyNames g ! ((unat (hg_index g) + 1) mod length (hg_pxyNames g)))"
proof -
  let ?ns = "hg_pxyNames g"
  have u: "unat (hg_index g + 1) = unat (hg_index g) + 1"
    using assms(3) by (simp add: unat_word_ariths)
  then have i: "sint (hg_index g + 1) = int (unat (hg_index g) + 1)"
    using sint_small [of "hg_index g + 1"] assms(3) by simp
  have m: "nat (sint (hg_index g + 1) mod int (length ?ns)) = (unat (hg_index g) + 1) mod length ?ns"
    unfolding i by (simp only: zmod_int [symmetric] nat_int)
  have p: "\<not> sint (hg_index g + 1) < 0" unfolding i by (simp only: of_nat_less_0_iff not_False_eq_True)
  have "?ns ! ((unat (hg_index g) + 1) mod length ?ns) \<in> set ?ns" using assms(1) by simp
  then have "?ns ! ((unat (hg_index g) + 1) mod length ?ns) \<noteq> []" using assms(2) by metis
  then show ?thesis
    using assms(1) p by (simp add: hg_chooseEndpoint_def pick_member_def Let_def m)
qed

lemma choose_n_nth:
  assumes "hg_pxyNames g \<noteq> []" and "[] \<notin> set (hg_pxyNames g)" and "unat (hg_index g) + n < 2 ^ 63"
  shows "choose_n n g =
     map (\<lambda>k. Chosen (hg_pxyNames g ! ((unat (hg_index g) + 1 + k) mod length (hg_pxyNames g)))) [0..<n]"
  using assms
proof (induction n arbitrary: g)
  case (Suc n)
  have u: "unat (hg_index (snd (hg_chooseEndpoint g))) = unat (hg_index g) + 1"
    using Suc.prems(3) by (simp add: hg_chooseEndpoint_sel unat_word_ariths)
  have "choose_n n (snd (hg_chooseEndpoint g)) = map (\<lambda>k. Chosen (hg_pxyNames g !
      ((unat (hg_index g) + 1 + Suc k) mod length (hg_pxyNames g)))) [0..<n]"
    using Suc.IH [of "snd (hg_chooseEndpoint g)"] Suc.prems u by (simp add: hg_chooseEndpoint_sel)
  then show ?case
    using chooseEndpoint_nth [of g] Suc.prems by (simp add: upt_conv_Cons map_Suc_upt [symmetric] del: upt_Suc)
qed simp

section \<open>Properties\<close>

text \<open>C22: in every state that calls one after the other can reach, the route of a group exists exactly while
  the group has members: a group with members is found under its own name and its route leads to
  it, every route to a group leads to one with members, and the members are the proxies whose
  connection functions it has.\<close>

theorem group_route_iff_members:
  assumes "hc_reachable s"
  shows "(\<forall>n a g. hc_groups s n = Some a \<and> hc_heap s a = Some g \<and> hg_pxyNames g \<noteq> [] \<longrightarrow>
        hg_group g = n \<and>
        route_lookup (hc_router s) (to_lower (hg_domain g), hg_location g, hg_routeByHTTPUser g) = Some (ViaGroup a) \<and>
        distinct (hg_pxyNames g) \<and> set (hg_pxyNames g) = fst ` set (hg_createFuncs g)) \<and>
    (\<forall>k a. route_lookup (hc_router s) k = Some (ViaGroup a) \<longrightarrow>
        (\<exists>n g. hc_groups s n = Some a \<and> hc_heap s a = Some g \<and> hg_pxyNames g \<noteq> [] \<and>
           k = (to_lower (hg_domain g), hg_location g, hg_routeByHTTPUser g)))"
proof (intro conjI allI impI)
  note D = hc_invD(4,5) [OF hc_reachable_inv [OF assms]]
  fix n a g
  assume "hc_groups s n = Some a \<and> hc_heap s a = Some g \<and> hg_pxyNames g \<noteq> []"
  then have "hg_wf g" "hg_group g = n" "route_lookup (hc_router s) (hg_key g) = Some (ViaGroup a)"
    using D(1) [of n a] by auto
  then show "hg_group g = n" "distinct (hg_pxyNames g)" "set (hg_pxyNames g) = fst ` set (hg_createFuncs g)"
      "route_lookup (hc_router s) (to_lower (hg_domain g), hg_location g, hg_routeByHTTPUser g) = Some (ViaGroup a)"
    by (simp_all add: hg_wf_def hg_key_def)
next
  fix k a
  assume "route_lookup (hc_router s) k = Some (ViaGroup a)"
  from hc_invD(5) [OF hc_reachable_inv [OF assms] this]
  show "\<exists>n g. hc_groups s n = Some a \<and> hc_heap s a = Some g \<and> hg_pxyNames g \<noteq> [] \<and>
      k = (to_lower (hg_domain g), hg_location g, hg_routeByHTTPUser g)"
    by (auto simp: hg_key_def)
qed

definition route_demo :: "nat group_route" where
  "route_demo = \<lparr>gr_domain = ''a.com'', gr_location = ''/'', gr_routeByHTTPUser = [], gr_createConn = 7\<rparr>"

definition hc_demo :: "nat http_ctl" where
  "hc_demo = snd (hc_Register ''p1'' ''g'' ''k'' route_demo NewHTTPGroupController)"

lemma hc_demo_reachable: "hc_reachable hc_demo"
  unfolding hc_demo_def by (rule hc_reachable.step [OF hc_reachable.start hc_step.register])

lemma hc_demo_route: "route_lookup (hc_router hc_demo) (''a.com'', ''/'', []) = Some (ViaGroup 0)"
  by code_simp

theorem group_route_iff_members_witness:
  "\<exists>n g. hc_groups hc_demo n = Some 0 \<and> hc_heap hc_demo 0 = Some g \<and> hg_pxyNames g \<noteq> [] \<and>
     (''a.com'', ''/'', []) = (to_lower (hg_domain g), hg_location g, hg_routeByHTTPUser g)"
  using group_route_iff_members [OF hc_demo_reachable] hc_demo_route by blast

text \<open>requests go round the members of a group: as many consecutive choices as there are members choose
  every member exactly once, as long as the 64-bit index has not reached its sign bit.\<close>

theorem chooseEndpoint_round_robin:
  assumes "hg_pxyNames g \<noteq> []" and "[] \<notin> set (hg_pxyNames g)"
    and "unat (hg_index g) + length (hg_pxyNames g) < 2 ^ 63"
  shows "mset (choose_n (length (hg_pxyNames g)) g) = mset (map Chosen (hg_pxyNames g))"
proof -
  let ?ns = "hg_pxyNames g" and ?c = "unat (hg_index g) + 1"
  have "map (\<lambda>k. ?ns ! ((?c + k) mod length ?ns)) [0..<length ?ns] = rotate ?c ?ns"
    by (rule nth_equalityI) (simp_all add: nth_rotate del: rotate_Suc)
  then have "choose_n (length ?ns) g = map Chosen (rotate ?c ?ns)"
    using choose_n_nth [OF assms] by (metis (no_types, lifting) list.map_comp comp_def map_cong)
  moreover have "mset (rotate ?c ?ns) = mset ?ns"
    by (metis append_take_drop_id mset_append rotate_drop_take union_commute)
  ultimately show ?thesis by (metis mset_map)
qed

theorem chooseEndpoint_round_robin_witness:
  "mset (choose_n 3 (NewHTTPGroup\<lparr>hg_pxyNames := [''a'', ''b'', ''c'']\<rparr>)) =
   mset [Chosen ''a'', Chosen ''b'', Chosen ''c'']"
proof -
  have "length [''a'', ''b'', ''c''] = 3" by simp
  then show ?thesis
    using chooseEndpoint_round_robin [of "NewHTTPGroup\<lparr>hg_pxyNames := [''a'', ''b'', ''c'']\<rparr>"]
    by (simp add: NewHTTPGroup_def del: list.size)
qed

text \<open>An interleaving of two calls of \<open>Register\<close> and \<open>UnRegister\<close>: the second proxy takes the group
  object, then the first proxy leaves and the group is dropped, then the second one registers in it.\<close>

definition hc_race :: "nat http_ctl" where
  "hc_race =
     (case hc_get_group ''g'' hc_demo of (a, s1) \<Rightarrow>
        (let s2 = hc_UnRegister ''p1'' ''g'' s1; s3 = snd (hg_Register a ''p2'' ''g'' ''k'' route_demo s2)
         in hc_UnRegister ''p2'' ''g'' s3))"

text \<open>the two locks of \<open>Register\<close> leave a gap. When the last member leaves between them, the new member
  registers in a group that the controller does not know any more: after all proxies have left,
  the route is still there and the domain stays taken.\<close>

theorem register_race_leaks_route:
  "hc_groups hc_race ''g'' = None \<and>
   route_lookup (hc_router hc_race) (''a.com'', ''/'', []) = Some (ViaGroup 0) \<and>
   fst (hc_Register ''p3'' ''g'' ''k'' route_demo hc_race) = Some (ErrRoute ErrRouterConfigConflict)"
  by code_simp

end
