(* ===== verification/Group_Listener.thy ===== *)
theory Group_Listener
  imports Ports Vhost Group_Http
begin

text \<open>
  Load balancing of TCP, HTTPS and tcpmux proxies: \<open>server/group/tcp.go\<close>, \<open>https.go\<close> and
  \<open>tcpmux.go\<close>. The members of a group are listeners that take connections from one channel; the
  first member opens the real listener, the last one closes it. The three files have the same
  controller and group bookkeeping, modelled once and parameterised by what the members must agree
  on (\<open>'c\<close>) and by what the real listener lives in (\<open>'w\<close>: the port manager or a multiplexer). As in
  the HTTP groups, \<open>Listen\<close> takes the group object under one lock and joins it under another.
\<close>

section \<open>Groups of listeners\<close>

record 'c lgroup =
  lg_group :: string
  lg_groupKey :: string
  lg_conf :: 'c
  lg_lns :: "nat list"
  lg_chClosed :: bool

record ('c, 'w) lg_ctl =
  lc_groups :: "string \<rightharpoonup> nat"
  lc_heap :: "nat \<rightharpoonup> 'c lgroup"
  lc_next :: nat
  lc_nextLn :: nat
  lc_world :: 'w

definition new_ctl :: "'w \<Rightarrow> ('c, 'w) lg_ctl" where
  "new_ctl w = \<lparr>lc_groups = Map.empty, lc_heap = Map.empty, lc_next = 0, lc_nextLn = 0, lc_world = w\<rparr>"

definition new_group :: "'c \<Rightarrow> 'c lgroup" where
  "new_group c0 = \<lparr>lg_group = [], lg_groupKey = [], lg_conf = c0, lg_lns = [], lg_chClosed = False\<rparr>"

text \<open>First step of the controllers' \<open>Listen\<close>; \<open>c0\<close> holds the zero values of the fields.\<close>

definition lc_get_group :: "'c \<Rightarrow> string \<Rightarrow> ('c, 'w) lg_ctl \<Rightarrow> nat \<times> ('c, 'w) lg_ctl" where
  "lc_get_group c0 grp s =
     (case lc_groups s grp of
        Some a \<Rightarrow> (a, s)
      | None \<Rightarrow>
          (lc_next s, s\<lparr>lc_heap := (lc_heap s)(lc_next s \<mapsto> new_group c0), lc_next := Suc (lc_next s),
                        lc_groups := (lc_groups s)(grp \<mapsto> lc_next s)\<rparr>))"

definition RemoveGroup :: "string \<Rightarrow> ('c, 'w) lg_ctl \<Rightarrow> ('c, 'w) lg_ctl" where
  "RemoveGroup grp s = s\<lparr>lc_groups := (lc_groups s)(grp := None)\<rparr>"

text \<open>The first listener: the real one was opened, which changed the world to \<open>w\<close>. An open channel is
  kept, and so is a closed one: it is only made when it is nil.\<close>

definition lg_open :: "nat \<Rightarrow> 'c lgroup \<Rightarrow> string \<Rightarrow> string \<Rightarrow> 'c \<Rightarrow> 'w \<Rightarrow> ('c, 'w) lg_ctl \<Rightarrow> nat \<times> ('c, 'w) lg_ctl" where
  "lg_open a g grp groupKey c w s =
     (lc_nextLn s,
      s\<lparr>lc_heap := (lc_heap s)(a \<mapsto> g\<lparr>lg_group := grp, lg_groupKey := groupKey, lg_conf := c,
                                      lg_lns := lg_lns g @ [lc_nextLn s]\<rparr>),
        lc_nextLn := Suc (lc_nextLn s), lc_world := w\<rparr>)"

text \<open>A further listener.\<close>

definition lg_join :: "nat \<Rightarrow> 'c lgroup \<Rightarrow> ('c, 'w) lg_ctl \<Rightarrow> nat \<times> ('c, 'w) lg_ctl" where
  "lg_join a g s =
     (lc_nextLn s,
      s\<lparr>lc_heap := (lc_heap s)(a \<mapsto> g\<lparr>lg_lns := lg_lns g @ [lc_nextLn s]\<rparr>), lc_nextLn := Suc (lc_nextLn s)\<rparr>)"

text \<open>\<open>CloseListener\<close>; \<open>shut\<close> closes the real listener of the configuration. Closing a closed
  channel panics (\<open>None\<close>).\<close>

definition CloseListener ::
  "('c \<Rightarrow> 'w \<Rightarrow> 'w option) \<Rightarrow> nat \<Rightarrow> nat \<Rightarrow> ('c, 'w) lg_ctl \<Rightarrow> ('c, 'w) lg_ctl option" where
  "CloseListener shut a ln s =
     (case lc_heap s a of
        None \<Rightarrow> Some s
      | Some g \<Rightarrow>
          (let g' = g\<lparr>lg_lns := remove1 ln (lg_lns g)\<rparr> in
           if lg_lns g' \<noteq> [] then Some (s\<lparr>lc_heap := (lc_heap s)(a \<mapsto> g')\<rparr>)
           else if lg_chClosed g then None
           else (case shut (lg_conf g) (lc_world s) of
                   None \<Rightarrow> None
                 | Some w \<Rightarrow>
                     Some (RemoveGroup (lg_group g)
                       (s\<lparr>lc_heap := (lc_heap s)(a \<mapsto> g'\<lparr>lg_chClosed := True\<rparr>), lc_world := w\<rparr>)))))"

section \<open>TCP groups\<close>

record tcp_conf =
  tc_addr :: string
  tc_port :: int
  tc_realPort :: int

datatype listen_error = GroupErr group_error | PortErr port_error | ListenErr | MuxErr router_error | UnknownMultiplexer

type_synonym tcp_ctl = "(tcp_conf, port_mgr) lg_ctl"

definition tcp_conf0 :: tcp_conf where
  "tcp_conf0 = \<lparr>tc_addr = [], tc_port = 0, tc_realPort = 0\<rparr>"

text \<open>\<open>TCPGroup.Listen\<close>: \<open>env\<close>, \<open>now\<close>, \<open>ks\<close> as for \<open>Acquire\<close>; \<open>canListen\<close> is the outcome of
  \<open>net.Listen\<close> on the requested port.\<close>

definition tcp_group_Listen ::
  "net_env \<Rightarrow> int \<Rightarrow> int list \<Rightarrow> (int \<Rightarrow> bool) \<Rightarrow> nat \<Rightarrow> string \<Rightarrow> string \<Rightarrow> string \<Rightarrow> string \<Rightarrow> int \<Rightarrow> tcp_ctl \<Rightarrow>
   (listen_error + nat \<times> int) \<times> tcp_ctl" where
  "tcp_group_Listen env now ks canListen a proxyName grp groupKey addr port s =
     (case lc_heap s a of
        None \<Rightarrow> (Inl ListenErr, s)
      | Some g \<Rightarrow>
          if length (lg_lns g) = 0 then
            (case Acquire env now ks proxyName port (lc_world s) of
               (Inl e, pm) \<Rightarrow> (Inl (PortErr e), s\<lparr>lc_world := pm\<rparr>)
             | (Inr realPort, pm) \<Rightarrow>
                 if \<not> canListen port then (Inl ListenErr, s\<lparr>lc_world := pm\<rparr>)
                 else (case lg_open a g grp groupKey \<lparr>tc_addr = addr, tc_port = port, tc_realPort = realPort\<rparr> pm s of
                         (ln, s') \<Rightarrow> (Inr (ln, realPort), s')))
          else if lg_group g \<noteq> grp \<or> tc_addr (lg_conf g) \<noteq> addr then (Inl (GroupErr ErrGroupParamsInvalid), s)
          else if tc_port (lg_conf g) \<noteq> port then (Inl (GroupErr ErrGroupDifferentPort), s)
          else if lg_groupKey g \<noteq> groupKey then (Inl (GroupErr ErrGroupAuthFailed), s)
          else (case lg_join a g s of (ln, s') \<Rightarrow> (Inr (ln, tc_realPort (lg_conf g)), s')))"

definition tcp_ctl_Listen ::
  "net_env \<Rightarrow> int \<Rightarrow> int list \<Rightarrow> (int \<Rightarrow> bool) \<Rightarrow> string \<Rightarrow> string \<Rightarrow> string \<Rightarrow> string \<Rightarrow> int \<Rightarrow> tcp_ctl \<Rightarrow>
   (listen_error + nat \<times> int) \<times> tcp_ctl" where
  "tcp_ctl_Listen env now ks canListen proxyName grp groupKey addr port s =
     (case lc_get_group tcp_conf0 grp s of
        (a, s') \<Rightarrow> tcp_group_Listen env now ks canListen a proxyName grp groupKey addr port s')"

definition tcp_group_CloseListener :: "int \<Rightarrow> nat \<Rightarrow> nat \<Rightarrow> tcp_ctl \<Rightarrow> tcp_ctl option" where
  "tcp_group_CloseListener now a ln s =
     CloseListener (\<lambda>c pm. Some (Release now (tc_realPort c) pm)) a ln s"

section \<open>HTTPS groups\<close>

record https_conf =
  hs_domain :: string
  hs_ln :: nat

type_synonym https_ctl = "(https_conf, muxer) lg_ctl"

definition https_conf0 :: https_conf where
  "https_conf0 = \<lparr>hs_domain = [], hs_ln = 0\<rparr>"

definition https_group_Listen ::
  "nat \<Rightarrow> string \<Rightarrow> string \<Rightarrow> 'f route_config \<Rightarrow> https_ctl \<Rightarrow> (listen_error + nat) \<times> https_ctl" where
  "https_group_Listen a grp groupKey rc s =
     (case lc_heap s a of
        None \<Rightarrow> (Inl ListenErr, s)
      | Some g \<Rightarrow>
          if length (lg_lns g) = 0 then
            (case mux_Listen rc (lc_world s) of
               (Inl e, v) \<Rightarrow> (Inl (MuxErr e), s\<lparr>lc_world := v\<rparr>)
             | (Inr l, v) \<Rightarrow>
                 (case lg_open a g grp groupKey \<lparr>hs_domain = rc_Domain rc, hs_ln = l\<rparr> v s of (ln, s') \<Rightarrow> (Inr ln, s')))
          else if lg_group g \<noteq> grp \<or> hs_domain (lg_conf g) \<noteq> rc_Domain rc then (Inl (GroupErr ErrGroupParamsInvalid), s)
          else if lg_groupKey g \<noteq> groupKey then (Inl (GroupErr ErrGroupAuthFailed), s)
          else (case lg_join a g s of (ln, s') \<Rightarrow> (Inr ln, s')))"

definition https_ctl_Listen ::
  "string \<Rightarrow> string \<Rightarrow> 'f route_config \<Rightarrow> https_ctl \<Rightarrow> (listen_error + nat) \<times> https_ctl" where
  "https_ctl_Listen grp groupKey rc s =
     (case lc_get_group https_conf0 grp s of (a, s') \<Rightarrow> https_group_Listen a grp groupKey rc s')"

definition https_group_CloseListener :: "nat \<Rightarrow> nat \<Rightarrow> https_ctl \<Rightarrow> https_ctl option" where
  "https_group_CloseListener a ln s = CloseListener (\<lambda>c v. mux_Close (hs_ln c) v) a ln s"

section \<open>tcpmux groups\<close>

record tcpmux_conf =
  tm_domain :: string
  tm_routeByHTTPUser :: string
  tm_username :: string
  tm_password :: string
  tm_ln :: nat

type_synonym tcpmux_ctl = "(tcpmux_conf, muxer) lg_ctl"

definition tcpmux_conf0 :: tcpmux_conf where
  "tcpmux_conf0 = \<lparr>tm_domain = [], tm_routeByHTTPUser = [], tm_username = [], tm_password = [], tm_ln = 0\<rparr>"

definition HTTPConnectListen ::
  "nat \<Rightarrow> string \<Rightarrow> string \<Rightarrow> 'f route_config \<Rightarrow> tcpmux_ctl \<Rightarrow> (listen_error + nat) \<times> tcpmux_ctl" where
  "HTTPConnectListen a grp groupKey rc s =
     (case lc_heap s a of
        None \<Rightarrow> (Inl ListenErr, s)
      | Some g \<Rightarrow>
          if length (lg_lns g) = 0 then
            (case mux_Listen rc (lc_world s) of
               (Inl e, v) \<Rightarrow> (Inl (MuxErr e), s\<lparr>lc_world := v\<rparr>)
             | (Inr l, v) \<Rightarrow>
                 (case lg_open a g grp groupKey
                    \<lparr>tm_domain = rc_Domain rc, tm_routeByHTTPUser = rc_RouteByHTTPUser rc,
                     tm_username = rc_Username rc, tm_password = rc_Password rc, tm_ln = l\<rparr> v s of
                    (ln, s') \<Rightarrow> (Inr ln, s')))
          else if lg_group g \<noteq> grp \<or> tm_domain (lg_conf g) \<noteq> rc_Domain rc \<or>
                  tm_routeByHTTPUser (lg_conf g) \<noteq> rc_RouteByHTTPUser rc \<or>
                  tm_username (lg_conf g) \<noteq> rc_Username rc \<or> tm_password (lg_conf g) \<noteq> rc_Password rc
               then (Inl (GroupErr ErrGroupParamsInvalid), s)
          else if lg_groupKey g \<noteq> groupKey then (Inl (GroupErr ErrGroupAuthFailed), s)
          else (case lg_join a g s of (ln, s') \<Rightarrow> (Inr ln, s')))"

definition tcpmux_ctl_Listen ::
  "string \<Rightarrow> string \<Rightarrow> string \<Rightarrow> 'f route_config \<Rightarrow> tcpmux_ctl \<Rightarrow> (listen_error + nat) \<times> tcpmux_ctl" where
  "tcpmux_ctl_Listen multiplexer grp groupKey rc s =
     (case lc_get_group tcpmux_conf0 grp s of
        (a, s') \<Rightarrow>
          if multiplexer = ''httpconnect'' then HTTPConnectListen a grp groupKey rc s'
          else (Inl UnknownMultiplexer, s'))"

definition tcpmux_group_CloseListener :: "nat \<Rightarrow> nat \<Rightarrow> tcpmux_ctl \<Rightarrow> tcpmux_ctl option" where
  "tcpmux_group_CloseListener a ln s = CloseListener (\<lambda>c v. mux_Close (tm_ln c) v) a ln s"

section \<open>Invariant of the bookkeeping\<close>

text \<open>Groups of the map are distinct objects with an open channel; a group with members is the one of its
  name; a listener is a member of one group only, once.\<close>

definition lc_inv :: "('c, 'w) lg_ctl \<Rightarrow> bool" where
  "lc_inv s \<longleftrightarrow>
     (\<forall>a \<ge> lc_next s. lc_heap s a = None) \<and>
     (\<forall>n m a. lc_groups s n = Some a \<and> lc_groups s m = Some a \<longrightarrow> n = m) \<and>
     (\<forall>n a. lc_groups s n = Some a \<longrightarrow> (\<exists>g. lc_heap s a = Some g \<and> \<not> lg_chClosed g)) \<and>
     (\<forall>a g. lc_heap s a = Some g \<and> lg_lns g \<noteq> [] \<longrightarrow> lc_groups s (lg_group g) = Some a) \<and>
     (\<forall>a g. lc_heap s a = Some g \<longrightarrow> distinct (lg_lns g) \<and> (\<forall>l \<in> set (lg_lns g). l < lc_nextLn s)) \<and>
     (\<forall>a b g h l. lc_heap s a = Some g \<and> lc_heap s b = Some h \<and> l \<in> set (lg_lns g) \<and> l \<in> set (lg_lns h) \<longrightarrow> a = b)"

lemma lc_invI:
  assumes "\<And>a. lc_next s \<le> a \<Longrightarrow> lc_heap s a = None"
    and "\<And>n m a. lc_groups s n = Some a \<Longrightarrow> lc_groups s m = Some a \<Longrightarrow> n = m"
    and "\<And>n a. lc_groups s n = Some a \<Longrightarrow> \<exists>g. lc_heap s a = Some g \<and> \<not> lg_chClosed g"
    and "\<And>a g. lc_heap s a = Some g \<Longrightarrow> lg_lns g \<noteq> [] \<Longrightarrow> lc_groups s (lg_group g) = Some a"
    and "\<And>a g. lc_heap s a = Some g \<Longrightarrow> distinct (lg_lns g) \<and> (\<forall>l \<in> set (lg_lns g). l < lc_nextLn s)"
    and "\<And>a b g h l. lc_heap s a = Some g \<Longrightarrow> lc_heap s b = Some h \<Longrightarrow> l \<in> set (lg_lns g) \<Longrightarrow>
           l \<in> set (lg_lns h) \<Longrightarrow> a = b"
  shows "lc_inv s"
  using assms unfolding lc_inv_def by blast

lemma lc_invD:
  assumes "lc_inv s"
  shows "\<And>a. lc_next s \<le> a \<Longrightarrow> lc_heap s a = None"
    and "\<And>n m a. lc_groups s n = Some a \<Longrightarrow> lc_groups s m = Some a \<Longrightarrow> n = m"
    and "\<And>n a. lc_groups s n = Some a \<Longrightarrow> \<exists>g. lc_heap s a = Some g \<and> \<not> lg_chClosed g"
    and "\<And>a g. lc_heap s a = Some g \<Longrightarrow> lg_lns g \<noteq> [] \<Longrightarrow> lc_groups s (lg_group g) = Some a"
    and "\<And>a g. lc_heap s a = Some g \<Longrightarrow> distinct (lg_lns g) \<and> (\<forall>l \<in> set (lg_lns g). l < lc_nextLn s)"
    and "\<And>a b g h l. lc_heap s a = Some g \<Longrightarrow> lc_heap s b = Some h \<Longrightarrow> l \<in> set (lg_lns g) \<Longrightarrow>
           l \<in> set (lg_lns h) \<Longrightarrow> a = b"
  using assms unfolding lc_inv_def by blast+

lemma new_ctl_inv: "lc_inv (new_ctl w)"
  by (rule lc_invI) (simp_all add: new_ctl_def)

lemma lc_get_group_inv:
  assumes "lc_inv s" and "lc_get_group c0 grp s = (a, s')"
  shows "lc_inv s'" and "lc_groups s' grp = Some a" and "lc_world s' = lc_world s"
proof -
  note D = lc_invD [OF assms(1)]
  show "lc_groups s' grp = Some a" "lc_world s' = lc_world s"
    using assms(2) by (auto simp: lc_get_group_def split: option.splits)
  show "lc_inv s'"
  proof (cases "lc_groups s grp")
    case (Some b)
    then show ?thesis using assms by (simp add: lc_get_group_def)
  next
    case None
    have f: "lc_heap s (lc_next s) = None" using D(1) by simp
    then have ne: "\<And>n. lc_groups s n \<noteq> Some (lc_next s)" using D(3) by fastforce
    have s': "s' = s\<lparr>lc_heap := (lc_heap s)(lc_next s \<mapsto> new_group c0), lc_next := Suc (lc_next s),
        lc_groups := (lc_groups s)(grp \<mapsto> lc_next s)\<rparr>"
      using assms(2) None by (auto simp: lc_get_group_def)
    show ?thesis
    proof (rule lc_invI)
      fix b g assume g: "lc_heap s' b = Some g" "lg_lns g \<noteq> []"
      then have "lc_heap s b = Some g" by (auto simp: s' new_group_def split: if_splits)
      then show "lc_groups s' (lg_group g) = Some b" using D(4) g(2) None by (auto simp: s')
    next
      fix b g assume g: "lc_heap s' b = Some g"
      then show "distinct (lg_lns g) \<and> (\<forall>l \<in> set (lg_lns g). l < lc_nextLn s')"
        using D(5) [of b g] by (auto simp: s' new_group_def split: if_splits)
    next
      fix b d g h l assume "lc_heap s' b = Some g" "lc_heap s' d = Some h" "l \<in> set (lg_lns g)" "l \<in> set (lg_lns h)"
      then show "b = d" using D(6) [of b g d h l] by (auto simp: s' new_group_def split: if_splits)
    next
      fix n b assume "lc_groups s' n = Some b"
      then show "\<exists>g. lc_heap s' b = Some g \<and> \<not> lg_chClosed g"
        using D(3) [of n b] ne by (auto simp: s' new_group_def split: if_splits)
    next
      fix n m b assume "lc_groups s' n = Some b" "lc_groups s' m = Some b"
      then show "n = m" using D(2) [of n b m] ne by (auto simp: s' split: if_splits)
    qed (use D(1) in \<open>simp add: s'\<close>)
  qed
qed

text \<open>Adding a new listener to a group of the map, opened or joined.\<close>

lemma lc_add_listener_inv:
  assumes inv: "lc_inv s" and a: "lc_groups s grp = Some a" and g: "lc_heap s a = Some g"
    and g': "lg_group g' = grp" "lg_chClosed g' = lg_chClosed g" "lg_lns g' = lg_lns g @ [lc_nextLn s]"
  shows "lc_inv (s\<lparr>lc_heap := (lc_heap s)(a \<mapsto> g'), lc_nextLn := Suc (lc_nextLn s), lc_world := w\<rparr>)" (is "lc_inv ?s")
proof -
  note D = lc_invD [OF inv]
  have open_g: "\<not> lg_chClosed g" using D(3) [OF a] g by auto
  have fresh: "lc_nextLn s \<notin> set (lg_lns h)" if "lc_heap s b = Some h" for b h using D(5) [OF that] by auto
  show ?thesis
  proof (rule lc_invI)
    fix b h assume "lc_heap ?s b = Some h" "lg_lns h \<noteq> []"
    then show "lc_groups ?s (lg_group h) = Some b" using D(4) [of b h] a g' by (auto split: if_splits)
  next
    fix b h assume "lc_heap ?s b = Some h"
    then show "distinct (lg_lns h) \<and> (\<forall>l \<in> set (lg_lns h). l < lc_nextLn ?s)"
      using D(5) [of b h] D(5) [OF g] g' fresh [OF g] by (auto split: if_splits)
  next
    fix b d h k l assume l: "lc_heap ?s b = Some h" "lc_heap ?s d = Some k" "l \<in> set (lg_lns h)" "l \<in> set (lg_lns k)"
    show "b = d"
    proof (cases "l = lc_nextLn s")
      case True
      then show ?thesis using l fresh by (auto split: if_splits)
    next
      case False
      obtain h' where h': "lc_heap s b = Some h'" "l \<in> set (lg_lns h')"
        using l(1,3) g g'(3) False by (cases "b = a") auto
      obtain k' where k': "lc_heap s d = Some k'" "l \<in> set (lg_lns k')"
        using l(2,4) g g'(3) False by (cases "d = a") auto
      show ?thesis by (rule D(6) [OF h'(1) k'(1) h'(2) k'(2)])
    qed
  next
    fix n b assume "lc_groups ?s n = Some b"
    then show "\<exists>h. lc_heap ?s b = Some h \<and> \<not> lg_chClosed h" using D(3) [of n b] open_g g' by auto
  qed (use D(1,2) g in auto)
qed

lemma lc_world_inv: "lc_inv s \<Longrightarrow> lc_inv (s\<lparr>lc_world := w\<rparr>)"
  by (simp add: lc_inv_def)

lemma CloseListener_inv:
  assumes inv: "lc_inv s" and g: "lc_heap s a = Some g" "ln \<in> set (lg_lns g)"
    and c: "CloseListener shut a ln s = Some s'"
  shows "lc_inv s'"
proof -
  note D = lc_invD [OF inv]
  have a: "lc_groups s (lg_group g) = Some a" using D(4) [OF g(1)] g(2) by (cases "lg_lns g") simp_all
  let ?g = "g\<lparr>lg_lns := remove1 ln (lg_lns g)\<rparr>"
  have sub: "set (lg_lns ?g) \<subseteq> set (lg_lns g)" by (simp add: set_remove1_subset)
  show ?thesis
  proof (cases "lg_lns ?g = []")
    case False
    then have s': "s' = s\<lparr>lc_heap := (lc_heap s)(a \<mapsto> ?g)\<rparr>"
      using c g by (simp add: CloseListener_def Let_def)
    show ?thesis
    proof (rule lc_invI)
      fix b h assume "lc_heap s' b = Some h"
      then show "distinct (lg_lns h) \<and> (\<forall>l \<in> set (lg_lns h). l < lc_nextLn s')"
        using D(5) [of b h] D(5) [OF g(1)] sub by (auto simp: s' split: if_splits)
    next
      fix b d h k l assume l: "lc_heap s' b = Some h" "lc_heap s' d = Some k" "l \<in> set (lg_lns h)" "l \<in> set (lg_lns k)"
      obtain h' where h': "lc_heap s b = Some h'" "l \<in> set (lg_lns h')"
        using l(1,3) g sub by (cases "b = a") (auto simp: s')
      obtain k' where k': "lc_heap s d = Some k'" "l \<in> set (lg_lns k')"
        using l(2,4) g sub by (cases "d = a") (auto simp: s')
      show "b = d" by (rule D(6) [OF h'(1) k'(1) h'(2) k'(2)])
    next
      fix b h assume "lc_heap s' b = Some h" "lg_lns h \<noteq> []"
      then show "lc_groups s' (lg_group h) = Some b" using D(4) [of b h] a by (auto simp: s' split: if_splits)
    next
      fix n b assume "lc_groups s' n = Some b"
      then show "\<exists>h. lc_heap s' b = Some h \<and> \<not> lg_chClosed h" using D(3) [of n b] g by (auto simp: s')
    qed (use D(1,2) g in \<open>auto simp: s'\<close>)
  next
    case True
    then obtain w where s': "s' = RemoveGroup (lg_group g) (s\<lparr>lc_heap := (lc_heap s)(a \<mapsto> ?g\<lparr>lg_chClosed := True\<rparr>), lc_world := w\<rparr>)"
      using c g by (auto simp: CloseListener_def Let_def split: if_splits option.splits)
    show ?thesis
    proof (rule lc_invI)
      fix b h assume "lc_heap s' b = Some h"
      then show "distinct (lg_lns h) \<and> (\<forall>l \<in> set (lg_lns h). l < lc_nextLn s')"
        using D(5) [of b h] True by (auto simp: s' RemoveGroup_def split: if_splits)
    next
      fix b d h k l assume "lc_heap s' b = Some h" "lc_heap s' d = Some k" "l \<in> set (lg_lns h)" "l \<in> set (lg_lns k)"
      then show "b = d" using D(6) [of b h d k l] True by (auto simp: s' RemoveGroup_def split: if_splits)
    next
      fix b h assume h: "lc_heap s' b = Some h" "lg_lns h \<noteq> []"
      then have "b \<noteq> a" "lc_heap s b = Some h" using True by (auto simp: s' RemoveGroup_def split: if_splits)
      then show "lc_groups s' (lg_group h) = Some b"
        using D(4) [of b h] h(2) a by (auto simp: s' RemoveGroup_def)
    next
      fix n b assume "lc_groups s' n = Some b"
      then have n: "n \<noteq> lg_group g" "lc_groups s n = Some b" by (auto simp: s' RemoveGroup_def split: if_splits)
      then have "b \<noteq> a" using D(2) [OF n(2), of "lg_group g"] a by (cases "b = a") simp_all
      then show "\<exists>h. lc_heap s' b = Some h \<and> \<not> lg_chClosed h"
        using D(3) [OF n(2)] by (auto simp: s' RemoveGroup_def)
    next
      fix n m b assume "lc_groups s' n = Some b" "lc_groups s' m = Some b"
      then show "n = m" using D(2) [of n b m] by (simp add: s' RemoveGroup_def split: if_splits)
    next
      fix b assume "lc_next s' \<le> b"
      then show "lc_heap s' b = None" using D(1) [of b] D(1) [of a] g by (auto simp: s' RemoveGroup_def)
    qed
  qed
qed

lemma tcp_group_Listen_inv:
  assumes inv: "lc_inv s" and a: "lc_groups s grp = Some a"
  shows "lc_inv (snd (tcp_group_Listen env now ks can a proxyName grp groupKey addr port s))"
proof -
  obtain g where g: "lc_heap s a = Some g" using lc_invD(3) [OF inv a] by auto
  have o: "lc_inv (snd (lg_open a g grp groupKey c w s))" for c w
    using lc_add_listener_inv [OF inv a g, of "g\<lparr>lg_group := grp, lg_groupKey := groupKey, lg_conf := c,
        lg_lns := lg_lns g @ [lc_nextLn s]\<rparr>" w] by (simp add: lg_open_def)
  have j: "lc_inv (snd (lg_join a g s))" if "lg_group g = grp"
    using lc_add_listener_inv [OF inv a g, of "g\<lparr>lg_lns := lg_lns g @ [lc_nextLn s]\<rparr>" "lc_world s"] that
    by (simp add: lg_join_def)
  show ?thesis
    using g o j inv lc_world_inv [OF inv]
    by (auto simp: tcp_group_Listen_def split: prod.splits sum.splits)
      (metis snd_conv)+
qed

section \<open>Steps of the TCP groups\<close>

inductive tcp_step :: "tcp_ctl \<Rightarrow> tcp_ctl \<Rightarrow> bool" where
  listen: "tcp_step s (snd (tcp_ctl_Listen env now ks can proxyName grp groupKey addr port s))"
| close: "lc_heap s a = Some g \<Longrightarrow> ln \<in> set (lg_lns g) \<Longrightarrow>
     tcp_group_CloseListener now a ln s = Some s' \<Longrightarrow> tcp_step s s'"
| other_ports: "tcp_step s (s\<lparr>lc_world := pm\<rparr>)"

inductive tcp_reachable :: "tcp_ctl \<Rightarrow> bool" where
  start: "tcp_reachable (new_ctl pm)"
| step: "tcp_reachable s \<Longrightarrow> tcp_step s s' \<Longrightarrow> tcp_reachable s'"

lemma tcp_reachable_inv: "tcp_reachable s \<Longrightarrow> lc_inv s"
proof (induction rule: tcp_reachable.induct)
  case (step s s')
  from step(2) show ?case
  proof (cases rule: tcp_step.cases)
    case (listen env now ks can proxyName grp groupKey addr port)
    obtain a s1 where l: "lc_get_group tcp_conf0 grp s = (a, s1)" by (cases "lc_get_group tcp_conf0 grp s")
    show ?thesis
      using tcp_group_Listen_inv [OF lc_get_group_inv(1,2) [OF step.IH l]] l listen
      by (simp add: tcp_ctl_Listen_def)
  next
    case (close a g ln now)
    then show ?thesis using CloseListener_inv [OF step.IH] by (simp add: tcp_group_CloseListener_def)
  qed (use step.IH lc_world_inv in auto)
qed (rule new_ctl_inv)

section \<open>Properties\<close>

text \<open>Who may join a TCP group. When a group has members, a further proxy joins it exactly if it names the
  same address, port and key, gets the port that the group has, and no other port is taken; otherwise
  it is told which of the three differs, and nothing changes.\<close>

theorem tcp_group_join:
  assumes "tcp_reachable s" and "lc_heap s a = Some g" and "lg_lns g \<noteq> []"
    and "tcp_ctl_Listen env now ks can proxyName (lg_group g) groupKey addr port s = (res, s')"
  shows "lc_world s' = lc_world s \<and>
    res = (if tc_addr (lg_conf g) \<noteq> addr then Inl (GroupErr ErrGroupParamsInvalid)
           else if tc_port (lg_conf g) \<noteq> port then Inl (GroupErr ErrGroupDifferentPort)
           else if lg_groupKey g \<noteq> groupKey then Inl (GroupErr ErrGroupAuthFailed)
           else Inr (lc_nextLn s, tc_realPort (lg_conf g))) \<and>
    (case res of
       Inl _ \<Rightarrow> s' = s
     | Inr (ln, _) \<Rightarrow> lc_heap s' a = Some (g\<lparr>lg_lns := lg_lns g @ [ln]\<rparr>) \<and> ln \<notin> set (lg_lns g))"
proof -
  note inv = tcp_reachable_inv [OF assms(1)]
  have a: "lc_groups s (lg_group g) = Some a" using lc_invD(4) [OF inv assms(2,3)] .
  have f: "lc_nextLn s \<notin> set (lg_lns g)" using lc_invD(5) [OF inv assms(2)] by auto
  show ?thesis
    using assms(2-4) a f
    by (auto simp: tcp_ctl_Listen_def lc_get_group_def tcp_group_Listen_def lg_join_def split: if_splits)
qed

text \<open>A group with one member for the witnesses.\<close>

definition tcp_demo :: tcp_ctl where
  "tcp_demo = snd (tcp_ctl_Listen env_all 1 [] (\<lambda>_. True) ''p1'' ''g'' ''k'' [] 6000
     (new_ctl (NewManager ''tcp'' [] [range_6000])))"

definition grp_demo :: "tcp_conf lgroup" where
  "grp_demo = \<lparr>lg_group = ''g'', lg_groupKey = ''k'',
     lg_conf = \<lparr>tc_addr = [], tc_port = 6000, tc_realPort = 6000\<rparr>, lg_lns = [0], lg_chClosed = False\<rparr>"

lemma tcp_demo_reachable: "tcp_reachable tcp_demo"
  unfolding tcp_demo_def by (rule tcp_reachable.step [OF tcp_reachable.start tcp_step.listen])

lemma tcp_demo_state: "lc_heap tcp_demo 0 = Some grp_demo" "lc_nextLn tcp_demo = 1" "lc_world tcp_demo =
    snd (Acquire env_all 1 [] ''p1'' 6000 (NewManager ''tcp'' [] [range_6000]))"
proof -
  have "Acquire env_all 1 [] ''p1'' 6000 (NewManager ''tcp'' [] [range_6000]) =
      (Inr 6000, snd (Acquire env_all 1 [] ''p1'' 6000 (NewManager ''tcp'' [] [range_6000])))"
    using Acquire_specified_fst [of 6000 env_all 1 "[]" "''p1''" "NewManager ''tcp'' [] [range_6000]"]
    by (simp add: prod_eq_iff NewManager_6000)
  then show "lc_heap tcp_demo 0 = Some grp_demo" "lc_nextLn tcp_demo = 1" "lc_world tcp_demo =
    snd (Acquire env_all 1 [] ''p1'' 6000 (NewManager ''tcp'' [] [range_6000]))"
    by (auto simp: tcp_demo_def tcp_ctl_Listen_def lc_get_group_def new_ctl_def new_group_def tcp_group_Listen_def
        lg_open_def grp_demo_def split: prod.splits)
qed

theorem tcp_group_join_witness:
  "fst (tcp_ctl_Listen env_all 2 [] (\<lambda>_. True) ''p2'' ''g'' ''wrong'' [] 6000 tcp_demo) =
     Inl (GroupErr ErrGroupAuthFailed) \<and>
   fst (tcp_ctl_Listen env_all 2 [] (\<lambda>_. True) ''p2'' ''g'' ''k'' [] 6000 tcp_demo) = Inr (1, 6000)"
proof -
  have n: "lg_lns grp_demo \<noteq> []" "lg_group grp_demo = ''g''" by (simp_all add: grp_demo_def)
  have "res = (if k = ''k'' then Inr (1, 6000) else Inl (GroupErr ErrGroupAuthFailed))"
    if "tcp_ctl_Listen env_all 2 [] (\<lambda>_. True) ''p2'' ''g'' k [] 6000 tcp_demo = (res, s')" for k res s'
    using tcp_group_join [OF tcp_demo_reachable tcp_demo_state(1) n(1), of env_all 2 "[]" "\<lambda>_. True" "''p2''" k "[]" 6000 res s']
      that by (simp add: n(2) tcp_demo_state) (simp add: grp_demo_def)
  from this [of "''wrong''", OF prod.collapse [symmetric]] this [of "''k''", OF prod.collapse [symmetric]]
  show ?thesis by simp
qed

text \<open>the port of a TCP group is held as long as it has members: closing a member that is not the last
  changes no port; closing the last one releases the port, drops the group from the controller and
  closes its channel, without a panic.\<close>

theorem tcp_group_close:
  assumes "tcp_reachable s" and "lc_heap s a = Some g" and "ln \<in> set (lg_lns g)"
  shows "\<exists>s'. tcp_group_CloseListener now a ln s = Some s' \<and> lc_inv s' \<and>
    (if lg_lns g = [ln]
     then lc_world s' = Release now (tc_realPort (lg_conf g)) (lc_world s) \<and>
          tc_realPort (lg_conf g) \<notin> dom (pm_usedPorts (lc_world s')) \<and> lc_groups s' (lg_group g) = None
     else lc_world s' = lc_world s \<and> lc_groups s' = lc_groups s \<and>
          lc_heap s' a = Some (g\<lparr>lg_lns := remove1 ln (lg_lns g)\<rparr>))"
proof -
  note inv = tcp_reachable_inv [OF assms(1)]
  have d: "distinct (lg_lns g)" using lc_invD(5) [OF inv assms(2)] by simp
  have e: "remove1 ln (lg_lns g) = [] \<longleftrightarrow> lg_lns g = [ln]"
    using assms(3) by (cases "lg_lns g") (auto split: if_splits)
  have "lc_groups s (lg_group g) = Some a"
    using lc_invD(4) [OF inv assms(2)] assms(3) by (cases "lg_lns g") simp_all
  then have o: "\<not> lg_chClosed g" using lc_invD(3) [OF inv, of "lg_group g" a] assms(2) by auto
  have "\<exists>s'. tcp_group_CloseListener now a ln s = Some s'"
    using assms(2) o by (simp add: tcp_group_CloseListener_def CloseListener_def Let_def)
  then obtain s' where s': "tcp_group_CloseListener now a ln s = Some s'" by blast
  have "lc_inv s'" using CloseListener_inv [OF inv assms(2,3)] s' by (simp add: tcp_group_CloseListener_def)
  then show ?thesis
    using s' assms(2) o e
    by (auto simp: tcp_group_CloseListener_def CloseListener_def RemoveGroup_def Let_def Release_used
        split: if_splits)
qed

theorem tcp_group_close_witness:
  "\<exists>s'. tcp_group_CloseListener 9 0 0 tcp_demo = Some s' \<and> 6000 \<notin> dom (pm_usedPorts (lc_world s')) \<and>
     lc_groups s' ''g'' = None"
  using tcp_group_close [OF tcp_demo_reachable tcp_demo_state(1), of 0 9] by (auto simp: grp_demo_def)

definition tcp_race :: tcp_ctl where
  "tcp_race = (case lc_get_group tcp_conf0 ''g'' tcp_demo of (a, s1) \<Rightarrow>
     (case tcp_group_CloseListener 2 a 0 s1 of
        None \<Rightarrow> s1
      | Some s2 \<Rightarrow> snd (tcp_group_Listen env_all 3 [] (\<lambda>_. True) a ''p2'' ''g'' ''k'' [] 6000 s2)))"

text \<open>The gap between the two locks of \<open>Listen\<close> loses a group. A proxy that took the group object before its
  last member left opens the real listener in a group that the controller does not know and whose
  channel is closed: no connection can be delivered to it, and the port stays taken.\<close>

theorem tcp_listen_race:
  "\<exists>g. lc_heap tcp_race 0 = Some g \<and> lg_lns g = [1] \<and> lg_chClosed g \<and> lc_groups tcp_race ''g'' = None \<and>
     6000 \<in> dom (pm_usedPorts (lc_world tcp_race))"
proof -
  let ?pm = "Release 2 6000 (lc_world tcp_demo)"
  have g0: "lc_groups tcp_demo ''g'' = Some 0"
    using lc_invD(4) [OF tcp_reachable_inv [OF tcp_demo_reachable] tcp_demo_state(1)] by (simp add: grp_demo_def)
  have "pm_usedPorts (lc_world tcp_demo) 6000 \<noteq> None"
    using Acquire_fixed_free [of 6000 "NewManager ''tcp'' [] [range_6000]" env_all 1 "[]" "''p1''"]
    by (auto simp: tcp_demo_state NewManager_6000)
  then have f: "6000 \<in> pm_freePorts ?pm" by (auto simp: Release_def)
  obtain pm' where pm': "Acquire env_all 3 [] ''p2'' 6000 ?pm = (Inr 6000, pm')" and u: "pm_usedPorts pm' 6000 \<noteq> None"
    using Acquire_fixed_free [OF _ f, of env_all 3 "[]" "''p2''"] by auto
  show ?thesis
    using g0 u pm'
    by (auto simp: tcp_race_def lc_get_group_def tcp_group_CloseListener_def CloseListener_def tcp_demo_state(1,2)
        grp_demo_def Let_def RemoveGroup_def tcp_group_Listen_def lg_open_def)
qed

end
