(* ===== verification/Group_Worker.thy ===== *)
theory Group_Worker
  imports Group_Listener
begin

text \<open>
  How the connections of a TCP, HTTPS or tcpmux group reach its members (\<open>server/group/tcp.go\<close>, \<open>https.go\<close> and
  \<open>tcpmux.go\<close>): the worker of the group takes them from the real listener and sends them into an unbuffered
  channel, from which the members receive. The worker takes no lock, so that its moves interleave with
  those of the members and with the two halves of a member's \<open>Close\<close> and of the closing of the group.
  A group whose last member has left takes no
  new one: the controller makes another group. Connections are of any type \<open>'c\<close>; a double close of a channel is a panic, \<open>None\<close>.
\<close>

section \<open>Worker and members\<close>

datatype 'c worker = WAccept | WSend 'c | WDone

text \<open>\<open>gw_lns\<close> is \<open>lns\<close>, \<open>gw_closeCh\<close> the members whose own channel is closed, \<open>gw_ended\<close> those whose loop of
  \<open>Accept\<close> has ended; \<open>gw_chClosed\<close> and \<open>gw_lnClosed\<close> say that the channel and the real listener of the group
  are closed. \<open>gw_got\<close> records who received what, \<open>gw_dropped\<close> what the worker held when it gave up.\<close>

record 'c gworker =
  gw_lns :: "nat list"
  gw_closeCh :: "nat list"
  gw_ended :: "nat list"
  gw_chClosed :: bool
  gw_lnClosed :: bool
  gw_queue :: "'c list"
  gw_worker :: "'c worker"
  gw_got :: "(nat \<times> 'c) list"
  gw_dropped :: "'c list"

text \<open>The group after its first member: the listener is open and the worker runs.\<close>

definition gw_start :: "nat \<Rightarrow> 'c gworker" where
  "gw_start ln = \<lparr>gw_lns = [ln], gw_closeCh = [], gw_ended = [], gw_chClosed = False, gw_lnClosed = False,
     gw_queue = [], gw_worker = WAccept, gw_got = [], gw_dropped = []\<rparr>"

datatype 'c gw_event =
    GArrive 'c | GJoin nat | GWork | GAccept nat | GAcceptClosed nat | GCloseCh nat | GLeave nat | GShut

text \<open>One move of the worker: \<open>Accept\<close> on the real listener, or finding the channel closed while it sends.\<close>

definition worker_move :: "'c gworker \<Rightarrow> 'c gworker" where
  "worker_move s =
     (case gw_worker s of
        WAccept \<Rightarrow>
          (if gw_lnClosed s then s\<lparr>gw_worker := WDone\<rparr>
           else (case gw_queue s of [] \<Rightarrow> s | c # cs \<Rightarrow> s\<lparr>gw_queue := cs, gw_worker := WSend c\<rparr>))
      | WSend c \<Rightarrow> (if gw_chClosed s then s\<lparr>gw_worker := WDone, gw_dropped := gw_dropped s @ [c]\<rparr> else s)
      | WDone \<Rightarrow> s)"

text \<open>\<open>Accept\<close> of a member: the \<open>select\<close> takes either branch that is ready, so that a closed member may still
  receive a connection.\<close>

definition ln_receive :: "nat \<Rightarrow> 'c gworker \<Rightarrow> 'c gworker" where
  "ln_receive ln s =
     (case gw_worker s of
        WSend c \<Rightarrow>
          if gw_chClosed s \<or> ln \<in> set (gw_ended s) \<or> ln \<notin> set (gw_lns s @ gw_closeCh s) then s
          else s\<lparr>gw_worker := WAccept, gw_got := gw_got s @ [(ln, c)]\<rparr>
      | _ \<Rightarrow> s)"

definition ln_end :: "nat \<Rightarrow> 'c gworker \<Rightarrow> 'c gworker" where
  "ln_end ln s = (if ln \<in> set (gw_closeCh s) \<or> gw_chClosed s then s\<lparr>gw_ended := ln # gw_ended s\<rparr> else s)"

text \<open>The second half of a member's \<open>Close\<close>, \<open>CloseListener\<close> up to the closing of the channel.\<close>

definition ln_leave :: "nat \<Rightarrow> 'c gworker \<Rightarrow> 'c gworker option" where
  "ln_leave ln s =
     (let lns = remove1 ln (gw_lns s) in
      if lns \<noteq> [] then Some (s\<lparr>gw_lns := lns\<rparr>)
      else if gw_chClosed s then None
      else Some (s\<lparr>gw_lns := lns, gw_chClosed := True\<rparr>))"

fun gw_step :: "'c gworker \<Rightarrow> 'c gw_event \<Rightarrow> 'c gworker option" where
  "gw_step s (GArrive c) = Some (if gw_lnClosed s then s else s\<lparr>gw_queue := gw_queue s @ [c]\<rparr>)"
| "gw_step s (GJoin ln) = Some (if gw_lns s = [] then s else s\<lparr>gw_lns := gw_lns s @ [ln]\<rparr>)"
| "gw_step s GWork = Some (worker_move s)"
| "gw_step s (GAccept ln) = Some (ln_receive ln s)"
| "gw_step s (GAcceptClosed ln) = Some (ln_end ln s)"
| "gw_step s (GCloseCh ln) = (if ln \<in> set (gw_closeCh s) then None else Some (s\<lparr>gw_closeCh := ln # gw_closeCh s\<rparr>))"
| "gw_step s (GLeave ln) = ln_leave ln s"
| "gw_step s GShut = Some (if gw_chClosed s then s\<lparr>gw_lnClosed := True\<rparr> else s)"

fun gw_run :: "'c gworker \<Rightarrow> 'c gw_event list \<Rightarrow> 'c gworker option" where
  "gw_run s [] = Some s"
| "gw_run s (ev # evs) = (case gw_step s ev of None \<Rightarrow> None | Some s' \<Rightarrow> gw_run s' evs)"

section \<open>The lists agree with the group\<close>

text \<open>A member leaves the worker's view of the group exactly as \<open>CloseListener\<close> makes it leave the group.\<close>

lemma ln_leave_CloseListener:
  assumes "lc_heap s a = Some g" and "gw_lns w = lg_lns g" and "gw_chClosed w = lg_chClosed g"
    and "shut (lg_conf g) (lc_world s) \<noteq> None"
  shows "(case (ln_leave ln w, CloseListener shut a ln s) of
      (None, None) \<Rightarrow> True
    | (Some w', Some s') \<Rightarrow> \<exists>g'. lc_heap s' a = Some g' \<and> gw_lns w' = lg_lns g' \<and> gw_chClosed w' = lg_chClosed g'
    | _ \<Rightarrow> False)"
  using assms by (auto simp: ln_leave_def CloseListener_def RemoveGroup_def Let_def split: option.splits)

section \<open>Connections are neither lost nor given twice\<close>

definition in_hand :: "'c gworker \<Rightarrow> 'c list" where
  "in_hand s = (case gw_worker s of WSend c \<Rightarrow> [c] | _ \<Rightarrow> [])"

text \<open>The connections that the real listener took, in order.\<close>

fun arrivals :: "'c gworker \<Rightarrow> 'c gw_event list \<Rightarrow> 'c list" where
  "arrivals s [] = []"
| "arrivals s (ev # evs) =
     (case ev of GArrive c \<Rightarrow> (if gw_lnClosed s then [] else [c]) | _ \<Rightarrow> []) @
     (case gw_step s ev of None \<Rightarrow> [] | Some s' \<Rightarrow> arrivals s' evs)"

definition gw_all :: "'c gworker \<Rightarrow> 'c list" where
  "gw_all s = map snd (gw_got s) @ gw_dropped s @ in_hand s @ gw_queue s"

definition gw_ok :: "'c gworker \<Rightarrow> bool" where
  "gw_ok s \<longleftrightarrow> (gw_chClosed s \<longleftrightarrow> gw_lns s = []) \<and> (gw_lnClosed s \<longrightarrow> gw_chClosed s) \<and>
     (gw_dropped s \<noteq> [] \<longrightarrow> gw_worker s = WDone \<and> gw_chClosed s) \<and> length (gw_dropped s) \<le> 1 \<and>
     (gw_worker s = WDone \<longrightarrow> gw_chClosed s)"

lemma gw_ok_start: "gw_ok (gw_start ln)" "gw_all (gw_start ln) = []"
  by (simp_all add: gw_ok_def gw_start_def gw_all_def in_hand_def)

lemmas gw_defs = worker_move_def ln_receive_def ln_end_def ln_leave_def

lemma gw_ok_step: "gw_ok s \<Longrightarrow> gw_step s ev = Some s' \<Longrightarrow> gw_ok s'"
  by (cases ev) (auto simp: gw_ok_def gw_defs Let_def split: worker.splits list.splits if_splits)

lemma gw_all_step:
  assumes "gw_ok s" and "gw_step s ev = Some s'"
  shows "gw_all s' = gw_all s @ (case ev of GArrive c \<Rightarrow> (if gw_lnClosed s then [] else [c]) | _ \<Rightarrow> [])"
  using assms
  by (cases ev) (auto simp: gw_all_def gw_ok_def in_hand_def gw_defs Let_def split: worker.splits list.splits if_splits)

lemma gw_run_inv:
  "gw_ok s \<Longrightarrow> gw_run s evs = Some s' \<Longrightarrow> gw_ok s' \<and> gw_all s' = gw_all s @ arrivals s evs"
proof (induction evs arbitrary: s)
  case (Cons ev evs)
  then obtain s1 where s1: "gw_step s ev = Some s1" "gw_run s1 evs = Some s'" by (auto split: option.splits)
  then show ?case using Cons.IH [OF gw_ok_step [OF Cons.prems(1) s1(1)] s1(2)] gw_all_step [OF Cons.prems(1) s1(1)] by simp
qed simp

text \<open>C23: A group loses no connection and gives none twice. Whatever the worker, the members, arriving
  connections, joins and closes do in whatever order: the connections that were received, dropped, in
  the worker's hand and waiting are the arrived ones, in this order. At most one is dropped, and only
  after the last member has left; until then every arrived connection was received by exactly one member
  or still waits.\<close>

theorem group_hands_on:
  assumes "gw_run (gw_start ln) evs = Some s"
  shows "map snd (gw_got s) @ gw_dropped s @ in_hand s @ gw_queue s = arrivals (gw_start ln) evs \<and>
    length (gw_dropped s) \<le> 1 \<and> (gw_lns s \<noteq> [] \<longrightarrow> gw_dropped s = [])"
  using gw_run_inv [OF gw_ok_start(1) assms] gw_ok_start(2) [of ln] by (auto simp: gw_all_def gw_ok_def)

theorem group_hands_on_witness:
  "\<exists>s. gw_run (gw_start 0) [GArrive ''a'', GWork, GJoin 1, GArrive ''b'', GAccept 1, GWork, GCloseCh 0, GLeave 0, GCloseCh 1, GLeave 1, GWork] = Some s \<and>
    map snd (gw_got s) @ gw_dropped s @ in_hand s @ gw_queue s = [''a'', ''b''] \<and> gw_dropped s = [''b'']"
proof -
  let ?evs = "[GArrive ''a'', GWork, GJoin 1, GArrive ''b'', GAccept 1, GWork, GCloseCh 0, GLeave 0, GCloseCh 1, GLeave 1, GWork]"
  obtain s where s: "gw_run (gw_start 0) ?evs = Some s" "gw_dropped s = [''b'']"
    by (simp add: gw_start_def gw_defs)
  have "arrivals (gw_start 0) ?evs = [''a'', ''b'']" by (simp add: gw_start_def gw_defs)
  then show ?thesis using s group_hands_on [OF s(1)] by simp
qed

section \<open>A waiting connection is received\<close>

text \<open>While the group has a member that receives, the next connection reaches it after one move of the worker.\<close>

theorem group_progress:
  assumes "gw_run (gw_start ln0) evs = Some s" and "ln \<in> set (gw_lns s)" and "ln \<notin> set (gw_ended s)"
    and "in_hand s @ gw_queue s = c # cs"
  shows "\<exists>s'. gw_run s [GWork, GAccept ln] = Some s' \<and> gw_got s' = gw_got s @ [(ln, c)] \<and> in_hand s' @ gw_queue s' = cs"
proof -
  have "gw_ok s" using gw_run_inv [OF gw_ok_start(1) assms(1)] by blast
  then have "\<not> gw_chClosed s" "\<not> gw_lnClosed s" "gw_worker s \<noteq> WDone" using assms(2) by (auto simp: gw_ok_def)
  then show ?thesis
    using assms(2-4) by (cases "gw_worker s") (auto simp: gw_defs in_hand_def)
qed

end
