(* ===== verification/Port_Ranges.thy ===== *)
theory Port_Ranges
  imports Ports
begin

text \<open>
  Port ranges as text: \<open>PortsRangeSlice.String\<close> and \<open>NewPortsRangeSliceFromString\<close> of
  \<open>pkg/config/types/types.go\<close>, and \<open>ParseRangeNumbers\<close> of \<open>pkg/util/util/util.go\<close>, which
  expands the ranges. The loop of the latter is a partial function over 64-bit integers: a range
  that ends at the largest integer makes it run forever.
\<close>

section \<open>Parsing integers\<close>

definition max_int64 :: int where "max_int64 = 2 ^ 63 - 1"
definition min_int64 :: int where "min_int64 = - (2 ^ 63)"

text \<open>\<open>strconv.ParseInt(s, 10, 64)\<close>; both of its errors are \<open>None\<close>.\<close>

definition parse_int64 :: "string \<Rightarrow> int option" where
  "parse_int64 s =
     (case s of
        [] \<Rightarrow> None
      | c # r \<Rightarrow>
          (let neg = (c = CHR ''-''); ds = (if c = CHR ''-'' \<or> c = CHR ''+'' then r else s) in
           if ds = [] \<or> \<not> list_all is_digit ds then None
           else (let v = (if neg then - int (digits_val ds) else int (digits_val ds)) in
                 if min_int64 \<le> v \<and> v \<le> max_int64 then Some v else None)))"

datatype range_error = RangeNumberInvalid

section \<open>Ranges to text and back\<close>

definition range_string :: "ports_range \<Rightarrow> string" where
  "range_string v =
     (if pr_Single v > 0 then int_to_string (pr_Single v)
      else int_to_string (pr_Start v) @ ''-'' @ int_to_string (pr_End v))"

definition PortsRangeSlice_String :: "ports_range list \<Rightarrow> string" where
  "PortsRangeSlice_String p = (if length p = 0 then [] else join_with '','' (map range_string p))"

definition parse_range :: "string \<Rightarrow> range_error + ports_range" where
  "parse_range numRangeStr =
     (case split_on (CHR ''-'') numRangeStr of
        [a] \<Rightarrow>
          (case parse_int64 (trim_space a) of
             None \<Rightarrow> Inl RangeNumberInvalid
           | Some n \<Rightarrow> Inr \<lparr>pr_Start = 0, pr_End = 0, pr_Single = n\<rparr>)
      | [a, b] \<Rightarrow>
          (case parse_int64 (trim_space a) of
             None \<Rightarrow> Inl RangeNumberInvalid
           | Some minNum \<Rightarrow>
               (case parse_int64 (trim_space b) of
                  None \<Rightarrow> Inl RangeNumberInvalid
                | Some maxNum \<Rightarrow>
                    if maxNum < minNum then Inl RangeNumberInvalid
                    else Inr \<lparr>pr_Start = minNum, pr_End = maxNum, pr_Single = 0\<rparr>))
      | _ \<Rightarrow> Inl RangeNumberInvalid)"

fun parse_ranges :: "string list \<Rightarrow> ports_range list \<Rightarrow> range_error + ports_range list" where
  "parse_ranges [] out = Inr out"
| "parse_ranges (s # ss) out =
     (case parse_range s of Inl e \<Rightarrow> Inl e | Inr r \<Rightarrow> parse_ranges ss (out @ [r]))"

definition NewPortsRangeSliceFromString :: "string \<Rightarrow> range_error + ports_range list" where
  "NewPortsRangeSliceFromString str = parse_ranges (split_on (CHR '','') (trim_space str)) []"

section \<open>Expanding ranges\<close>

definition inc64 :: "int \<Rightarrow> int" where
  "inc64 i = (if i = max_int64 then min_int64 else i + 1)"

partial_function (option) range_loop :: "int \<Rightarrow> int \<Rightarrow> int list \<Rightarrow> int list option" where
  "range_loop i mx numbers =
     (if i \<le> mx then range_loop (inc64 i) mx (numbers @ [i]) else Some numbers)"

text \<open>\<open>None\<close>: does not return. The error of a parse is kept with the numbers read so far.\<close>

fun parse_numbers :: "string list \<Rightarrow> int list \<Rightarrow> (range_error option \<times> int list) option" where
  "parse_numbers [] numbers = Some (None, numbers)"
| "parse_numbers (s # ss) numbers =
     (case split_on (CHR ''-'') s of
        [a] \<Rightarrow>
          (case parse_int64 (trim_space a) of
             None \<Rightarrow> Some (Some RangeNumberInvalid, numbers)
           | Some n \<Rightarrow> parse_numbers ss (numbers @ [n]))
      | [a, b] \<Rightarrow>
          (case parse_int64 (trim_space a) of
             None \<Rightarrow> Some (Some RangeNumberInvalid, numbers)
           | Some minValue \<Rightarrow>
               (case parse_int64 (trim_space b) of
                  None \<Rightarrow> Some (Some RangeNumberInvalid, numbers)
                | Some maxValue \<Rightarrow>
                    if maxValue < minValue then Some (Some RangeNumberInvalid, numbers)
                    else (case range_loop minValue maxValue numbers of
                            None \<Rightarrow> None
                          | Some numbers' \<Rightarrow> parse_numbers ss numbers')))
      | _ \<Rightarrow> Some (Some RangeNumberInvalid, numbers))"

definition ParseRangeNumbers :: "string \<Rightarrow> (range_error option \<times> int list) option" where
  "ParseRangeNumbers rangeStr = parse_numbers (split_on (CHR '','') (trim_space rangeStr)) []"

section \<open>Lemmas\<close>

lemma int_to_string_nonneg_digits: "0 \<le> n \<Longrightarrow> c \<in> set (int_to_string n) \<Longrightarrow> is_digit c"
  using nat_to_string_digits by (simp add: int_to_string_def)

lemma parse_int64_print:
  assumes "0 \<le> n" and "n \<le> max_int64"
  shows "parse_int64 (int_to_string n) = Some n"
proof -
  let ?s = "int_to_string n"
  obtain c r where s: "?s = c # r" using int_to_string_not_Nil by (cases ?s) auto
  have d: "\<forall>c \<in> set ?s. is_digit c" using int_to_string_nonneg_digits [OF assms(1)] by blast
  then have c: "c \<noteq> CHR ''-''" "c \<noteq> CHR ''+''" using is_digit_not_special s by auto
  have "int (digits_val ?s) = n" using assms(1) by (simp add: int_to_string_def)
  then show ?thesis
    using assms d s c by (auto simp: parse_int64_def list_all_iff min_int64_def Let_def)
qed

text \<open>The ranges that the configuration can hold: a single port, or a range of ports.\<close>

definition range_ok :: "ports_range \<Rightarrow> bool" where
  "range_ok r \<longleftrightarrow>
     (0 < pr_Single r \<and> pr_Single r \<le> max_int64 \<and> pr_Start r = 0 \<and> pr_End r = 0) \<or>
     (pr_Single r = 0 \<and> 0 \<le> pr_Start r \<and> pr_Start r \<le> pr_End r \<and> pr_End r \<le> max_int64)"

lemma digits_no_sep: "\<forall>c \<in> set s. is_digit c \<Longrightarrow> CHR ''-'' \<notin> set s \<and> CHR '','' \<notin> set s"
  using is_digit_not_special by blast

lemma digits_trim: "\<forall>c \<in> set s. is_digit c \<Longrightarrow> trim_space s = s"
  using is_digit_not_space by (intro trim_space_id) blast

lemma parse_range_print:
  assumes "range_ok r"
  shows "parse_range (range_string r) = Inr r"
proof (cases "pr_Single r > 0")
  case True
  then have d: "\<forall>c \<in> set (int_to_string (pr_Single r)). is_digit c"
    using int_to_string_nonneg_digits [of "pr_Single r"] by simp
  show ?thesis
    using True assms parse_int64_print [of "pr_Single r"] split_on_no_sep digits_no_sep [OF d] digits_trim [OF d]
    by (auto simp: range_ok_def range_string_def parse_range_def)
next
  case False
  then have r: "pr_Single r = 0" "0 \<le> pr_Start r" "pr_Start r \<le> pr_End r" "pr_End r \<le> max_int64"
    using assms by (auto simp: range_ok_def)
  have a: "\<forall>c \<in> set (int_to_string (pr_Start r)). is_digit c"
    and b: "\<forall>c \<in> set (int_to_string (pr_End r)). is_digit c"
    using int_to_string_nonneg_digits [of "pr_Start r"] int_to_string_nonneg_digits [of "pr_End r"] r by auto
  have "split_on (CHR ''-'') (range_string r) = [int_to_string (pr_Start r), int_to_string (pr_End r)]"
    using r split_on_append digits_no_sep [OF a] split_on_no_sep digits_no_sep [OF b]
    by (simp add: range_string_def)
  then show ?thesis
    using r parse_int64_print digits_trim [OF a] digits_trim [OF b]
    by (simp add: parse_range_def)
qed

lemma range_string_chars:
  assumes "range_ok r"
  shows "\<forall>c \<in> set (range_string r). is_digit c \<or> c = CHR ''-''"
  using assms by (auto simp: range_ok_def range_string_def dest!: int_to_string_nonneg_digits [rotated])

lemma parse_ranges_print:
  "list_all range_ok rs \<Longrightarrow> parse_ranges (map range_string rs) out = Inr (out @ rs)"
  by (induction rs arbitrary: out) (auto simp: parse_range_print)

lemma set_join_with: "set (join_with sep ws) \<subseteq> set sep \<union> \<Union> (set ` set ws)"
  by (induction sep ws rule: join_with.induct) auto

lemma range_loop_ends:
  assumes "mx < max_int64"
  shows "range_loop i mx acc = Some (acc @ [i..mx])"
proof (induction "nat (mx + 1 - i)" arbitrary: i acc)
  case 0
  then show ?case by (subst range_loop.simps) simp
next
  case (Suc k)
  then have "i \<le> mx" "i < max_int64" using assms by auto
  then show ?case
    using Suc(1) [of "i + 1" "acc @ [i]"] Suc(2)
    by (subst range_loop.simps) (simp add: inc64_def upto.simps [of i mx])
qed

lemma range_loop_returns:
  assumes "range_loop i mx acc = Some y"
  shows "mx = max_int64 \<longrightarrow> max_int64 < i"
proof (rule range_loop.raw_induct [of "\<lambda>i mx acc y. mx = max_int64 \<longrightarrow> max_int64 < i", OF _ assms])
  fix loop :: "int \<Rightarrow> int \<Rightarrow> int list \<Rightarrow> int list option" and i mx acc y
  assume IH: "\<And>i mx acc y. loop i mx acc = Some y \<Longrightarrow> mx = max_int64 \<longrightarrow> max_int64 < i"
    and l: "(if i \<le> mx then loop (inc64 i) mx (acc @ [i]) else Some acc) = Some y"
  have "inc64 i \<le> max_int64" if "i \<le> max_int64"
    using that by (auto simp: inc64_def min_int64_def max_int64_def)
  then show "mx = max_int64 \<longrightarrow> max_int64 < i"
    using l IH [of "inc64 i" mx "acc @ [i]" y] by (auto split: if_splits)
qed

lemma range_loop_runs_on:
  assumes "i \<le> max_int64"
  shows "range_loop i max_int64 acc = None"
  using assms range_loop_returns [of i max_int64 acc] by (cases "range_loop i max_int64 acc") auto

text \<open>What a text of ranges denotes, as the list of its numbers.\<close>

definition range_numbers :: "ports_range \<Rightarrow> int list" where
  "range_numbers r = (if pr_Single r > 0 then [pr_Single r] else [pr_Start r..pr_End r])"

lemma set_range_numbers: "set (range_numbers r) = range_ports r"
  by (simp add: range_numbers_def range_ports_def)

lemma parse_numbers_range:
  assumes "range_ok r" and "pr_End r < max_int64"
  shows "parse_numbers (range_string r # ss) acc = parse_numbers ss (acc @ range_numbers r)"
proof -
  have p: "parse_range (range_string r) = Inr r" using parse_range_print assms(1) .
  show ?thesis
  proof (cases "split_on (CHR ''-'') (range_string r)")
    case Nil
    then show ?thesis using split_on_not_Nil by metis
  next
    case (Cons a l)
    note a = Cons
    show ?thesis
    proof (cases l)
      case Nil
      with p a assms show ?thesis
        by (auto simp: parse_range_def range_numbers_def range_ok_def split: option.splits)
    next
      case (Cons b l')
      with p a assms show ?thesis
        by (auto simp: parse_range_def range_numbers_def range_ok_def range_loop_ends
            split: option.splits if_splits list.splits)
    qed
  qed
qed

lemma parse_numbers_ranges:
  "list_all (\<lambda>r. range_ok r \<and> pr_End r < max_int64) rs \<Longrightarrow>
   parse_numbers (map range_string rs) acc = Some (None, acc @ concat (map range_numbers rs))"
  by (induction rs arbitrary: acc) (auto simp: parse_numbers_range simp del: parse_numbers.simps(2))

lemma split_print:
  assumes "rs \<noteq> []" and "list_all range_ok rs"
  shows "split_on (CHR '','') (trim_space (PortsRangeSlice_String rs)) = map range_string rs"
proof -
  have c: "\<forall>c \<in> set (range_string r). is_digit c \<or> c = CHR ''-''" if "r \<in> set rs" for r
    using assms(2) that range_string_chars by (auto simp: list_all_iff)
  have "\<not> is_space x" if "x \<in> set (join_with '','' (map range_string rs))" for x
    using set_join_with [of "'',''" "map range_string rs"] c that is_digit_not_space
    by (fastforce simp: is_space_def)
  then have "trim_space (PortsRangeSlice_String rs) = join_with '','' (map range_string rs)"
    using assms(1) trim_space_id by (auto simp: PortsRangeSlice_String_def)
  moreover have "\<forall>w \<in> set (map range_string rs). CHR '','' \<notin> set w"
    using c is_digit_not_special by fastforce
  ultimately show ?thesis using assms(1) split_join_with [of "map range_string rs"] by simp
qed

section \<open>Properties\<close>

text \<open>C35: printing and parsing port ranges are inverse: every non-empty list of valid ranges is read back
  from its text as it was, and expanding the text gives exactly the ports of the ranges in order.\<close>

theorem PortsRange_roundtrip:
  assumes "rs \<noteq> []" and "list_all range_ok rs"
  shows "NewPortsRangeSliceFromString (PortsRangeSlice_String rs) = Inr rs \<and>
    (list_all (\<lambda>r. pr_End r < max_int64) rs \<longrightarrow>
       ParseRangeNumbers (PortsRangeSlice_String rs) = Some (None, concat (map range_numbers rs)) \<and>
       set (concat (map range_numbers rs)) = allowed_ports rs)"
proof -
  note sp = split_print [OF assms]
  have "foldl (\<lambda>free r. free \<union> range_ports r) A rs = A \<union> \<Union> (range_ports ` set rs)" for A
    by (induction rs arbitrary: A) auto
  then have "set (concat (map range_numbers rs)) = allowed_ports rs"
    using assms(1) set_range_numbers by (auto simp: allowed_ports_def)
  moreover have "list_all (\<lambda>r. range_ok r \<and> pr_End r < max_int64) rs" if "list_all (\<lambda>r. pr_End r < max_int64) rs"
    using assms(2) that by (simp add: list_all_iff)
  ultimately show ?thesis
    using parse_ranges_print [OF assms(2), of "[]"] parse_numbers_ranges [of rs "[]"]
    by (simp add: NewPortsRangeSliceFromString_def ParseRangeNumbers_def sp)
qed

theorem PortsRange_roundtrip_witness:
  "NewPortsRangeSliceFromString (PortsRangeSlice_String
      [\<lparr>pr_Start = 10, pr_End = 12, pr_Single = 0\<rparr>, \<lparr>pr_Start = 0, pr_End = 0, pr_Single = 80\<rparr>]) =
    Inr [\<lparr>pr_Start = 10, pr_End = 12, pr_Single = 0\<rparr>, \<lparr>pr_Start = 0, pr_End = 0, pr_Single = 80\<rparr>] \<and>
   ParseRangeNumbers (PortsRangeSlice_String
      [\<lparr>pr_Start = 10, pr_End = 12, pr_Single = 0\<rparr>, \<lparr>pr_Start = 0, pr_End = 0, pr_Single = 80\<rparr>]) =
    Some (None, [10, 11, 12, 80])"
proof -
  let ?rs = "[\<lparr>pr_Start = 10, pr_End = 12, pr_Single = 0\<rparr>, \<lparr>pr_Start = 0, pr_End = 0, pr_Single = 80\<rparr>]"
  have "list_all range_ok ?rs" "list_all (\<lambda>r. pr_End r < max_int64) ?rs"
    by (simp_all add: range_ok_def max_int64_def)
  moreover have "concat (map range_numbers ?rs) = [10, 11, 12, 80]" by code_simp
  ultimately show ?thesis using PortsRange_roundtrip [of ?rs] by simp
qed

text \<open>C36: the expansion of a range returns the numbers of the range exactly when the range does not end at the
  largest 64-bit integer; such a text makes the parser run forever.\<close>

theorem range_loop_terminates:
  assumes "i \<le> mx" and "mx \<le> max_int64"
  shows "range_loop i mx acc = (if mx < max_int64 then Some (acc @ [i..mx]) else None) \<and>
    (mx = max_int64 \<and> 0 \<le> i \<longrightarrow>
       ParseRangeNumbers (int_to_string i @ ''-'' @ int_to_string mx) = None)"
proof -
  have "ParseRangeNumbers (int_to_string i @ ''-'' @ int_to_string mx) = None" if m: "mx = max_int64" "0 \<le> i"
  proof -
    let ?r = "\<lparr>pr_Start = i, pr_End = mx, pr_Single = 0\<rparr>"
    have ok: "range_ok ?r" using m assms by (simp add: range_ok_def)
    have t: "range_string ?r = int_to_string i @ ''-'' @ int_to_string mx" by (simp add: range_string_def)
    have a: "\<forall>c \<in> set (int_to_string i). is_digit c" and b: "\<forall>c \<in> set (int_to_string mx). is_digit c"
      using int_to_string_nonneg_digits [of i] int_to_string_nonneg_digits [of mx] m assms by auto
    have s: "split_on (CHR ''-'') (range_string ?r) = [int_to_string i, int_to_string mx]"
      using split_on_append digits_no_sep [OF a] split_on_no_sep digits_no_sep [OF b] by (simp add: t)
    show ?thesis
      unfolding t [symmetric]
      using split_print [of "[?r]"] ok s parse_int64_print [of i] parse_int64_print [of mx] m assms
        digits_trim [OF a] digits_trim [OF b] range_loop_runs_on [of i "[]"]
      by (simp add: ParseRangeNumbers_def PortsRangeSlice_String_def)
  qed
  then show ?thesis
    using range_loop_ends [of mx i acc] range_loop_runs_on [of i acc] assms by auto
qed

theorem range_loop_terminates_witness:
  "range_loop 3 5 [1] = Some [1, 3, 4, 5] \<and> range_loop 3 max_int64 [] = None"
proof -
  have "(3 :: int) \<le> 5" "5 \<le> max_int64" "3 \<le> max_int64" "5 < max_int64" "[3..5] = [3, 4, 5 :: int]"
    by (simp_all add: max_int64_def upto_rec1)
  then show ?thesis
    using range_loop_terminates [of 3 5 "[1]"] range_loop_terminates [of 3 max_int64 "[]"] by simp
qed

end
