(* ===== verification/Nathole.thy ===== *)
theory Nathole
  imports Http_Util Port_Ranges
begin

text \<open>
  Deciding how two peers punch a hole: \<open>pkg/nathole/classify.go\<close> (what kind of NAT a peer is behind)
  and \<open>pkg/nathole/analysis.go\<close> (which behaviour each peer gets, with scores that remember what
  worked). Scores are shared records in the Go code but are only reached through their table, so they
  are values here. Times are integers.
\<close>

section \<open>Classification\<close>

definition EasyNAT :: string where "EasyNAT = ''EasyNAT''"
definition HardNAT :: string where "HardNAT = ''HardNAT''"
definition BehaviorNoChange :: string where "BehaviorNoChange = ''BehaviorNoChange''"
definition BehaviorIPChanged :: string where "BehaviorIPChanged = ''BehaviorIPChanged''"
definition BehaviorPortChanged :: string where "BehaviorPortChanged = ''BehaviorPortChanged''"
definition BehaviorBothChanged :: string where "BehaviorBothChanged = ''BehaviorBothChanged''"

record nat_feature =
  nf_NatType :: string
  nf_Behavior :: string
  nf_PortsDifference :: int
  nf_RegularPortsChange :: bool
  nf_PublicNetwork :: bool

datatype classify_error = NotEnoughAddresses | BadAddress addr_error | BadPort

text \<open>The variables of the loop over the addresses.\<close>

record classify_state =
  cs_baseIP :: string
  cs_basePort :: string
  cs_portMax :: int
  cs_portMin :: int
  cs_ipChanged :: bool
  cs_portChanged :: bool
  cs_public :: bool

fun classify_loop :: "string list \<Rightarrow> string list \<Rightarrow> classify_state \<Rightarrow> classify_error + classify_state" where
  "classify_loop localIPs [] st = Inr st"
| "classify_loop localIPs (addr # addrs) st =
     (case SplitHostPort addr of
        Inl e \<Rightarrow> Inl (BadAddress e)
      | Inr (ip, port) \<Rightarrow>
          (case parse_int64 port of
             None \<Rightarrow> Inl BadPort
           | Some portNum \<Rightarrow>
               (let st1 = (if ip \<in> set localIPs then st\<lparr>cs_public := True\<rparr> else st) in
                if cs_baseIP st1 = [] then
                  classify_loop localIPs addrs
                    (st1\<lparr>cs_baseIP := ip, cs_basePort := port, cs_portMax := portNum, cs_portMin := portNum\<rparr>)
                else
                  (let st2 = (if portNum > cs_portMax st1 then st1\<lparr>cs_portMax := portNum\<rparr> else st1);
                       st3 = (if portNum < cs_portMin st2 then st2\<lparr>cs_portMin := portNum\<rparr> else st2);
                       st4 = (if cs_baseIP st3 \<noteq> ip then st3\<lparr>cs_ipChanged := True\<rparr> else st3);
                       st5 = (if cs_basePort st4 \<noteq> port then st4\<lparr>cs_portChanged := True\<rparr> else st4)
                   in classify_loop localIPs addrs st5))))"

definition classify_result :: "classify_state \<Rightarrow> nat_feature" where
  "classify_result st =
     (let behavior = (if cs_ipChanged st \<and> cs_portChanged st then BehaviorBothChanged
                      else if cs_ipChanged st then BehaviorIPChanged
                      else if cs_portChanged st then BehaviorPortChanged
                      else BehaviorNoChange);
          natType = (if cs_ipChanged st \<or> cs_portChanged st then HardNAT else EasyNAT);
          diff = (if behavior = BehaviorPortChanged then cs_portMax st - cs_portMin st else 0)
      in \<lparr>nf_NatType = natType, nf_Behavior = behavior, nf_PortsDifference = diff,
          nf_RegularPortsChange = (behavior = BehaviorPortChanged \<and> diff \<le> 5 \<and> diff \<ge> 1),
          nf_PublicNetwork = cs_public st\<rparr>)"

definition ClassifyNATFeature :: "string list \<Rightarrow> string list \<Rightarrow> classify_error + nat_feature" where
  "ClassifyNATFeature addresses localIPs =
     (if length addresses \<le> 1 then Inl NotEnoughAddresses
      else (case classify_loop localIPs addresses
                  \<lparr>cs_baseIP = [], cs_basePort = [], cs_portMax = 0, cs_portMin = 0, cs_ipChanged = False,
                   cs_portChanged = False, cs_public = False\<rparr> of
              Inl e \<Rightarrow> Inl e
            | Inr st \<Rightarrow> Inr (classify_result st)))"

definition ClassifyFeatureCount :: "nat_feature list \<Rightarrow> nat \<times> nat \<times> nat" where
  "ClassifyFeatureCount features =
     foldl (\<lambda>(easy, hard, regular) f.
        if nf_NatType f = EasyNAT then (Suc easy, hard, regular)
        else (easy, Suc hard, if nf_RegularPortsChange f then Suc regular else regular))
       (0, 0, 0) features"

section \<open>Behaviours\<close>

record behavior =
  rb_Role :: string
  rb_TTL :: int
  rb_SendDelayMs :: int
  rb_PortsRangeNumber :: int
  rb_PortsRandomNumber :: int
  rb_ListenRandomPorts :: int

definition DetectRoleSender :: string where "DetectRoleSender = ''sender''"
definition DetectRoleReceiver :: string where "DetectRoleReceiver = ''receiver''"

definition beh0 :: behavior where
  "beh0 = \<lparr>rb_Role = [], rb_TTL = 0, rb_SendDelayMs = 0, rb_PortsRangeNumber = 0,
           rb_PortsRandomNumber = 0, rb_ListenRandomPorts = 0\<rparr>"

abbreviation sender :: behavior where
  "sender \<equiv> beh0\<lparr>rb_Role := DetectRoleSender\<rparr>"

abbreviation receiver :: behavior where
  "receiver \<equiv> beh0\<lparr>rb_Role := DetectRoleReceiver\<rparr>"

definition mode0Behaviors :: "(behavior \<times> behavior) list" where
  "mode0Behaviors =
     [(sender, receiver\<lparr>rb_TTL := 7\<rparr>),
      (receiver\<lparr>rb_TTL := 7\<rparr>, sender),
      (sender, receiver\<lparr>rb_TTL := 4\<rparr>),
      (receiver\<lparr>rb_TTL := 4\<rparr>, sender),
      (sender, receiver),
      (receiver, sender),
      (sender\<lparr>rb_SendDelayMs := 5000\<rparr>, receiver),
      (sender\<lparr>rb_SendDelayMs := 10000\<rparr>, receiver),
      (receiver, sender\<lparr>rb_SendDelayMs := 5000\<rparr>),
      (receiver, sender\<lparr>rb_SendDelayMs := 10000\<rparr>)]"

definition mode1Behaviors :: "(behavior \<times> behavior) list" where
  "mode1Behaviors =
     [(sender, receiver\<lparr>rb_TTL := 7, rb_PortsRangeNumber := 10\<rparr>),
      (sender\<lparr>rb_SendDelayMs := 2000\<rparr>, receiver\<lparr>rb_TTL := 7, rb_PortsRangeNumber := 10\<rparr>),
      (sender, receiver\<lparr>rb_TTL := 4, rb_PortsRangeNumber := 10\<rparr>),
      (sender\<lparr>rb_SendDelayMs := 2000\<rparr>, receiver\<lparr>rb_TTL := 4, rb_PortsRangeNumber := 10\<rparr>),
      (sender, receiver\<lparr>rb_PortsRangeNumber := 10\<rparr>),
      (sender\<lparr>rb_SendDelayMs := 2000\<rparr>, receiver\<lparr>rb_PortsRangeNumber := 10\<rparr>)]"

definition mode2Behaviors :: "(behavior \<times> behavior) list" where
  "mode2Behaviors =
     [(sender\<lparr>rb_PortsRandomNumber := 1000, rb_SendDelayMs := 3000\<rparr>, receiver\<lparr>rb_ListenRandomPorts := 256, rb_TTL := 7\<rparr>),
      (sender\<lparr>rb_PortsRandomNumber := 1000, rb_SendDelayMs := 3000\<rparr>, receiver\<lparr>rb_ListenRandomPorts := 256, rb_TTL := 4\<rparr>),
      (sender\<lparr>rb_PortsRandomNumber := 1000, rb_SendDelayMs := 3000\<rparr>, receiver\<lparr>rb_ListenRandomPorts := 256\<rparr>)]"

definition mode3Behaviors :: "(behavior \<times> behavior) list" where
  "mode3Behaviors =
     [(sender\<lparr>rb_PortsRangeNumber := 10\<rparr>, receiver\<lparr>rb_TTL := 7, rb_PortsRangeNumber := 10\<rparr>),
      (sender\<lparr>rb_PortsRangeNumber := 10\<rparr>, receiver\<lparr>rb_TTL := 4, rb_PortsRangeNumber := 10\<rparr>),
      (sender\<lparr>rb_PortsRangeNumber := 10\<rparr>, receiver\<lparr>rb_PortsRangeNumber := 10\<rparr>),
      (receiver\<lparr>rb_TTL := 7, rb_PortsRangeNumber := 10\<rparr>, sender\<lparr>rb_PortsRangeNumber := 10\<rparr>),
      (receiver\<lparr>rb_TTL := 4, rb_PortsRangeNumber := 10\<rparr>, sender\<lparr>rb_PortsRangeNumber := 10\<rparr>),
      (receiver\<lparr>rb_PortsRangeNumber := 10\<rparr>, sender\<lparr>rb_PortsRangeNumber := 10\<rparr>)]"

definition mode4Behaviors :: "(behavior \<times> behavior) list" where
  "mode4Behaviors =
     [(sender\<lparr>rb_PortsRandomNumber := 1000, rb_SendDelayMs := 3000\<rparr>,
       receiver\<lparr>rb_ListenRandomPorts := 256, rb_TTL := 7, rb_PortsRangeNumber := 2\<rparr>),
      (sender\<lparr>rb_PortsRandomNumber := 1000, rb_SendDelayMs := 3000\<rparr>,
       receiver\<lparr>rb_ListenRandomPorts := 256, rb_TTL := 4, rb_PortsRangeNumber := 2\<rparr>),
      (sender\<lparr>rb_PortsRandomNumber := 1000, rb_SendDelayMs := 3000\<rparr>,
       receiver\<lparr>rb_ListenRandomPorts := 256, rb_PortsRangeNumber := 2\<rparr>)]"

definition getBehaviorByMode :: "nat \<Rightarrow> (behavior \<times> behavior) list" where
  "getBehaviorByMode mode =
     (if mode = 0 then mode0Behaviors else if mode = 1 then mode1Behaviors
      else if mode = 2 then mode2Behaviors else if mode = 3 then mode3Behaviors
      else if mode = 4 then mode4Behaviors else mode0Behaviors)"

definition getBehaviorByModeAndIndex :: "nat \<Rightarrow> nat \<Rightarrow> behavior \<times> behavior" where
  "getBehaviorByModeAndIndex mode index =
     (let behaviors = getBehaviorByMode mode in
      if index \<ge> length behaviors then (beh0, beh0) else behaviors ! index)"

section \<open>Scores\<close>

record behavior_score =
  bs_Mode :: nat
  bs_Index :: nat
  bs_Score :: int

definition getBehaviorScoresByMode2 :: "nat \<Rightarrow> int \<Rightarrow> int \<Rightarrow> behavior_score list" where
  "getBehaviorScoresByMode2 mode senderScore receiverScore =
     (let behaviors = getBehaviorByMode mode in
      map (\<lambda>i. \<lparr>bs_Mode = mode, bs_Index = i,
                bs_Score = (if rb_Role (fst (behaviors ! i)) = DetectRoleSender then senderScore else receiverScore)\<rparr>)
        [0..<length behaviors])"

definition getBehaviorScoresByMode :: "nat \<Rightarrow> int \<Rightarrow> behavior_score list" where
  "getBehaviorScoresByMode mode defaultScore = getBehaviorScoresByMode2 mode defaultScore defaultScore"

record hole_records =
  hr_scores :: "behavior_score list"
  hr_LastUpdateTime :: int

definition mode0_scores :: "nat_feature \<Rightarrow> nat_feature \<Rightarrow> behavior_score list" where
  "mode0_scores c v =
     (if nf_PublicNetwork c then getBehaviorScoresByMode2 0 0 1
      else if nf_PublicNetwork v then getBehaviorScoresByMode2 0 1 0
      else getBehaviorScoresByMode 0 0)"

definition NewMakeHoleRecords :: "int \<Rightarrow> nat_feature \<Rightarrow> nat_feature \<Rightarrow> hole_records" where
  "NewMakeHoleRecords now c v =
     (case ClassifyFeatureCount [c, v] of (easy, hard, regular) \<Rightarrow>
        \<lparr>hr_scores =
           (if easy = 2 then mode0_scores c v
            else if hard = 1 \<and> regular = 1 then
              getBehaviorScoresByMode 1 0 @ getBehaviorScoresByMode 2 0 @ mode0_scores c v
            else if hard = 1 \<and> regular = 0 then
              getBehaviorScoresByMode 2 0 @ getBehaviorScoresByMode 1 0 @ mode0_scores c v
            else if hard = 2 \<and> regular = 2 then getBehaviorScoresByMode 3 0 @ getBehaviorScoresByMode 4 0
            else if hard = 2 \<and> regular = 1 then getBehaviorScoresByMode 4 0
            else getBehaviorScoresByMode 0 1 @ getBehaviorScoresByMode 1 1 @ getBehaviorScoresByMode 3 1),
         hr_LastUpdateTime = now\<rparr>)"

text \<open>The first score of the mode and index gets two points more, ten at most.\<close>

fun bump_score :: "nat \<Rightarrow> nat \<Rightarrow> behavior_score list \<Rightarrow> behavior_score list" where
  "bump_score mode index [] = []"
| "bump_score mode index (s # ss) =
     (if bs_Mode s \<noteq> mode \<or> bs_Index s \<noteq> index then s # bump_score mode index ss
      else s\<lparr>bs_Score := min (bs_Score s + 2) 10\<rparr> # ss)"

definition records_ReportSuccess :: "int \<Rightarrow> nat \<Rightarrow> nat \<Rightarrow> hole_records \<Rightarrow> hole_records" where
  "records_ReportSuccess now mode index r =
     r\<lparr>hr_LastUpdateTime := now, hr_scores := bump_score mode index (hr_scores r)\<rparr>"

text \<open>\<open>slices.MaxFunc\<close>: the position of the first maximum.\<close>

fun max_index :: "nat \<Rightarrow> int \<Rightarrow> nat \<Rightarrow> behavior_score list \<Rightarrow> nat" where
  "max_index best bestScore i [] = best"
| "max_index best bestScore i (s # ss) =
     (if bs_Score s > bestScore then max_index i (bs_Score s) (Suc i) ss
      else max_index best bestScore (Suc i) ss)"

definition Recommand :: "int \<Rightarrow> hole_records \<Rightarrow> (nat \<times> nat) \<times> hole_records" where
  "Recommand now r =
     (case hr_scores r of
        [] \<Rightarrow> ((0, 0), r)
      | s # ss \<Rightarrow>
          (let k = max_index 0 (bs_Score s) 1 ss; m = hr_scores r ! k in
           ((bs_Mode m, bs_Index m),
            r\<lparr>hr_scores := (hr_scores r)[k := m\<lparr>bs_Score := bs_Score m - 1\<rparr>], hr_LastUpdateTime := now\<rparr>)))"

section \<open>Analyzer\<close>

record analyzer =
  an_records :: "string \<rightharpoonup> hole_records"
  an_dataReserveDuration :: int

definition NewAnalyzer :: "int \<Rightarrow> analyzer" where
  "NewAnalyzer d = \<lparr>an_records = Map.empty, an_dataReserveDuration = d\<rparr>"

definition GetRecommandBehaviors ::
  "int \<Rightarrow> string \<Rightarrow> nat_feature \<Rightarrow> nat_feature \<Rightarrow> analyzer \<Rightarrow> (nat \<times> nat \<times> behavior \<times> behavior) \<times> analyzer" where
  "GetRecommandBehaviors now key c v a =
     (let records = (case an_records a key of None \<Rightarrow> NewMakeHoleRecords now c v | Some r \<Rightarrow> r);
          ((mode, index), records') = Recommand now records;
          (cB, vB) = getBehaviorByModeAndIndex mode index;
          swap = (if mode = 1 then nf_NatType c = EasyNAT
                  else if mode = 2 then nf_NatType c = HardNAT
                  else if mode = 4 then \<not> nf_RegularPortsChange c
                  else False);
          (cB', vB') = (if swap then (vB, cB) else (cB, vB))
      in ((mode, index, cB', vB'), a\<lparr>an_records := (an_records a)(key \<mapsto> records')\<rparr>))"

definition analyzer_ReportSuccess :: "int \<Rightarrow> string \<Rightarrow> nat \<Rightarrow> nat \<Rightarrow> analyzer \<Rightarrow> analyzer" where
  "analyzer_ReportSuccess now key mode index a =
     (case an_records a key of
        None \<Rightarrow> a
      | Some r \<Rightarrow> a\<lparr>an_records := (an_records a)(key \<mapsto> records_ReportSuccess now mode index r)\<rparr>)"

text \<open>\<open>Clean\<close>; the counts it returns are only logged.\<close>

definition analyzer_Clean :: "int \<Rightarrow> analyzer \<Rightarrow> analyzer" where
  "analyzer_Clean now a =
     a\<lparr>an_records := restrict_by (\<lambda>key r. \<not> (now - hr_LastUpdateTime r > an_dataReserveDuration a)) (an_records a)\<rparr>"

section \<open>Invariant\<close>

text \<open>Every score names a behaviour that exists, and no score is above ten.\<close>

definition score_ok :: "behavior_score \<Rightarrow> bool" where
  "score_ok s \<longleftrightarrow> bs_Mode s \<le> 4 \<and> bs_Index s < length (getBehaviorByMode (bs_Mode s)) \<and> bs_Score s \<le> 10"

definition records_ok :: "hole_records \<Rightarrow> bool" where
  "records_ok r \<longleftrightarrow> hr_scores r \<noteq> [] \<and> list_all score_ok (hr_scores r)"

lemma scores_ok:
  "mode \<le> 4 \<Longrightarrow> p \<le> 10 \<Longrightarrow> q \<le> 10 \<Longrightarrow> list_all score_ok (getBehaviorScoresByMode2 mode p q)"
  "mode \<le> 4 \<Longrightarrow> p \<le> 10 \<Longrightarrow> list_all score_ok (getBehaviorScoresByMode mode p)"
  by (auto simp: getBehaviorScoresByMode_def getBehaviorScoresByMode2_def list_all_iff score_ok_def Let_def)

lemma length_scores:
  "length (getBehaviorScoresByMode2 mode p q) = length (getBehaviorByMode mode)"
  "length (getBehaviorScoresByMode mode p) = length (getBehaviorByMode mode)"
  by (simp_all add: getBehaviorScoresByMode_def getBehaviorScoresByMode2_def Let_def)

lemma behaviors_not_Nil: "getBehaviorByMode mode \<noteq> []"
  by (simp add: getBehaviorByMode_def mode0Behaviors_def mode1Behaviors_def mode2Behaviors_def
      mode3Behaviors_def mode4Behaviors_def)

lemma scores_not_Nil: "getBehaviorScoresByMode2 mode p q \<noteq> []" "getBehaviorScoresByMode mode p \<noteq> []"
  using length_scores behaviors_not_Nil by (metis length_0_conv)+

lemma NewMakeHoleRecords_ok: "records_ok (NewMakeHoleRecords now c v)"
  by (auto simp: records_ok_def NewMakeHoleRecords_def mode0_scores_def scores_ok scores_not_Nil
      split: prod.splits)

lemma bump_score_ok: "list_all score_ok ss \<Longrightarrow> list_all score_ok (bump_score mode index ss)"
  by (induction ss) (auto simp: score_ok_def)

lemma bump_score_Nil [simp]: "bump_score mode index ss = [] \<longleftrightarrow> ss = []"
  by (cases ss) auto

lemma max_index_spec:
  assumes "xs = ys @ ss" and "length ys = i" and "best < i" and "bs_Score (xs ! best) = bestScore"
    and "\<forall>j < i. bs_Score (xs ! j) \<le> bestScore" and "\<forall>j < best. bs_Score (xs ! j) < bestScore"
  shows "max_index best bestScore i ss < length xs \<and>
    (\<forall>j < length xs. bs_Score (xs ! j) \<le> bs_Score (xs ! max_index best bestScore i ss)) \<and>
    (\<forall>j < max_index best bestScore i ss. bs_Score (xs ! j) < bs_Score (xs ! max_index best bestScore i ss))"
  using assms
proof (induction ss arbitrary: ys best bestScore i)
  case (Cons s ss)
  have s: "xs ! i = s" using Cons.prems(1,2) by (simp add: nth_append)
  have x: "xs = (ys @ [s]) @ ss" "length (ys @ [s]) = Suc i" using Cons.prems(1,2) by simp_all
  show ?case
  proof (cases "bs_Score s > bestScore")
    case True
    have "\<forall>j < Suc i. bs_Score (xs ! j) \<le> bs_Score s" "\<forall>j < i. bs_Score (xs ! j) < bs_Score s"
      using Cons.prems(5) True s by (auto simp: less_Suc_eq)
    then show ?thesis using Cons.IH [OF x, of i "bs_Score s"] True s by simp
  next
    case False
    have "\<forall>j < Suc i. bs_Score (xs ! j) \<le> bestScore" using Cons.prems(5) False s by (auto simp: less_Suc_eq)
    then show ?thesis using Cons.IH [OF x, of best bestScore] Cons.prems(3,4,6) False by simp
  qed
qed auto

lemma Recommand_spec:
  assumes "hr_scores r \<noteq> []"
  shows "\<exists>k < length (hr_scores r).
     (\<forall>j < length (hr_scores r). bs_Score (hr_scores r ! j) \<le> bs_Score (hr_scores r ! k)) \<and>
     (\<forall>j < k. bs_Score (hr_scores r ! j) < bs_Score (hr_scores r ! k)) \<and>
     Recommand now r = ((bs_Mode (hr_scores r ! k), bs_Index (hr_scores r ! k)),
       r\<lparr>hr_scores := (hr_scores r)[k := (hr_scores r ! k)\<lparr>bs_Score := bs_Score (hr_scores r ! k) - 1\<rparr>],
         hr_LastUpdateTime := now\<rparr>)"
proof -
  obtain s ss where s: "hr_scores r = s # ss" using assms by (cases "hr_scores r") auto
  have "max_index 0 (bs_Score s) 1 ss < length (s # ss) \<and>
    (\<forall>j < length (s # ss). bs_Score ((s # ss) ! j) \<le> bs_Score ((s # ss) ! max_index 0 (bs_Score s) 1 ss)) \<and>
    (\<forall>j < max_index 0 (bs_Score s) 1 ss. bs_Score ((s # ss) ! j) < bs_Score ((s # ss) ! max_index 0 (bs_Score s) 1 ss))"
    by (rule max_index_spec [of _ "[s]"]) auto
  then show ?thesis
    by (intro exI [of _ "max_index 0 (bs_Score s) 1 ss"]) (simp add: Recommand_def s Let_def)
qed

lemma Recommand_ok:
  assumes "records_ok r" and "Recommand now r = ((mode, index), r')"
  shows "records_ok r' \<and> mode \<le> 4 \<and> index < length (getBehaviorByMode mode)"
proof -
  have n: "hr_scores r \<noteq> []" and ok: "list_all score_ok (hr_scores r)" using assms(1) by (simp_all add: records_ok_def)
  from Recommand_spec [OF n, of now] obtain k where k: "k < length (hr_scores r)" and
    R: "Recommand now r = ((bs_Mode (hr_scores r ! k), bs_Index (hr_scores r ! k)),
       r\<lparr>hr_scores := (hr_scores r)[k := (hr_scores r ! k)\<lparr>bs_Score := bs_Score (hr_scores r ! k) - 1\<rparr>],
         hr_LastUpdateTime := now\<rparr>)" by blast
  have s: "score_ok (hr_scores r ! k)" using ok k by (simp add: list_all_length)
  have "list_all score_ok ((hr_scores r)[k := (hr_scores r ! k)\<lparr>bs_Score := bs_Score (hr_scores r ! k) - 1\<rparr>])"
    using ok s k by (auto simp: list_all_length nth_list_update score_ok_def)
  then show ?thesis using assms(2) R s n by (auto simp: records_ok_def score_ok_def)
qed

inductive analyzer_reachable :: "analyzer \<Rightarrow> bool" where
  start: "analyzer_reachable (NewAnalyzer d)"
| recommend: "analyzer_reachable a \<Longrightarrow> analyzer_reachable (snd (GetRecommandBehaviors now key c v a))"
| report: "analyzer_reachable a \<Longrightarrow> analyzer_reachable (analyzer_ReportSuccess now key mode index a)"
| clean: "analyzer_reachable a \<Longrightarrow> analyzer_reachable (analyzer_Clean now a)"

lemma analyzer_reachable_ok: "analyzer_reachable a \<Longrightarrow> an_records a key = Some r \<Longrightarrow> records_ok r"
proof (induction arbitrary: key r rule: analyzer_reachable.induct)
  case (recommend a now key' c v)
  let ?r = "case an_records a key' of None \<Rightarrow> NewMakeHoleRecords now c v | Some r \<Rightarrow> r"
  have "records_ok ?r" using recommend.IH NewMakeHoleRecords_ok by (auto split: option.splits)
  then have "records_ok (snd (Recommand now ?r))"
    using Recommand_ok [of ?r now] by (metis prod.collapse)
  then show ?case
    using recommend.prems recommend.IH
    by (auto simp: GetRecommandBehaviors_def Let_def split: prod.splits if_splits)
next
  case (report a now key' mode index)
  then show ?case
    by (auto simp: analyzer_ReportSuccess_def records_ok_def records_ReportSuccess_def bump_score_ok
        split: option.splits if_splits)
qed (auto simp: NewAnalyzer_def analyzer_Clean_def)


section \<open>Properties\<close>

definition opposite_roles :: "behavior \<times> behavior \<Rightarrow> bool" where
  "opposite_roles p \<longleftrightarrow>
     rb_Role (fst p) = DetectRoleSender \<and> rb_Role (snd p) = DetectRoleReceiver \<or>
     rb_Role (fst p) = DetectRoleReceiver \<and> rb_Role (snd p) = DetectRoleSender"

lemmas mode_tables = mode0Behaviors_def mode1Behaviors_def mode2Behaviors_def mode3Behaviors_def
  mode4Behaviors_def

lemma behaviors_opposite: "list_all opposite_roles (getBehaviorByMode mode)"
  by (simp add: getBehaviorByMode_def mode_tables opposite_roles_def)

text \<open>In the modes 1, 2 and 4 the first of the pair is always the sender.\<close>

lemma behaviors_sender_first:
  "mode = 1 \<or> mode = 2 \<or> mode = 4 \<Longrightarrow>
   list_all (\<lambda>p. rb_Role (fst p) = DetectRoleSender) (getBehaviorByMode mode)"
  by (auto simp: getBehaviorByMode_def mode_tables)

lemma role_sender_or_receiver: "DetectRoleSender \<noteq> DetectRoleReceiver"
  by (simp add: DetectRoleSender_def DetectRoleReceiver_def)

lemma GetRecommandBehaviors_index:
  assumes "analyzer_reachable a" and "GetRecommandBehaviors now key c v a = ((mode, index, cB, vB), a')"
  shows "index < length (getBehaviorByMode mode) \<and>
    (cB, vB) = (let p = getBehaviorByMode mode ! index in
       if mode = 1 \<and> nf_NatType c = EasyNAT \<or> mode = 2 \<and> nf_NatType c = HardNAT \<or>
          mode = 4 \<and> \<not> nf_RegularPortsChange c
       then (snd p, fst p) else p)"
proof -
  let ?r = "case an_records a key of None \<Rightarrow> NewMakeHoleRecords now c v | Some r \<Rightarrow> r"
  have "records_ok ?r"
    using analyzer_reachable_ok [OF assms(1)] NewMakeHoleRecords_ok by (auto split: option.splits)
  then have "index < length (getBehaviorByMode mode)"
    using assms(2) Recommand_ok [of ?r now]
    by (auto simp: GetRecommandBehaviors_def Let_def split: prod.splits)
  then show ?thesis
    using assms(2) by (auto simp: GetRecommandBehaviors_def getBehaviorByModeAndIndex_def Let_def
        split: prod.splits if_splits)
qed

lemma recommended_opposite:
  assumes "analyzer_reachable a" and "GetRecommandBehaviors now key c v a = ((mode, index, cB, vB), a')"
  shows "opposite_roles (cB, vB) \<and>
    (mode = 1 \<longrightarrow> (rb_Role cB = DetectRoleReceiver) = (nf_NatType c = EasyNAT)) \<and>
    (mode = 2 \<longrightarrow> (rb_Role cB = DetectRoleReceiver) = (nf_NatType c = HardNAT)) \<and>
    (mode = 4 \<longrightarrow> (rb_Role cB = DetectRoleSender) = nf_RegularPortsChange c)"
proof -
  let ?p = "getBehaviorByMode mode ! index"
  note i = GetRecommandBehaviors_index [OF assms]
  obtain p q where p: "?p = (p, q)" by (cases ?p)
  have o: "opposite_roles (p, q)" unfolding p [symmetric] using i behaviors_opposite [of mode] by (simp add: list_all_length)
  have f: "mode = 1 \<or> mode = 2 \<or> mode = 4 \<Longrightarrow> rb_Role p = DetectRoleSender"
    using i behaviors_sender_first [of mode] p by (auto simp: list_all_length)
  show ?thesis
    using i [unfolded p Let_def] o f role_sender_or_receiver by (auto simp: opposite_roles_def split: if_splits)
qed

text \<open>Whatever has been recommended, reported and cleaned before, the behaviours the analyzer gives to
  the two peers have opposite roles, one sender and one receiver. In mode 1 a client behind an easy NAT
  receives and any other client sends; in mode 2 a client behind a hard NAT receives and any other
  sends; in mode 4 the client sends exactly when its ports change regularly.\<close>

theorem recommended_roles:
  assumes "analyzer_reachable a" and "GetRecommandBehaviors now key c v a = ((mode, index, cB, vB), a')"
  shows "opposite_roles (cB, vB) \<and>
    (mode = 1 \<longrightarrow> (rb_Role cB = DetectRoleReceiver) = (nf_NatType c = EasyNAT)) \<and>
    (mode = 2 \<longrightarrow> (rb_Role cB = DetectRoleReceiver) = (nf_NatType c = HardNAT)) \<and>
    (mode = 4 \<longrightarrow> (rb_Role cB = DetectRoleSender) = nf_RegularPortsChange c)"
  using assms by (rule recommended_opposite)

theorem recommended_roles_witness:
  "\<exists>mode index cB vB a'.
     GetRecommandBehaviors 0 ''k''
       \<lparr>nf_NatType = EasyNAT, nf_Behavior = BehaviorNoChange, nf_PortsDifference = 0,
        nf_RegularPortsChange = False, nf_PublicNetwork = False\<rparr>
       \<lparr>nf_NatType = HardNAT, nf_Behavior = BehaviorPortChanged, nf_PortsDifference = 2,
        nf_RegularPortsChange = True, nf_PublicNetwork = False\<rparr> (NewAnalyzer 100)
       = ((mode, index, cB, vB), a') \<and> opposite_roles (cB, vB)"
proof -
  obtain mode index cB vB a' where g:
    "GetRecommandBehaviors 0 ''k''
       \<lparr>nf_NatType = EasyNAT, nf_Behavior = BehaviorNoChange, nf_PortsDifference = 0,
        nf_RegularPortsChange = False, nf_PublicNetwork = False\<rparr>
       \<lparr>nf_NatType = HardNAT, nf_Behavior = BehaviorPortChanged, nf_PortsDifference = 2,
        nf_RegularPortsChange = True, nf_PublicNetwork = False\<rparr> (NewAnalyzer 100)
       = ((mode, index, cB, vB), a')"
    by (metis surj_pair)
  show ?thesis using recommended_roles [OF analyzer_reachable.start g] g by blast
qed

text \<open>The recommendations of a sequence of calls.\<close>

fun recommend_run :: "int list \<Rightarrow> hole_records \<Rightarrow> (nat \<times> nat) list" where
  "recommend_run [] r = []"
| "recommend_run (t # ts) r = (case Recommand t r of (x, r') \<Rightarrow> x # recommend_run ts r')"

definition lower_first :: "nat \<Rightarrow> behavior_score list \<Rightarrow> behavior_score list" where
  "lower_first k ss = map (\<lambda>s. s\<lparr>bs_Score := bs_Score s - 1\<rparr>) (take k ss) @ drop k ss"

lemma length_lower_first [simp]: "length (lower_first k ss) = length ss"
  by (simp add: lower_first_def)

lemma lower_first_nth:
  "j < length ss \<Longrightarrow> lower_first k ss ! j = (if j < k then (ss ! j)\<lparr>bs_Score := bs_Score (ss ! j) - 1\<rparr> else ss ! j)"
  by (auto simp: lower_first_def nth_append)

lemma lower_first_Suc:
  "k < length ss \<Longrightarrow>
   (lower_first k ss)[k := (ss ! k)\<lparr>bs_Score := bs_Score (ss ! k) - 1\<rparr>] = lower_first (Suc k) ss"
  by (rule nth_equalityI) (auto simp: lower_first_nth nth_list_update less_Suc_eq)

lemma Recommand_next:
  assumes eq: "\<forall>s \<in> set ss. bs_Score s = b" and k: "k < length ss" and r: "hr_scores r = lower_first k ss"
  shows "fst (Recommand now r) = (bs_Mode (ss ! k), bs_Index (ss ! k)) \<and>
    hr_scores (snd (Recommand now r)) = lower_first (Suc k) ss"
proof -
  have sc: "bs_Score (hr_scores r ! j) = (if j < k then b - 1 else b)" if "j < length ss" for j
    using that eq r by (simp add: lower_first_nth)
  have "hr_scores r \<noteq> []" using r k by (metis length_0_conv length_lower_first not_less0)
  from Recommand_spec [OF this, of now] obtain i where i: "i < length ss"
    and mx: "\<forall>j < length ss. bs_Score (hr_scores r ! j) \<le> bs_Score (hr_scores r ! i)"
    and ft: "\<forall>j < i. bs_Score (hr_scores r ! j) < bs_Score (hr_scores r ! i)"
    and R: "Recommand now r = ((bs_Mode (hr_scores r ! i), bs_Index (hr_scores r ! i)),
       r\<lparr>hr_scores := (hr_scores r)[i := (hr_scores r ! i)\<lparr>bs_Score := bs_Score (hr_scores r ! i) - 1\<rparr>],
         hr_LastUpdateTime := now\<rparr>)" using r by auto
  have "\<not> i < k" using mx k sc [OF k] sc [OF i] by fastforce
  moreover have "\<not> k < i" using ft sc [OF k] sc [OF i] by fastforce
  ultimately have "i = k" by simp
  then show ?thesis using R r k by (simp add: lower_first_nth lower_first_Suc)
qed

lemma recommend_run_equal:
  assumes "\<forall>s \<in> set ss. bs_Score s = b" and "k + length ts \<le> length ss" and "hr_scores r = lower_first k ss"
  shows "recommend_run ts r = map (\<lambda>s. (bs_Mode s, bs_Index s)) (take (length ts) (drop k ss))"
  using assms
proof (induction ts arbitrary: k r)
  case (Cons t ts)
  have k: "k < length ss" using Cons.prems(2) by simp
  note n = Recommand_next [OF Cons.prems(1) k Cons.prems(3), of t]
  have "recommend_run ts (snd (Recommand t r)) = map (\<lambda>s. (bs_Mode s, bs_Index s)) (take (length ts) (drop (Suc k) ss))"
    using Cons.IH [of "Suc k"] Cons.prems(1,2) n by simp
  then show ?case using n k by (simp add: split_beta Cons_nth_drop_Suc [symmetric])
qed simp

lemma fresh_scores_equal:
  assumes "\<not> nf_PublicNetwork c" and "\<not> nf_PublicNetwork v"
  shows "\<exists>b. \<forall>s \<in> set (hr_scores (NewMakeHoleRecords now c v)). bs_Score s = b"
proof -
  have s: "\<forall>s \<in> set (getBehaviorScoresByMode mode d). bs_Score s = d" for mode d
    by (auto simp: getBehaviorScoresByMode_def getBehaviorScoresByMode2_def Let_def)
  show ?thesis using assms s
    by (auto simp: NewMakeHoleRecords_def mode0_scores_def ball_Un split: prod.splits)
qed

text \<open>For two peers that are not on the public network, the first recommendations, when none of them is
  reported as a success, go through the behaviours of the table in its order: every behaviour is tried
  once before any is tried again.\<close>

theorem recommend_tries_each_once:
  assumes "\<not> nf_PublicNetwork c" and "\<not> nf_PublicNetwork v"
    and "length ts = length (hr_scores (NewMakeHoleRecords now c v))"
  shows "recommend_run ts (NewMakeHoleRecords now c v) =
    map (\<lambda>s. (bs_Mode s, bs_Index s)) (hr_scores (NewMakeHoleRecords now c v))"
proof -
  obtain b where "\<forall>s \<in> set (hr_scores (NewMakeHoleRecords now c v)). bs_Score s = b"
    using fresh_scores_equal [OF assms(1,2)] by blast
  from recommend_run_equal [OF this, of 0 ts] show ?thesis using assms(3) by (simp add: lower_first_def)
qed

theorem recommend_tries_each_once_witness:
  "recommend_run (replicate 3 0) (NewMakeHoleRecords 0
       \<lparr>nf_NatType = HardNAT, nf_Behavior = BehaviorBothChanged, nf_PortsDifference = 0,
        nf_RegularPortsChange = False, nf_PublicNetwork = False\<rparr>
       \<lparr>nf_NatType = HardNAT, nf_Behavior = BehaviorPortChanged, nf_PortsDifference = 2,
        nf_RegularPortsChange = True, nf_PublicNetwork = False\<rparr>) = [(4, 0), (4, 1), (4, 2)]"
  by (subst recommend_tries_each_once)
    (simp_all add: NewMakeHoleRecords_def ClassifyFeatureCount_def EasyNAT_def HardNAT_def
      getBehaviorScoresByMode_def getBehaviorScoresByMode2_def getBehaviorByMode_def mode_tables upt_rec
      eval_nat_numeral Let_def)

end
