(* ===== verification/Counters.thy ===== *)
theory Counters
  imports Frp_Prelude "HOL-Library.Word"
begin

text \<open>
  The counters of \<open>pkg/util/metric\<close>: the atomic 32-bit counter and the counter by day that keeps
  the last days. Integers keep their width: \<open>int32\<close> is \<open>32 word\<close>, \<open>int64\<close> is \<open>64 word\<close>.

  Times are instants in nanoseconds. The local time zone is a parameter (\<open>clock\<close>): the local day of
  an instant, and the instant at which a local day begins. \<open>fixed_clock\<close> is a zone with a constant
  offset, in which every day has 24 hours.
\<close>

section \<open>Counter\<close>

type_synonym int32 = "32 word"
type_synonym int64 = "64 word"

record std_counter = sc_count :: int32

definition NewCounter :: std_counter where
  "NewCounter = \<lparr>sc_count = 0\<rparr>"

definition counter_Count :: "std_counter \<Rightarrow> int32" where
  "counter_Count c = sc_count c"

definition counter_Inc :: "int32 \<Rightarrow> std_counter \<Rightarrow> std_counter" where
  "counter_Inc n c = c\<lparr>sc_count := sc_count c + n\<rparr>"

definition counter_Dec :: "int32 \<Rightarrow> std_counter \<Rightarrow> std_counter" where
  "counter_Dec n c = c\<lparr>sc_count := sc_count c + - n\<rparr>"

definition counter_Snapshot :: "std_counter \<Rightarrow> std_counter" where
  "counter_Snapshot c = \<lparr>sc_count = sc_count c\<rparr>"

definition counter_Clear :: "std_counter \<Rightarrow> std_counter" where
  "counter_Clear c = c\<lparr>sc_count := 0\<rparr>"

section \<open>Clock\<close>

record clock =
  ck_day :: "int \<Rightarrow> int"
  ck_start :: "int \<Rightarrow> int"

definition day_ns :: int where
  "day_ns = 24 * 3600 * 1000000000"

definition fixed_clock :: "int \<Rightarrow> clock" where
  "fixed_clock z = \<lparr>ck_day = \<lambda>t. (t - z) div day_ns, ck_start = \<lambda>d. z + day_ns * d\<rparr>"

text \<open>\<open>time.Date(now.Year(), now.Month(), now.Day(), 0, 0, 0, 0, now.Location())\<close>\<close>

definition midnight :: "clock \<Rightarrow> int \<Rightarrow> int" where
  "midnight ck now = ck_start ck (ck_day ck now)"

section \<open>Counter by day\<close>

record date_counter =
  dc_reserveDays :: int
  dc_counts :: "int64 list"
  dc_lastUpdateDate :: int

definition newStandardDateCounter :: "clock \<Rightarrow> int \<Rightarrow> int \<Rightarrow> date_counter" where
  "newStandardDateCounter ck now reserveDays =
     \<lparr>dc_reserveDays = reserveDays, dc_counts = replicate (nat reserveDays) 0,
      dc_lastUpdateDate = midnight ck now\<rparr>"

definition NewDateCounter :: "clock \<Rightarrow> int \<Rightarrow> int \<Rightarrow> date_counter" where
  "NewDateCounter ck now reserveDays =
     newStandardDateCounter ck now (if reserveDays \<le> 0 then 1 else reserveDays)"

text \<open>\<open>int(d.Hours() / 24)\<close>, which truncates towards zero.\<close>

definition whole_days :: "int \<Rightarrow> int" where
  "whole_days d = (if d < 0 then - ((- d) div day_ns) else d div day_ns)"

definition dc_rotate :: "clock \<Rightarrow> int \<Rightarrow> date_counter \<Rightarrow> date_counter" where
  "dc_rotate ck now0 c =
     (let now = midnight ck now0;
          days = whole_days (now - dc_lastUpdateDate c);
          counts =
            (if days \<le> 0 then dc_counts c
             else if days \<ge> dc_reserveDays c then replicate (nat (dc_reserveDays c)) 0
             else map (\<lambda>i. if i < nat days then 0 else dc_counts c ! (i - nat days))
                    [0..<nat (dc_reserveDays c)])
      in c\<lparr>dc_counts := counts, dc_lastUpdateDate := now\<rparr>)"

definition TodayCount :: "clock \<Rightarrow> int \<Rightarrow> date_counter \<Rightarrow> int64 \<times> date_counter" where
  "TodayCount ck now c = (let c' = dc_rotate ck now c in (dc_counts c' ! 0, c'))"

text \<open>A negative number of days makes \<open>make\<close> panic: \<open>None\<close>.\<close>

definition GetLastDaysCount ::
  "clock \<Rightarrow> int \<Rightarrow> int \<Rightarrow> date_counter \<Rightarrow> (int64 list \<times> date_counter) option" where
  "GetLastDaysCount ck now lastdays0 c =
     (let lastdays = (if lastdays0 > dc_reserveDays c then dc_reserveDays c else lastdays0) in
      if lastdays < 0 then None
      else (let c' = dc_rotate ck now c in
            Some (map (\<lambda>i. dc_counts c' ! i) [0..<nat lastdays], c')))"

definition date_Inc :: "clock \<Rightarrow> int \<Rightarrow> int64 \<Rightarrow> date_counter \<Rightarrow> date_counter" where
  "date_Inc ck now n c =
     (let c' = dc_rotate ck now c in c'\<lparr>dc_counts := (dc_counts c')[0 := dc_counts c' ! 0 + n]\<rparr>)"

definition date_Dec :: "clock \<Rightarrow> int \<Rightarrow> int64 \<Rightarrow> date_counter \<Rightarrow> date_counter" where
  "date_Dec ck now n c =
     (let c' = dc_rotate ck now c in c'\<lparr>dc_counts := (dc_counts c')[0 := dc_counts c' ! 0 - n]\<rparr>)"

definition date_Snapshot :: "clock \<Rightarrow> int \<Rightarrow> date_counter \<Rightarrow> date_counter" where
  "date_Snapshot ck now c =
     (newStandardDateCounter ck now (dc_reserveDays c))
       \<lparr>dc_counts := map (\<lambda>i. dc_counts c ! i) [0..<nat (dc_reserveDays c)]\<rparr>"

definition date_Clear :: "date_counter \<Rightarrow> date_counter" where
  "date_Clear c = c\<lparr>dc_counts := map (\<lambda>i. 0) [0..<nat (dc_reserveDays c)]\<rparr>"

section \<open>Invariant\<close>

definition dc_inv :: "date_counter \<Rightarrow> bool" where
  "dc_inv c \<longleftrightarrow> 1 \<le> dc_reserveDays c \<and> length (dc_counts c) = nat (dc_reserveDays c)"

lemma NewDateCounter_inv: "dc_inv (NewDateCounter ck now r)"
  by (simp add: dc_inv_def NewDateCounter_def newStandardDateCounter_def)

lemma dc_rotate_inv [inv_intros]: "dc_inv c \<Longrightarrow> dc_inv (dc_rotate ck now c)"
  by (simp add: dc_inv_def dc_rotate_def Let_def)

lemma date_Inc_inv [inv_intros]: "dc_inv c \<Longrightarrow> dc_inv (date_Inc ck now n c)"
  using dc_rotate_inv [of c ck now] by (simp add: dc_inv_def date_Inc_def Let_def)

lemma date_Dec_inv [inv_intros]: "dc_inv c \<Longrightarrow> dc_inv (date_Dec ck now n c)"
  using dc_rotate_inv [of c ck now] by (simp add: dc_inv_def date_Dec_def Let_def)

lemma date_Clear_inv [inv_intros]: "dc_inv c \<Longrightarrow> dc_inv (date_Clear c)"
  by (simp add: dc_inv_def date_Clear_def)

lemma date_Snapshot_inv [inv_intros]: "dc_inv c \<Longrightarrow> dc_inv (date_Snapshot ck now c)"
  by (simp add: dc_inv_def date_Snapshot_def newStandardDateCounter_def)

lemma reserve_rotate [simp]: "dc_reserveDays (dc_rotate ck now c) = dc_reserveDays c"
  by (simp add: dc_rotate_def Let_def)

lemma reserve_Inc [simp]: "dc_reserveDays (date_Inc ck now n c) = dc_reserveDays c"
  by (simp add: date_Inc_def Let_def)

lemma last_Inc [simp]: "dc_lastUpdateDate (date_Inc ck now n c) = midnight ck now"
  by (simp add: date_Inc_def dc_rotate_def Let_def)

section \<open>The abstract counter\<close>

text \<open>What the counter holds, as a total per day: the days that are not kept any more are 0.\<close>

definition dc_abs :: "int \<Rightarrow> date_counter \<Rightarrow> int \<Rightarrow> int64" where
  "dc_abs z c d =
     (let last = ck_day (fixed_clock z) (dc_lastUpdateDate c) in
      if d \<le> last \<and> last - d < dc_reserveDays c then dc_counts c ! nat (last - d) else 0)"

lemma day_ns_pos [simp]: "0 < day_ns"
  by (simp add: day_ns_def)

lemma ck_day_midnight [simp]:
  "ck_day (fixed_clock z) (midnight (fixed_clock z) t) = ck_day (fixed_clock z) t"
  by (simp add: midnight_def fixed_clock_def less_imp_neq [OF day_ns_pos, symmetric])

lemma midnight_idem [simp]:
  "midnight (fixed_clock z) (midnight (fixed_clock z) t) = midnight (fixed_clock z) t"
  by (simp add: midnight_def [of _ "midnight _ _"]) (simp add: midnight_def)

lemma whole_days_midnight:
  "whole_days (midnight (fixed_clock z) t - midnight (fixed_clock z) s) =
     ck_day (fixed_clock z) t - ck_day (fixed_clock z) s"
proof -
  have "midnight (fixed_clock z) t - midnight (fixed_clock z) s =
      day_ns * (ck_day (fixed_clock z) t - ck_day (fixed_clock z) s)"
    by (simp add: midnight_def fixed_clock_def right_diff_distrib)
  moreover have "whole_days (day_ns * k) = k" for k
  proof -
    have "- (day_ns * k) div day_ns = - k"
      using nonzero_mult_div_cancel_left [of day_ns "- k"] less_imp_neq [OF day_ns_pos] by simp
    then show ?thesis
      using less_imp_neq [OF day_ns_pos] by (simp add: whole_days_def)
  qed
  ultimately show ?thesis by simp
qed

text \<open>The last update is a midnight: true from the start and kept by every operation.\<close>

definition dc_at_midnight :: "int \<Rightarrow> date_counter \<Rightarrow> bool" where
  "dc_at_midnight z c \<longleftrightarrow> midnight (fixed_clock z) (dc_lastUpdateDate c) = dc_lastUpdateDate c"

lemma dc_rotate_abs:
  assumes "dc_inv c" and "dc_at_midnight z c"
    and "ck_day (fixed_clock z) (dc_lastUpdateDate c) \<le> ck_day (fixed_clock z) now"
  shows "dc_abs z (dc_rotate (fixed_clock z) now c) d =
     (if ck_day (fixed_clock z) now - d < dc_reserveDays c then dc_abs z c d else 0)"
proof -
  let ?last = "ck_day (fixed_clock z) (dc_lastUpdateDate c)" and ?now = "ck_day (fixed_clock z) now"
  define k where "k = ?now - ?last"
  have k: "whole_days (midnight (fixed_clock z) now - dc_lastUpdateDate c) = k"
    using whole_days_midnight [of z now "dc_lastUpdateDate c"] assms(2)
    by (simp add: dc_at_midnight_def k_def)
  have r: "1 \<le> dc_reserveDays c" "length (dc_counts c) = nat (dc_reserveDays c)"
    using assms(1) by (auto simp: dc_inv_def)
  have l: "?now = ?last + k" "0 \<le> k" using assms(3) by (simp_all add: k_def)
  have e: "dc_abs z (dc_rotate (fixed_clock z) now c) d =
     (if d \<le> ?now \<and> ?now - d < dc_reserveDays c
      then dc_counts (dc_rotate (fixed_clock z) now c) ! nat (?now - d) else 0)"
    by (simp add: dc_abs_def dc_rotate_def Let_def)
  show ?thesis
  proof (cases "d \<le> ?now \<and> ?now - d < dc_reserveDays c")
    case False
    then show ?thesis using e l by (auto simp: dc_abs_def Let_def)
  next
    case True
    have n: "dc_counts (dc_rotate (fixed_clock z) now c) ! nat (?now - d) =
        (if k \<le> 0 then dc_counts c ! nat (?now - d)
         else if k \<ge> dc_reserveDays c then 0
         else if nat (?now - d) < nat k then 0 else dc_counts c ! (nat (?now - d) - nat k))"
      using True r k by (auto simp: dc_rotate_def Let_def)
    have "nat (?now - d) - nat k = nat (?last - d)" "nat (?now - d) < nat k \<longleftrightarrow> ?last < d \<and> 0 < k"
      using l True by auto
    then show ?thesis using e n True l r by (auto simp: dc_abs_def Let_def)
  qed
qed

lemma dc_rotate_at_midnight: "dc_at_midnight z (dc_rotate (fixed_clock z) now c)"
  by (simp add: dc_at_midnight_def dc_rotate_def Let_def)

lemma Inc_abs:
  assumes "dc_inv c" and "dc_at_midnight z c"
    and "ck_day (fixed_clock z) (dc_lastUpdateDate c) \<le> ck_day (fixed_clock z) now"
  shows "dc_abs z (date_Inc (fixed_clock z) now n c) d =
     (if ck_day (fixed_clock z) now - d < dc_reserveDays c
      then dc_abs z c d + (if d = ck_day (fixed_clock z) now then n else 0) else 0)"
proof -
  let ?c = "dc_rotate (fixed_clock z) now c"
  have l: "dc_lastUpdateDate ?c = midnight (fixed_clock z) now" by (simp add: dc_rotate_def Let_def)
  have len: "0 < length (dc_counts ?c)" "1 \<le> dc_reserveDays c"
    using dc_rotate_inv [OF assms(1), of "fixed_clock z" now] by (auto simp: dc_inv_def)
  have "dc_abs z (date_Inc (fixed_clock z) now n c) d =
      dc_abs z ?c d + (if d = ck_day (fixed_clock z) now then n else 0)"
    using len by (auto simp: dc_abs_def date_Inc_def Let_def l nth_list_update)
  then show ?thesis using dc_rotate_abs [OF assms] len(2) by auto
qed

section \<open>Histories\<close>

definition run_incs :: "clock \<Rightarrow> (int \<times> int64) list \<Rightarrow> date_counter \<Rightarrow> date_counter" where
  "run_incs ck ops c = foldl (\<lambda>c p. date_Inc ck (fst p) (snd p) c) c ops"

definition day_total :: "int \<Rightarrow> (int \<times> int64) list \<Rightarrow> int \<Rightarrow> int64" where
  "day_total z ops d = (\<Sum>p\<leftarrow>ops. if ck_day (fixed_clock z) (fst p) = d then snd p else 0)"

lemma ck_day_mono: "s \<le> t \<Longrightarrow> ck_day (fixed_clock z) s \<le> ck_day (fixed_clock z) t"
  by (simp add: fixed_clock_def zdiv_mono1)

lemma day_total_snoc:
  "day_total z (ops @ [p]) d = day_total z ops d + (if ck_day (fixed_clock z) (fst p) = d then snd p else 0)"
  by (simp add: day_total_def)

lemma sorted_snoc_last:
  assumes "sorted (s # xs @ [x])"
  shows "sorted (s # xs)" and "last (s # xs) \<le> x" and "\<forall>y \<in> set xs. y \<le> x"
proof -
  have "sorted ((s # xs) @ [x])" using assms by simp
  then have "sorted (s # xs)" "\<forall>y \<in> set (s # xs). y \<le> x" unfolding sorted_append by auto
  then show "sorted (s # xs)" "last (s # xs) \<le> x" "\<forall>y \<in> set xs. y \<le> x"
    using last_in_set [of "s # xs"] by (blast, metis list.distinct(1), simp)
qed

lemma run_incs_abs:
  assumes "sorted (start # map fst ops)" and "1 \<le> r" and "t = last (start # map fst ops)"
    and "c = run_incs (fixed_clock z) ops (NewDateCounter (fixed_clock z) start r)"
  shows "dc_inv c \<and> dc_reserveDays c = r \<and> dc_lastUpdateDate c = midnight (fixed_clock z) t \<and>
     (\<forall>d. ck_day (fixed_clock z) t - d < r \<longrightarrow> dc_abs z c d = day_total z ops d)"
  using assms
proof (induction ops arbitrary: t c rule: rev_induct)
  case Nil
  then show ?case
    using NewDateCounter_inv [of "fixed_clock z" start r]
    by (auto simp: run_incs_def NewDateCounter_def newStandardDateCounter_def dc_abs_def day_total_def Let_def)
next
  case (snoc p ops)
  let ?t = "last (start # map fst ops)"
  let ?c = "run_incs (fixed_clock z) ops (NewDateCounter (fixed_clock z) start r)"
  have s: "sorted (start # map fst ops)" "?t \<le> fst p"
    using sorted_snoc_last(1,2) [of start "map fst ops" "fst p"] snoc.prems(1) by simp_all
  have t: "t = fst p" using snoc.prems(3) by simp
  have c: "c = date_Inc (fixed_clock z) (fst p) (snd p) ?c"
    using snoc.prems(4) by (simp add: run_incs_def)
  note IH = snoc.IH [OF s(1) snoc.prems(2) refl refl]
  have m: "dc_at_midnight z ?c" "ck_day (fixed_clock z) (dc_lastUpdateDate ?c) \<le> ck_day (fixed_clock z) (fst p)"
    using IH ck_day_mono [OF s(2)] by (auto simp: dc_at_midnight_def)
  have a: "dc_abs z c d = (if ck_day (fixed_clock z) (fst p) - d < r
      then dc_abs z ?c d + (if d = ck_day (fixed_clock z) (fst p) then snd p else 0) else 0)" for d
    using Inc_abs [OF _ m, of "snd p" d] IH c by auto
  have "dc_abs z ?c d = day_total z ops d" if "ck_day (fixed_clock z) (fst p) - d < r" for d
    using IH that ck_day_mono [OF s(2), of z] by auto
  then have "\<forall>d. ck_day (fixed_clock z) t - d < r \<longrightarrow> dc_abs z c d = day_total z (ops @ [p]) d"
    using a t by (auto simp: day_total_snoc)
  then show ?case using IH c t date_Inc_inv by auto
qed

lemma GetLastDaysCount_sums:
  assumes "sorted (start # map fst ops @ [now])" and "1 \<le> r" and "0 \<le> n"
  shows "\<exists>counts c. GetLastDaysCount (fixed_clock z) now n
            (run_incs (fixed_clock z) ops (NewDateCounter (fixed_clock z) start r)) = Some (counts, c) \<and>
     length counts = nat (min n r) \<and>
     (\<forall>i < nat (min n r). counts ! i = day_total z ops (ck_day (fixed_clock z) now - int i))"
proof -
  let ?c = "run_incs (fixed_clock z) ops (NewDateCounter (fixed_clock z) start r)"
  let ?t = "last (start # map fst ops)" and ?ck = "fixed_clock z"
  have s: "sorted (start # map fst ops)" "?t \<le> now" "\<forall>q \<in> set ops. fst q \<le> now"
    using sorted_snoc_last [OF assms(1)] by simp_all
  note R = run_incs_abs [OF s(1) assms(2) refl refl, of z]
  let ?c' = "dc_rotate ?ck now ?c"
  have a: "dc_abs z ?c' d = day_total z ops d" if "ck_day ?ck now - d < r" for d
  proof -
    have "dc_abs z ?c' d = dc_abs z ?c d"
      using dc_rotate_abs [of ?c z now d] R ck_day_mono [OF s(2), of z] that by (simp add: dc_at_midnight_def)
    also have "\<dots> = day_total z ops d" using R ck_day_mono [OF s(2), of z] that by auto
    finally show ?thesis .
  qed
  have l: "dc_lastUpdateDate ?c' = midnight ?ck now" by (simp add: dc_rotate_def Let_def)
  have "dc_counts ?c' ! i = day_total z ops (ck_day ?ck now - int i)" if "i < nat (min n r)" for i
  proof -
    have "dc_abs z ?c' (ck_day ?ck now - int i) = dc_counts ?c' ! i"
      using that R by (auto simp: dc_abs_def l Let_def)
    then show ?thesis using a [of "ck_day ?ck now - int i"] that by auto
  qed
  then show ?thesis
    using R assms(2,3) by (auto simp: GetLastDaysCount_def Let_def min_def split: if_splits)
qed

section \<open>Properties\<close>

text \<open>C24: the counter by day is a history of the last days. After any sequence of increments at times that do
  not go back, asking for the last \<open>n\<close> days gives, for each \<open>i\<close> below \<open>n\<close> and below the days
  kept, exactly the sum of what was added on the day \<open>i\<close> days before now (in a zone of constant
  offset, sums modulo 2 to the 64).\<close>

theorem GetLastDaysCount_history:
  assumes "sorted (start # map fst ops @ [now])" and "1 \<le> r" and "0 \<le> n"
  shows "\<exists>counts c. GetLastDaysCount (fixed_clock z) now n
            (run_incs (fixed_clock z) ops (NewDateCounter (fixed_clock z) start r)) = Some (counts, c) \<and>
     length counts = nat (min n r) \<and>
     (\<forall>i < nat (min n r). counts ! i = day_total z ops (ck_day (fixed_clock z) now - int i))"
  using assms by (rule GetLastDaysCount_sums)

theorem GetLastDaysCount_history_witness:
  "\<exists>counts c. GetLastDaysCount (fixed_clock 0) (5 * day_ns) 3
      (run_incs (fixed_clock 0) [(3 * day_ns + 1, 10), (3 * day_ns + 2, 20), (5 * day_ns, 7)]
        (NewDateCounter (fixed_clock 0) 0 7)) = Some (counts, c) \<and>
     length counts = 3 \<and> counts ! 2 = 30 \<and> counts ! 0 = 7"
proof -
  have "sorted (0 # map fst [(3 * day_ns + 1, 10 :: int64), (3 * day_ns + 2, 20), (5 * day_ns, 7)] @ [5 * day_ns])"
    by (simp add: day_ns_def)
  moreover have "day_total 0 [(3 * day_ns + 1, 10), (3 * day_ns + 2, 20), (5 * day_ns, 7)] 3 = 30"
    "day_total 0 [(3 * day_ns + 1, 10), (3 * day_ns + 2, 20), (5 * day_ns, 7)] 5 = 7"
    "ck_day (fixed_clock 0) (5 * day_ns) = 5"
    by (simp_all add: day_total_def fixed_clock_def day_ns_def)
  ultimately show ?thesis
    using GetLastDaysCount_history [of 0 "[(3 * day_ns + 1, 10), (3 * day_ns + 2, 20), (5 * day_ns, 7)]"
        "5 * day_ns" 7 3 0] by fastforce
qed

text \<open>A zone that skips an hour on day 1: the day lasts 23 hours.\<close>

definition dst_clock :: clock where
  "dst_clock = \<lparr>ck_day = \<lambda>t. if t < day_ns then 0 else if t < 2 * day_ns - 3600000000000 then 1 else 2,
     ck_start = \<lambda>d. if d = 0 then 0 else if d = 1 then day_ns else 2 * day_ns - 3600000000000\<rparr>"

text \<open>On a day after a 23-hour day the counter is not rotated although its date moves on: what was added
  on the short day is reported as the traffic of the next day.\<close>

theorem rotate_skips_short_day:
  "GetLastDaysCount dst_clock (2 * day_ns) 2
     (date_Inc dst_clock (day_ns + 1) 5 (NewDateCounter dst_clock day_ns 7)) =
   Some ([5, 0], \<lparr>dc_reserveDays = 7, dc_counts = [5, 0, 0, 0, 0, 0, 0],
                  dc_lastUpdateDate = 2 * day_ns - 3600000000000\<rparr>)"
  by (simp add: GetLastDaysCount_def date_Inc_def NewDateCounter_def newStandardDateCounter_def
      dc_rotate_def midnight_def dst_clock_def whole_days_def day_ns_def Let_def upt_rec
      eval_nat_numeral)

end
