(* ===== verification/Mem_Metrics.thy ===== *)
theory Mem_Metrics
  imports Counters
begin

text \<open>
  The in-memory statistics of the server, \<open>pkg/metrics/mem\<close>: totals, clients, proxies by type and
  the statistics of each proxy name, that the dashboard reads. The mutex makes each operation
  atomic; the clock and the time of the call are arguments, and Go's random map order is the
  argument \<open>order\<close>, an enumeration of the keys.
\<close>

section \<open>State\<close>

definition ReserveDays :: int where "ReserveDays = 7"

text \<open>\<open>time.Time{}\<close>, the first instant of year 1, in nanoseconds from 1970.\<close>

definition zero_time :: int where "zero_time = - 62135596800 * 1000000000"

record proxy_statistics =
  ps_Name :: string
  ps_ProxyType :: string
  ps_TrafficIn :: date_counter
  ps_TrafficOut :: date_counter
  ps_CurConns :: std_counter
  ps_LastStartTime :: int
  ps_LastCloseTime :: int

record server_statistics =
  ss_TotalTrafficIn :: date_counter
  ss_TotalTrafficOut :: date_counter
  ss_CurConns :: std_counter
  ss_ClientCounts :: std_counter
  ss_ProxyTypeCounts :: "string \<rightharpoonup> std_counter"
  ss_ProxyStatistics :: "string \<rightharpoonup> proxy_statistics"

definition newServerMetrics :: "clock \<Rightarrow> int \<Rightarrow> server_statistics" where
  "newServerMetrics ck now =
     \<lparr>ss_TotalTrafficIn = NewDateCounter ck now ReserveDays,
      ss_TotalTrafficOut = NewDateCounter ck now ReserveDays,
      ss_CurConns = NewCounter, ss_ClientCounts = NewCounter,
      ss_ProxyTypeCounts = Map.empty, ss_ProxyStatistics = Map.empty\<rparr>"

section \<open>Operations\<close>

definition useless :: "int \<Rightarrow> int \<Rightarrow> proxy_statistics \<Rightarrow> bool" where
  "useless now duration data =
     (ps_LastCloseTime data \<noteq> zero_time \<and> ps_LastStartTime data < ps_LastCloseTime data \<and>
      now - ps_LastCloseTime data > duration)"

text \<open>The numbers returned count over the keys, in whatever order they are visited.\<close>

definition clearUselessInfo ::
  "int \<Rightarrow> string list \<Rightarrow> int \<Rightarrow> server_statistics \<Rightarrow> (nat \<times> nat) \<times> server_statistics" where
  "clearUselessInfo now order duration m =
     (let dead = (\<lambda>name. case ss_ProxyStatistics m name of None \<Rightarrow> False | Some data \<Rightarrow> useless now duration data)
      in ((length (filter dead order), length order),
          m\<lparr>ss_ProxyStatistics := restrict_by (\<lambda>name data. \<not> useless now duration data) (ss_ProxyStatistics m)\<rparr>))"

definition ClearOfflineProxies ::
  "int \<Rightarrow> string list \<Rightarrow> server_statistics \<Rightarrow> (nat \<times> nat) \<times> server_statistics" where
  "ClearOfflineProxies now order m = clearUselessInfo now order 0 m"

definition mem_NewClient :: "server_statistics \<Rightarrow> server_statistics" where
  "mem_NewClient m = m\<lparr>ss_ClientCounts := counter_Inc 1 (ss_ClientCounts m)\<rparr>"

definition mem_CloseClient :: "server_statistics \<Rightarrow> server_statistics" where
  "mem_CloseClient m = m\<lparr>ss_ClientCounts := counter_Dec 1 (ss_ClientCounts m)\<rparr>"

definition mem_NewProxy :: "clock \<Rightarrow> int \<Rightarrow> string \<Rightarrow> string \<Rightarrow> server_statistics \<Rightarrow> server_statistics" where
  "mem_NewProxy ck now name proxyType m =
     (let counter = (case ss_ProxyTypeCounts m proxyType of None \<Rightarrow> NewCounter | Some c \<Rightarrow> c);
          fresh = \<lparr>ps_Name = name, ps_ProxyType = proxyType, ps_TrafficIn = NewDateCounter ck now ReserveDays,
                   ps_TrafficOut = NewDateCounter ck now ReserveDays, ps_CurConns = NewCounter,
                   ps_LastStartTime = zero_time, ps_LastCloseTime = zero_time\<rparr>;
          stats = (case ss_ProxyStatistics m name of
                     None \<Rightarrow> fresh
                   | Some ps \<Rightarrow> if ps_ProxyType ps \<noteq> proxyType then fresh else ps)
      in m\<lparr>ss_ProxyTypeCounts := (ss_ProxyTypeCounts m)(proxyType \<mapsto> counter_Inc 1 counter),
           ss_ProxyStatistics := (ss_ProxyStatistics m)(name \<mapsto> stats\<lparr>ps_LastStartTime := now\<rparr>)\<rparr>)"

text \<open>The pattern \<open>if proxyStats, ok := m.info.ProxyStatistics[name]; ok { ... }\<close>.\<close>

definition upd_stats ::
  "string \<Rightarrow> (proxy_statistics \<Rightarrow> proxy_statistics) \<Rightarrow> server_statistics \<Rightarrow> server_statistics" where
  "upd_stats name f m =
     (case ss_ProxyStatistics m name of
        None \<Rightarrow> m
      | Some ps \<Rightarrow> m\<lparr>ss_ProxyStatistics := (ss_ProxyStatistics m)(name \<mapsto> f ps)\<rparr>)"

definition mem_CloseProxy :: "int \<Rightarrow> string \<Rightarrow> string \<Rightarrow> server_statistics \<Rightarrow> server_statistics" where
  "mem_CloseProxy now name proxyType m =
     (let m1 = (case ss_ProxyTypeCounts m proxyType of
                  None \<Rightarrow> m
                | Some c \<Rightarrow> m\<lparr>ss_ProxyTypeCounts := (ss_ProxyTypeCounts m)(proxyType \<mapsto> counter_Dec 1 c)\<rparr>)
      in upd_stats name (\<lambda>ps. ps\<lparr>ps_LastCloseTime := now\<rparr>) m1)"

definition mem_OpenConnection :: "string \<Rightarrow> server_statistics \<Rightarrow> server_statistics" where
  "mem_OpenConnection name m =
     upd_stats name (\<lambda>ps. ps\<lparr>ps_CurConns := counter_Inc 1 (ps_CurConns ps)\<rparr>)
       (m\<lparr>ss_CurConns := counter_Inc 1 (ss_CurConns m)\<rparr>)"

definition mem_CloseConnection :: "string \<Rightarrow> server_statistics \<Rightarrow> server_statistics" where
  "mem_CloseConnection name m =
     upd_stats name (\<lambda>ps. ps\<lparr>ps_CurConns := counter_Dec 1 (ps_CurConns ps)\<rparr>)
       (m\<lparr>ss_CurConns := counter_Dec 1 (ss_CurConns m)\<rparr>)"

definition mem_AddTrafficIn :: "clock \<Rightarrow> int \<Rightarrow> string \<Rightarrow> int64 \<Rightarrow> server_statistics \<Rightarrow> server_statistics" where
  "mem_AddTrafficIn ck now name n m =
     upd_stats name (\<lambda>ps. ps\<lparr>ps_TrafficIn := date_Inc ck now n (ps_TrafficIn ps)\<rparr>)
       (m\<lparr>ss_TotalTrafficIn := date_Inc ck now n (ss_TotalTrafficIn m)\<rparr>)"

definition mem_AddTrafficOut :: "clock \<Rightarrow> int \<Rightarrow> string \<Rightarrow> int64 \<Rightarrow> server_statistics \<Rightarrow> server_statistics" where
  "mem_AddTrafficOut ck now name n m =
     upd_stats name (\<lambda>ps. ps\<lparr>ps_TrafficOut := date_Inc ck now n (ps_TrafficOut ps)\<rparr>)
       (m\<lparr>ss_TotalTrafficOut := date_Inc ck now n (ss_TotalTrafficOut m)\<rparr>)"

section \<open>Queries\<close>

record server_stats =
  sv_TotalTrafficIn :: int64
  sv_TotalTrafficOut :: int64
  sv_CurConns :: int64
  sv_ClientCounts :: int64
  sv_ProxyTypeCounts :: "string \<rightharpoonup> int64"

text \<open>\<open>int64(x)\<close> of an \<open>int32\<close>.\<close>

definition to_int64 :: "int32 \<Rightarrow> int64" where
  "to_int64 w = word_of_int (sint w)"

definition mem_GetServer :: "clock \<Rightarrow> int \<Rightarrow> server_statistics \<Rightarrow> server_stats \<times> server_statistics" where
  "mem_GetServer ck now m =
     (let (tin, cin) = TodayCount ck now (ss_TotalTrafficIn m);
          (tout, cout) = TodayCount ck now (ss_TotalTrafficOut m)
      in (\<lparr>sv_TotalTrafficIn = tin, sv_TotalTrafficOut = tout,
           sv_CurConns = to_int64 (counter_Count (ss_CurConns m)),
           sv_ClientCounts = to_int64 (counter_Count (ss_ClientCounts m)),
           sv_ProxyTypeCounts = (\<lambda>k. map_option (\<lambda>v. to_int64 (counter_Count v)) (ss_ProxyTypeCounts m k))\<rparr>,
          m\<lparr>ss_TotalTrafficIn := cin, ss_TotalTrafficOut := cout\<rparr>))"

record proxy_stats =
  px_Name :: string
  px_Type :: string
  px_TodayTrafficIn :: int64
  px_TodayTrafficOut :: int64
  px_LastStartTime :: string
  px_LastCloseTime :: string
  px_CurConns :: int64

text \<open>The statistics of one proxy; reading today's counts rotates the counters. \<open>fmt\<close> is
  \<open>Format("01-02 15:04:05")\<close>.\<close>

definition stats_of ::
  "clock \<Rightarrow> (int \<Rightarrow> string) \<Rightarrow> int \<Rightarrow> string \<Rightarrow> proxy_statistics \<Rightarrow> proxy_stats \<times> proxy_statistics" where
  "stats_of ck fmt now name ps =
     (let (tin, cin) = TodayCount ck now (ps_TrafficIn ps);
          (tout, cout) = TodayCount ck now (ps_TrafficOut ps)
      in (\<lparr>px_Name = name, px_Type = ps_ProxyType ps, px_TodayTrafficIn = tin, px_TodayTrafficOut = tout,
           px_LastStartTime = (if ps_LastStartTime ps \<noteq> zero_time then fmt (ps_LastStartTime ps) else []),
           px_LastCloseTime = (if ps_LastCloseTime ps \<noteq> zero_time then fmt (ps_LastCloseTime ps) else []),
           px_CurConns = to_int64 (counter_Count (ps_CurConns ps))\<rparr>,
          ps\<lparr>ps_TrafficIn := cin, ps_TrafficOut := cout\<rparr>))"

fun GetProxiesByType ::
  "clock \<Rightarrow> (int \<Rightarrow> string) \<Rightarrow> int \<Rightarrow> string list \<Rightarrow> string \<Rightarrow> server_statistics \<Rightarrow> proxy_stats list \<times> server_statistics" where
  "GetProxiesByType ck fmt now [] t m = ([], m)"
| "GetProxiesByType ck fmt now (name # order) t m =
     (case ss_ProxyStatistics m name of
        None \<Rightarrow> GetProxiesByType ck fmt now order t m
      | Some ps \<Rightarrow>
          if ps_ProxyType ps \<noteq> t then GetProxiesByType ck fmt now order t m
          else
            (let (x, ps') = stats_of ck fmt now name ps;
                 (xs, m') = GetProxiesByType ck fmt now order t
                   (m\<lparr>ss_ProxyStatistics := (ss_ProxyStatistics m)(name \<mapsto> ps')\<rparr>)
             in (x # xs, m')))"

definition GetProxiesByTypeAndName ::
  "clock \<Rightarrow> (int \<Rightarrow> string) \<Rightarrow> int \<Rightarrow> string \<Rightarrow> string \<Rightarrow> server_statistics \<Rightarrow> proxy_stats option \<times> server_statistics" where
  "GetProxiesByTypeAndName ck fmt now t name m =
     (case ss_ProxyStatistics m name of
        None \<Rightarrow> (None, m)
      | Some ps \<Rightarrow>
          if ps_ProxyType ps \<noteq> t then (None, m)
          else (let (x, ps') = stats_of ck fmt now name ps in
                (Some x, m\<lparr>ss_ProxyStatistics := (ss_ProxyStatistics m)(name \<mapsto> ps')\<rparr>)))"

record proxy_traffic =
  pt_Name :: string
  pt_TrafficIn :: "int64 list"
  pt_TrafficOut :: "int64 list"

definition GetProxyTraffic ::
  "clock \<Rightarrow> int \<Rightarrow> string \<Rightarrow> server_statistics \<Rightarrow> proxy_traffic option \<times> server_statistics" where
  "GetProxyTraffic ck now name m =
     (case ss_ProxyStatistics m name of
        None \<Rightarrow> (None, m)
      | Some ps \<Rightarrow>
          (case (GetLastDaysCount ck now ReserveDays (ps_TrafficIn ps),
                 GetLastDaysCount ck now ReserveDays (ps_TrafficOut ps)) of
             (Some (tin, cin), Some (tout, cout)) \<Rightarrow>
               (Some \<lparr>pt_Name = name, pt_TrafficIn = tin, pt_TrafficOut = tout\<rparr>,
                m\<lparr>ss_ProxyStatistics := (ss_ProxyStatistics m)
                    (name \<mapsto> ps\<lparr>ps_TrafficIn := cin, ps_TrafficOut := cout\<rparr>)\<rparr>)
           | _ \<Rightarrow> (None, m)))"

section \<open>Runs\<close>

datatype mem_event =
    EvNewClient
  | EvCloseClient
  | EvNewProxy string string
  | EvCloseProxy string string
  | EvOpen string
  | EvCloseConn string
  | EvIn string int64
  | EvOut string int64
  | EvClear int

fun mem_step :: "clock \<Rightarrow> int \<Rightarrow> mem_event \<Rightarrow> server_statistics \<Rightarrow> server_statistics" where
  "mem_step ck now EvNewClient m = mem_NewClient m"
| "mem_step ck now EvCloseClient m = mem_CloseClient m"
| "mem_step ck now (EvNewProxy n t) m = mem_NewProxy ck now n t m"
| "mem_step ck now (EvCloseProxy n t) m = mem_CloseProxy now n t m"
| "mem_step ck now (EvOpen n) m = mem_OpenConnection n m"
| "mem_step ck now (EvCloseConn n) m = mem_CloseConnection n m"
| "mem_step ck now (EvIn n b) m = mem_AddTrafficIn ck now n b m"
| "mem_step ck now (EvOut n b) m = mem_AddTrafficOut ck now n b m"
| "mem_step ck now (EvClear d) m = snd (clearUselessInfo now [] d m)"

definition mem_run :: "clock \<Rightarrow> (int \<times> mem_event) list \<Rightarrow> server_statistics \<Rightarrow> server_statistics" where
  "mem_run ck evs m = foldl (\<lambda>m e. mem_step ck (fst e) (snd e) m) m evs"

section \<open>Lemmas\<close>

lemma upd_stats_sel [simp]:
  "ss_CurConns (upd_stats n f m) = ss_CurConns m"
  "ss_ClientCounts (upd_stats n f m) = ss_ClientCounts m"
  "ss_ProxyTypeCounts (upd_stats n f m) = ss_ProxyTypeCounts m"
  "ss_TotalTrafficIn (upd_stats n f m) = ss_TotalTrafficIn m"
  "ss_TotalTrafficOut (upd_stats n f m) = ss_TotalTrafficOut m"
  by (simp_all add: upd_stats_def split: option.splits)

lemma upd_stats_lookup [simp]:
  "ss_ProxyStatistics (upd_stats n f m) k =
     (if k = n then map_option f (ss_ProxyStatistics m n) else ss_ProxyStatistics m k)"
  by (simp add: upd_stats_def split: option.splits)

lemma sint_to_int64: "sint (to_int64 w) = sint w"
proof -
  have "- (2 ^ 31) \<le> sint w \<and> sint w < 2 ^ 31"
    using sint_ge [of w] sint_lt [of w] by simp
  then show ?thesis
    unfolding to_int64_def sint_sbintrunc' by (intro signed_take_bit_int_eq_self) simp_all
qed

text \<open>How many proxies of a type the events open, less those they close.\<close>

fun type_delta :: "string \<Rightarrow> mem_event \<Rightarrow> int" where
  "type_delta t (EvNewProxy n s) = (if s = t then 1 else 0)"
| "type_delta t (EvCloseProxy n s) = (if s = t then -1 else 0)"
| "type_delta t _ = 0"

fun client_delta :: "mem_event \<Rightarrow> int" where
  "client_delta EvNewClient = 1"
| "client_delta EvCloseClient = -1"
| "client_delta _ = 0"

fun conn_delta :: "mem_event \<Rightarrow> int" where
  "conn_delta (EvOpen n) = 1"
| "conn_delta (EvCloseConn n) = -1"
| "conn_delta _ = 0"

text \<open>No proxy of a type is closed before one was opened.\<close>

fun closes_opened :: "string set \<Rightarrow> (int \<times> mem_event) list \<Rightarrow> bool" where
  "closes_opened S [] = True"
| "closes_opened S (e # es) =
     (case snd e of
        EvNewProxy n t \<Rightarrow> closes_opened (insert t S) es
      | EvCloseProxy n t \<Rightarrow> t \<in> S \<and> closes_opened S es
      | _ \<Rightarrow> closes_opened S es)"

definition type_count :: "server_statistics \<Rightarrow> string \<Rightarrow> int32" where
  "type_count m t = (case ss_ProxyTypeCounts m t of None \<Rightarrow> 0 | Some c \<Rightarrow> sc_count c)"

lemma mem_step_counts:
  "sc_count (ss_ClientCounts (mem_step ck now e m)) = sc_count (ss_ClientCounts m) + word_of_int (client_delta e)"
  "sc_count (ss_CurConns (mem_step ck now e m)) = sc_count (ss_CurConns m) + word_of_int (conn_delta e)"
  by (cases e; simp add: mem_NewClient_def mem_CloseClient_def mem_NewProxy_def mem_CloseProxy_def
      mem_OpenConnection_def mem_CloseConnection_def mem_AddTrafficIn_def mem_AddTrafficOut_def
      clearUselessInfo_def counter_Inc_def counter_Dec_def Let_def split: option.splits)+

lemma mem_step_type_count:
  assumes "\<And>n s. e = EvCloseProxy n s \<Longrightarrow> s \<in> dom (ss_ProxyTypeCounts m)"
  shows "type_count (mem_step ck now e m) t = type_count m t + word_of_int (type_delta t e)"
    and "dom (ss_ProxyTypeCounts (mem_step ck now e m)) =
      (case e of EvNewProxy n s \<Rightarrow> insert s (dom (ss_ProxyTypeCounts m)) | _ \<Rightarrow> dom (ss_ProxyTypeCounts m))"
proof -
  show "type_count (mem_step ck now e m) t = type_count m t + word_of_int (type_delta t e)"
    using assms
    by (cases e) (auto simp: type_count_def mem_NewClient_def mem_CloseClient_def mem_NewProxy_def
        mem_CloseProxy_def mem_OpenConnection_def mem_CloseConnection_def mem_AddTrafficIn_def
        mem_AddTrafficOut_def clearUselessInfo_def counter_Inc_def counter_Dec_def NewCounter_def
        Let_def split: option.splits)
  show "dom (ss_ProxyTypeCounts (mem_step ck now e m)) =
      (case e of EvNewProxy n s \<Rightarrow> insert s (dom (ss_ProxyTypeCounts m)) | _ \<Rightarrow> dom (ss_ProxyTypeCounts m))"
    by (cases e) (auto simp: mem_NewClient_def mem_CloseClient_def mem_NewProxy_def
        mem_CloseProxy_def mem_OpenConnection_def mem_CloseConnection_def mem_AddTrafficIn_def
        mem_AddTrafficOut_def clearUselessInfo_def Let_def split: option.splits)
qed

lemma mem_run_Cons: "mem_run ck (e # es) m = mem_run ck es (mem_step ck (fst e) (snd e) m)"
  by (simp add: mem_run_def)

lemma mem_run_counts:
  "sc_count (ss_ClientCounts (mem_run ck evs m)) =
     sc_count (ss_ClientCounts m) + word_of_int (\<Sum>e\<leftarrow>evs. client_delta (snd e))"
  "sc_count (ss_CurConns (mem_run ck evs m)) =
     sc_count (ss_CurConns m) + word_of_int (\<Sum>e\<leftarrow>evs. conn_delta (snd e))"
  by (induction evs arbitrary: m) (simp_all add: mem_run_Cons mem_step_counts, simp_all add: mem_run_def)

lemma mem_run_type_count:
  assumes "closes_opened (dom (ss_ProxyTypeCounts m)) evs"
  shows "type_count (mem_run ck evs m) t = type_count m t + word_of_int (\<Sum>e\<leftarrow>evs. type_delta t (snd e))"
  using assms
proof (induction evs arbitrary: m)
  case (Cons e es)
  have "\<And>n s. snd e = EvCloseProxy n s \<Longrightarrow> s \<in> dom (ss_ProxyTypeCounts m)"
    using Cons.prems by auto
  note step = mem_step_type_count [OF this, where ck = ck and now = "fst e"]
  have "closes_opened (dom (ss_ProxyTypeCounts (mem_step ck (fst e) (snd e) m))) es"
    using Cons.prems step(2) by (auto split: mem_event.splits)
  then show ?case using Cons.IH step(1) by (simp add: mem_run_Cons)
qed (simp add: mem_run_def)

lemma sint_int32: "- (2 ^ 31) \<le> k \<Longrightarrow> k < 2 ^ 31 \<Longrightarrow> sint (word_of_int k :: int32) = k"
  by (simp add: sint_sbintrunc' signed_take_bit_int_eq_self)

text \<open>The traffic of one proxy, while its statistics are neither cleared nor replaced.\<close>

definition ins_of :: "string \<Rightarrow> (int \<times> mem_event) list \<Rightarrow> (int \<times> int64) list" where
  "ins_of name evs =
     concat (map (\<lambda>e. case snd e of EvIn n b \<Rightarrow> if n = name then [(fst e, b)] else [] | _ \<Rightarrow> []) evs)"

definition outs_of :: "string \<Rightarrow> (int \<times> mem_event) list \<Rightarrow> (int \<times> int64) list" where
  "outs_of name evs =
     concat (map (\<lambda>e. case snd e of EvOut n b \<Rightarrow> if n = name then [(fst e, b)] else [] | _ \<Rightarrow> []) evs)"

fun keeps_stats :: "string \<Rightarrow> string \<Rightarrow> mem_event \<Rightarrow> bool" where
  "keeps_stats name t (EvNewProxy n s) = (n = name \<longrightarrow> s = t)"
| "keeps_stats name t (EvClear d) = False"
| "keeps_stats name t _ = True"

lemma mem_step_stats:
  assumes "ss_ProxyStatistics m name = Some ps" and "keeps_stats name (ps_ProxyType ps) e"
  shows "\<exists>ps'. ss_ProxyStatistics (mem_step ck now e m) name = Some ps' \<and> ps_ProxyType ps' = ps_ProxyType ps \<and>
     ps_TrafficIn ps' = run_incs ck (ins_of name [(now, e)]) (ps_TrafficIn ps) \<and>
     ps_TrafficOut ps' = run_incs ck (outs_of name [(now, e)]) (ps_TrafficOut ps)"
  using assms
  by (cases e) (auto simp: ins_of_def outs_of_def run_incs_def mem_NewClient_def mem_CloseClient_def
      mem_NewProxy_def mem_CloseProxy_def mem_OpenConnection_def mem_CloseConnection_def
      mem_AddTrafficIn_def mem_AddTrafficOut_def Let_def split: option.splits)

lemma run_incs_append: "run_incs ck (xs @ ys) c = run_incs ck ys (run_incs ck xs c)"
  by (simp add: run_incs_def)

lemma mem_run_stats:
  assumes "ss_ProxyStatistics m name = Some ps" and "list_all (\<lambda>e. keeps_stats name (ps_ProxyType ps) (snd e)) evs"
  shows "\<exists>ps'. ss_ProxyStatistics (mem_run ck evs m) name = Some ps' \<and>
     ps_TrafficIn ps' = run_incs ck (ins_of name evs) (ps_TrafficIn ps) \<and>
     ps_TrafficOut ps' = run_incs ck (outs_of name evs) (ps_TrafficOut ps)"
  using assms
proof (induction evs arbitrary: m ps)
  case (Cons e es)
  have k: "keeps_stats name (ps_ProxyType ps) (snd e)" using Cons.prems(2) by simp
  obtain ps1 where ps1: "ss_ProxyStatistics (mem_step ck (fst e) (snd e) m) name = Some ps1"
      "ps_ProxyType ps1 = ps_ProxyType ps"
      "ps_TrafficIn ps1 = run_incs ck (ins_of name [(fst e, snd e)]) (ps_TrafficIn ps)"
      "ps_TrafficOut ps1 = run_incs ck (outs_of name [(fst e, snd e)]) (ps_TrafficOut ps)"
    using mem_step_stats [OF Cons.prems(1) k] by blast
  have c: "ins_of name (e # es) = ins_of name [e] @ ins_of name es"
      "outs_of name (e # es) = outs_of name [e] @ outs_of name es"
    by (simp_all add: ins_of_def outs_of_def)
  show ?case
    using Cons.IH [OF ps1(1)] Cons.prems(2) ps1 by (simp add: mem_run_Cons c run_incs_append)
qed (simp add: mem_run_def ins_of_def outs_of_def run_incs_def)

lemma ins_of_times: "p \<in> set (ins_of name evs) \<Longrightarrow> fst p \<in> fst ` set evs"
  by (force simp: ins_of_def split: mem_event.splits if_splits)

lemma outs_of_times: "p \<in> set (outs_of name evs) \<Longrightarrow> fst p \<in> fst ` set evs"
  by (force simp: outs_of_def split: mem_event.splits if_splits)

lemma sorted_ins_of: "sorted (map fst evs) \<Longrightarrow> sorted (map fst (ins_of name evs))"
proof (induction evs)
  case (Cons e es)
  have c: "ins_of name (e # es) = ins_of name [e] @ ins_of name es" by (simp add: ins_of_def)
  have "ins_of name [e] = [] \<or> (\<exists>b. ins_of name [e] = [(fst e, b)])"
    by (auto simp: ins_of_def split: mem_event.splits)
  then show ?case using Cons ins_of_times [of _ name es] by (fastforce simp: c)
qed (simp add: ins_of_def)

lemma sorted_outs_of: "sorted (map fst evs) \<Longrightarrow> sorted (map fst (outs_of name evs))"
proof (induction evs)
  case (Cons e es)
  have c: "outs_of name (e # es) = outs_of name [e] @ outs_of name es" by (simp add: outs_of_def)
  have "outs_of name [e] = [] \<or> (\<exists>b. outs_of name [e] = [(fst e, b)])"
    by (auto simp: outs_of_def split: mem_event.splits)
  then show ?case using Cons outs_of_times [of _ name es] by (fastforce simp: c)
qed (simp add: outs_of_def)

lemma GetServer_sums:
  assumes "closes_opened {} evs"
    and "m = mem_run ck evs (newServerMetrics ck t0)" and "s = fst (mem_GetServer ck now m)"
    and "\<bar>\<Sum>e\<leftarrow>evs. client_delta (snd e)\<bar> < 2 ^ 31" and "\<bar>\<Sum>e\<leftarrow>evs. conn_delta (snd e)\<bar> < 2 ^ 31"
    and "\<bar>\<Sum>e\<leftarrow>evs. type_delta t (snd e)\<bar> < 2 ^ 31"
  shows "sint (sv_ClientCounts s) = (\<Sum>e\<leftarrow>evs. client_delta (snd e)) \<and>
    sint (sv_CurConns s) = (\<Sum>e\<leftarrow>evs. conn_delta (snd e)) \<and>
    (case sv_ProxyTypeCounts s t of None \<Rightarrow> 0 | Some n \<Rightarrow> sint n) = (\<Sum>e\<leftarrow>evs. type_delta t (snd e))"
proof -
  have t: "type_count m t = word_of_int (\<Sum>e\<leftarrow>evs. type_delta t (snd e))"
    using mem_run_type_count [of "newServerMetrics ck t0" evs ck t] assms(1,2)
    by (simp add: newServerMetrics_def type_count_def)
  have c: "sc_count (ss_ClientCounts m) = word_of_int (\<Sum>e\<leftarrow>evs. client_delta (snd e))"
      "sc_count (ss_CurConns m) = word_of_int (\<Sum>e\<leftarrow>evs. conn_delta (snd e))"
    using mem_run_counts [of ck evs "newServerMetrics ck t0"] assms(2)
    by (simp_all add: newServerMetrics_def NewCounter_def)
  have "(case sv_ProxyTypeCounts s t of None \<Rightarrow> 0 | Some n \<Rightarrow> sint n) = sint (type_count m t)"
    by (simp add: assms(3) mem_GetServer_def type_count_def sint_to_int64 counter_Count_def Let_def
        split: option.splits prod.splits)
  then show ?thesis
    using t c assms(4-6)
    by (simp add: assms(3) mem_GetServer_def sint_to_int64 counter_Count_def sint_int32
        split: prod.splits)
qed

section \<open>Properties\<close>

text \<open>The counts that the dashboard gets are the numbers of things open. After any sequence of events in
  which no proxy type is closed before it was opened, the reported clients, connections and
  proxies of each type are the events that open one less the events that close one, as long as
  these differences fit into 32 bits.\<close>

theorem GetServer_counts:
  assumes "closes_opened {} evs"
    and "m = mem_run ck evs (newServerMetrics ck t0)" and "s = fst (mem_GetServer ck now m)"
    and "\<bar>\<Sum>e\<leftarrow>evs. client_delta (snd e)\<bar> < 2 ^ 31" and "\<bar>\<Sum>e\<leftarrow>evs. conn_delta (snd e)\<bar> < 2 ^ 31"
    and "\<bar>\<Sum>e\<leftarrow>evs. type_delta t (snd e)\<bar> < 2 ^ 31"
  shows "sint (sv_ClientCounts s) = (\<Sum>e\<leftarrow>evs. client_delta (snd e)) \<and>
    sint (sv_CurConns s) = (\<Sum>e\<leftarrow>evs. conn_delta (snd e)) \<and>
    (case sv_ProxyTypeCounts s t of None \<Rightarrow> 0 | Some n \<Rightarrow> sint n) = (\<Sum>e\<leftarrow>evs. type_delta t (snd e))"
  using assms by (rule GetServer_sums)

theorem GetServer_counts_witness:
  "sint (sv_ClientCounts (fst (mem_GetServer (fixed_clock 0) 9
      (mem_run (fixed_clock 0) [(1, EvNewClient), (2, EvNewProxy ''a'' ''tcp''), (3, EvNewProxy ''b'' ''tcp''),
         (4, EvCloseProxy ''a'' ''tcp'')] (newServerMetrics (fixed_clock 0) 0))))) = 1"
  using GetServer_counts [of "[(1, EvNewClient), (2, EvNewProxy ''a'' ''tcp''), (3, EvNewProxy ''b'' ''tcp''),
         (4, EvCloseProxy ''a'' ''tcp'')]", OF _ refl refl, of "''tcp''" "fixed_clock 0" 9 0]
  by simp

text \<open>Clearing removes exactly the statistics of the proxies that were closed after their last start and
  longer ago than the given duration; the other proxies keep theirs, and the two numbers returned
  are the numbers of removed and of all proxies.\<close>

theorem clearUselessInfo_exact:
  assumes "distinct order" and "set order = dom (ss_ProxyStatistics m)"
    and "clearUselessInfo now order d m = ((count, tot), m')"
  shows "(\<forall>name. ss_ProxyStatistics m' name =
        (case ss_ProxyStatistics m name of
           None \<Rightarrow> None | Some ps \<Rightarrow> if useless now d ps then None else Some ps)) \<and>
     count = card (dom (ss_ProxyStatistics m) - dom (ss_ProxyStatistics m')) \<and>
     tot = card (dom (ss_ProxyStatistics m)) \<and>
     (\<forall>name ps. ss_ProxyStatistics m name = Some ps \<and> ps_LastCloseTime ps \<le> ps_LastStartTime ps \<longrightarrow>
        ss_ProxyStatistics m' name = Some ps)"
proof -
  let ?dead = "\<lambda>name. case ss_ProxyStatistics m name of None \<Rightarrow> False | Some data \<Rightarrow> useless now d data"
  have m': "ss_ProxyStatistics m' = restrict_by (\<lambda>name data. \<not> useless now d data) (ss_ProxyStatistics m)"
    and c: "count = length (filter ?dead order)" "tot = length order"
    using assms(3) by (auto simp: clearUselessInfo_def Let_def)
  have "{x \<in> set order. ?dead x} = dom (ss_ProxyStatistics m) - dom (ss_ProxyStatistics m')"
    unfolding m' assms(2) by (auto simp: dom_restrict_by split: option.splits)
  then have "count = card (dom (ss_ProxyStatistics m) - dom (ss_ProxyStatistics m'))"
    using distinct_card [of "filter ?dead order"] assms(1) c by simp
  moreover have "tot = card (dom (ss_ProxyStatistics m))"
    using distinct_card [OF assms(1)] assms(2) c by simp
  moreover have "ss_ProxyStatistics m' name = (case ss_ProxyStatistics m name of
      None \<Rightarrow> None | Some ps \<Rightarrow> if useless now d ps then None else Some ps)" for name
    by (simp add: m' restrict_by_def split: option.splits)
  ultimately show ?thesis by (auto simp: useless_def)
qed

definition mem_demo :: server_statistics where
  "mem_demo = mem_run (fixed_clock 0) [(10, EvNewProxy ''a'' ''tcp''), (20, EvCloseProxy ''a'' ''tcp'')]
     (newServerMetrics (fixed_clock 0) 0)"

theorem clearUselessInfo_exact_witness:
  "fst (clearUselessInfo 100 [''a''] 50 mem_demo) = (1, 1) \<and>
   ss_ProxyStatistics (snd (clearUselessInfo 100 [''a''] 50 mem_demo)) ''a'' = None \<and>
   1 = card (dom (ss_ProxyStatistics mem_demo) - dom (ss_ProxyStatistics (snd (clearUselessInfo 100 [''a''] 50 mem_demo))))"
proof -
  let ?ps = "\<lparr>ps_Name = ''a'', ps_ProxyType = ''tcp'', ps_TrafficIn = NewDateCounter (fixed_clock 0) 10 ReserveDays,
       ps_TrafficOut = NewDateCounter (fixed_clock 0) 10 ReserveDays, ps_CurConns = NewCounter,
       ps_LastStartTime = 10, ps_LastCloseTime = 20\<rparr>"
  have d: "ss_ProxyStatistics mem_demo = [''a'' \<mapsto> ?ps]"
    by (simp add: fun_eq_iff mem_demo_def mem_run_def mem_NewProxy_def mem_CloseProxy_def newServerMetrics_def Let_def)
  have u: "useless 100 50 ?ps" by (simp add: useless_def zero_time_def)
  have c: "clearUselessInfo 100 [''a''] 50 mem_demo = ((1, 1), snd (clearUselessInfo 100 [''a''] 50 mem_demo))"
    using u by (simp add: clearUselessInfo_def Let_def d)
  have f: "fst (clearUselessInfo 100 [''a''] 50 mem_demo) = (1, 1)" by (subst c) simp
  have o: "distinct [''a'']" "set [''a''] = dom (ss_ProxyStatistics mem_demo)" by (simp_all add: d)
  note E = clearUselessInfo_exact [OF o c]
  have "ss_ProxyStatistics (snd (clearUselessInfo 100 [''a''] 50 mem_demo)) ''a'' = None"
    using E u by (simp add: d)
  then show ?thesis using E f by simp
qed

end
