(* ===== verification/Js_Value.thy ===== *)
theory Js_Value
  imports Frp_Prelude
begin

text \<open>
  The fragment of JavaScript that the dashboard sources under \<open>web/\<close> use: values as
  \<open>JSON.parse\<close> returns them, truthiness, the \<open>||\<close> and \<open>+\<close> operators, loose comparison
  with the literals that occur, property access with its \<open>TypeError\<close>, \<open>for..in\<close>,
  \<open>for..of\<close>, and the outcome of a \<open>fetch\<close>.

  Numbers are integers, and the model keeps them exact: JavaScript does so up to 2^53, and rounds a larger
  one, which only a traffic count of a day of more than nine petabytes would be. The properties of an object are listed in the order in which \<open>for..in\<close> enumerates them.
  Objects are plain JSON data, without an own \<open>toString\<close> or \<open>valueOf\<close>.
\<close>

section \<open>Values\<close>

datatype js =
    JUndef
  | JNull
  | JBool bool
  | JNum int
  | JNaN
  | JStr string
  | JArr "js list"
  | JObj "(string \<times> js) list"

fun js_truthy :: "js \<Rightarrow> bool" where
  "js_truthy JUndef = False"
| "js_truthy JNull = False"
| "js_truthy (JBool b) = b"
| "js_truthy (JNum n) = (n \<noteq> 0)"
| "js_truthy JNaN = False"
| "js_truthy (JStr s) = (s \<noteq> [])"
| "js_truthy (JArr _) = True"
| "js_truthy (JObj _) = True"

text \<open>The operator \<open>a || b\<close>.\<close>

definition js_or :: "js \<Rightarrow> js \<Rightarrow> js" where
  "js_or a b = (if js_truthy a then a else b)"

text \<open>\<open>String(v)\<close>, also what template literals insert.\<close>

fun js_to_string :: "js \<Rightarrow> string" where
  "js_to_string JUndef = ''undefined''"
| "js_to_string JNull = ''null''"
| "js_to_string (JBool b) = (if b then ''true'' else ''false'')"
| "js_to_string (JNum n) = int_to_string n"
| "js_to_string JNaN = ''NaN''"
| "js_to_string (JStr s) = s"
| "js_to_string (JArr vs) =
     join_with '','' (map (\<lambda>v. if v = JUndef \<or> v = JNull then [] else js_to_string v) vs)"
| "js_to_string (JObj _) = ''[object Object]''"

fun js_stringy :: "js \<Rightarrow> bool" where
  "js_stringy (JStr _) = True"
| "js_stringy (JArr _) = True"
| "js_stringy (JObj _) = True"
| "js_stringy _ = False"

text \<open>\<open>Number(v)\<close> on the primitives that are not strings; \<open>None\<close> is NaN.\<close>

fun js_to_num :: "js \<Rightarrow> int option" where
  "js_to_num JNull = Some 0"
| "js_to_num (JBool b) = Some (if b then 1 else 0)"
| "js_to_num (JNum n) = Some n"
| "js_to_num _ = None"

definition js_add :: "js \<Rightarrow> js \<Rightarrow> js" where
  "js_add a b =
     (if js_stringy a \<or> js_stringy b then JStr (js_to_string a @ js_to_string b)
      else (case (js_to_num a, js_to_num b) of (Some x, Some y) \<Rightarrow> JNum (x + y) | _ \<Rightarrow> JNaN))"

section \<open>Loose comparison\<close>

definition js_eq_null :: "js \<Rightarrow> bool" where
  "js_eq_null v = (v = JUndef \<or> v = JNull)"

text \<open>Whether \<open>Number(s)\<close> is 0: blank, or a literal all digits of which are zero.\<close>

definition drop_sign :: "string \<Rightarrow> string" where
  "drop_sign s = (case s of [] \<Rightarrow> [] | c # r \<Rightarrow> if c = CHR ''+'' \<or> c = CHR ''-'' then r else s)"

definition exponent_ok :: "string \<Rightarrow> bool" where
  "exponent_ok s = (case s of [] \<Rightarrow> True
     | e # q \<Rightarrow> (e = CHR ''e'' \<or> e = CHR ''E'') \<and> drop_sign q \<noteq> [] \<and> list_all is_digit (drop_sign q))"

definition str_is_zero :: "string \<Rightarrow> bool" where
  "str_is_zero s0 =
     (let s = trim_space s0; u = drop_sign s; z = (\<lambda>c. c = CHR ''0'');
          ip = takeWhile z u; r = dropWhile z u;
          fp = (case r of c # q \<Rightarrow> if c = CHR ''.'' then takeWhile z q else [] | [] \<Rightarrow> []);
          r2 = (case r of c # q \<Rightarrow> if c = CHR ''.'' then dropWhile z q else r | [] \<Rightarrow> [])
      in s = [] \<or> (ip @ fp \<noteq> [] \<and> exponent_ok r2) \<or>
         (case s of a # b # q \<Rightarrow> a = CHR ''0'' \<and> b \<in> set ''xXoObB'' \<and> q \<noteq> [] \<and> list_all z q | _ \<Rightarrow> False))"

text \<open>\<open>v == 0\<close>\<close>

fun js_eq_zero :: "js \<Rightarrow> bool" where
  "js_eq_zero (JBool b) = (\<not> b)"
| "js_eq_zero (JNum n) = (n = 0)"
| "js_eq_zero (JStr s) = str_is_zero s"
| "js_eq_zero (JArr vs) = str_is_zero (js_to_string (JArr vs))"
| "js_eq_zero _ = False"

text \<open>\<open>v == s\<close> for a string literal \<open>s\<close> whose number is 0: the sources compare with
  \<open>''\<close> and \<open>'0'\<close>.\<close>

fun js_eq_str0 :: "js \<Rightarrow> string \<Rightarrow> bool" where
  "js_eq_str0 (JBool b) s = (\<not> b)"
| "js_eq_str0 (JNum n) s = (n = 0)"
| "js_eq_str0 (JStr t) s = (t = s)"
| "js_eq_str0 (JArr vs) s = (js_to_string (JArr vs) = s)"
| "js_eq_str0 _ s = False"

section \<open>Properties and iteration\<close>

datatype js_error = TypeError | SyntaxError | NetworkError string | Dismissed

text \<open>\<open>v.k\<close>, for property names that no prototype of the values has.\<close>

fun js_get :: "js \<Rightarrow> string \<Rightarrow> js_error + js" where
  "js_get JUndef k = Inl TypeError"
| "js_get JNull k = Inl TypeError"
| "js_get (JObj kvs) k = Inr (case map_of kvs k of None \<Rightarrow> JUndef | Some v \<Rightarrow> v)"
| "js_get _ k = Inr JUndef"

text \<open>\<open>v?.k\<close>\<close>

definition js_opt_get :: "js \<Rightarrow> string \<Rightarrow> js" where
  "js_opt_get v k = (case js_get v k of Inl _ \<Rightarrow> JUndef | Inr w \<Rightarrow> w)"

text \<open>The keys and values that \<open>for (const key in v)\<close> with \<open>v[key]\<close> visits.\<close>

fun js_entries :: "js \<Rightarrow> (string \<times> js) list" where
  "js_entries (JObj kvs) = kvs"
| "js_entries (JArr vs) = zip (map nat_to_string [0..<length vs]) vs"
| "js_entries (JStr s) = zip (map nat_to_string [0..<length s]) (map (\<lambda>c. JStr [c]) s)"
| "js_entries _ = []"

text \<open>What \<open>for (let x of v)\<close> visits.\<close>

fun js_iter :: "js \<Rightarrow> js_error + js list" where
  "js_iter (JArr vs) = Inr vs"
| "js_iter (JStr s) = Inr (map (\<lambda>c. JStr [c]) s)"
| "js_iter _ = Inl TypeError"

text \<open>An object has each key once.\<close>

fun js_wf :: "js \<Rightarrow> bool" where
  "js_wf (JObj kvs) = (distinct (map fst kvs) \<and> list_all (\<lambda>p. js_wf (snd p)) kvs)"
| "js_wf (JArr vs) = list_all js_wf vs"
| "js_wf _ = True"

text \<open>\<open>Map.prototype.set\<close>: a new key goes to the end, an old one keeps its place.\<close>

fun js_map_set :: "(string \<times> js) list \<Rightarrow> string \<Rightarrow> js \<Rightarrow> (string \<times> js) list" where
  "js_map_set [] k v = [(k, v)]"
| "js_map_set (p # ps) k v = (if fst p = k then (k, v) # ps else p # js_map_set ps k v)"

lemma js_map_set_new: "k \<notin> fst ` set m \<Longrightarrow> js_map_set m k v = m @ [(k, v)]"
  by (induction m) auto

lemma foldl_js_map_set:
  "distinct (map fst (m @ kvs)) \<Longrightarrow> foldl (\<lambda>a p. js_map_set a (fst p) (snd p)) m kvs = m @ kvs"
proof (induction kvs arbitrary: m)
  case (Cons p kvs)
  then have "fst p \<notin> fst ` set m" by auto
  moreover have "distinct (map fst ((m @ [p]) @ kvs))" using Cons.prems by simp
  ultimately show ?case using Cons.IH [of "m @ [p]"] by (simp add: js_map_set_new)
qed simp

lemma js_get_Inr: "\<not> js_eq_null v \<Longrightarrow> \<exists>w. js_get v k = Inr w"
  by (cases v) (auto simp: js_eq_null_def)

lemma js_get_Inl: "js_get v k = Inl e \<longleftrightarrow> js_eq_null v \<and> e = TypeError"
  by (cases v) (auto simp: js_eq_null_def)

lemma js_opt_get_eq: "js_get v k = Inr w \<Longrightarrow> js_opt_get v k = w"
  by (simp add: js_opt_get_def)

lemma js_opt_get_null [simp]: "js_eq_null v \<Longrightarrow> js_opt_get v k = JUndef"
  by (auto simp: js_eq_null_def js_opt_get_def)

section \<open>Fetch\<close>

text \<open>\<open>fetch\<close> rejects with an error or resolves with a response, whatever its status is;
  \<open>res.json()\<close> rejects when the body is not JSON.\<close>

record response =
  rs_ok :: bool
  rs_status :: int
  rs_statusText :: string
  rs_text :: string
  rs_json :: "js option"

type_synonym fetch_result = "js_error + response"

definition res_json :: "fetch_result \<Rightarrow> js_error + js" where
  "res_json r = (case r of Inl e \<Rightarrow> Inl e
     | Inr res \<Rightarrow> (case rs_json res of None \<Rightarrow> Inl SyntaxError | Some v \<Rightarrow> Inr v))"

datatype msg_type = MSuccess | MWarning | MInfo

text \<open>The loop \<open>for (let x of xs) acc.push(f x)\<close>: what was pushed before an exception stays.\<close>

fun push_all :: "('a \<Rightarrow> js_error + 'r) \<Rightarrow> 'a list \<Rightarrow> 'r list \<Rightarrow> 'r list \<times> js_error option" where
  "push_all f [] acc = (acc, None)"
| "push_all f (x # xs) acc =
     (case f x of Inl e \<Rightarrow> (acc, Some e) | Inr r \<Rightarrow> push_all f xs (acc @ [r]))"

lemma push_all_ok:
  assumes "\<forall>x \<in> set xs. f x = Inr (g x)"
  shows "push_all f xs acc = (acc @ map g xs, None)"
  using assms by (induction xs arbitrary: acc) auto

lemma push_all_prefix:
  "prefix acc (fst (push_all f xs acc)) \<and> length (fst (push_all f xs acc)) \<le> length acc + length xs"
proof (induction xs arbitrary: acc)
  case (Cons x xs)
  show ?case
  proof (cases "f x")
    case (Inr r)
    then show ?thesis using Cons.IH [of "acc @ [r]"] append_prefixD by fastforce
  qed simp
qed simp

end
