(* ===== verification/Web_Proxy.thy ===== *)
theory Web_Proxy
  imports Js_Value
begin

text \<open>
  The proxy lists of the server dashboard: the row classes of \<open>web/frps/src/utils/proxy.ts\<close>,
  the components \<open>Proxies*.vue\<close> that fetch the statistics and build the rows, and the table
  and detail views \<open>ProxyView.vue\<close> and \<open>ProxyViewExpand.vue\<close>. A component's state is its
  \<open>ref\<close>; the replies of the server are arguments. \<open>Humanize.fileSize\<close> is a parameter.
\<close>

section \<open>Rows\<close>

text \<open>A row object. Reading a property that a class does not define gives \<open>undefined\<close>, so the
  two properties of \<open>TCPMuxProxy\<close> are \<open>JUndef\<close> in the other classes.\<close>

record proxy_row =
  bp_name :: js
  bp_type :: string
  bp_annotations :: "(string \<times> js) list"
  bp_encryption :: js
  bp_compression :: js
  bp_conns :: js
  bp_trafficIn :: js
  bp_trafficOut :: js
  bp_lastStartTime :: js
  bp_lastCloseTime :: js
  bp_status :: js
  bp_clientVersion :: js
  bp_addr :: js
  bp_port :: js
  bp_customDomains :: js
  bp_hostHeaderRewrite :: js
  bp_locations :: js
  bp_subdomain :: js
  bp_multiplexer :: js
  bp_routeByHTTPUser :: js

definition BaseProxy :: "js \<Rightarrow> js_error + proxy_row" where
  "BaseProxy proxyStats =
     (if js_eq_null proxyStats then Inl TypeError
      else
        (let stat = js_opt_get proxyStats;
             conf = stat ''conf'';
             annotations = js_opt_get conf ''annotations'';
             transport = js_opt_get conf ''transport''
         in Inr \<lparr>bp_name = stat ''name'', bp_type = [],
              bp_annotations =
                (if js_truthy annotations
                 then foldl (\<lambda>m p. js_map_set m (fst p) (snd p)) [] (js_entries annotations)
                 else []),
              bp_encryption = js_or (js_opt_get transport ''useEncryption'') (JBool False),
              bp_compression = js_or (js_opt_get transport ''useCompression'') (JBool False),
              bp_conns = stat ''curConns'',
              bp_trafficIn = stat ''todayTrafficIn'',
              bp_trafficOut = stat ''todayTrafficOut'',
              bp_lastStartTime = stat ''lastStartTime'',
              bp_lastCloseTime = stat ''lastCloseTime'',
              bp_status = stat ''status'',
              bp_clientVersion = stat ''clientVersion'',
              bp_addr = JStr [], bp_port = JNum 0, bp_customDomains = JStr [],
              bp_hostHeaderRewrite = JStr [], bp_locations = JStr [], bp_subdomain = JStr [],
              bp_multiplexer = JUndef, bp_routeByHTTPUser = JUndef\<rparr>))"

text \<open>The classes with a remote port: \<open>TCPProxy\<close> and \<open>UDPProxy\<close>.\<close>

definition TCPProxy :: "js \<Rightarrow> js_error + proxy_row" where
  "TCPProxy proxyStats =
     (case BaseProxy proxyStats of
        Inl e \<Rightarrow> Inl e
      | Inr r0 \<Rightarrow>
          (let r = r0\<lparr>bp_type := ''tcp''\<rparr>; conf = js_opt_get proxyStats ''conf'' in
           if \<not> js_eq_null conf then
             (let p = js_opt_get conf ''remotePort'' in
              Inr (r\<lparr>bp_addr := JStr (CHR '':'' # js_to_string p), bp_port := p\<rparr>))
           else Inr (r\<lparr>bp_addr := JStr [], bp_port := JNum 0\<rparr>)))"

definition UDPProxy :: "js \<Rightarrow> js_error + proxy_row" where
  "UDPProxy proxyStats =
     (case BaseProxy proxyStats of
        Inl e \<Rightarrow> Inl e
      | Inr r0 \<Rightarrow>
          (let r = r0\<lparr>bp_type := ''udp''\<rparr>; conf = js_opt_get proxyStats ''conf'' in
           if \<not> js_eq_null conf then
             (let p = js_opt_get conf ''remotePort'' in
              Inr (r\<lparr>bp_addr := JStr (CHR '':'' # js_to_string p), bp_port := p\<rparr>))
           else Inr (r\<lparr>bp_addr := JStr [], bp_port := JNum 0\<rparr>)))"

text \<open>The template literal \<open>`${conf.subdomain}.${subdomainHost}`\<close>, when there is a subdomain.\<close>

definition with_subdomain :: "js \<Rightarrow> js \<Rightarrow> proxy_row \<Rightarrow> proxy_row" where
  "with_subdomain conf subdomainHost r =
     (let s = js_opt_get conf ''subdomain'' in
      if js_truthy s
      then r\<lparr>bp_subdomain := JStr (js_to_string s @ ''.'' @ js_to_string subdomainHost)\<rparr> else r)"

definition HTTPProxy :: "js \<Rightarrow> js \<Rightarrow> js \<Rightarrow> js_error + proxy_row" where
  "HTTPProxy proxyStats port subdomainHost =
     (case BaseProxy proxyStats of
        Inl e \<Rightarrow> Inl e
      | Inr r0 \<Rightarrow>
          (let r = r0\<lparr>bp_type := ''http'', bp_port := port\<rparr>; conf = js_opt_get proxyStats ''conf'' in
           if js_truthy conf then
             Inr (with_subdomain conf subdomainHost
               (r\<lparr>bp_customDomains := js_or (js_opt_get conf ''customDomains'') (bp_customDomains r),
                  bp_hostHeaderRewrite := js_opt_get conf ''hostHeaderRewrite'',
                  bp_locations := js_opt_get conf ''locations''\<rparr>))
           else Inr r))"

definition HTTPSProxy :: "js \<Rightarrow> js \<Rightarrow> js \<Rightarrow> js_error + proxy_row" where
  "HTTPSProxy proxyStats port subdomainHost =
     (case BaseProxy proxyStats of
        Inl e \<Rightarrow> Inl e
      | Inr r0 \<Rightarrow>
          (let r = r0\<lparr>bp_type := ''https'', bp_port := port\<rparr>; conf = js_opt_get proxyStats ''conf'' in
           if \<not> js_eq_null conf then
             Inr (with_subdomain conf subdomainHost
               (r\<lparr>bp_customDomains := js_or (js_opt_get conf ''customDomains'') (bp_customDomains r)\<rparr>))
           else Inr r))"

definition TCPMuxProxy :: "js \<Rightarrow> js \<Rightarrow> js \<Rightarrow> js_error + proxy_row" where
  "TCPMuxProxy proxyStats port subdomainHost =
     (case BaseProxy proxyStats of
        Inl e \<Rightarrow> Inl e
      | Inr r0 \<Rightarrow>
          (let r = r0\<lparr>bp_type := ''tcpmux'', bp_port := port, bp_multiplexer := JStr [],
                      bp_routeByHTTPUser := JStr []\<rparr>;
               conf = js_opt_get proxyStats ''conf'' in
           if js_truthy conf then
             Inr (with_subdomain conf subdomainHost
               (r\<lparr>bp_customDomains := js_or (js_opt_get conf ''customDomains'') (bp_customDomains r),
                  bp_multiplexer := js_opt_get conf ''multiplexer'',
                  bp_routeByHTTPUser := js_opt_get conf ''routeByHTTPUser''\<rparr>))
           else Inr r))"

definition STCPProxy :: "js \<Rightarrow> js_error + proxy_row" where
  "STCPProxy proxyStats =
     (case BaseProxy proxyStats of Inl e \<Rightarrow> Inl e | Inr r \<Rightarrow> Inr (r\<lparr>bp_type := ''stcp''\<rparr>))"

definition SUDPProxy :: "js \<Rightarrow> js_error + proxy_row" where
  "SUDPProxy proxyStats =
     (case BaseProxy proxyStats of Inl e \<Rightarrow> Inl e | Inr r \<Rightarrow> Inr (r\<lparr>bp_type := ''sudp''\<rparr>))"

section \<open>Fetching the lists\<close>

text \<open>The shared tail of every \<open>fetchData\<close>: reset the list, then push a row per element of
  \<open>json.proxies\<close>. The second component is the error the promise rejects with, if any.\<close>

definition load_rows ::
  "(js \<Rightarrow> js_error + proxy_row) \<Rightarrow> fetch_result \<Rightarrow> proxy_row list \<Rightarrow> proxy_row list \<times> js_error option" where
  "load_rows mk reply proxies =
     (case res_json reply of
        Inl e \<Rightarrow> (proxies, Some e)
      | Inr json \<Rightarrow>
          (case js_get json ''proxies'' of
             Inl e \<Rightarrow> ([], Some e)
           | Inr ps \<Rightarrow> (case js_iter ps of Inl e \<Rightarrow> ([], Some e) | Inr xs \<Rightarrow> push_all mk xs [])))"

definition fetchData_tcp :: "fetch_result \<Rightarrow> proxy_row list \<Rightarrow> proxy_row list \<times> js_error option" where
  "fetchData_tcp reply proxies = load_rows TCPProxy reply proxies"

definition fetchData_udp :: "fetch_result \<Rightarrow> proxy_row list \<Rightarrow> proxy_row list \<times> js_error option" where
  "fetchData_udp reply proxies = load_rows UDPProxy reply proxies"

definition fetchData_stcp :: "fetch_result \<Rightarrow> proxy_row list \<Rightarrow> proxy_row list \<times> js_error option" where
  "fetchData_stcp reply proxies = load_rows STCPProxy reply proxies"

definition fetchData_sudp :: "fetch_result \<Rightarrow> proxy_row list \<Rightarrow> proxy_row list \<times> js_error option" where
  "fetchData_sudp reply proxies = load_rows SUDPProxy reply proxies"

text \<open>The lists of the virtual host types first ask for the server info; without a virtual host
  port the HTTP and HTTPS lists are left as they are and nothing else is fetched.\<close>

definition fetchData_http ::
  "fetch_result \<Rightarrow> fetch_result \<Rightarrow> proxy_row list \<Rightarrow> proxy_row list \<times> js_error option" where
  "fetchData_http info reply proxies =
     (case res_json info of
        Inl e \<Rightarrow> (proxies, Some e)
      | Inr json \<Rightarrow>
          if js_eq_null json then (proxies, Some TypeError)
          else
            (let vhostHTTPPort = js_opt_get json ''vhostHTTPPort'';
                 subdomainHost = js_opt_get json ''subdomainHost''
             in if js_eq_null vhostHTTPPort \<or> js_eq_zero vhostHTTPPort then (proxies, None)
                else load_rows (\<lambda>s. HTTPProxy s vhostHTTPPort subdomainHost) reply proxies))"

definition fetchData_https ::
  "fetch_result \<Rightarrow> fetch_result \<Rightarrow> proxy_row list \<Rightarrow> proxy_row list \<times> js_error option" where
  "fetchData_https info reply proxies =
     (case res_json info of
        Inl e \<Rightarrow> (proxies, Some e)
      | Inr json \<Rightarrow>
          if js_eq_null json then (proxies, Some TypeError)
          else
            (let vhostHTTPSPort = js_opt_get json ''vhostHTTPSPort'';
                 subdomainHost = js_opt_get json ''subdomainHost''
             in if js_eq_null vhostHTTPSPort \<or> js_eq_zero vhostHTTPSPort then (proxies, None)
                else load_rows (\<lambda>s. HTTPSProxy s vhostHTTPSPort subdomainHost) reply proxies))"

definition fetchData_tcpmux ::
  "fetch_result \<Rightarrow> fetch_result \<Rightarrow> proxy_row list \<Rightarrow> proxy_row list \<times> js_error option" where
  "fetchData_tcpmux info reply proxies =
     (case res_json info of
        Inl e \<Rightarrow> (proxies, Some e)
      | Inr json \<Rightarrow>
          if js_eq_null json then (proxies, Some TypeError)
          else
            (let tcpmuxHTTPConnectPort = js_opt_get json ''tcpmuxHTTPConnectPort'';
                 subdomainHost = js_opt_get json ''subdomainHost''
             in load_rows (\<lambda>s. TCPMuxProxy s tcpmuxHTTPConnectPort subdomainHost) reply proxies))"

section \<open>Views\<close>

text \<open>\<open>ProxyView.vue\<close>: the cells of a table row, with \<open>Humanize.fileSize\<close> as \<open>fileSize\<close>,
  and the tag type of the status.\<close>

definition status_tag :: "proxy_row \<Rightarrow> string" where
  "status_tag row = (if bp_status row = JStr ''online'' then ''success'' else ''danger'')"

definition formatTrafficIn :: "(js \<Rightarrow> string) \<Rightarrow> proxy_row \<Rightarrow> string" where
  "formatTrafficIn fileSize row = fileSize (bp_trafficIn row)"

definition formatTrafficOut :: "(js \<Rightarrow> string) \<Rightarrow> proxy_row \<Rightarrow> string" where
  "formatTrafficOut fileSize row = fileSize (bp_trafficOut row)"

definition table_cells :: "(js \<Rightarrow> string) \<Rightarrow> proxy_row \<Rightarrow> (string \<times> js) list" where
  "table_cells fileSize row =
     [(''Name'', bp_name row), (''Port'', bp_port row), (''Connections'', bp_conns row),
      (''Traffic In'', JStr (formatTrafficIn fileSize row)),
      (''Traffic Out'', JStr (formatTrafficOut fileSize row)),
      (''ClientVersion'', bp_clientVersion row), (''Status'', bp_status row)]"

text \<open>The traffic dialog of \<open>ProxyView.vue\<close>.\<close>

record dialog = dialogVisible :: bool dialogVisibleName :: js

definition dialog_init :: dialog where
  "dialog_init = \<lparr>dialogVisible = False, dialogVisibleName = JStr []\<rparr>"

definition open_traffic :: "proxy_row \<Rightarrow> dialog \<Rightarrow> dialog" where
  "open_traffic row d = d\<lparr>dialogVisibleName := bp_name row, dialogVisible := True\<rparr>"

text \<open>\<open>clearOfflineProxies\<close>: the message shown and whether \<open>refresh\<close> is emitted. The text of an
  error (\<open>err.message\<close>) is a parameter.\<close>

definition clearOfflineProxies ::
  "(js_error \<Rightarrow> string) \<Rightarrow> fetch_result \<Rightarrow> (msg_type \<times> string) \<times> bool" where
  "clearOfflineProxies err_message reply =
     (case reply of
        Inl e \<Rightarrow> ((MWarning, ''Failed to clear offline proxies: '' @ err_message e), False)
      | Inr res \<Rightarrow>
          if rs_ok res then ((MSuccess, ''Successfully cleared offline proxies''), True)
          else ((MWarning, ''Failed to clear offline proxies: '' @ int_to_string (rs_status res) @ '' '' @
                   rs_statusText res), False))"

text \<open>\<open>ProxyViewExpand.vue\<close>: the labelled fields of the detail view and the annotations below.\<close>

definition expand_fields :: "string \<Rightarrow> proxy_row \<Rightarrow> (string \<times> js) list" where
  "expand_fields proxyType row =
     [(''Name'', bp_name row), (''Type'', JStr (bp_type row)), (''Encryption'', bp_encryption row),
      (''Compression'', bp_compression row), (''Last Start'', bp_lastStartTime row),
      (''Last Close'', bp_lastCloseTime row)] @
     (if proxyType = ''http'' \<or> proxyType = ''https'' then
        [(''Domains'', bp_customDomains row), (''SubDomain'', bp_subdomain row),
         (''locations'', bp_locations row), (''HostRewrite'', bp_hostHeaderRewrite row)]
      else if proxyType = ''tcpmux'' then
        [(''Multiplexer'', bp_multiplexer row), (''RouteByHTTPUser'', bp_routeByHTTPUser row),
         (''Domains'', bp_customDomains row), (''SubDomain'', bp_subdomain row)]
      else [(''Addr'', bp_addr row)])"

definition annotationsArray :: "proxy_row \<Rightarrow> (string \<times> js) list" where
  "annotationsArray row = foldl (\<lambda>array p. array @ [(fst p, snd p)]) [] (bp_annotations row)"

definition shown_annotations :: "proxy_row \<Rightarrow> (string \<times> js) list option" where
  "shown_annotations row =
     (if length (bp_annotations row) > 0 then Some (annotationsArray row) else None)"

section \<open>Lemmas\<close>

lemmas row_defs = TCPProxy_def UDPProxy_def HTTPProxy_def HTTPSProxy_def TCPMuxProxy_def
  STCPProxy_def SUDPProxy_def

lemma BaseProxy_Inr: "\<not> js_eq_null v \<Longrightarrow> \<exists>r. BaseProxy v = Inr r"
  by (simp add: BaseProxy_def Let_def)

lemma annotationsArray_id: "annotationsArray row = bp_annotations row"
proof -
  have "foldl (\<lambda>array p. array @ [(fst p, snd p)]) a xs = a @ xs" for a xs :: "(string \<times> js) list"
    by (induction xs arbitrary: a) auto
  then show ?thesis by (simp add: annotationsArray_def)
qed

lemma with_subdomain_sel [simp]:
  "bp_name (with_subdomain c h r) = bp_name r" "bp_type (with_subdomain c h r) = bp_type r"
  "bp_annotations (with_subdomain c h r) = bp_annotations r"
  "bp_port (with_subdomain c h r) = bp_port r"
  "bp_status (with_subdomain c h r) = bp_status r"
  "bp_conns (with_subdomain c h r) = bp_conns r"
  "bp_trafficIn (with_subdomain c h r) = bp_trafficIn r"
  "bp_trafficOut (with_subdomain c h r) = bp_trafficOut r"
  by (auto simp: with_subdomain_def Let_def)

text \<open>The seven row classes as functions of the type name: what the views rely on.\<close>

definition make_row :: "string \<Rightarrow> js \<Rightarrow> js \<Rightarrow> js \<Rightarrow> js_error + proxy_row" where
  "make_row t v port host =
     (if t = ''tcp'' then TCPProxy v else if t = ''udp'' then UDPProxy v
      else if t = ''http'' then HTTPProxy v port host else if t = ''https'' then HTTPSProxy v port host
      else if t = ''tcpmux'' then TCPMuxProxy v port host else if t = ''stcp'' then STCPProxy v
      else SUDPProxy v)"

definition row_types :: "string list" where
  "row_types = [''tcp'', ''udp'', ''http'', ''https'', ''tcpmux'', ''stcp'', ''sudp'']"

lemma make_row_base:
  assumes "BaseProxy v = Inr r0" and "t \<in> set row_types"
  shows "\<exists>r. make_row t v port host = Inr r \<and> bp_name r = bp_name r0 \<and> bp_type r = t \<and>
     bp_annotations r = bp_annotations r0 \<and> bp_status r = bp_status r0 \<and> bp_conns r = bp_conns r0 \<and>
     bp_trafficIn r = bp_trafficIn r0 \<and> bp_trafficOut r = bp_trafficOut r0"
  using assms by (auto simp: make_row_def row_types_def row_defs Let_def split: if_splits)

end
