(* ===== verification/Web_Chart.thy ===== *)
theory Web_Chart
  imports Js_Value
begin

text \<open>
  The overview page and the charts of the server dashboard: \<open>web/frps/src/utils/chart.ts\<close>,
  \<open>ServerOverview.vue\<close>, \<open>Traffic.vue\<close> and \<open>LongSpan.vue\<close>. A chart is the sequence of
  calls made on the echarts instance, with the option object as a record of the data the code puts
  there. \<open>Humanize.fileSize\<close> is a parameter.
\<close>

section \<open>Pie charts\<close>

record pie_option =
  po_text :: string
  po_subtext :: string
  po_legend :: "string list"
  po_data :: "(js \<times> string) list"

datatype 'o chart_call = ChartInit string | ShowLoading | SetOption 'o | HideLoading

definition DrawTrafficChart :: "string \<Rightarrow> js \<Rightarrow> js \<Rightarrow> pie_option chart_call list" where
  "DrawTrafficChart elementId trafficIn trafficOut =
     (let opt = \<lparr>po_text = ''Network Traffic'', po_subtext = ''today'',
                 po_legend = [''Traffic In'', ''Traffic Out''],
                 po_data = [(trafficIn, ''Traffic In''), (trafficOut, ''Traffic Out'')]\<rparr>
      in [ChartInit elementId, ShowLoading, SetOption opt, HideLoading])"

definition traffic_tooltip :: "(js \<Rightarrow> string) \<Rightarrow> js \<Rightarrow> js \<Rightarrow> string" where
  "traffic_tooltip fileSize value percent = fileSize value @ '' ('' @ js_to_string percent @ ''%)''"

text \<open>One of the seven blocks \<open>if (count != null && count != 0) { push; push }\<close>.\<close>

definition push_count :: "js \<Rightarrow> string \<Rightarrow> string \<Rightarrow> pie_option \<Rightarrow> pie_option" where
  "push_count counts key name opt =
     (let v = js_opt_get counts key in
      if \<not> js_eq_null v \<and> \<not> js_eq_zero v
      then opt\<lparr>po_data := po_data opt @ [(v, name)], po_legend := po_legend opt @ [name]\<rparr>
      else opt)"

definition proxy_chart_option :: "js \<Rightarrow> pie_option" where
  "proxy_chart_option counts =
     (let opt0 = \<lparr>po_text = ''Proxies'', po_subtext = ''now'', po_legend = [], po_data = []\<rparr>;
          opt1 = push_count counts ''tcp'' ''TCP'' opt0;
          opt2 = push_count counts ''udp'' ''UDP'' opt1;
          opt3 = push_count counts ''http'' ''HTTP'' opt2;
          opt4 = push_count counts ''https'' ''HTTPS'' opt3;
          opt5 = push_count counts ''stcp'' ''STCP'' opt4;
          opt6 = push_count counts ''sudp'' ''SUDP'' opt5
      in push_count counts ''xtcp'' ''XTCP'' opt6)"

text \<open>The calls made, and the exception if there is one: without \<open>proxyTypeCount\<close> the chart is
  left loading.\<close>

definition DrawProxyChart :: "string \<Rightarrow> js \<Rightarrow> pie_option chart_call list \<times> js_error option" where
  "DrawProxyChart elementId serverInfo =
     (case js_get serverInfo ''proxyTypeCount'' of
        Inl e \<Rightarrow> ([ChartInit elementId, ShowLoading], Some e)
      | Inr counts \<Rightarrow>
          if js_eq_null counts then ([ChartInit elementId, ShowLoading], Some TypeError)
          else ([ChartInit elementId, ShowLoading, SetOption (proxy_chart_option counts), HideLoading], None))"

section \<open>Dates\<close>

text \<open>
  A local date is its number of days since 1 January 1970, as in the ECMAScript specification:
  \<open>DayFromYear\<close>, \<open>YearFromTime\<close>, \<open>MonthFromTime\<close>, \<open>DateFromTime\<close> and \<open>MakeDay\<close>. The
  time of day is not observed by the code.
\<close>

definition day_from_year :: "int \<Rightarrow> int" where
  "day_from_year y = 365 * (y - 1970) + (y - 1969) div 4 - (y - 1901) div 100 + (y - 1601) div 400"

definition leap_year :: "int \<Rightarrow> bool" where
  "leap_year y = (y mod 4 = 0 \<and> (y mod 100 \<noteq> 0 \<or> y mod 400 = 0))"

definition year_from_day :: "int \<Rightarrow> int" where
  "year_from_day n =
     (let y = 1970 + (400 * n) div 146097 in
      if n < day_from_year y then y - 1
      else if day_from_year (y + 1) \<le> n then y + 1 else y)"

text \<open>First day of each month in a year, months numbered from 0.\<close>

definition month_starts :: "bool \<Rightarrow> int list" where
  "month_starts leap = (let l = (if leap then 1 else 0) in
     [0, 31, 59 + l, 90 + l, 120 + l, 151 + l, 181 + l, 212 + l, 243 + l, 273 + l, 304 + l, 334 + l])"

definition getFullYear :: "int \<Rightarrow> int" where
  "getFullYear n = year_from_day n"

definition day_in_year :: "int \<Rightarrow> int" where
  "day_in_year n = n - day_from_year (year_from_day n)"

definition getMonth :: "int \<Rightarrow> nat" where
  "getMonth n =
     length (takeWhile (\<lambda>s. s \<le> day_in_year n) (month_starts (leap_year (year_from_day n)))) - 1"

definition getDate :: "int \<Rightarrow> int" where
  "getDate n = day_in_year n - month_starts (leap_year (year_from_day n)) ! getMonth n + 1"

text \<open>\<open>new Date(y, m, d)\<close> for a month in range: two-digit years are years of the 20th century, and a
  day outside the month counts on from its first day.\<close>

definition make_date :: "int \<Rightarrow> nat \<Rightarrow> int \<Rightarrow> int" where
  "make_date y0 m d =
     (let y = (if 0 \<le> y0 \<and> y0 \<le> 99 then 1900 + y0 else y0) in
      day_from_year y + month_starts (leap_year y) ! m + d - 1)"

definition date_label :: "int \<Rightarrow> string" where
  "date_label n =
     int_to_string (getFullYear n) @ ''-'' @ nat_to_string (getMonth n + 1) @ ''-'' @ int_to_string (getDate n)"

section \<open>The traffic chart\<close>

text \<open>The loop that fills \<open>dates\<close>.\<close>

fun push_dates :: "nat \<Rightarrow> int \<Rightarrow> string list \<Rightarrow> string list" where
  "push_dates 0 now dates = dates"
| "push_dates (Suc i) now dates =
     push_dates i (make_date (getFullYear now) (getMonth now) (getDate now + 1)) (dates @ [date_label now])"

record bar_option =
  bo_dates :: "string list"
  bo_in :: "js list"
  bo_out :: "js list"

definition DrawProxyTrafficChart ::
  "int \<Rightarrow> string \<Rightarrow> js list \<Rightarrow> js list \<Rightarrow> bar_option chart_call list" where
  "DrawProxyTrafficChart today elementId trafficInArr trafficOutArr =
     (let now = make_date (getFullYear today) (getMonth today) (getDate today - 6);
          opt = \<lparr>bo_dates = push_dates 7 now [], bo_in = rev trafficInArr, bo_out = rev trafficOutArr\<rparr>
      in [ChartInit elementId, ShowLoading, SetOption opt, HideLoading])"

text \<open>The tooltip: the date, then a line per series \<open>(color, seriesName, value)\<close>.\<close>

definition bar_tooltip :: "(js \<Rightarrow> string) \<Rightarrow> (string \<times> string \<times> string \<times> js) list \<Rightarrow> string" where
  "bar_tooltip fileSize data =
     (let html0 = (case data of [] \<Rightarrow> [] | v # _ \<Rightarrow> (case v of (name, _, _, _) \<Rightarrow> name @ ''<br/>'')) in
      foldl (\<lambda>html v. case v of (name, color, seriesName, value) \<Rightarrow>
          html @ ''<span style=\"display:inline-block;margin-right:5px;border-radius:10px;width:9px;height:9px;background-color:'' @
          color @ ''\"></span>'' @ seriesName @ '': '' @ fileSize value @ ''<br/>'') html0 data)"

text \<open>\<open>Traffic.vue\<close>: draw the arrays of the reply; an array that is not there is an exception in
  \<open>reverse\<close>, which shows the message. The text of an error is a parameter.\<close>

definition fetchData_traffic ::
  "(js_error \<Rightarrow> string) \<Rightarrow> int \<Rightarrow> string \<Rightarrow> fetch_result \<Rightarrow>
     bar_option chart_call list \<times> (msg_type \<times> string) option" where
  "fetchData_traffic err_string today proxyName reply =
     (case res_json reply of
        Inl e \<Rightarrow> ([], Some (MWarning, ''Get traffic info failed!'' @ err_string e))
      | Inr json \<Rightarrow>
          if js_eq_null json then ([], Some (MWarning, ''Get traffic info failed!'' @ err_string TypeError))
          else (case (js_opt_get json ''trafficIn'', js_opt_get json ''trafficOut'') of
             (JArr ins, JArr outs) \<Rightarrow> (DrawProxyTrafficChart today proxyName ins outs, None)
           | _ \<Rightarrow> ([ChartInit proxyName, ShowLoading],
                  Some (MWarning, ''Get traffic info failed!'' @ err_string TypeError))))"

section \<open>The overview page\<close>

record overview =
  ov_version :: js
  ov_bindPort :: js
  ov_kcpBindPort :: js
  ov_quicBindPort :: js
  ov_vhostHTTPPort :: js
  ov_vhostHTTPSPort :: js
  ov_tcpmuxHTTPConnectPort :: js
  ov_subdomainHost :: js
  ov_maxPoolCount :: js
  ov_maxPortsPerClient :: js
  ov_allowPortsStr :: js
  ov_tlsForce :: js
  ov_heartbeatTimeout :: js
  ov_clientCounts :: js
  ov_curConns :: js
  ov_proxyCounts :: js

definition overview_init :: overview where
  "overview_init =
     \<lparr>ov_version = JStr [], ov_bindPort = JNum 0, ov_kcpBindPort = JNum 0, ov_quicBindPort = JNum 0,
      ov_vhostHTTPPort = JNum 0, ov_vhostHTTPSPort = JNum 0, ov_tcpmuxHTTPConnectPort = JNum 0,
      ov_subdomainHost = JStr [], ov_maxPoolCount = JNum 0, ov_maxPortsPerClient = JStr [],
      ov_allowPortsStr = JStr [], ov_tlsForce = JBool False, ov_heartbeatTimeout = JNum 0,
      ov_clientCounts = JNum 0, ov_curConns = JNum 0, ov_proxyCounts = JNum 0\<rparr>"

text \<open>One of the seven blocks \<open>if (count != null) proxyCounts += count\<close>.\<close>

definition add_count :: "js \<Rightarrow> js \<Rightarrow> string \<Rightarrow> js" where
  "add_count counts acc key =
     (let v = js_opt_get counts key in if \<not> js_eq_null v then js_add acc v else acc)"

definition proxy_counts :: "js \<Rightarrow> js" where
  "proxy_counts counts =
     (if js_eq_null counts then JNum 0
      else foldl (add_count counts) (JNum 0)
             [''tcp'', ''udp'', ''http'', ''https'', ''stcp'', ''sudp'', ''xtcp''])"

definition fill_overview :: "js \<Rightarrow> overview" where
  "fill_overview json =
     (let get = js_opt_get json; mp = get ''maxPortsPerClient'' in
      \<lparr>ov_version = get ''version'', ov_bindPort = get ''bindPort'', ov_kcpBindPort = get ''kcpBindPort'',
       ov_quicBindPort = get ''quicBindPort'', ov_vhostHTTPPort = get ''vhostHTTPPort'',
       ov_vhostHTTPSPort = get ''vhostHTTPSPort'',
       ov_tcpmuxHTTPConnectPort = get ''tcpmuxHTTPConnectPort'',
       ov_subdomainHost = get ''subdomainHost'', ov_maxPoolCount = get ''maxPoolCount'',
       ov_maxPortsPerClient = (if js_eq_str0 mp ''0'' then JStr ''no limit'' else mp),
       ov_allowPortsStr = get ''allowPortsStr'', ov_tlsForce = get ''tlsForce'',
       ov_heartbeatTimeout = get ''heartbeatTimeout'', ov_clientCounts = get ''clientCounts'',
       ov_curConns = get ''curConns'', ov_proxyCounts = proxy_counts (get ''proxyTypeCount'')\<rparr>)"

definition fetchData_overview ::
  "fetch_result \<Rightarrow> overview \<Rightarrow> overview \<times> pie_option chart_call list \<times> (msg_type \<times> string) option" where
  "fetchData_overview reply data =
     (let failed = Some (MWarning, ''Get server info from frps failed!'') in
      case res_json reply of
        Inl e \<Rightarrow> (data, [], failed)
      | Inr json \<Rightarrow>
          if js_eq_null json then (data, [], failed)
          else
            (let t = DrawTrafficChart ''traffic'' (js_opt_get json ''totalTrafficIn'') (js_opt_get json ''totalTrafficOut'')
             in case DrawProxyChart ''proxies'' json of
                  (p, None) \<Rightarrow> (fill_overview json, t @ p, None)
                | (p, Some e) \<Rightarrow> (fill_overview json, t @ p, failed)))"

text \<open>The form items that the template shows, with the values in them.\<close>

definition overview_items :: "overview \<Rightarrow> (string \<times> js) list" where
  "overview_items d =
     [(''Version'', ov_version d), (''BindPort'', ov_bindPort d)] @
     (if \<not> js_eq_zero (ov_kcpBindPort d) then [(''KCP Bind Port'', ov_kcpBindPort d)] else []) @
     (if \<not> js_eq_zero (ov_quicBindPort d) then [(''QUIC Bind Port'', ov_quicBindPort d)] else []) @
     (if \<not> js_eq_zero (ov_vhostHTTPPort d) then [(''HTTP Port'', ov_vhostHTTPPort d)] else []) @
     (if \<not> js_eq_zero (ov_vhostHTTPSPort d) then [(''HTTPS Port'', ov_vhostHTTPSPort d)] else []) @
     (if \<not> js_eq_zero (ov_tcpmuxHTTPConnectPort d)
      then [(''TCPMux HTTPConnect Port'', ov_tcpmuxHTTPConnectPort d)] else []) @
     (if \<not> js_eq_str0 (ov_subdomainHost d) [] then [(''Subdomain Host'', ov_subdomainHost d)] else []) @
     [(''Max PoolCount'', ov_maxPoolCount d), (''Max Ports Per Client'', ov_maxPortsPerClient d)] @
     (if \<not> js_eq_str0 (ov_allowPortsStr d) [] then [(''Allow Ports'', ov_allowPortsStr d)] else []) @
     (if ov_tlsForce d = JBool True then [(''TLS Force'', ov_tlsForce d)] else []) @
     [(''HeartBeat Timeout'', ov_heartbeatTimeout d), (''Client Counts'', ov_clientCounts d),
      (''Current Connections'', ov_curConns d), (''Proxy Counts'', ov_proxyCounts d)]"

text \<open>\<open>LongSpan.vue\<close>: the visible spans for a content string and the length given.\<close>

definition LongSpan :: "string \<Rightarrow> nat \<Rightarrow> string list" where
  "LongSpan content len =
     (if length content > len then [take len content @ ''...''] else []) @
     (if length content < 30 then [content] else [])"

section \<open>Dates are days\<close>

lemma day_from_year_bounds:
  "146097 * t - 507 \<le> 400 * day_from_year (1970 + t)" "400 * day_from_year (1970 + t) \<le> 146097 * t + 589"
proof -
  define a b c where "a = (1970 + t - 1969) div 4" and "b = (1970 + t - 1901) div 100"
    and "c = (1970 + t - 1601) div 400"
  have "4 * a \<le> t + 1" "t + 1 < 4 * a + 4" "100 * b \<le> t + 69" "t + 69 < 100 * b + 100"
    "400 * c \<le> t + 369" "t + 369 < 400 * c + 400"
    unfolding a_def b_def c_def by linarith+
  moreover have "day_from_year (1970 + t) = 365 * t + a - b + c"
    by (simp add: day_from_year_def a_def b_def c_def)
  ultimately show "146097 * t - 507 \<le> 400 * day_from_year (1970 + t)"
    "400 * day_from_year (1970 + t) \<le> 146097 * t + 589"
    by simp_all
qed

lemma year_from_day_bounds:
  "day_from_year (year_from_day n) \<le> n \<and> n < day_from_year (year_from_day n + 1)"
proof -
  define q where "q = (400 * n) div 146097"
  have q: "146097 * q \<le> 400 * n" "400 * n < 146097 * q + 146097"
    unfolding q_def by linarith+
  have "400 * day_from_year (1970 + q - 1) \<le> 146097 * q - 145508"
    using day_from_year_bounds(2) [of "q - 1"] by (simp add: algebra_simps)
  then have "day_from_year (1970 + q - 1) \<le> n" using q(1) by linarith
  moreover have "146097 * q + 291687 \<le> 400 * day_from_year (1970 + q + 2)"
    using day_from_year_bounds(1) [of "q + 2"] by (simp add: algebra_simps)
  then have "n < day_from_year (1970 + q + 2)" using q(2) by linarith
  ultimately show ?thesis
    unfolding year_from_day_def Let_def q_def [symmetric] by (simp add: add.assoc)
qed

lemma div_step:
  assumes "0 < (k :: int)" and a: "a = y - k * c" and b: "b = a - 1"
  shows "a div k = b div k + (if y mod k = 0 then 1 else 0)"
proof -
  let ?q = "y div k - c" and ?r = "y mod k"
  have y: "y - k * c = k * ?q + ?r" by (simp add: algebra_simps)
  have r: "0 \<le> ?r" "?r < k" using assms by simp_all
  have "(y - k * c) div k = ?q" by (rule int_div_pos_eq [OF y r])
  moreover have "(y - k * c - 1) div k = (if ?r = 0 then ?q - 1 else ?q)"
  proof (cases "?r = 0")
    case True
    then have "y - k * c - 1 = k * (?q - 1) + (k - 1)" using y by (simp add: algebra_simps)
    with True assms show ?thesis using int_div_pos_eq [of "y - k * c - 1" k "?q - 1" "k - 1"] by simp
  next
    case False
    then show ?thesis using int_div_pos_eq [of "y - k * c - 1" k ?q "?r - 1"] y r by simp
  qed
  ultimately show ?thesis by (simp add: a b)
qed

lemma year_length: "day_from_year (y + 1) = day_from_year y + (if leap_year y then 366 else 365)"
proof -
  have m: "y mod 100 = 0" if "y mod 400 = 0"
    using dvd_trans [of 100 400 y] that by (simp only: dvd_eq_mod_eq_0) simp
  have m': "y mod 4 = 0" if "y mod 100 = 0"
    using dvd_trans [of 4 100 y] that by (simp only: dvd_eq_mod_eq_0) simp
  have d: "(y + 1 - 1969) div 4 = (y - 1969) div 4 + (if y mod 4 = 0 then 1 else 0)"
    "(y + 1 - 1901) div 100 = (y - 1901) div 100 + (if y mod 100 = 0 then 1 else 0)"
    "(y + 1 - 1601) div 400 = (y - 1601) div 400 + (if y mod 400 = 0 then 1 else 0)"
    by (rule div_step [where c = 492] div_step [where c = 19] div_step [where c = 4]; simp)+
  show ?thesis
    unfolding day_from_year_def d leap_year_def
    by (cases "y mod 400 = 0"; cases "y mod 100 = 0"; cases "y mod 4 = 0") (use m m' in simp_all)
qed

lemma day_in_year_bounds:
  "0 \<le> day_in_year n" "day_in_year n < (if leap_year (year_from_day n) then 366 else 365)"
  using year_from_day_bounds [of n] year_length [of "year_from_day n"] by (simp_all add: day_in_year_def)

lemma make_date_get:
  assumes "\<not> (0 \<le> getFullYear n \<and> getFullYear n \<le> 99)"
  shows "make_date (getFullYear n) (getMonth n) (getDate n + k) = n + k"
proof -
  from assms have "(if 0 \<le> getFullYear n \<and> getFullYear n \<le> 99 then 1900 + getFullYear n else getFullYear n) =
      year_from_day n"
    by (simp add: getFullYear_def)
  then show ?thesis by (simp only: make_date_def Let_def getDate_def day_in_year_def)
qed

text \<open>The length of a month, from the first days of the months.\<close>

definition month_length :: "bool \<Rightarrow> nat \<Rightarrow> int" where
  "month_length leap m = (month_starts leap @ [if leap then 366 else 365]) ! Suc m - month_starts leap ! m"

lemma takeWhile_month:
  assumes "0 \<le> d" and "d < (if leap then 366 else 365)"
    and "m = length (takeWhile (\<lambda>s. s \<le> d) (month_starts leap)) - 1"
  shows "m < 12 \<and> month_starts leap ! m \<le> d \<and> d < month_starts leap ! m + month_length leap m"
  using assms by (cases leap) (auto simp: month_starts_def month_length_def Let_def split: if_splits)

lemma valid_date:
  "getMonth n < 12 \<and> 1 \<le> getDate n \<and> getDate n \<le> month_length (leap_year (getFullYear n)) (getMonth n)"
  using takeWhile_month [OF day_in_year_bounds [of n] refl]
  by (simp add: getMonth_def getDate_def getFullYear_def)

lemma getFullYear_mono:
  assumes "a \<le> b"
  shows "getFullYear a \<le> getFullYear b"
proof (rule ccontr)
  assume "\<not> getFullYear a \<le> getFullYear b"
  then have l: "getFullYear b + 1 \<le> getFullYear a" by simp
  have "day_from_year x \<le> day_from_year y" if "x \<le> y" for x y
    using that by (induction y rule: int_ge_induct) (auto simp: year_length)
  with l have "day_from_year (getFullYear b + 1) \<le> day_from_year (getFullYear a)" by blast
  then show False
    using year_from_day_bounds [of a] year_from_day_bounds [of b] assms by (simp add: getFullYear_def)
qed

lemma push_dates_eq:
  assumes "100 \<le> getFullYear now"
  shows "push_dates k now ds = ds @ map (\<lambda>j. date_label (now + int j)) [0..<k]"
  using assms
proof (induction k arbitrary: now ds)
  case (Suc k)
  have "100 \<le> getFullYear (now + 1)" using Suc.prems getFullYear_mono [of now "now + 1"] by simp
  from Suc.IH [OF this, of "ds @ [date_label now]"] show ?case
    using make_date_get [of now 1] Suc.prems
    by (simp add: upt_conv_Cons map_Suc_upt [symmetric] algebra_simps del: upt_Suc)
qed simp

section \<open>Counting proxies\<close>

definition count_of :: "js \<Rightarrow> string \<Rightarrow> int" where
  "count_of counts k = (case js_opt_get counts k of JNum n \<Rightarrow> n | _ \<Rightarrow> 0)"

definition chart_types :: "(string \<times> string) list" where
  "chart_types = [(''tcp'', ''TCP''), (''udp'', ''UDP''), (''http'', ''HTTP''), (''https'', ''HTTPS''),
     (''stcp'', ''STCP''), (''sudp'', ''SUDP''), (''xtcp'', ''XTCP'')]"

fun num_or_absent :: "js \<Rightarrow> bool" where
  "num_or_absent (JNum _) = True"
| "num_or_absent v = js_eq_null v"

definition counts_ok :: "js \<Rightarrow> bool" where
  "counts_ok counts = list_all (\<lambda>p. num_or_absent (js_opt_get counts (fst p))) chart_types"

lemma num_or_absent_cases:
  assumes "num_or_absent v"
  obtains n where "v = JNum n" | "js_eq_null v" "(case v of JNum n \<Rightarrow> n | _ \<Rightarrow> 0) = 0"
  using assms by (cases v) (auto simp: js_eq_null_def)

lemma proxy_chart_option_fold:
  "proxy_chart_option counts =
     foldl (\<lambda>opt p. push_count counts (fst p) (snd p) opt)
       \<lparr>po_text = ''Proxies'', po_subtext = ''now'', po_legend = [], po_data = []\<rparr> chart_types"
  by (simp add: proxy_chart_option_def chart_types_def Let_def)

lemma push_count_fold:
  assumes "list_all (\<lambda>p. num_or_absent (js_opt_get counts (fst p))) ps"
  shows "foldl (\<lambda>opt p. push_count counts (fst p) (snd p) opt) opt ps =
     opt\<lparr>po_data := po_data opt @ map (\<lambda>p. (JNum (count_of counts (fst p)), snd p))
            (filter (\<lambda>p. count_of counts (fst p) \<noteq> 0) ps),
         po_legend := po_legend opt @ map snd (filter (\<lambda>p. count_of counts (fst p) \<noteq> 0) ps)\<rparr>"
  using assms
proof (induction ps arbitrary: opt)
  case (Cons p ps)
  from Cons.prems have "num_or_absent (js_opt_get counts (fst p))" by simp
  then show ?case
    by (cases rule: num_or_absent_cases)
      (use Cons in \<open>auto simp: push_count_def count_of_def js_eq_null_def\<close>)
qed simp

lemma add_count_fold:
  assumes "list_all (\<lambda>k. num_or_absent (js_opt_get counts k)) ks"
  shows "foldl (add_count counts) (JNum n) ks = JNum (n + sum_list (map (count_of counts) ks))"
  using assms
proof (induction ks arbitrary: n)
  case (Cons k ks)
  from Cons.prems have "num_or_absent (js_opt_get counts k)" by simp
  then show ?case
    by (cases rule: num_or_absent_cases)
      (use Cons in \<open>auto simp: add_count_def count_of_def js_eq_null_def js_add_def\<close>)
qed simp

lemma sum_list_nonzero: "sum_list (map f (filter (\<lambda>p. f p \<noteq> 0) ps)) = sum_list (map f ps)"
  for f :: "'a \<Rightarrow> int"
  by (induction ps) auto

lemma chart_days:
  assumes "100 \<le> getFullYear (today - 6)" and "length ins = 7" and "length outs = 7" and "j \<le> 6"
  shows "\<exists>opt. DrawProxyTrafficChart today el ins outs = [ChartInit el, ShowLoading, SetOption opt, HideLoading] \<and>
      length (bo_dates opt) = 7 \<and>
      bo_dates opt ! (6 - j) = date_label (today - int j) \<and>
      bo_in opt ! (6 - j) = ins ! j \<and> bo_out opt ! (6 - j) = outs ! j \<and>
      getMonth (today - int j) < 12 \<and> 1 \<le> getDate (today - int j) \<and>
      getDate (today - int j) \<le> month_length (leap_year (getFullYear (today - int j))) (getMonth (today - int j))"
proof -
  have "make_date (getFullYear today) (getMonth today) (getDate today - 6) = today - 6"
    using make_date_get [of today "- 6"] getFullYear_mono [of "today - 6" today] assms(1) by simp
  then have "push_dates 7 (make_date (getFullYear today) (getMonth today) (getDate today - 6)) [] =
      map (\<lambda>i. date_label (today - 6 + int i)) [0..<7]"
    using push_dates_eq [OF assms(1), of 7 "[]"] by simp
  moreover have "[0..<7] ! (6 - j) = 6 - j" using assms(4) by (subst nth_upt) auto
  ultimately show ?thesis
    using assms(2-4) valid_date [of "today - int j"]
    by (simp add: DrawProxyTrafficChart_def Let_def rev_nth of_nat_diff)
qed

section \<open>Properties\<close>

text \<open>The pie of the overview page agrees with the number next to it. For counts that are
  numbers or absent, the pie has one slice per type with a count other than zero, labelled in the
  same order as the legend, and the slices add up to the proxy count that the page shows.\<close>

theorem proxy_chart_total:
  assumes "counts_ok counts" and "\<not> js_eq_null counts"
  shows "po_data (proxy_chart_option counts) =
      map (\<lambda>p. (JNum (count_of counts (fst p)), snd p)) (filter (\<lambda>p. count_of counts (fst p) \<noteq> 0) chart_types) \<and>
    po_legend (proxy_chart_option counts) = map snd (po_data (proxy_chart_option counts)) \<and>
    proxy_counts counts = JNum (\<Sum>d\<leftarrow>po_data (proxy_chart_option counts). case fst d of JNum n \<Rightarrow> n | _ \<Rightarrow> 0)"
proof -
  have d: "po_data (proxy_chart_option counts) =
      map (\<lambda>p. (JNum (count_of counts (fst p)), snd p)) (filter (\<lambda>p. count_of counts (fst p) \<noteq> 0) chart_types)"
    and l: "po_legend (proxy_chart_option counts) = map snd (filter (\<lambda>p. count_of counts (fst p) \<noteq> 0) chart_types)"
    using push_count_fold [OF assms(1) [unfolded counts_ok_def]]
    by (simp_all add: proxy_chart_option_fold)
  have "proxy_counts counts = JNum (0 + sum_list (map (count_of counts) (map fst chart_types)))"
    using add_count_fold [of counts "map fst chart_types" 0] assms
    by (simp add: counts_ok_def proxy_counts_def chart_types_def comp_def)
  then show ?thesis
    using d l sum_list_nonzero [of "\<lambda>p. count_of counts (fst p)" chart_types]
    by (simp add: comp_def)
qed

theorem proxy_chart_total_witness:
  "proxy_counts (JObj [(''tcp'', JNum 2), (''http'', JNum 0), (''xtcp'', JNum 3)]) = JNum 5 \<and>
   po_legend (proxy_chart_option (JObj [(''tcp'', JNum 2), (''http'', JNum 0), (''xtcp'', JNum 3)])) = [''TCP'', ''XTCP'']"
  using proxy_chart_total [of "JObj [(''tcp'', JNum 2), (''http'', JNum 0), (''xtcp'', JNum 3)]"]
  by (simp add: counts_ok_def chart_types_def js_opt_get_def count_of_def js_eq_null_def)

text \<open>The traffic chart shows the seven days that end today, one label per day in calendar order,
  each a valid date of the calendar; the bar above the label of the day \<open>j\<close> days ago has the
  value at index \<open>j\<close> of the array of the reply.\<close>

theorem traffic_chart_days:
  assumes "100 \<le> getFullYear (today - 6)" and "length ins = 7" and "length outs = 7" and "j \<le> 6"
  shows "\<exists>opt. DrawProxyTrafficChart today el ins outs = [ChartInit el, ShowLoading, SetOption opt, HideLoading] \<and>
      length (bo_dates opt) = 7 \<and>
      bo_dates opt ! (6 - j) = date_label (today - int j) \<and>
      bo_in opt ! (6 - j) = ins ! j \<and> bo_out opt ! (6 - j) = outs ! j \<and>
      getMonth (today - int j) < 12 \<and> 1 \<le> getDate (today - int j) \<and>
      getDate (today - int j) \<le> month_length (leap_year (getFullYear (today - int j))) (getMonth (today - int j))"
  using assms by (rule chart_days)

theorem traffic_chart_days_witness:
  "\<exists>opt. DrawProxyTrafficChart 18322 ''p'' (map JNum [1..7]) (map JNum [11..17]) =
      [ChartInit ''p'', ShowLoading, SetOption opt, HideLoading] \<and>
     bo_dates opt ! 5 = ''2020-2-29'' \<and> bo_in opt ! 5 = JNum 2"
proof -
  have l: "date_label 18321 = ''2020-2-29''" "100 \<le> getFullYear (18322 - 6)" by code_simp+
  have "map JNum [1..7] ! Suc 0 = JNum 2" by code_simp
  then show ?thesis
    using traffic_chart_days [OF l(2), of "map JNum [1..7]" "map JNum [11..17]" 1 "''p''"] l(1) by auto
qed

text \<open>A text of exactly 30 characters is not shown at all on the overview page, which passes the
  length 30; every other text is shown, whole or cut with an ellipsis, exactly once.\<close>

theorem LongSpan_shows:
  "LongSpan content 30 =
     (if length content < 30 then [content]
      else if length content = 30 then []
      else [take 30 content @ ''...''])"
  by (simp add: LongSpan_def)

end
