(* ===== verification/Web_Client.thy ===== *)
theory Web_Client
  imports Web_Proxy
begin

text \<open>
  The dashboard of the client (\<open>web/frpc/src\<close>: \<open>Overview.vue\<close>, \<open>ClientConfigure.vue\<close>) and
  the navigation of both dashboards (\<open>App.vue\<close> and \<open>router/index.ts\<close> of frps and frpc). What a
  handler does to the outside is a list of effects in order; the outcome of each request and of the
  confirmation box is an argument.
\<close>

section \<open>Client overview\<close>

text \<open>The nested loops over the groups of the reply.\<close>

fun push_groups :: "(string \<times> js) list \<Rightarrow> js list \<Rightarrow> js list \<times> js_error option" where
  "push_groups [] acc = (acc, None)"
| "push_groups (g # gs) acc =
     (case js_iter (snd g) of
        Inl e \<Rightarrow> (acc, Some e)
      | Inr xs \<Rightarrow> push_groups gs (acc @ xs))"

definition fetchData_status ::
  "(js_error \<Rightarrow> string) \<Rightarrow> fetch_result \<Rightarrow> js list \<Rightarrow> js list \<times> (msg_type \<times> string) option" where
  "fetchData_status err_string reply status =
     (case res_json reply of
        Inl e \<Rightarrow> (status, Some (MWarning, ''Get status info from frpc failed!'' @ err_string e))
      | Inr json \<Rightarrow>
          (case push_groups (js_entries json) [] of
             (rows, None) \<Rightarrow> (rows, None)
           | (rows, Some e) \<Rightarrow>
               (rows, Some (MWarning, ''Get status info from frpc failed!'' @ err_string e))))"

section \<open>Client configuration\<close>

datatype ui_call = PutConfig string | Reload | Message msg_type string

definition fetchData_config :: "fetch_result \<Rightarrow> string \<Rightarrow> string \<times> ui_call list" where
  "fetchData_config reply textarea =
     (case reply of
        Inl _ \<Rightarrow> (textarea, [Message MWarning ''Get configure content from frpc failed!''])
      | Inr res \<Rightarrow> (rs_text res, []))"

text \<open>\<open>uploadConfig\<close>: \<open>confirmed\<close> is the answer to the box, \<open>put\<close> and \<open>reload\<close> are the outcomes
  of the two requests.\<close>

definition uploadConfig ::
  "(js_error \<Rightarrow> string) \<Rightarrow> bool \<Rightarrow> fetch_result \<Rightarrow> fetch_result \<Rightarrow> string \<Rightarrow> ui_call list" where
  "uploadConfig err_string confirmed put reload textarea =
     (if \<not> confirmed then [Message MInfo ''Canceled'']
      else if textarea = [] then [Message MWarning ''Configure content can not be empty!'']
      else PutConfig textarea #
        (case put of
           Inl _ \<Rightarrow> [Message MWarning ''Put config to frpc and hot reload failed!'']
         | Inr _ \<Rightarrow> Reload #
             (case reload of
                Inl e \<Rightarrow> [Message MWarning (''Reload frpc configure file error, '' @ err_string e)]
              | Inr _ \<Rightarrow> [Message MSuccess ''Success''])))"

section \<open>Navigation\<close>

record route =
  ro_path :: string
  ro_name :: string
  ro_component :: string

definition frps_routes :: "route list" where
  "frps_routes =
     [\<lparr>ro_path = ''/'', ro_name = ''ServerOverview'', ro_component = ''ServerOverview''\<rparr>,
      \<lparr>ro_path = ''/proxies/tcp'', ro_name = ''ProxiesTCP'', ro_component = ''ProxiesTCP''\<rparr>,
      \<lparr>ro_path = ''/proxies/udp'', ro_name = ''ProxiesUDP'', ro_component = ''ProxiesUDP''\<rparr>,
      \<lparr>ro_path = ''/proxies/http'', ro_name = ''ProxiesHTTP'', ro_component = ''ProxiesHTTP''\<rparr>,
      \<lparr>ro_path = ''/proxies/https'', ro_name = ''ProxiesHTTPS'', ro_component = ''ProxiesHTTPS''\<rparr>,
      \<lparr>ro_path = ''/proxies/tcpmux'', ro_name = ''ProxiesTCPMux'', ro_component = ''ProxiesTCPMux''\<rparr>,
      \<lparr>ro_path = ''/proxies/stcp'', ro_name = ''ProxiesSTCP'', ro_component = ''ProxiesSTCP''\<rparr>,
      \<lparr>ro_path = ''/proxies/sudp'', ro_name = ''ProxiesSUDP'', ro_component = ''ProxiesSUDP''\<rparr>]"

definition frpc_routes :: "route list" where
  "frpc_routes =
     [\<lparr>ro_path = ''/'', ro_name = ''Overview'', ro_component = ''Overview''\<rparr>,
      \<lparr>ro_path = ''/configure'', ro_name = ''ClientConfigure'', ro_component = ''ClientConfigure''\<rparr>]"

text \<open>The selectable items of the side menus: index and text.\<close>

definition frps_menu :: "(string \<times> string) list" where
  "frps_menu = [(''/'', ''Overview''), (''/proxies/tcp'', ''TCP''), (''/proxies/udp'', ''UDP''),
     (''/proxies/http'', ''HTTP''), (''/proxies/https'', ''HTTPS''), (''/proxies/tcpmux'', ''TCPMUX''),
     (''/proxies/stcp'', ''STCP''), (''/proxies/sudp'', ''SUDP''), ([], ''Help'')]"

definition frpc_menu :: "(string \<times> string) list" where
  "frpc_menu = [(''/'', ''Overview''), (''/configure'', ''Configure''), ([], ''Help'')]"

definition handleSelect :: "string \<Rightarrow> string option" where
  "handleSelect key = (if key = [] then Some ''https://github.com/fatedier/frp'' else None)"

definition route_of :: "route list \<Rightarrow> string \<Rightarrow> route option" where
  "route_of rs path = List.find (\<lambda>r. ro_path r = path) rs"

section \<open>Properties\<close>

fun js_elems :: "js \<Rightarrow> js list" where
  "js_elems (JArr xs) = xs"
| "js_elems _ = []"

lemma push_groups_ok:
  assumes "\<forall>g \<in> set gs. js_iter (snd g) = Inr (f g)"
  shows "push_groups gs acc = (acc @ concat (map f gs), None)"
  using assms by (induction gs arbitrary: acc) auto

text \<open>The upload handler never sends an empty configuration and asks for a reload only after the
  configuration was sent and that request was answered; it ends with exactly one message, and
  the success message is shown exactly when both requests were answered.\<close>

theorem uploadConfig_order:
  fixes err_string confirmed put reload textarea
  defines "calls \<equiv> uploadConfig err_string confirmed put reload textarea"
  shows "PutConfig [] \<notin> set calls \<and>
    (Reload \<in> set calls \<longleftrightarrow> confirmed \<and> textarea \<noteq> [] \<and> (\<exists>res. put = Inr res)) \<and>
    (Reload \<in> set calls \<longrightarrow> take 2 calls = [PutConfig textarea, Reload]) \<and>
    length (filter (\<lambda>c. \<exists>t m. c = Message t m) calls) = 1 \<and>
    (Message MSuccess ''Success'' \<in> set calls \<longleftrightarrow>
       confirmed \<and> textarea \<noteq> [] \<and> (\<exists>res. put = Inr res) \<and> (\<exists>res. reload = Inr res))"
  by (auto simp: calls_def uploadConfig_def split: sum.splits)

theorem uploadConfig_order_witness:
  "Reload \<in> set (uploadConfig (\<lambda>_. []) True (Inr \<lparr>rs_ok = True, rs_status = 200, rs_statusText = ''OK'',
      rs_text = [], rs_json = None\<rparr>) (Inl TypeError) ''a'')"
  using uploadConfig_order [of "\<lambda>_. []" True "Inr \<lparr>rs_ok = True, rs_status = 200, rs_statusText = ''OK'',
      rs_text = [], rs_json = None\<rparr>" "Inl TypeError" "''a''"]
  by simp

text \<open>An answer with an error status to either request is taken for success: the handler does not look
  at the status, so a configuration that frpc refused is reported as uploaded.\<close>

theorem uploadConfig_ignores_status:
  "uploadConfig err_string True (Inr \<lparr>rs_ok = False, rs_status = 400, rs_statusText = ''Bad Request'',
      rs_text = t, rs_json = j\<rparr>) (Inr \<lparr>rs_ok = False, rs_status = 400, rs_statusText = ''Bad Request'',
      rs_text = t', rs_json = j'\<rparr>) ''x'' = [PutConfig ''x'', Reload, Message MSuccess ''Success'']"
  by (simp add: uploadConfig_def)

text \<open>The status page lists the proxies of all groups of the reply, group after group, and keeps
  nothing of the previous list; a reply with a group that is not a list shows the failure message.\<close>

theorem fetchData_status_rows:
  assumes "res_json reply = Inr (JObj groups)"
  shows "(list_all (\<lambda>g. \<exists>xs. snd g = JArr xs) groups \<longrightarrow>
       fetchData_status err_string reply old = (concat (map (js_elems \<circ> snd) groups), None)) \<and>
    (list_ex (\<lambda>g. js_eq_null (snd g)) groups \<longrightarrow> snd (fetchData_status err_string reply old) \<noteq> None)"
proof -
  have n: "snd (push_groups gs acc) \<noteq> None" if "list_ex (\<lambda>g. js_eq_null (snd g)) gs" for gs acc
    using that by (induction gs arbitrary: acc) (auto simp: js_eq_null_def split: sum.splits)
  have "push_groups groups [] = (concat (map (js_elems \<circ> snd) groups), None)"
    if "list_all (\<lambda>g. \<exists>xs. snd g = JArr xs) groups"
  proof -
    have "\<forall>g \<in> set groups. js_iter (snd g) = Inr ((js_elems \<circ> snd) g)"
      using that by (fastforce simp: list_all_iff)
    from push_groups_ok [OF this, of "[]"] show ?thesis by (simp add: comp_def)
  qed
  then show ?thesis
    using n [of groups "[]"] assms
    by (auto simp: fetchData_status_def split: prod.splits option.splits)
qed

theorem fetchData_status_rows_witness:
  "fetchData_status (\<lambda>_. []) (Inr \<lparr>rs_ok = True, rs_status = 200, rs_statusText = ''OK'', rs_text = [],
      rs_json = Some (JObj [(''tcp'', JArr [JStr ''a'', JStr ''b'']), (''udp'', JArr [JStr ''c''])])\<rparr>) [JNull] =
   ([JStr ''a'', JStr ''b'', JStr ''c''], None)"
proof -
  let ?gs = "[(''tcp'', JArr [JStr ''a'', JStr ''b'']), (''udp'', JArr [JStr ''c''])]"
  have "res_json (Inr \<lparr>rs_ok = True, rs_status = 200, rs_statusText = ''OK'', rs_text = [],
      rs_json = Some (JObj ?gs)\<rparr>) = Inr (JObj ?gs)"
    by (simp add: res_json_def)
  from fetchData_status_rows [OF this, of "\<lambda>_. []" "[JNull]"] show ?thesis by simp
qed

text \<open>In both dashboards every menu entry other than the help link leads to exactly one page, every page
  is reached from the menu, and the help entry opens the project page and no route.\<close>

theorem menu_routes:
  "map fst (filter (\<lambda>m. fst m \<noteq> []) frps_menu) = map ro_path frps_routes \<and>
   map fst (filter (\<lambda>m. fst m \<noteq> []) frpc_menu) = map ro_path frpc_routes \<and>
   distinct (map ro_path frps_routes) \<and> distinct (map ro_path frpc_routes) \<and>
   distinct (map ro_component frps_routes) \<and> distinct (map ro_component frpc_routes) \<and>
   route_of frps_routes [] = None \<and> route_of frpc_routes [] = None \<and>
   handleSelect [] = Some ''https://github.com/fatedier/frp''"
  by code_simp

section \<open>Rows of the proxy lists\<close>

lemma js_wf_member: "js_wf (JObj kvs) \<Longrightarrow> (k, v) \<in> set kvs \<Longrightarrow> js_wf v"
  by (auto simp: list_all_iff)

text \<open>Whatever its type, a proxy reported as an object gives a row of that type with its name and
  status, and the detail view lists exactly the annotations of its configuration, in order; it has
  no annotation section when there are none.\<close>

theorem row_shows_annotations:
  assumes "t \<in> set row_types" and "js_wf (JObj kvs)"
    and "map_of kvs ''conf'' = Some (JObj conf)" and "map_of conf ''annotations'' = Some (JObj anns)"
  shows "\<exists>r. make_row t (JObj kvs) port host = Inr r \<and> bp_type r = t \<and>
     bp_name r = js_opt_get (JObj kvs) ''name'' \<and> bp_status r = js_opt_get (JObj kvs) ''status'' \<and>
     annotationsArray r = anns \<and> (shown_annotations r = None \<longleftrightarrow> anns = [])"
proof -
  have "js_wf (JObj anns)"
    using assms(2) js_wf_member map_of_SomeD assms(3,4) by metis
  then have "distinct (map fst anns)" by simp
  then have a: "foldl (\<lambda>m p. js_map_set m (fst p) (snd p)) [] anns = anns"
    using foldl_js_map_set [of "[]" anns] by simp
  have e: "js_opt_get (JObj kvs) ''conf'' = JObj conf" "js_opt_get (JObj conf) ''annotations'' = JObj anns"
    using assms(3,4) by (simp_all add: js_opt_get_def)
  obtain r0 where r0: "BaseProxy (JObj kvs) = Inr r0"
    using BaseProxy_Inr by (auto simp: js_eq_null_def)
  then have "bp_annotations r0 = anns" "bp_name r0 = js_opt_get (JObj kvs) ''name''"
      "bp_status r0 = js_opt_get (JObj kvs) ''status''"
    using a e by (auto simp: BaseProxy_def js_eq_null_def Let_def)
  with make_row_base [OF r0 assms(1), of port host] show ?thesis
    by (auto simp: annotationsArray_id shown_annotations_def)
qed

theorem row_shows_annotations_witness:
  "\<exists>r. make_row ''http'' (JObj [(''name'', JStr ''web''), (''conf'', JObj [(''annotations'', JObj [(''k'', JStr ''v'')])])])
      (JNum 80) (JStr ''x.org'') = Inr r \<and> bp_name r = JStr ''web'' \<and> annotationsArray r = [(''k'', JStr ''v'')]"
  using row_shows_annotations [of "''http''" "[(''name'', JStr ''web''), (''conf'', JObj [(''annotations'', JObj [(''k'', JStr ''v'')])])]"
      "[(''annotations'', JObj [(''k'', JStr ''v'')])]" "[(''k'', JStr ''v'')]" "JNum 80" "JStr ''x.org''"]
  by (auto simp: row_types_def js_opt_get_def)

text \<open>Loading a list of proxies shows one row per reported proxy, in the order of the reply, and nothing of
  the list before; the row of a proxy without a configuration (an offline one) has an empty address
  and port 0, one with a configuration has the remote port in both. The HTTP list is left alone when
  the server has no HTTP port.\<close>

theorem fetchData_rows:
  assumes "res_json reply = Inr (JObj [(''proxies'', JArr xs)])" and "\<forall>x \<in> set xs. \<not> js_eq_null x"
  shows "\<exists>rows. fetchData_tcp reply old = (rows, None) \<and> length rows = length xs \<and>
      (\<forall>i < length xs. TCPProxy (xs ! i) = Inr (rows ! i) \<and> bp_name (rows ! i) = js_opt_get (xs ! i) ''name'' \<and>
         (js_eq_null (js_opt_get (xs ! i) ''conf'') \<longrightarrow> bp_addr (rows ! i) = JStr [] \<and> bp_port (rows ! i) = JNum 0) \<and>
         (\<not> js_eq_null (js_opt_get (xs ! i) ''conf'') \<longrightarrow>
            bp_port (rows ! i) = js_opt_get (js_opt_get (xs ! i) ''conf'') ''remotePort'' \<and>
            bp_addr (rows ! i) = JStr (CHR '':'' # js_to_string (bp_port (rows ! i))))) \<and>
      (\<forall>info json. res_json info = Inr json \<and> \<not> js_eq_null json \<and> js_eq_zero (js_opt_get json ''vhostHTTPPort'') \<longrightarrow>
         fetchData_http info reply old = (old, None))"
proof -
  define g where "g x = projr (TCPProxy x)" for x
  have g: "TCPProxy x = Inr (g x)" if "x \<in> set xs" for x
    using BaseProxy_Inr [of x] assms(2) that by (auto simp: g_def TCPProxy_def Let_def)
  have name: "bp_name (g x) = js_opt_get x ''name'' \<and>
      (js_eq_null (js_opt_get x ''conf'') \<longrightarrow> bp_addr (g x) = JStr [] \<and> bp_port (g x) = JNum 0) \<and>
      (\<not> js_eq_null (js_opt_get x ''conf'') \<longrightarrow>
         bp_port (g x) = js_opt_get (js_opt_get x ''conf'') ''remotePort'' \<and>
         bp_addr (g x) = JStr (CHR '':'' # js_to_string (bp_port (g x))))" if "x \<in> set xs" for x
    using assms(2) that by (simp add: g_def TCPProxy_def BaseProxy_def Let_def)
  have "fetchData_tcp reply old = (map g xs, None)"
    using assms(1) push_all_ok [of xs TCPProxy g "[]"] g by (simp add: fetchData_tcp_def load_rows_def)
  then show ?thesis
    using g name by (auto simp: fetchData_http_def Let_def)
qed

theorem fetchData_rows_witness:
  "\<exists>rows. fetchData_tcp (Inr \<lparr>rs_ok = True, rs_status = 200, rs_statusText = ''OK'', rs_text = [],
      rs_json = Some (JObj [(''proxies'', JArr [JObj [(''name'', JStr ''ssh''), (''conf'', JObj [(''remotePort'', JNum 6000)])]])])\<rparr>) [] =
    (rows, None) \<and> length rows = 1 \<and> bp_port (rows ! 0) = JNum 6000"
proof -
  let ?x = "JObj [(''name'', JStr ''ssh''), (''conf'', JObj [(''remotePort'', JNum 6000)])]"
  have "res_json (Inr \<lparr>rs_ok = True, rs_status = 200, rs_statusText = ''OK'', rs_text = [],
      rs_json = Some (JObj [(''proxies'', JArr [?x])])\<rparr>) = Inr (JObj [(''proxies'', JArr [?x])])"
    by (simp add: res_json_def)
  from fetchData_rows [OF this, of "[]"] show ?thesis
    by (auto simp: js_eq_null_def js_opt_get_def)
qed

end
