(* ===== verification/Web_App.thy ===== *)
theory Web_App
  imports Web_Client
begin

text \<open>
  The frame of both dashboards (\<open>App.vue\<close> of \<open>web/frps/src\<close> and \<open>web/frpc/src\<close>): the switch of the theme, the
  side menu and the page that the router shows. Two things are libraries and parameters here: \<open>toggle\<close> is
  what the function of vueuse's \<open>useToggle\<close> makes of the value of its ref, called with or without an
  argument; \<open>navigate\<close> is where the menu of element-plus and the router lead from a path when an entry is
  selected. What is relied on is their documented behaviour: \<open>toggle\<close> called with a value sets it,
  and an entry with a path as its index leads there while the empty index leads nowhere.
\<close>

section \<open>State and events\<close>

text \<open>\<open>ref(isDark)\<close> of a ref is that ref, so \<open>isDark\<close> and \<open>darkmodeSwitch\<close> are one field.\<close>

record app =
  ap_isDark :: bool
  ap_path :: string
  ap_opened :: "string list"

datatype app_event = Switch bool | Select string

text \<open>The switch first assigns its new position (\<open>v-model\<close>), then calls the handler of its change with it.\<close>

definition switch_theme :: "(bool option \<Rightarrow> bool \<Rightarrow> bool) \<Rightarrow> bool \<Rightarrow> app \<Rightarrow> app" where
  "switch_theme toggle v a = (let a1 = a\<lparr>ap_isDark := v\<rparr> in a1\<lparr>ap_isDark := toggle (Some v) (ap_isDark a1)\<rparr>)"

definition select_entry :: "(string \<Rightarrow> string \<Rightarrow> string) \<Rightarrow> string \<Rightarrow> app \<Rightarrow> app" where
  "select_entry navigate key a =
     (let a1 = a\<lparr>ap_path := navigate (ap_path a) key\<rparr> in
      case handleSelect key of None \<Rightarrow> a1 | Some url \<Rightarrow> a1\<lparr>ap_opened := ap_opened a1 @ [url]\<rparr>)"

fun app_step :: "(bool option \<Rightarrow> bool \<Rightarrow> bool) \<Rightarrow> (string \<Rightarrow> string \<Rightarrow> string) \<Rightarrow> app \<Rightarrow> app_event \<Rightarrow> app" where
  "app_step toggle navigate a (Switch v) = switch_theme toggle v a"
| "app_step toggle navigate a (Select key) = select_entry navigate key a"

text \<open>The frame of the client dashboard has its own switch, menu and handler.\<close>

definition frpc_handleSelect :: "string \<Rightarrow> string option" where
  "frpc_handleSelect key = (if key = [] then Some ''https://github.com/fatedier/frp'' else None)"

definition frpc_switch_theme :: "(bool option \<Rightarrow> bool \<Rightarrow> bool) \<Rightarrow> bool \<Rightarrow> app \<Rightarrow> app" where
  "frpc_switch_theme toggle v a = (let a1 = a\<lparr>ap_isDark := v\<rparr> in a1\<lparr>ap_isDark := toggle (Some v) (ap_isDark a1)\<rparr>)"

fun frpc_app_step :: "(bool option \<Rightarrow> bool \<Rightarrow> bool) \<Rightarrow> (string \<Rightarrow> string \<Rightarrow> string) \<Rightarrow> app \<Rightarrow> app_event \<Rightarrow> app" where
  "frpc_app_step toggle navigate a (Switch v) = frpc_switch_theme toggle v a"
| "frpc_app_step toggle navigate a (Select key) =
     (let a1 = a\<lparr>ap_path := navigate (ap_path a) key\<rparr> in
      case frpc_handleSelect key of None \<Rightarrow> a1 | Some url \<Rightarrow> a1\<lparr>ap_opened := ap_opened a1 @ [url]\<rparr>)"

text \<open>What \<open>router-view\<close> shows.\<close>

definition shown :: "route list \<Rightarrow> app \<Rightarrow> string option" where
  "shown routes a = map_option ro_component (route_of routes (ap_path a))"

section \<open>Properties\<close>

definition libraries_ok :: "(bool option \<Rightarrow> bool \<Rightarrow> bool) \<Rightarrow> (string \<Rightarrow> string \<Rightarrow> string) \<Rightarrow> bool" where
  "libraries_ok toggle navigate \<longleftrightarrow> (\<forall>v b. toggle (Some v) b = v) \<and> (\<forall>path key. navigate path key = (if key = [] then path else key))"

fun switches :: "app_event list \<Rightarrow> bool list" where
  "switches [] = []"
| "switches (Switch v # evs) = v # switches evs"
| "switches (Select k # evs) = switches evs"

definition menu_event :: "(string \<times> string) list \<Rightarrow> app_event \<Rightarrow> bool" where
  "menu_event menu ev = (case ev of Switch _ \<Rightarrow> True | Select k \<Rightarrow> k \<in> fst ` set menu)"

lemma app_step_sel:
  assumes "libraries_ok toggle navigate"
  shows "ap_isDark (app_step toggle navigate a ev) = (case ev of Switch v \<Rightarrow> v | Select _ \<Rightarrow> ap_isDark a)"
    "ap_path (app_step toggle navigate a ev) = (case ev of Switch _ \<Rightarrow> ap_path a | Select k \<Rightarrow> if k = [] then ap_path a else k)"
    "ap_opened (app_step toggle navigate a ev) = ap_opened a @ (if ev = Select [] then [''https://github.com/fatedier/frp''] else [])"
  using assms
  by (cases ev; simp add: libraries_ok_def switch_theme_def select_entry_def Let_def handleSelect_def)+

lemma theme_follows:
  "libraries_ok toggle navigate \<Longrightarrow> ap_isDark (foldl (app_step toggle navigate) a evs) = last (ap_isDark a # switches evs)"
  by (induction evs arbitrary: a rule: switches.induct) (auto simp: app_step_sel simp del: app_step.simps)

lemma opened_follows:
  "libraries_ok toggle navigate \<Longrightarrow> ap_opened (foldl (app_step toggle navigate) a evs) =
     ap_opened a @ replicate (count_list evs (Select [])) ''https://github.com/fatedier/frp''"
  by (induction evs arbitrary: a) (auto simp: app_step_sel simp del: app_step.simps)

lemma path_follows:
  assumes "libraries_ok toggle navigate" and "\<And>k. k \<in> fst ` set menu \<Longrightarrow> k = [] \<or> k \<in> ro_path ` set routes"
    and "ap_path a \<in> ro_path ` set routes" and "list_all (menu_event menu) evs"
  shows "ap_path (foldl (app_step toggle navigate) a evs) \<in> ro_path ` set routes"
  using assms(3,4)
proof (induction evs arbitrary: a)
  case (Cons ev evs)
  then have "ap_path (app_step toggle navigate a ev) \<in> ro_path ` set routes"
    using assms(1,2) by (auto simp: app_step_sel menu_event_def simp del: app_step.simps split: app_event.splits)
  then show ?case using Cons by simp
qed simp

lemma shown_path: "ap_path a \<in> ro_path ` set routes \<Longrightarrow> shown routes a \<noteq> None"
  by (auto simp: shown_def route_of_def find_None_iff)

text \<open>The frame does what the user does: after any use of the switch and of the menu, the theme is the last
  position of the switch, some page is shown, and the project page was opened once per click on the help
  entry. The same holds of both dashboards.\<close>

theorem app_follows_user:
  assumes "libraries_ok toggle navigate" and "(menu, routes) \<in> {(frps_menu, frps_routes), (frpc_menu, frpc_routes)}"
    and "ap_path a \<in> ro_path ` set routes" and "list_all (menu_event menu) evs"
    and "a' = foldl (app_step toggle navigate) a evs"
  shows "ap_isDark a' = last (ap_isDark a # switches evs) \<and> shown routes a' \<noteq> None \<and>
    ap_opened a' = ap_opened a @ replicate (count_list evs (Select [])) ''https://github.com/fatedier/frp''"
proof -
  have m: "k = [] \<or> k \<in> ro_path ` set routes" if "k \<in> fst ` set menu" for k
    using assms(2) that by (auto simp: frps_menu_def frps_routes_def frpc_menu_def frpc_routes_def)
  show ?thesis
    using theme_follows [OF assms(1)] opened_follows [OF assms(1)] shown_path [OF path_follows [OF assms(1) m assms(3,4)]]
    by (simp add: assms(5))
qed

theorem app_follows_user_witness:
  "shown frps_routes (foldl (app_step (\<lambda>v b. case v of None \<Rightarrow> \<not> b | Some x \<Rightarrow> x) (\<lambda>p k. if k = [] then p else k))
     \<lparr>ap_isDark = False, ap_path = ''/'', ap_opened = []\<rparr> [Switch True, Select ''/proxies/udp'', Select []]) \<noteq> None"
proof -
  let ?t = "\<lambda>v b. case v of None \<Rightarrow> \<not> b | Some x \<Rightarrow> x"
  let ?n = "\<lambda>p k :: string. if k = [] then p else k"
  have l: "libraries_ok ?t ?n" by (simp add: libraries_ok_def)
  have "ap_path \<lparr>ap_isDark = False, ap_path = ''/'', ap_opened = []\<rparr> \<in> ro_path ` set frps_routes"
    "list_all (menu_event frps_menu) [Switch True, Select ''/proxies/udp'', Select []]"
    by (simp_all add: frps_routes_def frps_menu_def menu_event_def)
  from app_follows_user [OF l _ this refl] show ?thesis by simp
qed

text \<open>Both dashboards step alike.\<close>

lemma frpc_app_step_eq: "frpc_app_step = app_step"
proof (intro ext)
  show "frpc_app_step toggle navigate a ev = app_step toggle navigate a ev" for toggle navigate a ev
    by (cases ev) (simp_all add: frpc_switch_theme_def switch_theme_def frpc_handleSelect_def handleSelect_def select_entry_def)
qed

end
