(* ===== verification/Web_Page.thy ===== *)
theory Web_Page
  imports Web_Proxy
begin

text \<open>
  A list page of the server dashboard as the browser runs it: one of the components \<open>Proxies*.vue\<close> with
  its \<open>ProxyView.vue\<close>. The event loop runs one callback at a time, but a request and its answer are two
  callbacks, and the answers come in any order. The state has the refs of the page and the requests that
  wait for an answer, each with the variables its callback has captured; an event is a click or the
  answer to one request.
\<close>

section \<open>Requests and events\<close>

text \<open>\<open>AskList\<close> carries \<open>vhostHTTPPort\<close> (or its counterpart) and \<open>subdomainHost\<close>, undefined for the types
  whose page does not ask for the server info.\<close>

datatype request = AskInfo | AskList js js | AskClear

record page =
  pg_proxies :: "proxy_row list"
  pg_dialog :: dialog
  pg_messages :: "(msg_type \<times> string) list"
  pg_rejections :: "js_error list"
  pg_pending :: "(nat \<times> request) list"
  pg_next :: nat

datatype event = Refresh | ConfirmClear | OpenTraffic proxy_row | CloseTraffic | Answer nat fetch_result

definition page_init :: page where
  "page_init = \<lparr>pg_proxies = [], pg_dialog = dialog_init, pg_messages = [], pg_rejections = [],
     pg_pending = [], pg_next = 0\<rparr>"

definition send :: "request \<Rightarrow> page \<Rightarrow> page" where
  "send r p = p\<lparr>pg_pending := pg_pending p @ [(pg_next p, r)], pg_next := pg_next p + 1\<rparr>"

section \<open>Handlers\<close>

text \<open>The name of the port in the server info that the page of a type reads.\<close>

definition port_field :: "string \<Rightarrow> string option" where
  "port_field t =
     (if t = ''http'' then Some ''vhostHTTPPort''
      else if t = ''https'' then Some ''vhostHTTPSPort''
      else if t = ''tcpmux'' then Some ''tcpmuxHTTPConnectPort'' else None)"

text \<open>The synchronous part of \<open>fetchData\<close>.\<close>

definition page_fetch :: "string \<Rightarrow> page \<Rightarrow> page" where
  "page_fetch t p = send (if port_field t = None then AskList JUndef JUndef else AskInfo) p"

definition reject :: "js_error \<Rightarrow> page \<Rightarrow> page" where
  "reject e p = p\<lparr>pg_rejections := pg_rejections p @ [e]\<rparr>"

text \<open>The callback of the server info; the HTTP and HTTPS pages stop when there is no port.\<close>

definition on_info :: "string \<Rightarrow> fetch_result \<Rightarrow> page \<Rightarrow> page" where
  "on_info t reply p =
     (case res_json reply of
        Inl e \<Rightarrow> reject e p
      | Inr json \<Rightarrow>
          if js_eq_null json then reject TypeError p
          else
            (let port = js_opt_get json (the (port_field t)); host = js_opt_get json ''subdomainHost''
             in if t \<noteq> ''tcpmux'' \<and> (js_eq_null port \<or> js_eq_zero port) then p else send (AskList port host) p))"

definition on_list :: "string \<Rightarrow> js \<Rightarrow> js \<Rightarrow> fetch_result \<Rightarrow> page \<Rightarrow> page" where
  "on_list t port host reply p =
     (case load_rows (\<lambda>v. make_row t v port host) reply (pg_proxies p) of
        (rows, None) \<Rightarrow> p\<lparr>pg_proxies := rows\<rparr>
      | (rows, Some e) \<Rightarrow> reject e (p\<lparr>pg_proxies := rows\<rparr>))"

definition on_clear :: "(js_error \<Rightarrow> string) \<Rightarrow> string \<Rightarrow> fetch_result \<Rightarrow> page \<Rightarrow> page" where
  "on_clear err_message t reply p =
     (case clearOfflineProxies err_message reply of
        (m, refresh) \<Rightarrow>
          (let p' = p\<lparr>pg_messages := pg_messages p @ [m]\<rparr> in if refresh then page_fetch t p' else p'))"

definition answer :: "(js_error \<Rightarrow> string) \<Rightarrow> string \<Rightarrow> nat \<Rightarrow> fetch_result \<Rightarrow> page \<Rightarrow> page" where
  "answer err_message t i reply p =
     (case map_of (pg_pending p) i of
        None \<Rightarrow> p
      | Some r \<Rightarrow>
          (let p' = p\<lparr>pg_pending := filter (\<lambda>q. fst q \<noteq> i) (pg_pending p)\<rparr> in
           case r of
             AskInfo \<Rightarrow> on_info t reply p'
           | AskList port host \<Rightarrow> on_list t port host reply p'
           | AskClear \<Rightarrow> on_clear err_message t reply p'))"

fun page_step :: "(js_error \<Rightarrow> string) \<Rightarrow> string \<Rightarrow> page \<Rightarrow> event \<Rightarrow> page" where
  "page_step err_message t p Refresh = page_fetch t p"
| "page_step err_message t p ConfirmClear = send AskClear p"
| "page_step err_message t p (OpenTraffic row) = p\<lparr>pg_dialog := open_traffic row (pg_dialog p)\<rparr>"
| "page_step err_message t p CloseTraffic = p\<lparr>pg_dialog := (pg_dialog p)\<lparr>dialogVisible := False\<rparr>\<rparr>"
| "page_step err_message t p (Answer i reply) = answer err_message t i reply p"

text \<open>The page is mounted, which calls \<open>fetchData\<close>, and lives through a sequence of events.\<close>

definition page_run :: "(js_error \<Rightarrow> string) \<Rightarrow> string \<Rightarrow> event list \<Rightarrow> page" where
  "page_run err_message t evs = foldl (page_step err_message t) (page_fetch t page_init) evs"

section \<open>Open requests\<close>

definition page_ok :: "page \<Rightarrow> bool" where
  "page_ok p \<longleftrightarrow> distinct (map fst (pg_pending p)) \<and> list_all (\<lambda>q. fst q < pg_next p) (pg_pending p)"

lemma page_ok_init: "page_ok page_init"
  by (simp add: page_ok_def page_init_def)

lemma page_ok_send: "page_ok p \<Longrightarrow> page_ok (send r p)"
  by (auto simp: page_ok_def send_def list_all_iff)

lemma page_ok_same [simp]:
  "page_ok (p\<lparr>pg_proxies := rows\<rparr>) = page_ok p" "page_ok (p\<lparr>pg_dialog := d\<rparr>) = page_ok p"
  "page_ok (p\<lparr>pg_messages := ms\<rparr>) = page_ok p" "page_ok (reject e p) = page_ok p"
  by (simp_all add: page_ok_def reject_def)

lemma page_ok_drop: "page_ok p \<Longrightarrow> page_ok (p\<lparr>pg_pending := filter (\<lambda>q. fst q \<noteq> i) (pg_pending p)\<rparr>)"
  by (auto simp: page_ok_def list_all_iff distinct_map_filter)

lemma page_ok_step: "page_ok p \<Longrightarrow> page_ok (page_step err_message t p ev)"
  by (cases ev)
    (auto simp: page_fetch_def answer_def on_info_def on_list_def on_clear_def Let_def page_ok_send page_ok_drop
      split: option.splits request.splits sum.splits prod.splits)

lemma page_ok_foldl: "page_ok p \<Longrightarrow> page_ok (foldl (page_step err_message t) p evs)"
  by (induction evs arbitrary: p) (auto intro: page_ok_step)

lemma page_ok_run: "page_ok (page_run err_message t evs)"
  by (simp add: page_run_def page_ok_foldl page_fetch_def page_ok_send page_ok_init)

section \<open>The page answers as the sequential functions\<close>

text \<open>\<open>fetchData\<close> of the page of a type, on the two answers in sequence.\<close>

definition fetchData_of :: "string \<Rightarrow> fetch_result \<Rightarrow> fetch_result \<Rightarrow> proxy_row list \<Rightarrow> proxy_row list \<times> js_error option" where
  "fetchData_of t info reply proxies =
     (if t = ''tcp'' then fetchData_tcp reply proxies else if t = ''udp'' then fetchData_udp reply proxies
      else if t = ''http'' then fetchData_http info reply proxies else if t = ''https'' then fetchData_https info reply proxies
      else if t = ''tcpmux'' then fetchData_tcpmux info reply proxies else if t = ''stcp'' then fetchData_stcp reply proxies
      else fetchData_sudp reply proxies)"

lemma fresh_not_pending: "page_ok p \<Longrightarrow> pg_next p \<le> i \<Longrightarrow> map_of (pg_pending p) i = None"
  by (force simp: page_ok_def list_all_iff map_of_eq_None_iff)

lemma fresh_kept: "page_ok p \<Longrightarrow> filter (\<lambda>q. fst q \<noteq> pg_next p) (pg_pending p) = pg_pending p"
  by (auto simp: page_ok_def list_all_iff filter_id_conv)

text \<open>The answer to the newest request.\<close>

lemma answer_send:
  assumes "page_ok p"
  shows "answer err_message t (pg_next p) reply (send r p) =
    (let p' = p\<lparr>pg_next := pg_next p + 1\<rparr> in
     case r of AskInfo \<Rightarrow> on_info t reply p' | AskList port host \<Rightarrow> on_list t port host reply p'
     | AskClear \<Rightarrow> on_clear err_message t reply p')"
  using fresh_not_pending [OF assms order.refl] fresh_kept [OF assms]
  by (simp add: answer_def send_def Let_def map_add_def)

lemma answer_not_pending: "map_of (pg_pending p) i = None \<Longrightarrow> answer err_message t i reply p = p"
  by (simp add: answer_def)

lemma on_list_rows [simp]:
  "pg_proxies (on_list t port host reply p) = fst (load_rows (\<lambda>v. make_row t v port host) reply (pg_proxies p))"
  "pg_rejections (on_list t port host reply p) =
     pg_rejections p @ (case snd (load_rows (\<lambda>v. make_row t v port host) reply (pg_proxies p)) of None \<Rightarrow> [] | Some e \<Rightarrow> [e])"
  "pg_pending (on_list t port host reply p) = pg_pending p"
  by (auto simp: on_list_def reject_def split: prod.splits option.splits)

lemma reject_sel [simp]:
  "pg_proxies (reject e p) = pg_proxies p" "pg_rejections (reject e p) = pg_rejections p @ [e]"
  "pg_pending (reject e p) = pg_pending p" "pg_next (reject e p) = pg_next p"
  by (simp_all add: reject_def)

lemma send_sel [simp]:
  "pg_proxies (send r p) = pg_proxies p" "pg_rejections (send r p) = pg_rejections p"
  "pg_pending (send r p) = pg_pending p @ [(pg_next p, r)]" "pg_next (send r p) = pg_next p + 1"
  by (simp_all add: send_def)

text \<open>The page that asks for the info first: the second answer goes to the request that the first one caused,
  if it caused one.\<close>

lemma info_then_list:
  assumes "page_ok p"
  shows "answer err_message t (pg_next p + 1) reply (on_info t info (p\<lparr>pg_next := pg_next p + 1\<rparr>)) =
    (let p' = p\<lparr>pg_next := pg_next p + 1\<rparr> in
     case res_json info of
        Inl e \<Rightarrow> reject e p'
      | Inr json \<Rightarrow>
          if js_eq_null json then reject TypeError p'
          else
            (let port = js_opt_get json (the (port_field t)); host = js_opt_get json ''subdomainHost''
             in if t \<noteq> ''tcpmux'' \<and> (js_eq_null port \<or> js_eq_zero port) then p'
                else on_list t port host reply (p'\<lparr>pg_next := pg_next p + 2\<rparr>)))"
proof -
  let ?p = "p\<lparr>pg_next := pg_next p + 1\<rparr>"
  have ok: "page_ok ?p" using assms by (auto simp: page_ok_def list_all_iff)
  have n: "map_of (pg_pending p) (pg_next p + 1) = None" by (rule fresh_not_pending [OF assms]) simp
  show ?thesis
    using n answer_send [OF ok, of err_message t reply]
    by (auto simp: on_info_def Let_def answer_not_pending split: sum.splits)
qed

lemma make_row_simps:
  "make_row ''tcp'' v port host = TCPProxy v" "make_row ''udp'' v port host = UDPProxy v"
  "make_row ''http'' v port host = HTTPProxy v port host" "make_row ''https'' v port host = HTTPSProxy v port host"
  "make_row ''tcpmux'' v port host = TCPMuxProxy v port host" "make_row ''stcp'' v port host = STCPProxy v"
  "make_row ''sudp'' v port host = SUDPProxy v"
  by (simp_all add: make_row_def)

lemmas fetchData_defs = fetchData_tcp_def fetchData_udp_def fetchData_stcp_def fetchData_sudp_def
  fetchData_http_def fetchData_https_def fetchData_tcpmux_def

text \<open>A refresh whose answers arrive in sequence, whatever other requests are open, does what the sequential
  model of \<open>fetchData\<close> does on these answers: the two readings of the same lines of the view agree.\<close>

lemma page_refresh_sequential:
  assumes "page_ok p" and "t \<in> set row_types"
    and "q = foldl (page_step err_message t) p
       [Refresh, Answer (pg_next p) (if port_field t = None then reply else info), Answer (pg_next p + 1) reply]"
  shows "pg_proxies q = fst (fetchData_of t info reply (pg_proxies p)) \<and>
    pg_rejections q = pg_rejections p @
      (case snd (fetchData_of t info reply (pg_proxies p)) of None \<Rightarrow> [] | Some e \<Rightarrow> [e])"
proof (cases "port_field t = None")
  case True
  have "map_of (pg_pending p) (pg_next p + 1) = None" by (rule fresh_not_pending [OF assms(1)]) simp
  then have q: "q = on_list t JUndef JUndef reply (p\<lparr>pg_next := pg_next p + 1\<rparr>)"
    using True assms(3) answer_send [OF assms(1)] by (simp add: page_fetch_def answer_not_pending Let_def)
  from True assms(2) have "t = ''tcp'' \<or> t = ''udp'' \<or> t = ''stcp'' \<or> t = ''sudp''"
    by (auto simp: row_types_def port_field_def split: if_splits)
  then show ?thesis
    by (elim disjE) (simp_all add: q fetchData_of_def fetchData_defs make_row_simps)
next
  case False
  have "q = answer err_message t (pg_next p + 1) reply (on_info t info (p\<lparr>pg_next := pg_next p + 1\<rparr>))"
    unfolding assms(3) page_fetch_def if_not_P [OF False] foldl.simps page_step.simps answer_send [OF assms(1)] Let_def
    by simp
  note q = this [unfolded info_then_list [OF assms(1)] Let_def]
  from False assms(2) have "t = ''http'' \<or> t = ''https'' \<or> t = ''tcpmux''"
    by (auto simp: row_types_def port_field_def split: if_splits)
  then show ?thesis
    by (elim disjE; cases "res_json info")
      (simp_all add: q port_field_def fetchData_of_def fetchData_defs make_row_simps Let_def)
qed

definition list_reply :: "js list \<Rightarrow> fetch_result" where
  "list_reply xs = Inr \<lparr>rs_ok = True, rs_status = 200, rs_statusText = ''OK'', rs_text = [],
     rs_json = Some (JObj [(''proxies'', JArr xs)])\<rparr>"

section \<open>Requests are answered once\<close>

text \<open>The request that is open under a number after a sequence of events.\<close>

definition request_at :: "(js_error \<Rightarrow> string) \<Rightarrow> string \<Rightarrow> event list \<Rightarrow> nat \<Rightarrow> request option" where
  "request_at err_message t evs i = map_of (pg_pending (page_run err_message t evs)) i"

text \<open>A number is used up when it was given out and no request is open under it.\<close>

definition used_up :: "nat \<Rightarrow> page \<Rightarrow> bool" where
  "used_up i p \<longleftrightarrow> i < pg_next p \<and> i \<notin> fst ` set (pg_pending p)"

lemma used_up_same [simp]:
  "used_up i (p\<lparr>pg_dialog := d\<rparr>) = used_up i p" "used_up i (p\<lparr>pg_messages := ms\<rparr>) = used_up i p"
  "used_up i (p\<lparr>pg_proxies := rows\<rparr>) = used_up i p" "used_up i (reject e p) = used_up i p"
  by (simp_all add: used_up_def)

lemma used_up_send: "used_up i p \<Longrightarrow> used_up i (send r p)"
  by (auto simp: used_up_def)

lemma used_up_drop: "used_up i p \<Longrightarrow> used_up i (p\<lparr>pg_pending := filter (\<lambda>q. fst q \<noteq> k) (pg_pending p)\<rparr>)"
  by (auto simp: used_up_def)

lemma used_up_on:
  assumes "used_up i p"
  shows "used_up i (on_info t reply p)" "used_up i (on_list t port host reply p)" "used_up i (on_clear err_message t reply p)"
  using assms used_up_send
  by (auto simp: on_info_def on_list_def on_clear_def page_fetch_def Let_def split: sum.splits prod.splits option.splits)

lemma used_up_step: "used_up i p \<Longrightarrow> used_up i (page_step err_message t p ev)"
  by (cases ev)
    (auto simp: page_fetch_def answer_def Let_def intro: used_up_send used_up_on used_up_drop split: option.splits request.splits)

lemma used_up_foldl: "used_up i p \<Longrightarrow> used_up i (foldl (page_step err_message t) p evs)"
  by (induction evs arbitrary: p) (auto intro: used_up_step)

lemma used_up_answer:
  assumes "page_ok p" and "map_of (pg_pending p) i = Some r"
  shows "used_up i (answer err_message t i reply p)"
proof -
  have "(i, r) \<in> set (pg_pending p)" using assms(2) by (rule map_of_SomeD)
  then have "used_up i (p\<lparr>pg_pending := filter (\<lambda>q. fst q \<noteq> i) (pg_pending p)\<rparr>)"
    using assms(1) by (auto simp: used_up_def page_ok_def list_all_iff)
  then show ?thesis using assms(2) used_up_on by (cases r) (simp_all add: answer_def)
qed

definition answered_once :: "(js_error \<Rightarrow> string) \<Rightarrow> string \<Rightarrow> event list \<Rightarrow> bool" where
  "answered_once err_message t evs \<longleftrightarrow>
     (\<forall>before i reply after. evs = before @ Answer i reply # after \<longrightarrow> request_at err_message t before i \<noteq> None \<longrightarrow>
        request_at err_message t evs i = None)"

lemma answered_once_run: "answered_once err_message t evs"
  unfolding answered_once_def
proof (intro allI impI)
  fix before i reply after
  assume e: "evs = before @ Answer i reply # after" and "request_at err_message t before i \<noteq> None"
  then obtain r where "map_of (pg_pending (page_run err_message t before)) i = Some r" by (auto simp: request_at_def)
  from used_up_answer [OF page_ok_run this, where reply = reply]
  have "used_up i (page_run err_message t evs)" by (simp add: e page_run_def used_up_foldl)
  then show "request_at err_message t evs i = None" by (simp add: used_up_def request_at_def map_of_eq_None_iff)
qed

section \<open>Rows of one answer\<close>

text \<open>The port and the host that the answers to the question for the server info have put into a list request:
  the answer has to come while that question is open.\<close>

definition asked_with :: "(js_error \<Rightarrow> string) \<Rightarrow> string \<Rightarrow> event list \<Rightarrow> js \<Rightarrow> js \<Rightarrow> bool" where
  "asked_with err_message t evs port host \<longleftrightarrow>
     (case port_field t of
        None \<Rightarrow> port = JUndef \<and> host = JUndef
      | Some f \<Rightarrow> \<exists>before i info after json. evs = before @ Answer i info # after \<and>
          request_at err_message t before i = Some AskInfo \<and> res_json info = Inr json \<and> \<not> js_eq_null json \<and>
          port = js_opt_get json f \<and> host = js_opt_get json ''subdomainHost'')"

text \<open>No answer of the second part is a list that parses, given to an open request for the list.\<close>

definition no_list_since :: "(js_error \<Rightarrow> string) \<Rightarrow> string \<Rightarrow> event list \<Rightarrow> event list \<Rightarrow> bool" where
  "no_list_since err_message t evs evs' \<longleftrightarrow>
     (\<forall>as i reply bs port host. evs' = as @ Answer i reply # bs \<longrightarrow>
        request_at err_message t (evs @ as) i = Some (AskList port host) \<longrightarrow> (\<exists>e. res_json reply = Inl e))"

text \<open>The rows are those of the latest answer to an open request for the list.\<close>

definition rows_of_latest :: "(js_error \<Rightarrow> string) \<Rightarrow> string \<Rightarrow> event list \<Rightarrow> proxy_row list \<Rightarrow> bool" where
  "rows_of_latest err_message t evs rows \<longleftrightarrow>
     (rows = [] \<and> no_list_since err_message t [] evs) \<or>
     (\<exists>before i reply after json port host. evs = before @ Answer i reply # after \<and>
        request_at err_message t before i = Some (AskList port host) \<and> asked_with err_message t before port host \<and>
        res_json reply = Inr json \<and> rows = fst (load_rows (\<lambda>v. make_row t v port host) reply []) \<and>
        no_list_since err_message t (before @ [Answer i reply]) after)"

definition lists_asked :: "(js_error \<Rightarrow> string) \<Rightarrow> string \<Rightarrow> event list \<Rightarrow> page \<Rightarrow> bool" where
  "lists_asked err_message t evs p \<longleftrightarrow>
     (\<forall>i port host. (i, AskList port host) \<in> set (pg_pending p) \<longrightarrow> asked_with err_message t evs port host) \<and>
     (port_field t = None \<longrightarrow> AskInfo \<notin> snd ` set (pg_pending p))"

lemma asked_with_mono: "asked_with err_message t evs port host \<Longrightarrow> asked_with err_message t (evs @ evs') port host"
  unfolding asked_with_def by (cases "port_field t") (simp, fastforce)

lemma lists_asked_mono: "lists_asked err_message t evs p \<Longrightarrow> lists_asked err_message t (evs @ evs') p"
  unfolding lists_asked_def using asked_with_mono by blast

lemma lists_asked_same [simp]:
  "lists_asked err_message t evs (p\<lparr>pg_dialog := d\<rparr>) = lists_asked err_message t evs p"
  "lists_asked err_message t evs (p\<lparr>pg_messages := ms\<rparr>) = lists_asked err_message t evs p"
  "lists_asked err_message t evs (reject e p) = lists_asked err_message t evs p"
  "lists_asked err_message t evs (on_list t' port host reply p) = lists_asked err_message t evs p"
  by (simp_all add: lists_asked_def)

lemma lists_asked_send:
  assumes "lists_asked err_message t evs p"
    and "\<And>port host. r = AskList port host \<Longrightarrow> asked_with err_message t evs port host"
    and "r = AskInfo \<Longrightarrow> port_field t \<noteq> None"
  shows "lists_asked err_message t evs (send r p)"
  using assms by (auto simp: lists_asked_def)

lemma lists_asked_fetch: "lists_asked err_message t evs p \<Longrightarrow> lists_asked err_message t evs (page_fetch t p)"
  unfolding page_fetch_def by (rule lists_asked_send) (auto simp: asked_with_def split: if_splits)

lemma lists_asked_drop:
  "lists_asked err_message t evs p \<Longrightarrow>
   lists_asked err_message t evs (p\<lparr>pg_pending := filter (\<lambda>q. fst q \<noteq> i) (pg_pending p)\<rparr>)"
  by (auto simp: lists_asked_def)

lemma lists_asked_info:
  assumes "lists_asked err_message t (evs @ [Answer i reply]) p" and "port_field t = Some f"
    and "request_at err_message t evs i = Some AskInfo"
  shows "lists_asked err_message t (evs @ [Answer i reply]) (on_info t reply p)"
proof (cases "res_json reply")
  case (Inr json)
  let ?r = "AskList (js_opt_get json f) (js_opt_get json ''subdomainHost'')"
  have "asked_with err_message t (evs @ [Answer i reply]) (js_opt_get json f) (js_opt_get json ''subdomainHost'')"
    if "\<not> js_eq_null json"
    using assms(2,3) Inr that unfolding asked_with_def by simp blast
  then show ?thesis
    using assms(1,2) Inr lists_asked_send [OF assms(1), of ?r] by (auto simp: on_info_def Let_def)
qed (simp add: on_info_def assms(1))

lemma lists_asked_answer:
  assumes "lists_asked err_message t evs p" and "p = page_run err_message t evs"
  shows "lists_asked err_message t (evs @ [Answer i reply]) (answer err_message t i reply p)"
proof (cases "map_of (pg_pending p) i")
  case (Some r)
  let ?p = "p\<lparr>pg_pending := filter (\<lambda>q. fst q \<noteq> i) (pg_pending p)\<rparr>"
  have inv: "lists_asked err_message t (evs @ [Answer i reply]) ?p" by (simp add: assms(1) lists_asked_mono lists_asked_drop)
  have m: "(i, r) \<in> set (pg_pending p)" using Some by (rule map_of_SomeD)
  show ?thesis
  proof (cases r)
    case AskInfo
    then have "AskInfo \<in> snd ` set (pg_pending p)" using m image_eqI [of AskInfo snd "(i, r)"] by simp
    then obtain f where "port_field t = Some f" using assms(1) unfolding lists_asked_def by blast
    then show ?thesis
      using Some AskInfo lists_asked_info [OF inv] assms(2) by (simp add: answer_def request_at_def)
  next
    case (AskList port host)
    then show ?thesis using Some inv by (simp add: answer_def)
  next
    case AskClear
    then show ?thesis
      using Some inv lists_asked_fetch by (auto simp: answer_def on_clear_def Let_def split: prod.splits)
  qed
qed (simp add: answer_not_pending lists_asked_mono assms(1))

lemma page_run_snoc [simp]: "page_run err_message t (evs @ [ev]) = page_step err_message t (page_run err_message t evs) ev"
  by (simp add: page_run_def)

lemma lists_asked_run: "lists_asked err_message t evs (page_run err_message t evs)"
proof (induction evs rule: rev_induct)
  case Nil
  have "lists_asked err_message t [] page_init" by (simp add: lists_asked_def page_init_def)
  then show ?case by (simp add: page_run_def lists_asked_fetch)
next
  case (snoc ev evs)
  from lists_asked_mono [OF this, of "[ev]"] lists_asked_answer [OF this refl]
  show ?case by (cases ev) (auto intro!: lists_asked_fetch lists_asked_send)
qed

text \<open>A list that parses does not depend on the rows before.\<close>

lemma load_rows_fresh: "res_json reply = Inr json \<Longrightarrow> load_rows mk reply old = load_rows mk reply []"
  by (simp add: load_rows_def)

text \<open>Only an answer to an open request for the list changes the rows, and only when it parses.\<close>

lemma rows_answer:
  "pg_proxies (answer err_message t i reply p) =
     (case map_of (pg_pending p) i of
        Some (AskList port host) \<Rightarrow>
          (case res_json reply of Inl e \<Rightarrow> pg_proxies p | Inr json \<Rightarrow> fst (load_rows (\<lambda>v. make_row t v port host) reply []))
      | _ \<Rightarrow> pg_proxies p)"
  using load_rows_fresh [of reply]
  by (auto simp: answer_def on_info_def on_clear_def page_fetch_def load_rows_def Let_def
      split: option.splits request.splits sum.splits prod.splits)

lemma no_list_since_Nil [simp]: "no_list_since err_message t evs []"
  by (simp add: no_list_since_def)

lemma no_list_since_snoc:
  assumes "no_list_since err_message t evs evs'"
    and "\<And>i reply port host. ev = Answer i reply \<Longrightarrow> request_at err_message t (evs @ evs') i = Some (AskList port host) \<Longrightarrow>
      \<exists>e. res_json reply = Inl e"
  shows "no_list_since err_message t evs (evs' @ [ev])"
  unfolding no_list_since_def
proof (intro allI impI)
  fix as i reply bs port host
  assume e: "evs' @ [ev] = as @ Answer i reply # bs" and o: "request_at err_message t (evs @ as) i = Some (AskList port host)"
  show "\<exists>e. res_json reply = Inl e"
  proof (cases bs rule: rev_cases)
    case Nil
    then show ?thesis using e o assms(2) by simp
  next
    case (snoc bs' b)
    then have "evs' = as @ Answer i reply # bs'" using e by auto
    then show ?thesis using o assms(1) unfolding no_list_since_def by blast
  qed
qed

lemma rows_of_latest_keep:
  assumes "rows_of_latest err_message t evs rows"
    and "\<And>i reply port host. ev = Answer i reply \<Longrightarrow> request_at err_message t evs i = Some (AskList port host) \<Longrightarrow>
      \<exists>e. res_json reply = Inl e"
  shows "rows_of_latest err_message t (evs @ [ev]) rows"
  using assms(1) [unfolded rows_of_latest_def]
proof (elim disjE exE conjE)
  assume "rows = []" "no_list_since err_message t [] evs"
  then show ?thesis
    using no_list_since_snoc [of err_message t "[]" evs ev] assms(2) by (simp add: rows_of_latest_def)
next
  fix before i reply after json port host
  assume h: "evs = before @ Answer i reply # after" "request_at err_message t before i = Some (AskList port host)"
    "asked_with err_message t before port host" "res_json reply = Inr json"
    "rows = fst (load_rows (\<lambda>v. make_row t v port host) reply [])"
    "no_list_since err_message t (before @ [Answer i reply]) after"
  have "no_list_since err_message t (before @ [Answer i reply]) (after @ [ev])"
    using h(1,6) assms(2) by (intro no_list_since_snoc) simp_all
  moreover have "evs @ [ev] = before @ Answer i reply # (after @ [ev])" using h(1) by simp
  ultimately show ?thesis using h(2-5) unfolding rows_of_latest_def by blast
qed

lemma rows_of_latest_new:
  assumes "request_at err_message t evs i = Some (AskList port host)" and "res_json reply = Inr json"
  shows "rows_of_latest err_message t (evs @ [Answer i reply]) (fst (load_rows (\<lambda>v. make_row t v port host) reply []))"
proof -
  have "(i, AskList port host) \<in> set (pg_pending (page_run err_message t evs))"
    using assms(1) unfolding request_at_def by (rule map_of_SomeD)
  then have "asked_with err_message t evs port host" using lists_asked_run unfolding lists_asked_def by blast
  then show ?thesis
    unfolding rows_of_latest_def using assms no_list_since_Nil by blast
qed

lemma rows_of_latest_step:
  assumes "rows_of_latest err_message t evs (pg_proxies (page_run err_message t evs))"
  shows "rows_of_latest err_message t (evs @ [ev]) (pg_proxies (page_run err_message t (evs @ [ev])))"
proof (cases "\<exists>i reply port host json. ev = Answer i reply \<and> request_at err_message t evs i = Some (AskList port host) \<and>
    res_json reply = Inr json")
  case True
  then obtain i reply port host json where h: "ev = Answer i reply" "request_at err_message t evs i = Some (AskList port host)"
    "res_json reply = Inr json" by blast
  then show ?thesis using rows_of_latest_new [OF h(2,3)] by (simp add: rows_answer request_at_def)
next
  case False
  then have k: "\<exists>e. res_json reply = Inl e" if "ev = Answer i reply" "request_at err_message t evs i = Some (AskList port host)"
    for i reply port host using that by (cases "res_json reply") auto
  have "pg_proxies (page_run err_message t (evs @ [ev])) = pg_proxies (page_run err_message t evs)"
    using k by (cases ev) (fastforce simp: page_fetch_def rows_answer request_at_def split: option.splits request.splits)+
  then show ?thesis using rows_of_latest_keep [OF assms, of ev] k by simp
qed

lemma rows_of_latest_run: "rows_of_latest err_message t evs (pg_proxies (page_run err_message t evs))"
proof (induction evs rule: rev_induct)
  case Nil
  then show ?case by (simp add: rows_of_latest_def page_run_def page_fetch_def page_init_def)
next
  case (snoc ev evs)
  then show ?case by (rule rows_of_latest_step)
qed

text \<open>C1: However the answers interleave with each other and with the clicks, the rows on a list page are exactly
  those of the latest list that arrived for an open request for the list and could be parsed, never a mixture
  of two answers, and there are none before the first. Their port and host are those of an earlier answer, given
  to an open question for the server info, or undefined on the pages that do not ask. A request that was answered
  is never open again: no request is answered twice.\<close>

theorem page_rows_of_one_answer:
  "rows_of_latest err_message t evs (pg_proxies (page_run err_message t evs)) \<and> answered_once err_message t evs"
  using rows_of_latest_run answered_once_run by blast

section \<open>Waiting ends\<close>

fun request_work :: "request \<Rightarrow> nat" where
  "request_work AskInfo = 2"
| "request_work (AskList _ _) = 1"
| "request_work AskClear = 3"

definition page_work :: "page \<Rightarrow> nat" where
  "page_work p = (\<Sum>q\<leftarrow>pg_pending p. request_work (snd q))"

lemma page_work_send [simp]: "page_work (send r p) = page_work p + request_work r"
  by (simp add: page_work_def)

lemma page_work_same [simp]:
  "page_work (p\<lparr>pg_proxies := rows\<rparr>) = page_work p" "page_work (p\<lparr>pg_messages := ms\<rparr>) = page_work p"
  "page_work (reject e p) = page_work p" "page_work (on_list t port host reply p) = page_work p"
  by (simp_all add: page_work_def)

lemma page_work_fetch: "page_work (page_fetch t p) \<le> page_work p + 2"
  by (simp add: page_fetch_def)

lemma work_drop:
  fixes qs :: "(nat \<times> request) list"
  assumes "(i, r) \<in> set qs"
  shows "(\<Sum>q\<leftarrow>filter (\<lambda>q. fst q \<noteq> i) qs. request_work (snd q)) + request_work r \<le> (\<Sum>q\<leftarrow>qs. request_work (snd q))"
proof -
  have le: "(\<Sum>q\<leftarrow>filter P xs. request_work (snd q)) \<le> (\<Sum>q\<leftarrow>xs. request_work (snd q))" for P and xs :: "(nat \<times> request) list"
    by (induction xs) auto
  obtain as bs where "qs = as @ (i, r) # bs" using split_list [OF assms] by blast
  then show ?thesis using le [of "\<lambda>q. fst q \<noteq> i" as] le [of "\<lambda>q. fst q \<noteq> i" bs] by simp
qed

lemma answer_work:
  assumes "map_of (pg_pending p) i = Some r"
  shows "page_work (answer err_message t i reply p) < page_work p"
proof -
  let ?p = "p\<lparr>pg_pending := filter (\<lambda>q. fst q \<noteq> i) (pg_pending p)\<rparr>"
  have d: "page_work ?p + request_work r \<le> page_work p"
    using work_drop [OF map_of_SomeD [OF assms]] by (simp add: page_work_def)
  have "page_work (on_info t reply ?p) \<le> page_work ?p + 1"
    by (auto simp: on_info_def Let_def split: sum.splits)
  moreover have "page_work (on_clear err_message t reply ?p) \<le> page_work ?p + 2"
    using page_work_fetch [of t "?p\<lparr>pg_messages := pg_messages p @ [fst (clearOfflineProxies err_message reply)]\<rparr>"]
    by (auto simp: on_clear_def Let_def split: prod.splits)
  ultimately show ?thesis
    using d assms by (cases r) (auto simp: answer_def)
qed

text \<open>C18: A page does not wait for ever. Whichever open request is answered next and whatever the answers are, as
  long as the user does not click, after at most as many answers as the open requests stand for (3 for a
  clearing, 2 for a question for the server info, 1 for a list) nothing is open.\<close>

theorem page_quiesces:
  assumes "\<And>q. pg_pending q \<noteq> [] \<Longrightarrow> map_of (pg_pending q) (fst (next_answer q)) \<noteq> None"
  shows "\<exists>n \<le> page_work p. pg_pending (((\<lambda>q. answer err_message t (fst (next_answer q)) (snd (next_answer q)) q) ^^ n) p) = []"
proof (induction "page_work p" arbitrary: p rule: less_induct)
  case less
  let ?step = "\<lambda>q. answer err_message t (fst (next_answer q)) (snd (next_answer q)) q"
  show ?case
  proof (cases "pg_pending p = []")
    case True
    then show ?thesis by (intro exI [of _ 0]) simp
  next
    case False
    then obtain r where "map_of (pg_pending p) (fst (next_answer p)) = Some r" using assms by blast
    then have w: "page_work (?step p) < page_work p" by (rule answer_work)
    from less [OF w] obtain n where "n \<le> page_work (?step p)" "pg_pending ((?step ^^ n) (?step p)) = []" by blast
    then show ?thesis using w by (intro exI [of _ "Suc n"]) (auto simp: funpow_Suc_right simp del: funpow.simps)
  qed
qed

theorem page_quiesces_witness:
  "\<exists>n \<le> 3. pg_pending (((\<lambda>q. answer (\<lambda>_. []) ''http'' (fst (hd (pg_pending q))) (list_reply []) q) ^^ n)
     (send AskClear page_init)) = []"
proof -
  have h: "map_of (pg_pending q) (fst (hd (pg_pending q))) \<noteq> None" if "pg_pending q \<noteq> []" for q :: page
    using that by (cases "pg_pending q") auto
  have "page_work (send AskClear page_init) = 3" by (simp add: page_work_def page_init_def)
  then show ?thesis
    using page_quiesces [of "\<lambda>q. (fst (hd (pg_pending q)), list_reply [])" "send AskClear page_init" "\<lambda>_. []" "''http''", unfolded fst_conv snd_conv, OF h]
    by simp
qed

text \<open>A slow answer overwrites a newer one: when the answer to the first request arrives after the answer to
  the second, the page ends with the older rows.\<close>

theorem page_shows_older_answer:
  assumes "port_field t = None" and "res_json older = Inr json"
  shows "pg_proxies (page_run err_message t [Refresh, Answer 1 newer, Answer 0 older]) =
    fst (load_rows (\<lambda>v. make_row t v JUndef JUndef) older [])"
  using assms load_rows_fresh [OF assms(2), of _ "fst (load_rows _ newer [])"]
  by (simp add: page_run_def page_fetch_def page_init_def send_def answer_def Let_def)

theorem page_shows_older_answer_witness:
  "pg_proxies (page_run (\<lambda>_. []) ''tcp'' [Refresh, Answer 1 (list_reply [JObj [(''name'', JStr ''a'')]]), Answer 0 (list_reply [])]) = []"
proof -
  have j: "port_field ''tcp'' = None" "res_json (list_reply []) = Inr (JObj [(''proxies'', JArr [])])"
    by (simp_all add: port_field_def list_reply_def res_json_def)
  show ?thesis
    using page_shows_older_answer [OF j, of "\<lambda>_. []" "list_reply [JObj [(''name'', JStr ''a'')]]"] j(2)
    by (simp add: load_rows_def)
qed

end
