(* ===== verification/Proxy_Config.thy ===== *)
theory Proxy_Config
  imports Frp_Prelude
begin

text \<open>
  Proxy configurations and how they travel: the configuration types of \<open>pkg/config/v1/proxy.go\<close>,
  \<open>BandwidthQuantity\<close> (\<open>pkg/config/types/types.go\<close>), the message \<open>msg.NewProxy\<close> that carries a
  configuration from the client to the server, \<open>NewProxyConfigurerFromMsg\<close> (\<open>pkg/config/load.go\<close>) and
  the validation of both sides (\<open>pkg/config/v1/validation/proxy.go\<close>).

  The options of a client plugin are the type parameter \<open>'p\<close>, with their own check as an argument. A Go
  map from strings to strings is the list of its entries. \<open>scaled s b\<close> stands for
  \<open>strconv.ParseFloat\<close> on \<open>s\<close> followed by \<open>int64(f * float64(b))\<close>, nothing when \<open>s\<close> does not parse;
  \<open>qualified\<close> is \<open>IsQualifiedName\<close> of the Kubernetes library.
\<close>

section \<open>Bandwidth\<close>

record bandwidth =
  bw_s :: string
  bw_i :: int

definition bw0 :: bandwidth where "bw0 = \<lparr>bw_s = [], bw_i = 0\<rparr>"

definition bw_UnmarshalString :: "(string \<Rightarrow> int \<Rightarrow> int option) \<Rightarrow> string \<Rightarrow> bandwidth \<Rightarrow> bandwidth option" where
  "bw_UnmarshalString scaled s0 q =
     (let s = trim_space s0 in
      if s = [] then Some q
      else if has_suffix s ''MB'' then
        map_option (\<lambda>i. \<lparr>bw_s = s, bw_i = i\<rparr>) (scaled (trim_suffix s ''MB'') (1024 * 1024))
      else if has_suffix s ''KB'' then
        map_option (\<lambda>i. \<lparr>bw_s = s, bw_i = i\<rparr>) (scaled (trim_suffix s ''KB'') 1024)
      else None)"

text \<open>The pair of the quantity and whether there was an error; the caller of the server drops the error.\<close>

definition NewBandwidthQuantity :: "(string \<Rightarrow> int \<Rightarrow> int option) \<Rightarrow> string \<Rightarrow> bandwidth \<times> bool" where
  "NewBandwidthQuantity scaled s =
     (case bw_UnmarshalString scaled s bw0 of None \<Rightarrow> (bw0, True) | Some q \<Rightarrow> (q, False))"

section \<open>Configurations\<close>

type_synonym string_map = "(string \<times> string) list"

record health_check =
  hk_Type :: string
  hk_TimeoutSeconds :: int
  hk_MaxFailed :: int
  hk_IntervalSeconds :: int
  hk_Path :: string
  hk_HTTPHeaders :: string_map

definition health_check0 :: health_check where
  "health_check0 = \<lparr>hk_Type = [], hk_TimeoutSeconds = 0, hk_MaxFailed = 0, hk_IntervalSeconds = 0,
     hk_Path = [], hk_HTTPHeaders = []\<rparr>"

record 'p proxy_base =
  pb_Name :: string
  pb_Type :: string
  pb_Enabled :: "bool option"
  pb_Annotations :: string_map
  pb_UseEncryption :: bool
  pb_UseCompression :: bool
  pb_BandwidthLimit :: bandwidth
  pb_BandwidthLimitMode :: string
  pb_ProxyProtocolVersion :: string
  pb_Metadatas :: string_map
  pb_Group :: string
  pb_GroupKey :: string
  pb_HealthCheck :: health_check
  pb_LocalIP :: string
  pb_LocalPort :: int
  pb_Plugin :: "'p option"

definition proxy_base0 :: "'p proxy_base" where
  "proxy_base0 =
     \<lparr>pb_Name = [], pb_Type = [], pb_Enabled = None, pb_Annotations = [], pb_UseEncryption = False,
      pb_UseCompression = False, pb_BandwidthLimit = bw0, pb_BandwidthLimitMode = [],
      pb_ProxyProtocolVersion = [], pb_Metadatas = [], pb_Group = [], pb_GroupKey = [],
      pb_HealthCheck = health_check0, pb_LocalIP = [], pb_LocalPort = 0, pb_Plugin = None\<rparr>"

record domain_config =
  dm_CustomDomains :: "string list"
  dm_SubDomain :: string

definition domain0 :: domain_config where
  "domain0 = \<lparr>dm_CustomDomains = [], dm_SubDomain = []\<rparr>"

record http_config =
  ht_Locations :: "string list"
  ht_HTTPUser :: string
  ht_HTTPPassword :: string
  ht_HostHeaderRewrite :: string
  ht_RequestHeaders :: string_map
  ht_ResponseHeaders :: string_map
  ht_RouteByHTTPUser :: string

definition http0 :: http_config where
  "http0 = \<lparr>ht_Locations = [], ht_HTTPUser = [], ht_HTTPPassword = [], ht_HostHeaderRewrite = [],
     ht_RequestHeaders = [], ht_ResponseHeaders = [], ht_RouteByHTTPUser = []\<rparr>"

record tcpmux_config =
  tx_HTTPUser :: string
  tx_HTTPPassword :: string
  tx_RouteByHTTPUser :: string
  tx_Multiplexer :: string

definition tcpmux0 :: tcpmux_config where
  "tcpmux0 = \<lparr>tx_HTTPUser = [], tx_HTTPPassword = [], tx_RouteByHTTPUser = [], tx_Multiplexer = []\<rparr>"

datatype 'p proxy_config =
    TCPProxyConfig "'p proxy_base" int
  | UDPProxyConfig "'p proxy_base" int
  | HTTPProxyConfig "'p proxy_base" domain_config http_config
  | HTTPSProxyConfig "'p proxy_base" domain_config
  | TCPMuxProxyConfig "'p proxy_base" domain_config tcpmux_config
  | STCPProxyConfig "'p proxy_base" string "string list"
  | XTCPProxyConfig "'p proxy_base" string "string list" "bool option"
  | SUDPProxyConfig "'p proxy_base" string "string list"

fun GetBaseConfig :: "'p proxy_config \<Rightarrow> 'p proxy_base" where
  "GetBaseConfig (TCPProxyConfig b _) = b"
| "GetBaseConfig (UDPProxyConfig b _) = b"
| "GetBaseConfig (HTTPProxyConfig b _ _) = b"
| "GetBaseConfig (HTTPSProxyConfig b _) = b"
| "GetBaseConfig (TCPMuxProxyConfig b _ _) = b"
| "GetBaseConfig (STCPProxyConfig b _ _) = b"
| "GetBaseConfig (XTCPProxyConfig b _ _ _) = b"
| "GetBaseConfig (SUDPProxyConfig b _ _) = b"

fun map_base :: "('p proxy_base \<Rightarrow> 'p proxy_base) \<Rightarrow> 'p proxy_config \<Rightarrow> 'p proxy_config" where
  "map_base f (TCPProxyConfig b p) = TCPProxyConfig (f b) p"
| "map_base f (UDPProxyConfig b p) = UDPProxyConfig (f b) p"
| "map_base f (HTTPProxyConfig b d h) = HTTPProxyConfig (f b) d h"
| "map_base f (HTTPSProxyConfig b d) = HTTPSProxyConfig (f b) d"
| "map_base f (TCPMuxProxyConfig b d t) = TCPMuxProxyConfig (f b) d t"
| "map_base f (STCPProxyConfig b s u) = STCPProxyConfig (f b) s u"
| "map_base f (XTCPProxyConfig b s u n) = XTCPProxyConfig (f b) s u n"
| "map_base f (SUDPProxyConfig b s u) = SUDPProxyConfig (f b) s u"

definition NewProxyConfigurerByType :: "string \<Rightarrow> 'p proxy_config option" where
  "NewProxyConfigurerByType t =
     (let b = proxy_base0\<lparr>pb_Type := t\<rparr> in
      if t = ''tcp'' then Some (TCPProxyConfig b 0)
      else if t = ''udp'' then Some (UDPProxyConfig b 0)
      else if t = ''http'' then Some (HTTPProxyConfig b domain0 http0)
      else if t = ''https'' then Some (HTTPSProxyConfig b domain0)
      else if t = ''tcpmux'' then Some (TCPMuxProxyConfig b domain0 tcpmux0)
      else if t = ''stcp'' then Some (STCPProxyConfig b [] [])
      else if t = ''xtcp'' then Some (XTCPProxyConfig b [] [] None)
      else if t = ''sudp'' then Some (SUDPProxyConfig b [] [])
      else None)"

text \<open>\<open>Complete\<close>; \<open>pcomplete\<close> completes the plugin options.\<close>

definition EmptyOr :: "string \<Rightarrow> string \<Rightarrow> string" where
  "EmptyOr v fallback = (if v = [] then fallback else v)"

definition base_Complete :: "('p \<Rightarrow> 'p) \<Rightarrow> string \<Rightarrow> 'p proxy_base \<Rightarrow> 'p proxy_base" where
  "base_Complete pcomplete namePrefix b =
     b\<lparr>pb_Name := (if namePrefix = [] then [] else namePrefix @ ''.'') @ pb_Name b,
       pb_LocalIP := EmptyOr (pb_LocalIP b) ''127.0.0.1'',
       pb_BandwidthLimitMode := EmptyOr (pb_BandwidthLimitMode b) ''client'',
       pb_Plugin := map_option pcomplete (pb_Plugin b)\<rparr>"

definition cfg_Complete :: "('p \<Rightarrow> 'p) \<Rightarrow> string \<Rightarrow> 'p proxy_config \<Rightarrow> 'p proxy_config" where
  "cfg_Complete pcomplete namePrefix c = map_base (base_Complete pcomplete namePrefix) c"

section \<open>The message\<close>

record new_proxy =
  np_ProxyName :: string
  np_ProxyType :: string
  np_UseEncryption :: bool
  np_UseCompression :: bool
  np_BandwidthLimit :: string
  np_BandwidthLimitMode :: string
  np_Group :: string
  np_GroupKey :: string
  np_Metas :: string_map
  np_Annotations :: string_map
  np_RemotePort :: int
  np_CustomDomains :: "string list"
  np_SubDomain :: string
  np_Locations :: "string list"
  np_HTTPUser :: string
  np_HTTPPwd :: string
  np_HostHeaderRewrite :: string
  np_Headers :: string_map
  np_ResponseHeaders :: string_map
  np_RouteByHTTPUser :: string
  np_Sk :: string
  np_AllowUsers :: "string list"
  np_Multiplexer :: string

definition new_proxy0 :: new_proxy where
  "new_proxy0 =
     \<lparr>np_ProxyName = [], np_ProxyType = [], np_UseEncryption = False, np_UseCompression = False,
      np_BandwidthLimit = [], np_BandwidthLimitMode = [], np_Group = [], np_GroupKey = [], np_Metas = [],
      np_Annotations = [], np_RemotePort = 0, np_CustomDomains = [], np_SubDomain = [], np_Locations = [],
      np_HTTPUser = [], np_HTTPPwd = [], np_HostHeaderRewrite = [], np_Headers = [], np_ResponseHeaders = [],
      np_RouteByHTTPUser = [], np_Sk = [], np_AllowUsers = [], np_Multiplexer = []\<rparr>"

definition base_MarshalToMsg :: "'p proxy_base \<Rightarrow> new_proxy \<Rightarrow> new_proxy" where
  "base_MarshalToMsg c m =
     (let m1 = m\<lparr>np_ProxyName := pb_Name c, np_ProxyType := pb_Type c,
                 np_UseEncryption := pb_UseEncryption c, np_UseCompression := pb_UseCompression c,
                 np_BandwidthLimit := bw_s (pb_BandwidthLimit c)\<rparr>;
          m2 = (if pb_BandwidthLimitMode c \<noteq> ''client'' then m1\<lparr>np_BandwidthLimitMode := pb_BandwidthLimitMode c\<rparr> else m1)
      in m2\<lparr>np_Group := pb_Group c, np_GroupKey := pb_GroupKey c, np_Metas := pb_Metadatas c,
            np_Annotations := pb_Annotations c\<rparr>)"

fun MarshalToMsg :: "'p proxy_config \<Rightarrow> new_proxy \<Rightarrow> new_proxy" where
  "MarshalToMsg (TCPProxyConfig b port) m = (base_MarshalToMsg b m)\<lparr>np_RemotePort := port\<rparr>"
| "MarshalToMsg (UDPProxyConfig b port) m = (base_MarshalToMsg b m)\<lparr>np_RemotePort := port\<rparr>"
| "MarshalToMsg (HTTPProxyConfig b d h) m =
     (base_MarshalToMsg b m)\<lparr>np_CustomDomains := dm_CustomDomains d, np_SubDomain := dm_SubDomain d,
        np_Locations := ht_Locations h, np_HostHeaderRewrite := ht_HostHeaderRewrite h,
        np_HTTPUser := ht_HTTPUser h, np_HTTPPwd := ht_HTTPPassword h, np_Headers := ht_RequestHeaders h,
        np_ResponseHeaders := ht_ResponseHeaders h, np_RouteByHTTPUser := ht_RouteByHTTPUser h\<rparr>"
| "MarshalToMsg (HTTPSProxyConfig b d) m =
     (base_MarshalToMsg b m)\<lparr>np_CustomDomains := dm_CustomDomains d, np_SubDomain := dm_SubDomain d\<rparr>"
| "MarshalToMsg (TCPMuxProxyConfig b d t) m =
     (base_MarshalToMsg b m)\<lparr>np_CustomDomains := dm_CustomDomains d, np_SubDomain := dm_SubDomain d,
        np_Multiplexer := tx_Multiplexer t, np_HTTPUser := tx_HTTPUser t, np_HTTPPwd := tx_HTTPPassword t,
        np_RouteByHTTPUser := tx_RouteByHTTPUser t\<rparr>"
| "MarshalToMsg (STCPProxyConfig b sk users) m = (base_MarshalToMsg b m)\<lparr>np_Sk := sk, np_AllowUsers := users\<rparr>"
| "MarshalToMsg (XTCPProxyConfig b sk users nt) m = (base_MarshalToMsg b m)\<lparr>np_Sk := sk, np_AllowUsers := users\<rparr>"
| "MarshalToMsg (SUDPProxyConfig b sk users) m = (base_MarshalToMsg b m)\<lparr>np_Sk := sk, np_AllowUsers := users\<rparr>"

definition base_UnmarshalFromMsg ::
  "(string \<Rightarrow> int \<Rightarrow> int option) \<Rightarrow> new_proxy \<Rightarrow> 'p proxy_base \<Rightarrow> 'p proxy_base" where
  "base_UnmarshalFromMsg scaled m c =
     (let c1 = c\<lparr>pb_Name := np_ProxyName m, pb_Type := np_ProxyType m, pb_UseEncryption := np_UseEncryption m,
                 pb_UseCompression := np_UseCompression m\<rparr>;
          c2 = (if np_BandwidthLimit m \<noteq> []
                then c1\<lparr>pb_BandwidthLimit := fst (NewBandwidthQuantity scaled (np_BandwidthLimit m))\<rparr> else c1);
          c3 = (if np_BandwidthLimitMode m \<noteq> [] then c2\<lparr>pb_BandwidthLimitMode := np_BandwidthLimitMode m\<rparr> else c2)
      in c3\<lparr>pb_Group := np_Group m, pb_GroupKey := np_GroupKey m, pb_Metadatas := np_Metas m,
            pb_Annotations := np_Annotations m\<rparr>)"

fun UnmarshalFromMsg ::
  "(string \<Rightarrow> int \<Rightarrow> int option) \<Rightarrow> new_proxy \<Rightarrow> 'p proxy_config \<Rightarrow> 'p proxy_config" where
  "UnmarshalFromMsg scaled m (TCPProxyConfig b _) = TCPProxyConfig (base_UnmarshalFromMsg scaled m b) (np_RemotePort m)"
| "UnmarshalFromMsg scaled m (UDPProxyConfig b _) = UDPProxyConfig (base_UnmarshalFromMsg scaled m b) (np_RemotePort m)"
| "UnmarshalFromMsg scaled m (HTTPProxyConfig b d h) =
     HTTPProxyConfig (base_UnmarshalFromMsg scaled m b)
       (d\<lparr>dm_CustomDomains := np_CustomDomains m, dm_SubDomain := np_SubDomain m\<rparr>)
       (h\<lparr>ht_Locations := np_Locations m, ht_HostHeaderRewrite := np_HostHeaderRewrite m,
          ht_HTTPUser := np_HTTPUser m, ht_HTTPPassword := np_HTTPPwd m, ht_RequestHeaders := np_Headers m,
          ht_ResponseHeaders := np_ResponseHeaders m, ht_RouteByHTTPUser := np_RouteByHTTPUser m\<rparr>)"
| "UnmarshalFromMsg scaled m (HTTPSProxyConfig b d) =
     HTTPSProxyConfig (base_UnmarshalFromMsg scaled m b)
       (d\<lparr>dm_CustomDomains := np_CustomDomains m, dm_SubDomain := np_SubDomain m\<rparr>)"
| "UnmarshalFromMsg scaled m (TCPMuxProxyConfig b d t) =
     TCPMuxProxyConfig (base_UnmarshalFromMsg scaled m b)
       (d\<lparr>dm_CustomDomains := np_CustomDomains m, dm_SubDomain := np_SubDomain m\<rparr>)
       (t\<lparr>tx_Multiplexer := np_Multiplexer m, tx_HTTPUser := np_HTTPUser m, tx_HTTPPassword := np_HTTPPwd m,
          tx_RouteByHTTPUser := np_RouteByHTTPUser m\<rparr>)"
| "UnmarshalFromMsg scaled m (STCPProxyConfig b _ _) =
     STCPProxyConfig (base_UnmarshalFromMsg scaled m b) (np_Sk m) (np_AllowUsers m)"
| "UnmarshalFromMsg scaled m (XTCPProxyConfig b _ _ nt) =
     XTCPProxyConfig (base_UnmarshalFromMsg scaled m b) (np_Sk m) (np_AllowUsers m) nt"
| "UnmarshalFromMsg scaled m (SUDPProxyConfig b _ _) =
     SUDPProxyConfig (base_UnmarshalFromMsg scaled m b) (np_Sk m) (np_AllowUsers m)"

section \<open>Validation\<close>

text \<open>The fields of \<open>ServerConfig\<close> that the components of this development read.\<close>

record server_config =
  sc_Version :: string
  sc_BindPort :: int
  sc_KCPBindPort :: int
  sc_QUICBindPort :: int
  sc_VhostHTTPPort :: int
  sc_VhostHTTPSPort :: int
  sc_TCPMuxHTTPConnectPort :: int
  sc_SubDomainHost :: string
  sc_ProxyBindAddr :: string
  sc_MaxPoolCount :: int
  sc_MaxPortsPerClient :: int
  sc_HeartbeatTimeout :: int
  sc_UserConnTimeout :: int
  sc_TLSForce :: bool
  sc_DetailedErrorsToClient :: bool

datatype config_error = UnknownProxyType | InvalidAnnotations | DomainBelongsToSubDomainHost
  | SubDomainNotEnabled | SubDomainInvalid | TCPMuxNotEnabled | HTTPNotEnabled | HTTPSNotEnabled
  | NameEmpty | BadProxyProtocolVersion | BadBandwidthLimitMode | BadLocalPort | BadHealthCheckType
  | HealthCheckPathEmpty | BadPlugin | NoDomain | BadMultiplexer

definition ValidateAnnotationsSize :: "string_map \<Rightarrow> bool" where
  "ValidateAnnotationsSize anns \<longleftrightarrow> (\<Sum>p\<leftarrow>anns. length (fst p) + length (snd p)) \<le> 256 * 1024"

definition ValidateAnnotations :: "(string \<Rightarrow> bool) \<Rightarrow> string_map \<Rightarrow> bool" where
  "ValidateAnnotations qualified anns \<longleftrightarrow>
     anns = [] \<or> list_all (\<lambda>p. qualified (to_lower (fst p))) anns \<and> ValidateAnnotationsSize anns"

fun validate_domains :: "string \<Rightarrow> string list \<Rightarrow> config_error option" where
  "validate_domains host [] = None"
| "validate_domains host (domain # domains) =
     (if host \<noteq> [] \<and> length (split_on (CHR ''.'') host) < length (split_on (CHR ''.'') domain) \<and>
         contains_str domain host
      then Some DomainBelongsToSubDomainHost
      else validate_domains host domains)"

definition validateDomainConfigForServer :: "domain_config \<Rightarrow> server_config \<Rightarrow> config_error option" where
  "validateDomainConfigForServer c s =
     (case validate_domains (sc_SubDomainHost s) (dm_CustomDomains c) of
        Some e \<Rightarrow> Some e
      | None \<Rightarrow>
          if dm_SubDomain c \<noteq> [] then
            (if sc_SubDomainHost s = [] then Some SubDomainNotEnabled
             else if contains_str (dm_SubDomain c) ''.'' \<or> contains_str (dm_SubDomain c) ''*'' then Some SubDomainInvalid
             else None)
          else None)"

fun ValidateProxyConfigurerForServer ::
  "(string \<Rightarrow> bool) \<Rightarrow> server_config \<Rightarrow> 'p proxy_config \<Rightarrow> config_error option" where
  "ValidateProxyConfigurerForServer qualified s c =
     (if \<not> ValidateAnnotations qualified (pb_Annotations (GetBaseConfig c)) then Some InvalidAnnotations
      else (case c of
              TCPMuxProxyConfig b d t \<Rightarrow>
                (if tx_Multiplexer t = ''httpconnect'' \<and> sc_TCPMuxHTTPConnectPort s = 0 then Some TCPMuxNotEnabled
                 else validateDomainConfigForServer d s)
            | HTTPProxyConfig b d h \<Rightarrow>
                (if sc_VhostHTTPPort s = 0 then Some HTTPNotEnabled else validateDomainConfigForServer d s)
            | HTTPSProxyConfig b d \<Rightarrow>
                (if sc_VhostHTTPSPort s = 0 then Some HTTPSNotEnabled else validateDomainConfigForServer d s)
            | _ \<Rightarrow> None))"

definition validateProxyBaseConfigForClient ::
  "(string \<Rightarrow> bool) \<Rightarrow> ('p \<Rightarrow> bool) \<Rightarrow> 'p proxy_base \<Rightarrow> config_error option" where
  "validateProxyBaseConfigForClient qualified plugin_ok c =
     (if pb_Name c = [] then Some NameEmpty
      else if \<not> ValidateAnnotations qualified (pb_Annotations c) then Some InvalidAnnotations
      else if pb_ProxyProtocolVersion c \<notin> {[], ''v1'', ''v2''} then Some BadProxyProtocolVersion
      else if pb_BandwidthLimitMode c \<notin> {''client'', ''server''} then Some BadBandwidthLimitMode
      else if pb_Plugin c = None \<and> \<not> (0 \<le> pb_LocalPort c \<and> pb_LocalPort c \<le> 65535) then Some BadLocalPort
      else if hk_Type (pb_HealthCheck c) \<notin> {[], ''tcp'', ''http''} then Some BadHealthCheckType
      else if hk_Type (pb_HealthCheck c) = ''http'' \<and> hk_Path (pb_HealthCheck c) = [] then Some HealthCheckPathEmpty
      else (case pb_Plugin c of None \<Rightarrow> None | Some p \<Rightarrow> if plugin_ok p then None else Some BadPlugin))"

definition validateDomainConfigForClient :: "domain_config \<Rightarrow> config_error option" where
  "validateDomainConfigForClient d =
     (if dm_SubDomain d = [] \<and> length (dm_CustomDomains d) = 0 then Some NoDomain else None)"

fun ValidateProxyConfigurerForClient ::
  "(string \<Rightarrow> bool) \<Rightarrow> ('p \<Rightarrow> bool) \<Rightarrow> 'p proxy_config \<Rightarrow> config_error option" where
  "ValidateProxyConfigurerForClient qualified plugin_ok c =
     (case validateProxyBaseConfigForClient qualified plugin_ok (GetBaseConfig c) of
        Some e \<Rightarrow> Some e
      | None \<Rightarrow>
          (case c of
             TCPMuxProxyConfig b d t \<Rightarrow>
               (case validateDomainConfigForClient d of
                  Some e \<Rightarrow> Some e
                | None \<Rightarrow> if tx_Multiplexer t \<noteq> ''httpconnect'' then Some BadMultiplexer else None)
           | HTTPProxyConfig b d h \<Rightarrow> validateDomainConfigForClient d
           | HTTPSProxyConfig b d \<Rightarrow> validateDomainConfigForClient d
           | _ \<Rightarrow> None))"

text \<open>\<open>NewProxyConfigurerFromMsg\<close>: the configuration the server makes of a message.\<close>

definition NewProxyConfigurerFromMsg ::
  "(string \<Rightarrow> int \<Rightarrow> int option) \<Rightarrow> (string \<Rightarrow> bool) \<Rightarrow> ('p \<Rightarrow> 'p) \<Rightarrow> server_config \<Rightarrow> new_proxy \<Rightarrow>
   config_error + 'p proxy_config" where
  "NewProxyConfigurerFromMsg scaled qualified pcomplete s m0 =
     (let m = m0\<lparr>np_ProxyType := EmptyOr (np_ProxyType m0) ''tcp''\<rparr> in
      case NewProxyConfigurerByType (np_ProxyType m) of
        None \<Rightarrow> Inl UnknownProxyType
      | Some c0 \<Rightarrow>
          (let c = cfg_Complete pcomplete [] (UnmarshalFromMsg scaled m c0) in
           case ValidateProxyConfigurerForServer qualified s c of Some e \<Rightarrow> Inl e | None \<Rightarrow> Inr c))"

section \<open>Lemmas\<close>

lemma trim_space_Nil [simp]: "trim_space [] = []"
  by (simp add: trim_space_def)

lemma dropWhile_rev_stable:
  assumes "dropWhile P xs = xs"
  shows "dropWhile P (rev (dropWhile P (rev xs))) = rev (dropWhile P (rev xs))"
proof (cases "rev (dropWhile P (rev xs))")
  case (Cons y ys)
  obtain zs where z: "rev xs = zs @ dropWhile P (rev xs)" by (metis takeWhile_dropWhile_id)
  then have "xs = rev (dropWhile P (rev xs)) @ rev zs" by (metis rev_append rev_rev_ident)
  then have "hd xs = y" using Cons by (metis append_Cons list.sel(1))
  moreover have "xs \<noteq> []" using Cons by auto
  ultimately have "\<not> P y" using assms by (metis dropWhile_eq_self_iff)
  then show ?thesis using Cons by simp
next
  case Nil
  then show ?thesis by (simp only: dropWhile.simps)
qed

lemma trim_space_idem [simp]: "trim_space (trim_space s) = trim_space s"
proof -
  let ?a = "dropWhile is_space s"
  have a: "dropWhile is_space ?a = ?a" by (simp add: dropWhile_idem [unfolded o_def])
  have "dropWhile is_space (trim_space s) = trim_space s"
    unfolding trim_space_def by (rule dropWhile_rev_stable [OF a])
  then show ?thesis
    by (simp add: trim_space_def dropWhile_idem [unfolded o_def])
qed

text \<open>A quantity that was made from a string is made again from its own string.\<close>

definition bw_ok :: "(string \<Rightarrow> int \<Rightarrow> int option) \<Rightarrow> bandwidth \<Rightarrow> bool" where
  "bw_ok scaled q \<longleftrightarrow> (\<exists>s. q = fst (NewBandwidthQuantity scaled s))"

lemma bw_ok_again: "bw_ok scaled q \<Longrightarrow> fst (NewBandwidthQuantity scaled (bw_s q)) = q"
  by (auto simp: bw_ok_def NewBandwidthQuantity_def bw_UnmarshalString_def bw0_def Let_def
      split: option.splits if_splits)

lemma bw_ok_empty: "bw_ok scaled q \<Longrightarrow> bw_s q = [] \<Longrightarrow> q = bw0"
  using bw_ok_again [of scaled q] by (simp add: NewBandwidthQuantity_def bw_UnmarshalString_def)

lemma contains_str_self: "contains_str (a @ h) h"
proof (induction a)
  case Nil
  then show ?case by (cases h) (auto simp: has_prefix_def)
qed simp

lemma length_split_append: "length (split_on c (s @ c # t)) = length (split_on c s) + length (split_on c t)"
  by (induction s) (auto split: list.splits)

lemma validate_domains_None:
  "validate_domains host ds = None \<longleftrightarrow>
   (\<forall>d \<in> set ds. host = [] \<or> length (split_on (CHR ''.'') d) \<le> length (split_on (CHR ''.'') host) \<or> \<not> contains_str d host)"
  by (induction ds) auto

section \<open>Properties\<close>

fun cfg_type :: "'p proxy_config \<Rightarrow> string" where
  "cfg_type (TCPProxyConfig _ _) = ''tcp''"
| "cfg_type (UDPProxyConfig _ _) = ''udp''"
| "cfg_type (HTTPProxyConfig _ _ _) = ''http''"
| "cfg_type (HTTPSProxyConfig _ _) = ''https''"
| "cfg_type (TCPMuxProxyConfig _ _ _) = ''tcpmux''"
| "cfg_type (STCPProxyConfig _ _ _) = ''stcp''"
| "cfg_type (XTCPProxyConfig _ _ _ _) = ''xtcp''"
| "cfg_type (SUDPProxyConfig _ _ _) = ''sudp''"

text \<open>What of a client's configuration is the server's business: everything but the local side.\<close>

definition server_base :: "'p proxy_base \<Rightarrow> 'p proxy_base" where
  "server_base b = b\<lparr>pb_Enabled := None, pb_ProxyProtocolVersion := [], pb_HealthCheck := health_check0,
     pb_LocalIP := ''127.0.0.1'', pb_LocalPort := 0, pb_Plugin := None,
     pb_BandwidthLimitMode := EmptyOr (pb_BandwidthLimitMode b) ''client''\<rparr>"

fun forget_nat :: "'p proxy_config \<Rightarrow> 'p proxy_config" where
  "forget_nat (XTCPProxyConfig b sk users _) = XTCPProxyConfig b sk users None"
| "forget_nat c = c"

definition server_view :: "'p proxy_config \<Rightarrow> 'p proxy_config" where
  "server_view c = forget_nat (map_base server_base c)"

lemma base_roundtrip:
  assumes "bw_ok scaled (pb_BandwidthLimit b)" and "m = base_MarshalToMsg b new_proxy0"
  shows "base_Complete pcomplete [] (base_UnmarshalFromMsg scaled m (proxy_base0\<lparr>pb_Type := t\<rparr>)) = server_base b"
proof -
  have q: "fst (NewBandwidthQuantity scaled (bw_s (pb_BandwidthLimit b))) = pb_BandwidthLimit b"
    "bw_s (pb_BandwidthLimit b) = [] \<Longrightarrow> bw0 = pb_BandwidthLimit b"
    using bw_ok_again [OF assms(1)] bw_ok_empty [OF assms(1)] by simp_all
  show ?thesis
    by (rule proxy_base.equality)
      (use q in \<open>simp_all add: assms(2) base_Complete_def base_UnmarshalFromMsg_def base_MarshalToMsg_def
        server_base_def proxy_base0_def new_proxy0_def EmptyOr_def Let_def\<close>)
qed

lemma base_Unmarshal_cong:
  "np_ProxyName m = np_ProxyName m' \<Longrightarrow> np_ProxyType m = np_ProxyType m' \<Longrightarrow>
   np_UseEncryption m = np_UseEncryption m' \<Longrightarrow> np_UseCompression m = np_UseCompression m' \<Longrightarrow>
   np_BandwidthLimit m = np_BandwidthLimit m' \<Longrightarrow> np_BandwidthLimitMode m = np_BandwidthLimitMode m' \<Longrightarrow>
   np_Group m = np_Group m' \<Longrightarrow> np_GroupKey m = np_GroupKey m' \<Longrightarrow> np_Metas m = np_Metas m' \<Longrightarrow>
   np_Annotations m = np_Annotations m' \<Longrightarrow>
   base_UnmarshalFromMsg scaled m b = base_UnmarshalFromMsg scaled m' b"
  by (simp add: base_UnmarshalFromMsg_def Let_def)

lemma base_Marshal_other [simp]:
  "np_ProxyType (base_MarshalToMsg b m) = pb_Type b"
  "np_RemotePort (base_MarshalToMsg b m) = np_RemotePort m"
  by (simp_all add: base_MarshalToMsg_def Let_def)

text \<open>C12: The server rebuilds a client's configuration from its message. For every kind of proxy, the
  configuration that \<open>NewProxyConfigurerFromMsg\<close> makes of the message that \<open>MarshalToMsg\<close> makes of a
  configuration is that configuration without its local side, bandwidth limit and its mode included;
  it is refused exactly when the validation of that configuration fails.\<close>

theorem config_msg_roundtrip:
  fixes c :: "'p proxy_config"
  assumes "pb_Type (GetBaseConfig c) = cfg_type c" and "bw_ok scaled (pb_BandwidthLimit (GetBaseConfig c))"
  shows "NewProxyConfigurerFromMsg scaled qualified pcomplete s (MarshalToMsg c new_proxy0) =
    (case ValidateProxyConfigurerForServer qualified s (server_view c) of
       None \<Rightarrow> Inr (server_view c) | Some e \<Rightarrow> Inl e)"
proof -
  let ?m = "MarshalToMsg c new_proxy0" and ?b = "GetBaseConfig c"
  have t: "np_ProxyType ?m = cfg_type c" using assms(1) by (cases c) simp_all
  then have m: "?m\<lparr>np_ProxyType := EmptyOr (np_ProxyType ?m) ''tcp''\<rparr> = ?m" by (cases c) (simp_all add: EmptyOr_def)
  have "base_UnmarshalFromMsg scaled ?m b = base_UnmarshalFromMsg scaled (base_MarshalToMsg ?b new_proxy0) b"
    for b :: "'p proxy_base"
    by (rule base_Unmarshal_cong) (cases c; simp)+
  then have b: "base_Complete pcomplete [] (base_UnmarshalFromMsg scaled ?m (proxy_base0\<lparr>pb_Type := cfg_type c\<rparr>)) =
      server_base ?b"
    using base_roundtrip [OF assms(2) refl, of pcomplete "cfg_type c"] by simp
  have "\<exists>c0. NewProxyConfigurerByType (cfg_type c) = Some c0 \<and>
      cfg_Complete pcomplete [] (UnmarshalFromMsg scaled ?m c0) = server_view c"
    using b by (cases c) (auto simp: NewProxyConfigurerByType_def Let_def cfg_Complete_def server_view_def
        domain0_def http0_def tcpmux0_def)
  then show ?thesis using t m by (auto simp: NewProxyConfigurerFromMsg_def Let_def simp del: ValidateProxyConfigurerForServer.simps)
qed

definition cfg_demo :: "unit proxy_config" where
  "cfg_demo = TCPProxyConfig (proxy_base0\<lparr>pb_Name := ''ssh'', pb_Type := ''tcp'', pb_LocalIP := ''10.0.0.2'',
     pb_LocalPort := 22, pb_BandwidthLimit := \<lparr>bw_s = ''1MB'', bw_i = 1048576\<rparr>, pb_BandwidthLimitMode := ''server''\<rparr>) 6000"

definition scaled_demo :: "string \<Rightarrow> int \<Rightarrow> int option" where
  "scaled_demo s b = (if s = ''1'' then Some b else None)"

definition server_demo :: server_config where
  "server_demo = \<lparr>sc_Version = ''0.65.0'', sc_BindPort = 7000, sc_KCPBindPort = 0, sc_QUICBindPort = 0,
     sc_VhostHTTPPort = 80, sc_VhostHTTPSPort = 443, sc_TCPMuxHTTPConnectPort = 0, sc_SubDomainHost = ''frp.com'',
     sc_ProxyBindAddr = ''0.0.0.0'', sc_MaxPoolCount = 5, sc_MaxPortsPerClient = 0, sc_HeartbeatTimeout = 90,
     sc_UserConnTimeout = 10, sc_TLSForce = False, sc_DetailedErrorsToClient = True\<rparr>"

theorem config_msg_roundtrip_witness:
  "NewProxyConfigurerFromMsg scaled_demo (\<lambda>_. True) (id :: unit \<Rightarrow> unit) server_demo (MarshalToMsg cfg_demo new_proxy0) =
   Inr (TCPProxyConfig (proxy_base0\<lparr>pb_Name := ''ssh'', pb_Type := ''tcp'', pb_LocalIP := ''127.0.0.1'',
     pb_BandwidthLimit := \<lparr>bw_s = ''1MB'', bw_i = 1048576\<rparr>, pb_BandwidthLimitMode := ''server''\<rparr>) 6000)"
proof -
  have q: "fst (NewBandwidthQuantity scaled_demo ''1MB'') = \<lparr>bw_s = ''1MB'', bw_i = 1048576\<rparr>" by code_simp
  have "bw_ok scaled_demo (pb_BandwidthLimit (GetBaseConfig cfg_demo))"
    unfolding bw_ok_def by (rule exI [of _ "''1MB''"]) (simp add: q cfg_demo_def)
  moreover have "pb_Type (GetBaseConfig cfg_demo) = cfg_type cfg_demo" by (simp add: cfg_demo_def)
  ultimately have "NewProxyConfigurerFromMsg scaled_demo (\<lambda>_. True) (id :: unit \<Rightarrow> unit) server_demo (MarshalToMsg cfg_demo new_proxy0) =
    (case ValidateProxyConfigurerForServer (\<lambda>_. True) server_demo (server_view cfg_demo) of
       None \<Rightarrow> Inr (server_view cfg_demo) | Some e \<Rightarrow> Inl e)"
    by (rule config_msg_roundtrip [rotated])
  then show ?thesis
    by (simp add: cfg_demo_def server_view_def server_base_def proxy_base0_def EmptyOr_def ValidateAnnotations_def)
qed

fun cfg_domains :: "'p proxy_config \<Rightarrow> domain_config" where
  "cfg_domains (HTTPProxyConfig _ d _) = d"
| "cfg_domains (HTTPSProxyConfig _ d) = d"
| "cfg_domains (TCPMuxProxyConfig _ d _) = d"
| "cfg_domains _ = domain0"

lemma accepted_domains:
  assumes "ValidateProxyConfigurerForServer qualified s c = None"
  shows "validateDomainConfigForServer (cfg_domains c) s = None"
  using assms by (cases c) (auto simp: validateDomainConfigForServer_def domain0_def split: if_splits)

lemma contains_char: "contains_str s [c] \<longleftrightarrow> c \<in> set s"
  by (induction s) (auto simp: has_prefix_def)

text \<open>The server keeps the names under its subdomain host for subdomains. Of two configurations it accepts,
  the name that one gets for its subdomain is never a custom domain of the other; and a subdomain adds
  exactly one label, without a wildcard, to the host.\<close>

theorem subdomain_not_shadowed:
  assumes "ValidateProxyConfigurerForServer qualified s c = None"
    and "ValidateProxyConfigurerForServer qualified s c' = None"
    and "dm_SubDomain (cfg_domains c) \<noteq> []"
  shows "dm_SubDomain (cfg_domains c) @ ''.'' @ sc_SubDomainHost s \<notin> set (dm_CustomDomains (cfg_domains c')) \<and>
    length (split_on (CHR ''.'') (dm_SubDomain (cfg_domains c) @ ''.'' @ sc_SubDomainHost s)) =
      Suc (length (split_on (CHR ''.'') (sc_SubDomainHost s))) \<and>
    CHR ''*'' \<notin> set (dm_SubDomain (cfg_domains c))"
proof -
  let ?sub = "dm_SubDomain (cfg_domains c)" and ?host = "sc_SubDomainHost s"
  have v: "?host \<noteq> []" "CHR ''.'' \<notin> set ?sub" "CHR ''*'' \<notin> set ?sub"
    using accepted_domains [OF assms(1)] assms(3)
    by (auto simp: validateDomainConfigForServer_def contains_char split: option.splits if_splits)
  have l: "length (split_on (CHR ''.'') (?sub @ ''.'' @ ?host)) = Suc (length (split_on (CHR ''.'') ?host))"
    using length_split_append [of "CHR ''.''" ?sub ?host] split_on_no_sep [OF v(2)] by simp
  have "validate_domains ?host (dm_CustomDomains (cfg_domains c')) = None"
    using accepted_domains [OF assms(2)] by (auto simp: validateDomainConfigForServer_def split: option.splits)
  moreover have "contains_str (?sub @ ''.'' @ ?host) ?host" using contains_str_self [of "?sub @ ''.''" ?host] by simp
  ultimately have "?sub @ ''.'' @ ?host \<notin> set (dm_CustomDomains (cfg_domains c'))"
    using v(1) l unfolding validate_domains_None by fastforce
  then show ?thesis using l v(3) by blast
qed

definition web_demo :: "string \<Rightarrow> string list \<Rightarrow> unit proxy_config" where
  "web_demo sub domains = HTTPProxyConfig (proxy_base0\<lparr>pb_Name := ''web'', pb_Type := ''http''\<rparr>)
     \<lparr>dm_CustomDomains = domains, dm_SubDomain = sub\<rparr> http0"

theorem subdomain_not_shadowed_witness:
  "''a.frp.com'' \<notin> set (dm_CustomDomains (cfg_domains (web_demo [] [''a.org''])))"
proof -
  have "ValidateProxyConfigurerForServer (\<lambda>_. True) server_demo (web_demo ''a'' []) = None"
    "ValidateProxyConfigurerForServer (\<lambda>_. True) server_demo (web_demo [] [''a.org'']) = None"
    by code_simp+
  from subdomain_not_shadowed [OF this] show ?thesis by (simp add: web_demo_def server_demo_def)
qed

text \<open>The comparison of domains is case-sensitive, while the route table is not: a custom domain that
  differs from a subdomain's name in case only is accepted, and the two are one route.\<close>

theorem custom_domain_case_shadows:
  "ValidateProxyConfigurerForServer (\<lambda>_. True) server_demo (web_demo ''a'' []) = None \<and>
   ValidateProxyConfigurerForServer (\<lambda>_. True) server_demo (web_demo [] [''a.Frp.com'']) = None \<and>
   to_lower ''a.Frp.com'' = ''a'' @ ''.'' @ sc_SubDomainHost server_demo"
  by code_simp

end
