(* ===== verification/Proxy_Manager.thy ===== *)
theory Proxy_Manager
  imports Registry
begin

text \<open>
  The tables of the server that hold one entry per name: \<open>proxy.Manager\<close> (\<open>server/proxy/proxy.go\<close>).
  Its lock makes each operation atomic; what it keeps for a name is a parameter.
\<close>

type_synonym 'v pxy_manager = "string \<rightharpoonup> 'v"

datatype name_error = NameInUse string

definition pm_New :: "'v pxy_manager" where
  "pm_New = Map.empty"

definition pm_Add :: "string \<Rightarrow> 'v \<Rightarrow> 'v pxy_manager \<Rightarrow> name_error + 'v pxy_manager" where
  "pm_Add name pxy m = (case m name of Some _ \<Rightarrow> Inl (NameInUse name) | None \<Rightarrow> Inr (m(name \<mapsto> pxy)))"

definition pm_Exist :: "string \<Rightarrow> 'v pxy_manager \<Rightarrow> bool" where
  "pm_Exist name m = (m name \<noteq> None)"

definition pm_Del :: "string \<Rightarrow> 'v pxy_manager \<Rightarrow> 'v pxy_manager" where
  "pm_Del name m = m(name := None)"

definition pm_GetByName :: "string \<Rightarrow> 'v pxy_manager \<Rightarrow> 'v option" where
  "pm_GetByName name m = m name"

interpretation proxies: name_registry "\<lambda>_. True" id "\<lambda>m name. pm_GetByName name m" pm_Add pm_Del
  by unfold_locales (auto simp: pm_GetByName_def pm_Add_def pm_Del_def)

end
