(* ===== verification/Dashboard_Api.thy ===== *)
theory Dashboard_Api
  imports Proxy_Config Proxy_Manager Mem_Metrics Port_Ranges Js_Value
begin

text \<open>
  The HTTP interface of the server dashboard, \<open>server/dashboard_api.go\<close>: what each handler answers, as the
  response the browser gets. A body made by \<open>json.Marshal\<close> is the value \<open>JSON.parse\<close> makes of it; a body
  that is plain text does not parse. Of a Go map the entries are given in the order of the keys, which
  is the order \<open>json.Marshal\<close> writes; \<open>order\<close> and \<open>keys\<close> enumerate the maps that are iterated.
\<close>

section \<open>JSON of the configurations\<close>

definition jstr :: "string \<Rightarrow> string \<Rightarrow> (string \<times> js) list" where
  "jstr k s = (if s = [] then [] else [(k, JStr s)])"

definition jbool :: "string \<Rightarrow> bool \<Rightarrow> (string \<times> js) list" where
  "jbool k b = (if b then [(k, JBool True)] else [])"

definition jint :: "string \<Rightarrow> int \<Rightarrow> (string \<times> js) list" where
  "jint k i = (if i = 0 then [] else [(k, JNum i)])"

definition jstrs :: "string \<Rightarrow> string list \<Rightarrow> (string \<times> js) list" where
  "jstrs k ss = (if ss = [] then [] else [(k, JArr (map JStr ss))])"

definition jmap :: "string \<Rightarrow> string_map \<Rightarrow> (string \<times> js) list" where
  "jmap k m = (if m = [] then [] else [(k, JObj (map (\<lambda>p. (fst p, JStr (snd p))) m))])"

definition transport_json :: "'p proxy_base \<Rightarrow> js" where
  "transport_json b =
     JObj (jbool ''useEncryption'' (pb_UseEncryption b) @ jbool ''useCompression'' (pb_UseCompression b) @
       [(''bandwidthLimit'', JStr (bw_s (pb_BandwidthLimit b)))] @
       jstr ''bandwidthLimitMode'' (pb_BandwidthLimitMode b) @ jstr ''proxyProtocolVersion'' (pb_ProxyProtocolVersion b))"

definition health_json :: "health_check \<Rightarrow> js" where
  "health_json h =
     JObj ([(''type'', JStr (hk_Type h))] @ jint ''timeoutSeconds'' (hk_TimeoutSeconds h) @
       jint ''maxFailed'' (hk_MaxFailed h) @ [(''intervalSeconds'', JNum (hk_IntervalSeconds h))] @
       jstr ''path'' (hk_Path h) @
       (if hk_HTTPHeaders h = [] then []
        else [(''httpHeaders'', JArr (map (\<lambda>p. JObj [(''name'', JStr (fst p)), (''value'', JStr (snd p))]) (hk_HTTPHeaders h)))]))"

text \<open>The base configuration; \<open>pjson\<close> is the JSON of the plugin options, which are null on the server.\<close>

definition base_json :: "('p \<Rightarrow> js) \<Rightarrow> 'p proxy_base \<Rightarrow> (string \<times> js) list" where
  "base_json pjson b =
     [(''name'', JStr (pb_Name b)), (''type'', JStr (pb_Type b))] @
     (case pb_Enabled b of None \<Rightarrow> [] | Some e \<Rightarrow> [(''enabled'', JBool e)]) @
     jmap ''annotations'' (pb_Annotations b) @ [(''transport'', transport_json b)] @
     jmap ''metadatas'' (pb_Metadatas b) @
     [(''loadBalancer'', JObj ((''group'', JStr (pb_Group b)) # jstr ''groupKey'' (pb_GroupKey b))),
      (''healthCheck'', health_json (pb_HealthCheck b))] @
     jstr ''localIP'' (pb_LocalIP b) @ jint ''localPort'' (pb_LocalPort b) @
     [(''plugin'', (case pb_Plugin b of None \<Rightarrow> JNull | Some p \<Rightarrow> pjson p))]"

definition domain_json :: "domain_config \<Rightarrow> (string \<times> js) list" where
  "domain_json d = jstrs ''customDomains'' (dm_CustomDomains d) @ jstr ''subdomain'' (dm_SubDomain d)"

definition headers_json :: "string \<Rightarrow> string_map \<Rightarrow> (string \<times> js) list" where
  "headers_json k m = [(k, JObj (jmap ''set'' m))]"

text \<open>The fields that \<open>json.Marshal(pxy.GetConfigurer())\<close> writes beside the base.\<close>

fun own_json :: "'p proxy_config \<Rightarrow> (string \<times> js) list" where
  "own_json (TCPProxyConfig b port) = jint ''remotePort'' port"
| "own_json (UDPProxyConfig b port) = jint ''remotePort'' port"
| "own_json (HTTPProxyConfig b d h) =
     domain_json d @ jstrs ''locations'' (ht_Locations h) @ jstr ''httpUser'' (ht_HTTPUser h) @
     jstr ''httpPassword'' (ht_HTTPPassword h) @ jstr ''hostHeaderRewrite'' (ht_HostHeaderRewrite h) @
     headers_json ''requestHeaders'' (ht_RequestHeaders h) @ headers_json ''responseHeaders'' (ht_ResponseHeaders h) @
     jstr ''routeByHTTPUser'' (ht_RouteByHTTPUser h)"
| "own_json (HTTPSProxyConfig b d) = domain_json d"
| "own_json (TCPMuxProxyConfig b d t) =
     domain_json d @ jstr ''httpUser'' (tx_HTTPUser t) @ jstr ''httpPassword'' (tx_HTTPPassword t) @
     jstr ''routeByHTTPUser'' (tx_RouteByHTTPUser t) @ jstr ''multiplexer'' (tx_Multiplexer t)"
| "own_json (STCPProxyConfig b sk users) = jstr ''secretKey'' sk @ jstrs ''allowUsers'' users"
| "own_json (XTCPProxyConfig b sk users nt) =
     jstr ''secretKey'' sk @ jstrs ''allowUsers'' users @
     (case nt of None \<Rightarrow> [] | Some off \<Rightarrow> [(''natTraversal'', JObj (jbool ''disableAssistedAddrs'' off))])"
| "own_json (SUDPProxyConfig b sk users) = jstr ''secretKey'' sk @ jstrs ''allowUsers'' users"

definition marshal_config :: "('p \<Rightarrow> js) \<Rightarrow> 'p proxy_config \<Rightarrow> (string \<times> js) list" where
  "marshal_config pjson c = base_json pjson (GetBaseConfig c) @ own_json c"

text \<open>A generic Go map writes its keys sorted, at every level.\<close>

fun sort_keys :: "js \<Rightarrow> js" where
  "sort_keys (JObj kvs) = JObj (sort_key fst (map (\<lambda>p. (fst p, sort_keys (snd p))) kvs))"
| "sort_keys (JArr vs) = JArr (map sort_keys vs)"
| "sort_keys v = v"

text \<open>\<open>getConfByType\<close>, \<open>json.Unmarshal\<close> of the content into it, and its JSON in the answer. The types have
  the base and some of the own fields; a type without one becomes a generic map with all fields.\<close>

definition field_or :: "js \<Rightarrow> string \<Rightarrow> (string \<times> js) list \<Rightarrow> js" where
  "field_or d k kvs = (case map_of kvs k of None \<Rightarrow> d | Some v \<Rightarrow> v)"

definition keep_field :: "string \<Rightarrow> (string \<times> js) list \<Rightarrow> (string \<times> js) list" where
  "keep_field k kvs = (case map_of kvs k of None \<Rightarrow> [] | Some v \<Rightarrow> [(k, v)])"

definition out_conf :: "('p \<Rightarrow> js) \<Rightarrow> string \<Rightarrow> 'p proxy_config \<Rightarrow> js" where
  "out_conf pjson proxyType c =
     (let base = base_json pjson (GetBaseConfig c); own = own_json c;
          domain = keep_field ''customDomains'' own @ keep_field ''subdomain'' own in
      if proxyType = ''tcp'' \<or> proxyType = ''udp'' then
        JObj (base @ [(''remotePort'', field_or (JNum 0) ''remotePort'' own)])
      else if proxyType = ''tcpmux'' then
        JObj (base @ domain @ [(''multiplexer'', field_or (JStr []) ''multiplexer'' own),
          (''routeByHTTPUser'', field_or (JStr []) ''routeByHTTPUser'' own)])
      else if proxyType = ''http'' then
        JObj (base @ domain @ [(''locations'', field_or JNull ''locations'' own),
          (''hostHeaderRewrite'', field_or (JStr []) ''hostHeaderRewrite'' own)])
      else if proxyType = ''https'' then JObj (base @ domain)
      else if proxyType = ''stcp'' \<or> proxyType = ''xtcp'' then JObj base
      else sort_keys (JObj (marshal_config pjson c)))"

section \<open>Handlers\<close>

definition json_reply :: "js \<Rightarrow> response" where
  "json_reply v = \<lparr>rs_ok = True, rs_status = 200, rs_statusText = ''OK'', rs_text = [], rs_json = Some v\<rparr>"

text \<open>A plain text answer; the texts of this file are not JSON.\<close>

definition text_reply :: "int \<Rightarrow> string \<Rightarrow> string \<Rightarrow> response" where
  "text_reply code status msg =
     \<lparr>rs_ok = (200 \<le> code \<and> code \<le> 299), rs_status = code, rs_statusText = status, rs_text = msg, rs_json = None\<rparr>"

text \<open>A running proxy, as the handlers see it: its configuration and the version of its client, when there
  is a login message.\<close>

record 'p running =
  rn_conf :: "'p proxy_config"
  rn_version :: "string option"

definition jnum64 :: "int64 \<Rightarrow> js" where
  "jnum64 w = JNum (sint w)"

definition apiServerInfo ::
  "clock \<Rightarrow> int \<Rightarrow> string list \<Rightarrow> server_config \<Rightarrow> ports_range list \<Rightarrow> server_statistics \<Rightarrow> response \<times> server_statistics" where
  "apiServerInfo ck now keys cfg allowPorts m =
     (case mem_GetServer ck now m of
        (st, m') \<Rightarrow>
          (json_reply (JObj
             ([(''version'', JStr (sc_Version cfg)), (''bindPort'', JNum (sc_BindPort cfg)),
               (''vhostHTTPPort'', JNum (sc_VhostHTTPPort cfg)), (''vhostHTTPSPort'', JNum (sc_VhostHTTPSPort cfg)),
               (''tcpmuxHTTPConnectPort'', JNum (sc_TCPMuxHTTPConnectPort cfg)),
               (''kcpBindPort'', JNum (sc_KCPBindPort cfg)), (''quicBindPort'', JNum (sc_QUICBindPort cfg)),
               (''subdomainHost'', JStr (sc_SubDomainHost cfg)), (''maxPoolCount'', JNum (sc_MaxPoolCount cfg)),
               (''maxPortsPerClient'', JNum (sc_MaxPortsPerClient cfg)),
               (''heartbeatTimeout'', JNum (sc_HeartbeatTimeout cfg))] @
              jstr ''allowPortsStr'' (PortsRangeSlice_String allowPorts) @ jbool ''tlsForce'' (sc_TLSForce cfg) @
              [(''totalTrafficIn'', jnum64 (sv_TotalTrafficIn st)), (''totalTrafficOut'', jnum64 (sv_TotalTrafficOut st)),
               (''curConns'', jnum64 (sv_CurConns st)), (''clientCounts'', jnum64 (sv_ClientCounts st)),
               (''proxyTypeCount'', JObj (List.map_filter
                  (\<lambda>k. map_option (\<lambda>n. (k, jnum64 n)) (sv_ProxyTypeCounts st k)) keys))])), m'))"

text \<open>One element of the list of \<open>getProxyStatsByType\<close>; the conversions of the configuration succeed.\<close>

definition proxy_info :: "('p \<Rightarrow> js) \<Rightarrow> 'p running pxy_manager \<Rightarrow> proxy_stats \<Rightarrow> js" where
  "proxy_info pjson pm ps =
     JObj ((''name'', JStr (px_Name ps)) #
       (case pm_GetByName (px_Name ps) pm of
          Some pxy \<Rightarrow>
            (''conf'', out_conf pjson (px_Type ps) (rn_conf pxy)) #
            (case rn_version pxy of None \<Rightarrow> [] | Some v \<Rightarrow> jstr ''clientVersion'' v)
        | None \<Rightarrow> [(''conf'', JNull)]) @
       [(''todayTrafficIn'', jnum64 (px_TodayTrafficIn ps)), (''todayTrafficOut'', jnum64 (px_TodayTrafficOut ps)),
        (''curConns'', jnum64 (px_CurConns ps)), (''lastStartTime'', JStr (px_LastStartTime ps)),
        (''lastCloseTime'', JStr (px_LastCloseTime ps)),
        (''status'', JStr (case pm_GetByName (px_Name ps) pm of Some _ \<Rightarrow> ''online'' | None \<Rightarrow> ''offline''))])"

definition apiProxyByType ::
  "clock \<Rightarrow> (int \<Rightarrow> string) \<Rightarrow> ('p \<Rightarrow> js) \<Rightarrow> int \<Rightarrow> string list \<Rightarrow> string \<Rightarrow> 'p running pxy_manager \<Rightarrow>
   server_statistics \<Rightarrow> response \<times> server_statistics" where
  "apiProxyByType ck fmt pjson now order proxyType pm m =
     (case GetProxiesByType ck fmt now order proxyType m of
        (pss, m') \<Rightarrow> (json_reply (JObj [(''proxies'', JArr (map (proxy_info pjson pm) (sort_key px_Name pss)))]), m'))"

definition apiProxyByTypeAndName ::
  "clock \<Rightarrow> (int \<Rightarrow> string) \<Rightarrow> ('p \<Rightarrow> js) \<Rightarrow> int \<Rightarrow> string \<Rightarrow> string \<Rightarrow> 'p running pxy_manager \<Rightarrow>
   server_statistics \<Rightarrow> response \<times> server_statistics" where
  "apiProxyByTypeAndName ck fmt pjson now proxyType name pm m =
     (case GetProxiesByTypeAndName ck fmt now proxyType name m of
        (None, m') \<Rightarrow> (text_reply 404 ''Not Found'' ''no proxy info found'', m')
      | (Some ps, m') \<Rightarrow>
          (json_reply (JObj
             [(''name'', JStr name),
              (''conf'', (case pm_GetByName name pm of
                 Some pxy \<Rightarrow> out_conf pjson (px_Type ps) (rn_conf pxy) | None \<Rightarrow> JNull)),
              (''todayTrafficIn'', jnum64 (px_TodayTrafficIn ps)), (''todayTrafficOut'', jnum64 (px_TodayTrafficOut ps)),
              (''curConns'', jnum64 (px_CurConns ps)), (''lastStartTime'', JStr (px_LastStartTime ps)),
              (''lastCloseTime'', JStr (px_LastCloseTime ps)),
              (''status'', JStr (case pm_GetByName name pm of Some _ \<Rightarrow> ''online'' | None \<Rightarrow> ''offline''))]), m'))"

definition apiProxyTraffic :: "clock \<Rightarrow> int \<Rightarrow> string \<Rightarrow> server_statistics \<Rightarrow> response \<times> server_statistics" where
  "apiProxyTraffic ck now name m =
     (case GetProxyTraffic ck now name m of
        (None, m') \<Rightarrow> (text_reply 404 ''Not Found'' ''no proxy info found'', m')
      | (Some t, m') \<Rightarrow>
          (json_reply (JObj [(''name'', JStr name), (''trafficIn'', JArr (map jnum64 (pt_TrafficIn t))),
             (''trafficOut'', JArr (map jnum64 (pt_TrafficOut t)))]), m'))"

definition deleteProxies :: "int \<Rightarrow> string list \<Rightarrow> string \<Rightarrow> server_statistics \<Rightarrow> response \<times> server_statistics" where
  "deleteProxies now order status m =
     (if status \<noteq> ''offline'' then (text_reply 400 ''Bad Request'' ''status only support offline'', m)
      else (text_reply 200 ''OK'' [], snd (ClearOfflineProxies now order m)))"

section \<open>Lemmas\<close>

lemma map_of_sort_key:
  assumes "distinct (map fst kvs)"
  shows "map_of (sort_key fst kvs) = map_of kvs"
proof -
  have "map fst (sort_key fst kvs) = sort (map fst kvs)"
    by (rule sorted_distinct_set_unique) (use assms in \<open>simp_all add: distinct_map inj_on_def\<close>)
  then have "distinct (map fst (sort_key fst kvs))" using assms by simp
  then show ?thesis using assms by (intro map_of_inject_set [THEN iffD2]) auto
qed

lemma map_of_map_snd: "map_of (map (\<lambda>p. (fst p, f (snd p))) kvs) k = map_option f (map_of kvs k)"
  by (induction kvs) auto

lemma js_opt_get_obj: "js_opt_get (JObj kvs) k = (case map_of kvs k of None \<Rightarrow> JUndef | Some v \<Rightarrow> v)"
  by (simp add: js_opt_get_def)

lemma js_get_obj: "js_get (JObj kvs) k = Inr (case map_of kvs k of None \<Rightarrow> JUndef | Some v \<Rightarrow> v)"
  by simp

lemma js_opt_get_sort_keys:
  assumes "distinct (map fst kvs)"
  shows "js_opt_get (sort_keys (JObj kvs)) k = sort_keys (js_opt_get (JObj kvs) k)"
proof -
  have "distinct (map fst (map (\<lambda>p. (fst p, sort_keys (snd p))) kvs))" using assms by (simp add: comp_def)
  from map_of_sort_key [OF this] show ?thesis
    by (simp add: js_opt_get_obj map_of_map_snd split: option.splits)
qed

text \<open>The optional fields have their key and no other.\<close>

lemma keep_field_lookup: "map_of (keep_field k kvs) j = (if j = k then map_of kvs k else None)"
  by (auto simp: keep_field_def split: option.splits)

lemmas json_fields = jstr_def jbool_def jint_def jstrs_def jmap_def

definition base_keys :: "string set" where
  "base_keys = {''name'', ''type'', ''enabled'', ''annotations'', ''transport'', ''metadatas'', ''loadBalancer'',
     ''healthCheck'', ''localIP'', ''localPort'', ''plugin''}"

lemma base_json_keys: "fst ` set (base_json pjson b) \<subseteq> base_keys" "distinct (map fst (base_json pjson b))"
  by (auto simp: base_json_def base_keys_def json_fields split: option.splits if_splits)

lemma base_json_other: "k \<notin> base_keys \<Longrightarrow> map_of (base_json pjson b) k = None"
  using base_json_keys(1) [of pjson b] by (auto simp: map_of_eq_None_iff)

text \<open>\<open>GetProxiesByType\<close> lists the statistics of the type, each as it was before the call.\<close>

definition listed :: "clock \<Rightarrow> (int \<Rightarrow> string) \<Rightarrow> int \<Rightarrow> string \<Rightarrow> server_statistics \<Rightarrow> string \<Rightarrow> proxy_stats option" where
  "listed ck fmt now t m name =
     (case ss_ProxyStatistics m name of
        None \<Rightarrow> None | Some ps \<Rightarrow> if ps_ProxyType ps \<noteq> t then None else Some (fst (stats_of ck fmt now name ps)))"

lemma listed_update:
  assumes "name \<notin> set order"
  shows "List.map_filter (listed ck fmt now t (m\<lparr>ss_ProxyStatistics := (ss_ProxyStatistics m)(name \<mapsto> ps)\<rparr>)) order =
    List.map_filter (listed ck fmt now t m) order"
proof -
  have "\<And>x. x \<in> set order \<Longrightarrow> listed ck fmt now t (m\<lparr>ss_ProxyStatistics := (ss_ProxyStatistics m)(name \<mapsto> ps)\<rparr>) x =
      listed ck fmt now t m x"
    using assms by (auto simp: listed_def)
  then show ?thesis by (simp add: List.map_filter_def cong: map_cong filter_cong)
qed

lemma GetProxiesByType_list:
  "distinct order \<Longrightarrow>
   fst (GetProxiesByType ck fmt now order t m) = List.map_filter (listed ck fmt now t m) order"
proof (induction order arbitrary: m)
  case (Cons name order)
  show ?case
  proof (cases "listed ck fmt now t m name")
    case None
    then show ?thesis
      using Cons by (auto simp: map_filter_simps listed_def split: option.splits if_splits)
  next
    case (Some x)
    then obtain ps where ps: "ss_ProxyStatistics m name = Some ps" "ps_ProxyType ps = t"
      and x: "x = fst (stats_of ck fmt now name ps)"
      by (auto simp: listed_def split: option.splits if_splits)
    have "fst (GetProxiesByType ck fmt now order t (m\<lparr>ss_ProxyStatistics := (ss_ProxyStatistics m)(name \<mapsto> ps')\<rparr>)) =
        List.map_filter (listed ck fmt now t m) order" for ps'
      using Cons.IH Cons.prems listed_update [of name order ck fmt now t m ps'] by simp
    then show ?thesis using Some ps x by (simp add: map_filter_simps split_beta)
  qed
qed (simp add: map_filter_simps)

lemma stats_of_sel [simp]:
  "px_Name (fst (stats_of ck fmt now name ps)) = name" "px_Type (fst (stats_of ck fmt now name ps)) = ps_ProxyType ps"
  by (simp_all add: stats_of_def split: prod.splits)

section \<open>Properties\<close>

text \<open>The API shows the configuration of a running proxy without its secrets, except for sudp: the secret
  key of an stcp or xtcp proxy and the password of an http or tcpmux proxy are not in the answer, the
  secret key of a sudp proxy is.\<close>

theorem api_secrets:
  "js_opt_get (out_conf pjson ''stcp'' (STCPProxyConfig b sk users)) ''secretKey'' = JUndef \<and>
   js_opt_get (out_conf pjson ''xtcp'' (XTCPProxyConfig b sk users nt)) ''secretKey'' = JUndef \<and>
   js_opt_get (out_conf pjson ''http'' (HTTPProxyConfig b d h)) ''httpPassword'' = JUndef \<and>
   js_opt_get (out_conf pjson ''tcpmux'' (TCPMuxProxyConfig b d t)) ''httpPassword'' = JUndef \<and>
   js_opt_get (out_conf pjson ''sudp'' (SUDPProxyConfig b sk users)) ''secretKey'' = (if sk = [] then JUndef else JStr sk)"
proof -
  have k: "''secretKey'' \<notin> base_keys" "''httpPassword'' \<notin> base_keys" by (auto simp: base_keys_def)
  note n = base_json_other [OF k(1), of pjson b] base_json_other [OF k(2), of pjson b]
  have d: "distinct (map fst (marshal_config pjson (SUDPProxyConfig b sk users)))"
    using base_json_keys [of pjson b] by (auto simp: marshal_config_def json_fields base_keys_def)
  have "js_opt_get (JObj (marshal_config pjson (SUDPProxyConfig b sk users))) ''secretKey'' =
      (if sk = [] then JUndef else JStr sk)"
    using n by (simp add: js_opt_get_obj marshal_config_def map_add_def json_fields)
  then have s: "js_opt_get (out_conf pjson ''sudp'' (SUDPProxyConfig b sk users)) ''secretKey'' = (if sk = [] then JUndef else JStr sk)"
    using js_opt_get_sort_keys [OF d, of "''secretKey''"] by (simp add: out_conf_def Let_def del: sort_keys.simps(1))
  show ?thesis
    using n s by (simp add: out_conf_def Let_def js_opt_get_obj map_add_def keep_field_lookup del: own_json.simps)
qed

end
