(* ===== verification/Web_Types.thy ===== *)
theory Web_Types
  imports Dashboard_Api Web_Page "HOL-Library.Sublist"
begin

text \<open>
  The declared types of the rows (\<open>web/frps/src/utils/proxy.ts\<close>) against the values at run time. The
  constructors take \<open>any\<close>, so that the compiler does not check what they assign: whether the
  declarations hold depends on what \<open>server/dashboard_api.go\<close> sends. A list page that is served by that
  interface is a set of reachable pages; the theorem is type soundness over it, by rule induction.
\<close>

section \<open>Types\<close>

datatype ts_type = TString | TNumber | TBoolean | TStrings | TNull | TUndefined

fun has_ts :: "js \<Rightarrow> ts_type \<Rightarrow> bool" where
  "has_ts (JStr _) TString = True"
| "has_ts (JNum _) TNumber = True"
| "has_ts (JBool _) TBoolean = True"
| "has_ts (JArr vs) TStrings = list_all (\<lambda>v. has_ts v TString) vs"
| "has_ts JNull TNull = True"
| "has_ts JUndef TUndefined = True"
| "has_ts _ _ = False"

text \<open>A union of types.\<close>

definition conforms :: "js \<Rightarrow> ts_type list \<Rightarrow> bool" where
  "conforms v ts \<longleftrightarrow> list_ex (has_ts v) ts"

lemma conforms_simps [simp]:
  "conforms v (T # ts) \<longleftrightarrow> has_ts v T \<or> conforms v ts" "\<not> conforms v []"
  by (simp_all add: conforms_def)

text \<open>The fields of the classes. The declarations say \<open>string\<close> also for \<open>clientVersion\<close>, \<open>customDomains\<close> and
  \<open>locations\<close>; the unions here are what these three really hold.\<close>

definition row_typed :: "string \<Rightarrow> proxy_row \<Rightarrow> bool" where
  "row_typed t r \<longleftrightarrow>
     has_ts (bp_name r) TString \<and> bp_type r = t \<and> list_all (\<lambda>p. has_ts (snd p) TString) (bp_annotations r) \<and>
     has_ts (bp_encryption r) TBoolean \<and> has_ts (bp_compression r) TBoolean \<and> has_ts (bp_conns r) TNumber \<and>
     has_ts (bp_trafficIn r) TNumber \<and> has_ts (bp_trafficOut r) TNumber \<and>
     has_ts (bp_lastStartTime r) TString \<and> has_ts (bp_lastCloseTime r) TString \<and> has_ts (bp_status r) TString \<and>
     conforms (bp_clientVersion r) [TString, TUndefined] \<and> has_ts (bp_addr r) TString \<and> has_ts (bp_port r) TNumber \<and>
     conforms (bp_customDomains r) [TString, TStrings] \<and> has_ts (bp_hostHeaderRewrite r) TString \<and>
     conforms (bp_locations r) [TString, TStrings, TNull] \<and> has_ts (bp_subdomain r) TString \<and>
     (t = ''tcpmux'' \<longrightarrow> has_ts (bp_multiplexer r) TString \<and> has_ts (bp_routeByHTTPUser r) TString)"

section \<open>What the server sends\<close>

text \<open>A configuration in an answer about proxies of the type \<open>t\<close>.\<close>

definition base_typed :: "js \<Rightarrow> bool" where
  "base_typed c \<longleftrightarrow>
     (js_opt_get c ''annotations'' = JUndef \<or>
       (\<exists>kvs. js_opt_get c ''annotations'' = JObj kvs \<and> list_all (\<lambda>p. has_ts (snd p) TString) kvs)) \<and>
     conforms (js_opt_get (js_opt_get c ''transport'') ''useEncryption'') [TBoolean, TUndefined] \<and>
     conforms (js_opt_get (js_opt_get c ''transport'') ''useCompression'') [TBoolean, TUndefined]"

definition conf_typed :: "string \<Rightarrow> js \<Rightarrow> bool" where
  "conf_typed t c \<longleftrightarrow> c = JNull \<or>
     js_truthy c \<and> base_typed c \<and>
     (t = ''tcp'' \<or> t = ''udp'' \<longrightarrow> has_ts (js_opt_get c ''remotePort'') TNumber) \<and>
     (t = ''http'' \<or> t = ''https'' \<or> t = ''tcpmux'' \<longrightarrow>
        conforms (js_opt_get c ''customDomains'') [TStrings, TUndefined] \<and>
        conforms (js_opt_get c ''subdomain'') [TString, TUndefined]) \<and>
     (t = ''http'' \<longrightarrow> has_ts (js_opt_get c ''hostHeaderRewrite'') TString \<and>
        conforms (js_opt_get c ''locations'') [TStrings, TNull]) \<and>
     (t = ''tcpmux'' \<longrightarrow> has_ts (js_opt_get c ''multiplexer'') TString \<and>
        has_ts (js_opt_get c ''routeByHTTPUser'') TString)"

text \<open>The own fields of every configuration have one type per key.\<close>

definition own_types :: "(string \<times> ts_type) list" where
  "own_types = [(''remotePort'', TNumber), (''customDomains'', TStrings), (''locations'', TStrings), (''subdomain'', TString),
     (''hostHeaderRewrite'', TString), (''multiplexer'', TString), (''routeByHTTPUser'', TString)]"

definition own_type :: "string \<Rightarrow> ts_type option" where
  "own_type k = map_of own_types k"

definition own_typed :: "(string \<times> js) list \<Rightarrow> bool" where
  "own_typed kvs \<longleftrightarrow> list_all (\<lambda>p. case own_type (fst p) of None \<Rightarrow> True | Some T \<Rightarrow> has_ts (snd p) T) kvs"

lemma own_typed_append [simp]:
  "own_typed (xs @ ys) \<longleftrightarrow> own_typed xs \<and> own_typed ys" "own_typed []"
  by (simp_all add: own_typed_def)

lemma own_json_typed: "own_typed (own_json c)"
  by (cases c) (simp_all add: domain_json_def headers_json_def json_fields own_typed_def own_type_def own_types_def list_all_iff split: option.splits)

lemma own_lookup:
  "map_of (own_json c) k = Some v \<Longrightarrow> own_type k = Some T \<Longrightarrow> has_ts v T"
  using own_json_typed [of c] by (auto simp: own_typed_def list_all_iff dest!: map_of_SomeD)

lemma field_typed:
  "own_type k = Some T \<Longrightarrow> has_ts d T' \<Longrightarrow> has_ts (field_or d k (own_json c)) T \<or> has_ts (field_or d k (own_json c)) T'"
  by (auto simp: field_or_def own_lookup split: option.splits)

lemma base_json_get:
  "map_of (base_json pjson b) ''annotations'' =
     (if pb_Annotations b = [] then None else Some (JObj (map (\<lambda>p. (fst p, JStr (snd p))) (pb_Annotations b))))"
  "map_of (base_json pjson b) ''transport'' = Some (transport_json b)"
  by (simp_all add: base_json_def json_fields split: option.splits)

lemma transport_get:
  "js_opt_get (transport_json b) ''useEncryption'' = (if pb_UseEncryption b then JBool True else JUndef)"
  "js_opt_get (transport_json b) ''useCompression'' = (if pb_UseCompression b then JBool True else JUndef)"
  by (simp_all add: transport_json_def js_opt_get_obj json_fields)

lemma base_typed_append:
  assumes "map_of rest ''annotations'' = None"
  shows "base_typed (JObj (base_json pjson b @ rest))"
  using assms by (simp add: base_typed_def js_opt_get_obj map_add_def base_json_get transport_get list_all_iff)

lemma other_append: "k \<notin> base_keys \<Longrightarrow> js_opt_get (JObj (base_json pjson b @ rest)) k = js_opt_get (JObj rest) k"
  by (simp add: js_opt_get_obj map_add_def base_json_other split: option.splits)

text \<open>The generic map of a sudp proxy has the same fields, sorted.\<close>

definition own_keys :: "string list" where
  "own_keys = [''remotePort'', ''customDomains'', ''subdomain'', ''locations'', ''httpUser'', ''httpPassword'', ''hostHeaderRewrite'',
     ''requestHeaders'', ''responseHeaders'', ''routeByHTTPUser'', ''multiplexer'', ''secretKey'', ''allowUsers'', ''natTraversal'']"

lemma field_keys:
  "subseq (map fst (jstr k s)) [k]" "subseq (map fst (jint k i)) [k]" "subseq (map fst (jstrs k ss)) [k]"
  "subseq (map fst (headers_json k m)) [k]"
  by (simp_all add: json_fields headers_json_def)

lemma subseq_field: "subseq (map fst f) [k] \<Longrightarrow> subseq (map fst r) ks \<Longrightarrow> subseq (map fst (f @ r)) (k # ks)"
  using list_emb_append_mono [of "(=)" "map fst f" "[k]" "map fst r" ks] by simp

fun keys_of :: "'p proxy_config \<Rightarrow> string list" where
  "keys_of (TCPProxyConfig b port) = [''remotePort'']"
| "keys_of (UDPProxyConfig b port) = [''remotePort'']"
| "keys_of (HTTPProxyConfig b d h) = [''customDomains'', ''subdomain'', ''locations'', ''httpUser'', ''httpPassword'', ''hostHeaderRewrite'',
     ''requestHeaders'', ''responseHeaders'', ''routeByHTTPUser'']"
| "keys_of (HTTPSProxyConfig b d) = [''customDomains'', ''subdomain'']"
| "keys_of (TCPMuxProxyConfig b d t) = [''customDomains'', ''subdomain'', ''httpUser'', ''httpPassword'', ''routeByHTTPUser'', ''multiplexer'']"
| "keys_of (STCPProxyConfig b sk users) = [''secretKey'', ''allowUsers'']"
| "keys_of (XTCPProxyConfig b sk users nt) = [''secretKey'', ''allowUsers'', ''natTraversal'']"
| "keys_of (SUDPProxyConfig b sk users) = [''secretKey'', ''allowUsers'']"

lemma own_json_subseq: "subseq (map fst (own_json c)) (keys_of c)"
  by (cases c)
    (simp_all add: domain_json_def field_keys del: map_append, (intro subseq_field field_keys | simp split: option.splits)+)

lemma subseq_keys: "subseq xs ys \<Longrightarrow> set xs \<subseteq> set ys \<and> (distinct ys \<longrightarrow> distinct xs)"
  by (induction xs ys rule: list_emb.induct) auto

lemma keys_of_ok: "set (keys_of c) \<subseteq> set own_keys \<and> distinct (keys_of c)"
  by (cases c) (simp_all add: own_keys_def)

lemma own_json_keys: "fst ` set (own_json c) \<subseteq> set own_keys" "distinct (map fst (own_json c))"
  using subseq_keys [OF own_json_subseq [of c]] keys_of_ok [of c] by auto

lemma marshal_distinct: "distinct (map fst (marshal_config pjson c))"
proof -
  have "base_keys \<inter> set own_keys = {}" by (simp add: base_keys_def own_keys_def)
  then show ?thesis
    using base_json_keys [of pjson "GetBaseConfig c"] own_json_keys [of c] by (auto simp: marshal_config_def)
qed

lemma own_json_no_annotations: "map_of (own_json c) ''annotations'' = None"
  using own_json_keys(1) [of c] by (auto simp: map_of_eq_None_iff own_keys_def)

lemma sort_keys_ts: "has_ts (sort_keys v) T = has_ts v T"
proof (cases v)
  case (JArr vs)
  have "has_ts (sort_keys w) TString = has_ts w TString" for w by (cases w) simp_all
  then show ?thesis using JArr by (cases T) (simp_all add: list_all_iff)
qed (cases T; simp)+

lemma base_typed_sort:
  assumes "base_typed (JObj kvs)" and "distinct (map fst kvs)"
    and "map_of kvs ''transport'' = Some (JObj tr)" and "distinct (map fst tr)"
  shows "base_typed (sort_keys (JObj kvs))"
proof -
  have t: "js_opt_get (sort_keys (JObj kvs)) ''transport'' = sort_keys (JObj tr)"
    using js_opt_get_sort_keys [OF assms(2)] assms(3) by (simp add: js_opt_get_obj del: sort_keys.simps)
  have "conforms (js_opt_get (sort_keys (JObj tr)) k) [TBoolean, TUndefined] = conforms (js_opt_get (JObj tr) k) [TBoolean, TUndefined]" for k
    using js_opt_get_sort_keys [OF assms(4), of k] by (simp add: sort_keys_ts del: sort_keys.simps)
  moreover have "list_all (\<lambda>p. has_ts (snd p) TString) as \<Longrightarrow>
      \<exists>as'. sort_keys (JObj as) = JObj as' \<and> list_all (\<lambda>p. has_ts (snd p) TString) as'" for as
    by (auto simp: list_all_iff sort_keys_ts)
  ultimately show ?thesis
    using assms(1,3) js_opt_get_sort_keys [OF assms(2), of "''annotations''"] t
    by (auto simp: base_typed_def js_opt_get_obj [of kvs "''transport''"] simp del: sort_keys.simps(1))
qed

lemma transport_json_keys: "\<exists>tr. transport_json b = JObj tr \<and> distinct (map fst tr)"
  by (simp add: transport_json_def json_fields)

lemma marshal_base_typed: "base_typed (sort_keys (JObj (marshal_config pjson c)))"
proof -
  obtain tr where "transport_json (GetBaseConfig c) = JObj tr" "distinct (map fst tr)"
    using transport_json_keys by blast
  then show ?thesis
    using base_typed_append [OF own_json_no_annotations [of c], of pjson "GetBaseConfig c"] marshal_distinct [of pjson c]
    by (intro base_typed_sort) (auto simp: marshal_config_def map_add_def base_json_get own_json_no_annotations split: option.splits)
qed

lemma domain_get:
  fixes c fs
  defines "rest \<equiv> keep_field ''customDomains'' (own_json c) @ keep_field ''subdomain'' (own_json c) @ fs"
  assumes "map_of fs ''customDomains'' = None" and "map_of fs ''subdomain'' = None"
  shows "conforms (js_opt_get (JObj rest) ''customDomains'') [TStrings, TUndefined]"
    "conforms (js_opt_get (JObj rest) ''subdomain'') [TString, TUndefined]"
    "k \<noteq> ''customDomains'' \<Longrightarrow> k \<noteq> ''subdomain'' \<Longrightarrow> js_opt_get (JObj rest) k = js_opt_get (JObj fs) k"
    "map_of fs ''annotations'' = None \<Longrightarrow> map_of rest ''annotations'' = None"
  using assms(2,3) own_lookup [of c "''customDomains''" _ TStrings] own_lookup [of c "''subdomain''" _ TString]
  by (auto simp: rest_def js_opt_get_obj map_add_def keep_field_lookup own_type_def own_types_def split: option.splits)

lemma own_not_base: "own_type k \<noteq> None \<Longrightarrow> k \<notin> base_keys"
proof -
  have "\<forall>k \<in> fst ` set own_types. k \<notin> base_keys" by (simp add: base_keys_def own_types_def)
  then show "k \<notin> base_keys" if "own_type k \<noteq> None" using that unfolding own_type_def map_of_eq_None_iff by blast
qed

lemma out_conf_typed:
  assumes "t \<in> set row_types"
  shows "conf_typed t (out_conf pjson t c)"
proof -
  have r: "has_ts (field_or (JNum 0) ''remotePort'' (own_json c)) TNumber"
    using field_typed [of "''remotePort''" TNumber "JNum 0" TNumber c] by (simp add: own_type_def own_types_def)
  have f: "has_ts (field_or (JStr []) k (own_json c)) TString" if "own_type k = Some TString" for k
    using field_typed [OF that, of "JStr []" TString c] by simp
  have l: "conforms (field_or JNull ''locations'' (own_json c)) [TStrings, TNull]"
    using field_typed [of "''locations''" TStrings JNull TNull c] by (simp add: own_type_def own_types_def)
  have o: "js_opt_get (JObj (base_json pjson (GetBaseConfig c) @ rest)) k = js_opt_get (JObj rest) k"
    if "own_type k \<noteq> None" for k rest using that own_not_base by (intro other_append)
  note d = domain_get [where c = c]
  have 1: ?thesis if "t = ''tcp'' \<or> t = ''udp''"
    using that r base_typed_append [of "[(''remotePort'', _)]"] o [of "''remotePort''"]
    by (auto simp: conf_typed_def out_conf_def Let_def own_type_def own_types_def js_opt_get_obj [of "[_]"])
  have "t = ''tcp'' \<or> t = ''udp'' \<or> t = ''http'' \<or> t = ''https'' \<or> t = ''tcpmux'' \<or> t = ''stcp'' \<or> t = ''sudp''"
    using assms by (simp add: row_types_def)
  then show ?thesis
  proof (elim disjE)
    assume 2: "t = ''http''"
    let ?fs = "[(''locations'', field_or JNull ''locations'' (own_json c)),
       (''hostHeaderRewrite'', field_or (JStr []) ''hostHeaderRewrite'' (own_json c))]"
    have "conf_typed t (JObj (base_json pjson (GetBaseConfig c) @
        keep_field ''customDomains'' (own_json c) @ keep_field ''subdomain'' (own_json c) @ ?fs))"
      unfolding conf_typed_def using 2 d [of ?fs] f [of "''hostHeaderRewrite''"] l
      by (simp add: base_typed_append o own_type_def own_types_def js_opt_get_obj [of ?fs])
    then show ?thesis using 2 by (simp add: out_conf_def Let_def)
  next
    assume 3: "t = ''https''"
    have "conf_typed t (JObj (base_json pjson (GetBaseConfig c) @
        keep_field ''customDomains'' (own_json c) @ keep_field ''subdomain'' (own_json c) @ []))"
      unfolding conf_typed_def using 3 d [of "[]"] by (simp add: base_typed_append o own_type_def own_types_def)
    then show ?thesis using 3 by (simp add: out_conf_def Let_def)
  next
    assume 4: "t = ''tcpmux''"
    let ?fs = "[(''multiplexer'', field_or (JStr []) ''multiplexer'' (own_json c)),
       (''routeByHTTPUser'', field_or (JStr []) ''routeByHTTPUser'' (own_json c))]"
    have "conf_typed t (JObj (base_json pjson (GetBaseConfig c) @
        keep_field ''customDomains'' (own_json c) @ keep_field ''subdomain'' (own_json c) @ ?fs))"
      unfolding conf_typed_def using 4 d [of ?fs] f [of "''multiplexer''"] f [of "''routeByHTTPUser''"]
      by (simp add: base_typed_append o own_type_def own_types_def js_opt_get_obj [of ?fs])
    then show ?thesis using 4 by (simp add: out_conf_def Let_def)
  next
    assume 5: "t = ''stcp''"
    then show ?thesis
      using base_typed_append [of "[]"] by (simp add: conf_typed_def out_conf_def)
  next
    assume 6: "t = ''sudp''"
    then show ?thesis
      using marshal_base_typed [of pjson c] by (simp add: conf_typed_def out_conf_def Let_def)
  qed (use 1 in simp_all)
qed

section \<open>The rows\<close>

lemma proxy_info_get:
  "js_opt_get (proxy_info pjson pm ps) ''name'' = JStr (px_Name ps)"
  "js_opt_get (proxy_info pjson pm ps) ''curConns'' = jnum64 (px_CurConns ps)"
  "js_opt_get (proxy_info pjson pm ps) ''todayTrafficIn'' = jnum64 (px_TodayTrafficIn ps)"
  "js_opt_get (proxy_info pjson pm ps) ''todayTrafficOut'' = jnum64 (px_TodayTrafficOut ps)"
  "js_opt_get (proxy_info pjson pm ps) ''status'' = JStr (if pm (px_Name ps) = None then ''offline'' else ''online'')"
  "js_opt_get (proxy_info pjson pm ps) ''conf'' =
     (case pm (px_Name ps) of None \<Rightarrow> JNull | Some pxy \<Rightarrow> out_conf pjson (px_Type ps) (rn_conf pxy))"
  "js_opt_get (proxy_info pjson pm ps) ''lastStartTime'' = JStr (px_LastStartTime ps)"
  "js_opt_get (proxy_info pjson pm ps) ''lastCloseTime'' = JStr (px_LastCloseTime ps)"
  "conforms (js_opt_get (proxy_info pjson pm ps) ''clientVersion'') [TString, TUndefined]"
  by (auto simp: proxy_info_def js_opt_get_obj pm_GetByName_def jstr_def split: option.splits)

lemma info_conf_typed: "px_Type ps = t \<Longrightarrow> t \<in> set row_types \<Longrightarrow> conf_typed t (js_opt_get (proxy_info pjson pm ps) ''conf'')"
  using out_conf_typed [of t pjson] by (auto simp: proxy_info_get conf_typed_def [of t JNull] split: option.splits)

lemma annotations_typed:
  "list_all (\<lambda>p. has_ts (snd p) TString) kvs \<Longrightarrow> list_all (\<lambda>p. has_ts (snd p) TString) m \<Longrightarrow>
   list_all (\<lambda>p. has_ts (snd p) TString) (foldl (\<lambda>m p. js_map_set m (fst p) (snd p)) m kvs)"
proof (induction kvs arbitrary: m)
  case (Cons p kvs)
  have "list_all (\<lambda>p. has_ts (snd p) TString) (js_map_set m k v)" if "has_ts v TString" for k v
    using Cons.prems(2) that by (induction m) auto
  then show ?case using Cons by simp
qed simp

definition base_row_typed :: "proxy_row \<Rightarrow> bool" where
  "base_row_typed r \<longleftrightarrow>
     has_ts (bp_name r) TString \<and> list_all (\<lambda>p. has_ts (snd p) TString) (bp_annotations r) \<and>
     has_ts (bp_encryption r) TBoolean \<and> has_ts (bp_compression r) TBoolean \<and> has_ts (bp_conns r) TNumber \<and>
     has_ts (bp_trafficIn r) TNumber \<and> has_ts (bp_trafficOut r) TNumber \<and>
     has_ts (bp_lastStartTime r) TString \<and> has_ts (bp_lastCloseTime r) TString \<and> has_ts (bp_status r) TString \<and>
     conforms (bp_clientVersion r) [TString, TUndefined]"

lemma js_or_boolean: "conforms v [TBoolean, TUndefined] \<Longrightarrow> has_ts (js_or v (JBool b)) TBoolean"
  by (cases v) (auto simp: js_or_def)

lemma BaseProxy_fields:
  assumes "BaseProxy v = Inr r"
  shows "bp_name r = js_opt_get v ''name''" "bp_conns r = js_opt_get v ''curConns''"
    "bp_trafficIn r = js_opt_get v ''todayTrafficIn''" "bp_trafficOut r = js_opt_get v ''todayTrafficOut''"
    "bp_lastStartTime r = js_opt_get v ''lastStartTime''" "bp_lastCloseTime r = js_opt_get v ''lastCloseTime''"
    "bp_status r = js_opt_get v ''status''" "bp_clientVersion r = js_opt_get v ''clientVersion''"
    "bp_encryption r = js_or (js_opt_get (js_opt_get (js_opt_get v ''conf'') ''transport'') ''useEncryption'') (JBool False)"
    "bp_compression r = js_or (js_opt_get (js_opt_get (js_opt_get v ''conf'') ''transport'') ''useCompression'') (JBool False)"
    "bp_annotations r = (if js_truthy (js_opt_get (js_opt_get v ''conf'') ''annotations'')
       then foldl (\<lambda>m p. js_map_set m (fst p) (snd p)) [] (js_entries (js_opt_get (js_opt_get v ''conf'') ''annotations'')) else [])"
    "bp_addr r = JStr []" "bp_port r = JNum 0" "bp_customDomains r = JStr []" "bp_hostHeaderRewrite r = JStr []"
    "bp_locations r = JStr []" "bp_subdomain r = JStr []"
  using assms unfolding BaseProxy_def Let_def by (cases "js_eq_null v", simp, force)+

lemma conf_base_typed: "conf_typed t c \<Longrightarrow> base_typed c"
proof -
  have "base_typed JNull" by (simp add: base_typed_def js_eq_null_def)
  then show "conf_typed t c \<Longrightarrow> base_typed c" unfolding conf_typed_def by blast
qed

lemma base_annotations_typed:
  assumes "base_typed c"
  shows "list_all (\<lambda>p. has_ts (snd p) TString) (if js_truthy (js_opt_get c ''annotations'')
    then foldl (\<lambda>m p. js_map_set m (fst p) (snd p)) [] (js_entries (js_opt_get c ''annotations'')) else [])"
proof -
  from assms have "js_opt_get c ''annotations'' = JUndef \<or>
      (\<exists>kvs. js_opt_get c ''annotations'' = JObj kvs \<and> list_all (\<lambda>p. has_ts (snd p) TString) kvs)"
    unfolding base_typed_def by blast
  then show ?thesis by (elim disjE exE conjE) (simp_all add: annotations_typed)
qed

lemma BaseProxy_typed:
  assumes "conf_typed t (js_opt_get (proxy_info pjson pm ps) ''conf'')"
  shows "\<exists>r. BaseProxy (proxy_info pjson pm ps) = Inr r \<and> base_row_typed r \<and> bp_addr r = JStr [] \<and> bp_port r = JNum 0 \<and>
    bp_customDomains r = JStr [] \<and> bp_hostHeaderRewrite r = JStr [] \<and> bp_locations r = JStr [] \<and> bp_subdomain r = JStr []"
proof -
  let ?v = "proxy_info pjson pm ps"
  have n: "\<not> js_eq_null ?v" by (simp add: js_eq_null_def proxy_info_def)
  note b = conf_base_typed [OF assms]
  note c = conjunct1 [OF conjunct2 [OF b [unfolded base_typed_def]]] conjunct2 [OF conjunct2 [OF b [unfolded base_typed_def]]]
  obtain r where r: "BaseProxy ?v = Inr r" using BaseProxy_Inr [OF n] by blast
  note F = BaseProxy_fields [OF r]
  have "base_row_typed r"
    unfolding base_row_typed_def F proxy_info_get(1-5,7,8)
    using base_annotations_typed [OF b] c [THEN js_or_boolean] proxy_info_get(9) [of pjson pm ps]
    by (simp only: jnum64_def has_ts.simps simp_thms)
  then show ?thesis using r F(12-17) by blast
qed

text \<open>A row as \<open>BaseProxy\<close> leaves it, with the type and the port of a subclass.\<close>

lemma row_typed_base:
  "row_typed t r \<longleftrightarrow> base_row_typed r \<and> bp_type r = t \<and> has_ts (bp_addr r) TString \<and> has_ts (bp_port r) TNumber \<and>
     conforms (bp_customDomains r) [TString, TStrings] \<and> has_ts (bp_hostHeaderRewrite r) TString \<and>
     conforms (bp_locations r) [TString, TStrings, TNull] \<and> has_ts (bp_subdomain r) TString \<and>
     (t = ''tcpmux'' \<longrightarrow> has_ts (bp_multiplexer r) TString \<and> has_ts (bp_routeByHTTPUser r) TString)"
  unfolding row_typed_def base_row_typed_def by blast

lemma base_row_typed_upd [simp]:
  "base_row_typed (r\<lparr>bp_type := ty\<rparr>) = base_row_typed r" "base_row_typed (r\<lparr>bp_addr := a\<rparr>) = base_row_typed r"
  "base_row_typed (r\<lparr>bp_port := p\<rparr>) = base_row_typed r" "base_row_typed (r\<lparr>bp_customDomains := d\<rparr>) = base_row_typed r"
  "base_row_typed (r\<lparr>bp_hostHeaderRewrite := h\<rparr>) = base_row_typed r" "base_row_typed (r\<lparr>bp_locations := l\<rparr>) = base_row_typed r"
  "base_row_typed (r\<lparr>bp_subdomain := s\<rparr>) = base_row_typed r" "base_row_typed (r\<lparr>bp_multiplexer := m\<rparr>) = base_row_typed r"
  "base_row_typed (r\<lparr>bp_routeByHTTPUser := u\<rparr>) = base_row_typed r"
  by (simp_all add: base_row_typed_def)

lemma with_subdomain_typed:
  "row_typed t r \<Longrightarrow> row_typed t (with_subdomain c h r)"
  by (simp add: row_typed_base with_subdomain_def Let_def)

lemma js_or_domains: "conforms v [TStrings, TUndefined] \<Longrightarrow> conforms (js_or v (JStr [])) [TString, TStrings]"
  by (cases v) (auto simp: js_or_def)

lemma conf_typedD:
  assumes "conf_typed t c" and "c \<noteq> JNull"
  shows "js_truthy c" "\<not> js_eq_null c"
    "t = ''tcp'' \<or> t = ''udp'' \<Longrightarrow> has_ts (js_opt_get c ''remotePort'') TNumber"
    "t = ''http'' \<or> t = ''https'' \<or> t = ''tcpmux'' \<Longrightarrow> conforms (js_opt_get c ''customDomains'') [TStrings, TUndefined]"
    "t = ''http'' \<Longrightarrow> has_ts (js_opt_get c ''hostHeaderRewrite'') TString"
    "t = ''http'' \<Longrightarrow> conforms (js_opt_get c ''locations'') [TStrings, TNull]"
    "t = ''tcpmux'' \<Longrightarrow> has_ts (js_opt_get c ''multiplexer'') TString"
    "t = ''tcpmux'' \<Longrightarrow> has_ts (js_opt_get c ''routeByHTTPUser'') TString"
proof -
  show c: "js_truthy c" using assms unfolding conf_typed_def by blast
  then show "\<not> js_eq_null c" by (auto simp: js_eq_null_def)
qed (use assms in \<open>unfold conf_typed_def, blast\<close>)+

lemma null_conf [simp]: "js_eq_null JNull" "\<not> js_truthy JNull"
  by (simp_all add: js_eq_null_def)

lemma subclass_typed:
  assumes "t \<in> set row_types" and "BaseProxy v = Inr r0" and "base_row_typed r0"
    and k: "conf_typed t (js_opt_get v ''conf'')" and "port_field t \<noteq> None \<Longrightarrow> has_ts port TNumber"
  shows "\<exists>r. make_row t v port host = Inr r \<and> row_typed t r"
proof -
  define c where "c = js_opt_get v ''conf''"
  note F = BaseProxy_fields(12-17) [OF assms(2)]
  note D = conf_typedD [OF k, folded c_def]
  have "t = ''tcp'' \<or> t = ''udp'' \<or> t = ''http'' \<or> t = ''https'' \<or> t = ''tcpmux'' \<or> t = ''stcp'' \<or> t = ''sudp''"
    using assms(1) by (simp add: row_types_def)
  then show ?thesis
  proof (elim disjE)
    assume t: "t = ''tcp''"
    show ?thesis
    proof (cases "c = JNull")
      case True
      then show ?thesis using t assms(2,3) F by (simp add: make_row_simps TCPProxy_def Let_def c_def [symmetric] row_typed_base)
    next
      case False
      then show ?thesis
        using t assms(2,3) F D(2,3) by (simp add: make_row_simps TCPProxy_def Let_def c_def [symmetric] row_typed_base)
    qed
  next
    assume t: "t = ''udp''"
    show ?thesis
    proof (cases "c = JNull")
      case True
      then show ?thesis using t assms(2,3) F by (simp add: make_row_simps UDPProxy_def Let_def c_def [symmetric] row_typed_base)
    next
      case False
      then show ?thesis
        using t assms(2,3) F D(2,3) by (simp add: make_row_simps UDPProxy_def Let_def c_def [symmetric] row_typed_base)
    qed
  next
    assume t: "t = ''http''"
    have p: "has_ts port TNumber" using assms(5) t by (simp add: port_field_def)
    show ?thesis
    proof (cases "c = JNull")
      case True
      then show ?thesis using t p assms(2,3) F by (simp add: make_row_simps HTTPProxy_def Let_def c_def [symmetric] row_typed_base)
    next
      case False
      note D = D(1,4-6) [OF False]
      show ?thesis
        using t p assms(2,3) F D js_or_domains [OF D(2)]
        by (simp add: make_row_simps HTTPProxy_def Let_def c_def [symmetric])
          (rule with_subdomain_typed, simp add: row_typed_base)
    qed
  next
    assume t: "t = ''https''"
    have p: "has_ts port TNumber" using assms(5) t by (simp add: port_field_def)
    show ?thesis
    proof (cases "c = JNull")
      case True
      then show ?thesis using t p assms(2,3) F by (simp add: make_row_simps HTTPSProxy_def Let_def c_def [symmetric] row_typed_base)
    next
      case False
      note D = D(2,4) [OF False]
      show ?thesis
        using t p assms(2,3) F D js_or_domains [OF D(2)]
        by (simp add: make_row_simps HTTPSProxy_def Let_def c_def [symmetric])
          (rule with_subdomain_typed, simp add: row_typed_base)
    qed
  next
    assume t: "t = ''tcpmux''"
    have p: "has_ts port TNumber" using assms(5) t by (simp add: port_field_def)
    show ?thesis
    proof (cases "c = JNull")
      case True
      then show ?thesis using t p assms(2,3) F by (simp add: make_row_simps TCPMuxProxy_def Let_def c_def [symmetric] row_typed_base)
    next
      case False
      note D = D(1,4,7,8) [OF False]
      show ?thesis
        using t p assms(2,3) F D js_or_domains [OF D(2)]
        by (simp add: make_row_simps TCPMuxProxy_def Let_def c_def [symmetric])
          (rule with_subdomain_typed, simp add: row_typed_base)
    qed
  qed (use assms(2,3) F in \<open>simp_all add: make_row_simps STCPProxy_def SUDPProxy_def row_typed_base\<close>)
qed

lemma row_of_info_typed:
  assumes "t \<in> set row_types" and "px_Type ps = t" and "port_field t \<noteq> None \<Longrightarrow> has_ts port TNumber"
  shows "\<exists>r. make_row t (proxy_info pjson pm ps) port host = Inr r \<and> row_typed t r"
proof -
  note k = info_conf_typed [OF assms(2,1), of pjson pm]
  from BaseProxy_typed [OF k] obtain r where "BaseProxy (proxy_info pjson pm ps) = Inr r" "base_row_typed r" by blast
  from subclass_typed [OF assms(1) this k assms(3)] show ?thesis .
qed

section \<open>Pages that the server serves\<close>

text \<open>The answers of the interface to the requests of the page of type \<open>t\<close>; \<open>pjson\<close> is the JSON of plugin options.\<close>

inductive server_reply :: "('p \<Rightarrow> js) \<Rightarrow> string \<Rightarrow> request \<Rightarrow> response \<Rightarrow> bool" for pjson t where
  reply_info: "server_reply pjson t AskInfo (fst (apiServerInfo ck now keys cfg allow m))"
| reply_list: "distinct order \<Longrightarrow> server_reply pjson t (AskList port host) (fst (apiProxyByType ck fmt pjson now order t pm m))"
| reply_clear: "server_reply pjson t AskClear (fst (deleteProxies now order ''offline'' m))"

text \<open>A page is mounted and lives: clicks, and the server's answers to open requests, in any order.\<close>

inductive page_served :: "(js_error \<Rightarrow> string) \<Rightarrow> ('p \<Rightarrow> js) \<Rightarrow> string \<Rightarrow> page \<Rightarrow> bool" for err pjson t where
  mounted: "page_served err pjson t (page_fetch t page_init)"
| clicked: "page_served err pjson t p \<Longrightarrow> (\<And>i reply. ev \<noteq> Answer i reply) \<Longrightarrow> page_served err pjson t (page_step err t p ev)"
| answered: "page_served err pjson t p \<Longrightarrow> map_of (pg_pending p) i = Some q \<Longrightarrow> server_reply pjson t q res \<Longrightarrow>
    page_served err pjson t (page_step err t p (Answer i (Inr res)))"

inductive_cases server_replyE:
  "server_reply pjson t AskInfo res" "server_reply pjson t (AskList port host) res" "server_reply pjson t AskClear res"

definition page_typed :: "string \<Rightarrow> page \<Rightarrow> bool" where
  "page_typed t p \<longleftrightarrow> list_all (row_typed t) (pg_proxies p) \<and> pg_rejections p = [] \<and>
     (\<forall>i port host. port_field t \<noteq> None \<longrightarrow> (i, AskList port host) \<in> set (pg_pending p) \<longrightarrow> has_ts port TNumber) \<and>
     (port_field t = None \<longrightarrow> AskInfo \<notin> snd ` set (pg_pending p))"

lemma page_typed_same [simp]:
  "page_typed t (p\<lparr>pg_dialog := d\<rparr>) = page_typed t p" "page_typed t (p\<lparr>pg_messages := ms\<rparr>) = page_typed t p"
  by (simp_all add: page_typed_def)

lemma page_typed_fetch: "page_typed t p \<Longrightarrow> page_typed t (page_fetch t p)"
  by (auto simp: page_typed_def page_fetch_def)

lemma page_typed_drop:
  "page_typed t p \<Longrightarrow> page_typed t (p\<lparr>pg_pending := filter (\<lambda>q. fst q \<noteq> i) (pg_pending p)\<rparr>)"
  by (auto simp: page_typed_def)

lemma info_typed:
  assumes "page_typed t p" and "port_field t \<noteq> None"
  shows "page_typed t (on_info t (Inr (fst (apiServerInfo ck now keys cfg allow m))) p)"
proof -
  obtain kvs where kvs: "fst (apiServerInfo ck now keys cfg allow m) = json_reply (JObj kvs)"
    "\<And>f. port_field t = Some f \<Longrightarrow> has_ts (js_opt_get (JObj kvs) f) TNumber"
    by (rule that, simp add: apiServerInfo_def split_beta) (auto simp: js_opt_get_obj port_field_def split: if_splits)
  then show ?thesis
    using assms by (auto simp: on_info_def Let_def res_json_def json_reply_def js_eq_null_def page_typed_def)
qed

lemma push_typed:
  assumes "\<forall>x \<in> set xs. \<exists>r. f x = Inr r \<and> P r" and "list_all P acc"
  shows "\<exists>rows. push_all f xs acc = (rows, None) \<and> list_all P rows"
  using assms by (induction xs arbitrary: acc) auto

lemma list_typed:
  assumes "page_typed t p" and "t \<in> set row_types" and "distinct order" and "port_field t \<noteq> None \<Longrightarrow> has_ts port TNumber"
  shows "page_typed t (on_list t port host (Inr (fst (apiProxyByType ck fmt pjson now order t pm m))) p)"
proof -
  let ?l = "sort_key px_Name (List.map_filter (listed ck fmt now t m) order)"
  have r: "fst (apiProxyByType ck fmt pjson now order t pm m) = json_reply (JObj [(''proxies'', JArr (map (proxy_info pjson pm) ?l))])"
    using GetProxiesByType_list [OF assms(3), of ck fmt now t m] by (simp add: apiProxyByType_def split_beta)
  have "px_Type x = t" if "x \<in> set ?l" for x
    using that by (auto simp: List.map_filter_def listed_def split: option.splits if_splits)
  then have "\<forall>x \<in> set (map (proxy_info pjson pm) ?l). \<exists>r. make_row t x port host = Inr r \<and> row_typed t r"
    using row_of_info_typed [OF assms(2) _ assms(4), of _ pjson pm host] by (metis (no_types, lifting) image_iff list.set_map)
  from push_typed [OF this, of "[]"] obtain rows where "push_all (\<lambda>v. make_row t v port host) (map (proxy_info pjson pm) ?l) [] = (rows, None)"
    "list_all (row_typed t) rows" by auto
  then show ?thesis
    using assms(1) by (simp add: on_list_def load_rows_def r res_json_def json_reply_def page_typed_def js_get_obj)
qed

lemma page_typed_served:
  assumes "page_served err pjson t p" and "t \<in> set row_types"
  shows "page_typed t p \<and> page_ok p"
  using assms(1)
proof (induction rule: page_served.induct)
  case mounted
  then show ?case by (simp add: page_typed_fetch page_typed_def page_init_def page_fetch_def page_ok_send page_ok_def)
next
  case (clicked p ev)
  then show ?case
    using page_ok_step [of p err t ev] by (cases ev) (auto simp: page_typed_fetch, auto simp: page_typed_def)
next
  case (answered p i q res)
  let ?p = "p\<lparr>pg_pending := filter (\<lambda>q. fst q \<noteq> i) (pg_pending p)\<rparr>"
  have p: "page_typed t ?p" using answered.IH page_typed_drop by blast
  have m: "(i, q) \<in> set (pg_pending p)" using answered(2) by (rule map_of_SomeD)
  have "page_typed t (answer err t i (Inr res) p)"
  proof (cases q)
    case AskInfo
    then have "port_field t \<noteq> None" using m answered.IH by (force simp: page_typed_def)
    then show ?thesis using answered(2,3) AskInfo info_typed [OF p] by (auto simp: answer_def elim!: server_replyE)
  next
    case (AskList port host)
    then have "port_field t \<noteq> None \<Longrightarrow> has_ts port TNumber" using m answered.IH by (auto simp: page_typed_def)
    note l = list_typed [OF p assms(2) _ this]
    obtain order ck fmt now pm m where "distinct order" "res = fst (apiProxyByType ck fmt pjson now order t pm m)"
      using answered(3) unfolding AskList by (rule server_replyE(2))
    then show ?thesis using answered(2) AskList l [of order] by (simp add: answer_def)
  next
    case AskClear
    then show ?thesis
      using answered(2) p page_typed_fetch by (auto simp: answer_def on_clear_def Let_def split: prod.splits)
  qed
  then show ?case using answered.IH page_ok_step [of p err t "Answer i (Inr res)"] by simp
qed

text \<open>C6: The list pages are type sound. On a page that the server serves, with clicks and answers in any order,
  no promise is ever rejected, and every row has its declared types: strings, numbers and booleans where
  \<open>proxy.ts\<close> says so, except that \<open>clientVersion\<close> can be undefined, \<open>customDomains\<close> a list of strings and
  \<open>locations\<close> a list of strings or null.\<close>

theorem page_type_sound:
  assumes "page_served err pjson t p" and "t \<in> set row_types"
  shows "pg_rejections p = [] \<and> list_all (row_typed t) (pg_proxies p)"
  using page_typed_served [OF assms] by (simp add: page_typed_def)

theorem page_type_sound_witness:
  "list_all (row_typed ''tcp'') (pg_proxies (page_step (\<lambda>_. []) ''tcp'' (page_fetch ''tcp'' page_init)
     (Answer 0 (Inr (fst (apiProxyByType (fixed_clock 0) (\<lambda>_. []) (\<lambda>_ :: unit. JNull) 30 [''a''] ''tcp'' Map.empty mem_demo))))))"
proof -
  have "page_served (\<lambda>_. []) (\<lambda>_ :: unit. JNull) ''tcp'' (page_step (\<lambda>_. []) ''tcp'' (page_fetch ''tcp'' page_init)
     (Answer 0 (Inr (fst (apiProxyByType (fixed_clock 0) (\<lambda>_. []) (\<lambda>_ :: unit. JNull) 30 [''a''] ''tcp'' Map.empty mem_demo)))))"
    by (rule answered [OF mounted, where q = "AskList JUndef JUndef"])
      (simp_all add: page_fetch_def page_init_def send_def port_field_def reply_list)
  from page_type_sound [OF this] show ?thesis by (simp add: row_types_def)
qed

text \<open>The exceptions occur: the row of a running http proxy shows its domains as a list, and a proxy without
  locations has null there.\<close>

theorem declared_string_fails:
  assumes "pm (px_Name ps) = Some pxy" and "rn_conf pxy = HTTPProxyConfig b d h" and "px_Type ps = ''http''"
    and "dm_CustomDomains d \<noteq> []" and "ht_Locations h = []"
    and "make_row ''http'' (proxy_info pjson pm ps) port host = Inr r"
  shows "bp_customDomains r = JArr (map JStr (dm_CustomDomains d)) \<and> bp_locations r = JNull"
proof -
  let ?c = "out_conf pjson ''http'' (rn_conf pxy)"
  have k: "''customDomains'' \<notin> base_keys" "''locations'' \<notin> base_keys" by (simp_all add: base_keys_def)
  have own: "map_of (own_json (rn_conf pxy)) ''customDomains'' = Some (JArr (map JStr (dm_CustomDomains d)))"
    "map_of (own_json (rn_conf pxy)) ''locations'' = None"
    using assms(4,5) by (simp_all add: assms(2) domain_json_def headers_json_def json_fields map_add_def)
  have c: "js_opt_get ?c ''customDomains'' = JArr (map JStr (dm_CustomDomains d))" "js_opt_get ?c ''locations'' = JNull" "js_truthy ?c"
    using own by (simp_all add: out_conf_def Let_def other_append k js_opt_get_obj map_add_def keep_field_lookup field_or_def base_json_other)
  have "js_opt_get (proxy_info pjson pm ps) ''conf'' = ?c" using assms(1,3) by (simp add: proxy_info_get(6))
  then show ?thesis
    using assms(6) c by (auto simp: make_row_simps HTTPProxy_def Let_def with_subdomain_def js_or_def split: sum.splits if_splits)
qed

end
