(* ===== verification/Go_Crypto.thy ===== *)
theory Go_Crypto
  imports Frp_Prelude "HOL-Library.Word"
begin

text \<open>
  The digest behind frp's authentication keys. \<open>util.GetAuthKey\<close> (pkg/util/util/util.go) and
  \<open>Session.genAnalysisKey\<close> (pkg/nathole/controller.go) hash with Go's \<open>crypto/md5\<close> and print with
  \<open>encoding/hex\<close>; both are written out here on 32-bit words, so that the keys of the model are the
  keys of the program.
\<close>

unbundle bit_operations_syntax

section \<open>MD5\<close>

type_synonym md5_state = "32 word \<times> 32 word \<times> 32 word \<times> 32 word"

definition md5_table :: "32 word list" where
  "md5_table =
    [0xd76aa478, 0xe8c7b756, 0x242070db, 0xc1bdceee, 0xf57c0faf, 0x4787c62a, 0xa8304613, 0xfd469501,
     0x698098d8, 0x8b44f7af, 0xffff5bb1, 0x895cd7be, 0x6b901122, 0xfd987193, 0xa679438e, 0x49b40821,
     0xf61e2562, 0xc040b340, 0x265e5a51, 0xe9b6c7aa, 0xd62f105d, 0x02441453, 0xd8a1e681, 0xe7d3fbc8,
     0x21e1cde6, 0xc33707d6, 0xf4d50d87, 0x455a14ed, 0xa9e3e905, 0xfcefa3f8, 0x676f02d9, 0x8d2a4c8a,
     0xfffa3942, 0x8771f681, 0x6d9d6122, 0xfde5380c, 0xa4beea44, 0x4bdecfa9, 0xf6bb4b60, 0xbebfbc70,
     0x289b7ec6, 0xeaa127fa, 0xd4ef3085, 0x04881d05, 0xd9d4d039, 0xe6db99e5, 0x1fa27cf8, 0xc4ac5665,
     0xf4292244, 0x432aff97, 0xab9423a7, 0xfc93a039, 0x655b59c3, 0x8f0ccc92, 0xffeff47d, 0x85845dd1,
     0x6fa87e4f, 0xfe2ce6e0, 0xa3014314, 0x4e0811a1, 0xf7537e82, 0xbd3af235, 0x2ad7d2bb, 0xeb86d391]"

definition md5_shifts :: "nat list" where
  "md5_shifts = [7, 12, 17, 22, 5, 9, 14, 20, 4, 11, 16, 23, 6, 10, 15, 21]"

definition md5_mix :: "nat \<Rightarrow> 32 word \<Rightarrow> 32 word \<Rightarrow> 32 word \<Rightarrow> 32 word" where
  "md5_mix i b c d =
     (if i < 16 then (b AND c) OR (NOT b AND d)
      else if i < 32 then (b AND d) OR (c AND NOT d)
      else if i < 48 then b XOR c XOR d
      else c XOR (b OR NOT d))"

definition md5_index :: "nat \<Rightarrow> nat" where
  "md5_index i =
     (if i < 16 then i
      else if i < 32 then (5 * i + 1) mod 16
      else if i < 48 then (3 * i + 5) mod 16
      else (7 * i) mod 16)"

definition md5_op :: "32 word list \<Rightarrow> nat \<Rightarrow> md5_state \<Rightarrow> md5_state" where
  "md5_op block i s =
     (case s of (a, b, c, d) \<Rightarrow>
        (d, b + word_rotl (md5_shifts ! (4 * (i div 16) + i mod 4))
               (a + md5_mix i b c d + md5_table ! i + block ! md5_index i), b, c))"

definition md5_block :: "md5_state \<Rightarrow> 32 word list \<Rightarrow> md5_state" where
  "md5_block s block =
     (case s of (a, b, c, d) \<Rightarrow>
      (case fold (md5_op block) [0..<64] s of (a', b', c', d') \<Rightarrow> (a + a', b + b', c + c', d + d')))"

text \<open>Words in little-endian byte order.\<close>

fun le_words :: "nat list \<Rightarrow> 32 word list" where
  "le_words (b0 # b1 # b2 # b3 # bs) =
     (of_nat b0 + 256 * of_nat b1 + 65536 * of_nat b2 + 16777216 * of_nat b3) # le_words bs"
| "le_words _ = []"

fun le_bytes :: "nat \<Rightarrow> int \<Rightarrow> nat list" where
  "le_bytes 0 n = []"
| "le_bytes (Suc k) n = nat (n mod 256) # le_bytes k (n div 256)"

definition md5_pad :: "nat list \<Rightarrow> nat list" where
  "md5_pad bs =
     (let n = length bs in
      bs @ 128 # replicate ((119 - n mod 64) mod 64) 0 @ le_bytes 8 (8 * int n))"

function md5_blocks :: "md5_state \<Rightarrow> 32 word list \<Rightarrow> md5_state" where
  "md5_blocks s ws = (if length ws < 16 then s else md5_blocks (md5_block s (take 16 ws)) (drop 16 ws))"
  by auto
termination by (relation "measure (\<lambda>(s, ws). length ws)") auto

declare md5_blocks.simps [simp del]

definition md5_sum :: "string \<Rightarrow> nat list" where
  "md5_sum s =
     (case md5_blocks (0x67452301, 0xefcdab89, 0x98badcfe, 0x10325476) (le_words (md5_pad (map of_char s))) of
        (a, b, c, d) \<Rightarrow> concat (map (\<lambda>w. le_bytes 4 (uint w)) [a, b, c, d]))"

section \<open>Hexadecimal\<close>

definition hex_digit :: "nat \<Rightarrow> char" where
  "hex_digit n = (if n < 10 then char_of (48 + n) else char_of (87 + n))"

definition hex_EncodeToString :: "nat list \<Rightarrow> string" where
  "hex_EncodeToString bs = concat (map (\<lambda>b. [hex_digit (b div 16), hex_digit (b mod 16)]) bs)"

definition md5_hex :: "string \<Rightarrow> string" where
  "md5_hex s = hex_EncodeToString (md5_sum s)"

section \<open>Shape of a key\<close>

lemma length_le_bytes [simp]: "length (le_bytes k n) = k"
  by (induction k arbitrary: n) auto

lemma length_md5_sum [simp]: "length (md5_sum s) = 16"
  by (simp add: md5_sum_def split: prod.split)

lemma length_hex [simp]: "length (hex_EncodeToString bs) = 2 * length bs"
  by (induction bs) (auto simp: hex_EncodeToString_def)

lemma length_md5_hex [simp]: "length (md5_hex s) = 32"
  by (simp add: md5_hex_def)

text \<open>The padded message is a whole number of blocks, so no byte of the message is left out.\<close>

lemma md5_pad_blocks: "length (md5_pad bs) mod 64 = 0 \<and> take (length bs) (md5_pad bs) = bs"
proof -
  define m where "m = length bs mod 64"
  have m: "m < 64" "length bs = 64 * (length bs div 64) + m" by (simp_all add: m_def)
  have e: "(m + 1 + (119 - m) mod 64 + 8) mod 64 = 0"
  proof (cases "m \<le> 55")
    case True
    then have "(119 - m) mod 64 = 55 - m" by (subst mod_if) auto
    then show ?thesis using True by simp
  next
    case False
    then have "(119 - m) mod 64 = 119 - m" using m by simp
    then show ?thesis using False m by simp
  qed
  have "length (md5_pad bs) = 64 * (length bs div 64) + (m + 1 + (119 - m) mod 64 + 8)"
    using m(2) by (simp add: md5_pad_def Let_def m_def [symmetric])
  then have "length (md5_pad bs) mod 64 = 0" using e by (metis mod_mult_self4)
  then show ?thesis by (simp add: md5_pad_def Let_def)
qed

text \<open>The digest of RFC 1321's first test: the tables above are the right ones.\<close>

lemma md5_hex_empty: "md5_hex [] = ''d41d8cd98f00b204e9800998ecf8427e''"
  by code_simp

end
