(* ===== verification/Auth.thy ===== *)
theory Auth
  imports Go_Crypto
begin

text \<open>
  Authentication of clients: \<open>pkg/auth\<close> and the key function of \<open>pkg/util/util/util.go\<close>. A setter
  fills the key of a message on the client, a verifier checks it on the server; the method is a shared
  token or OpenID Connect. The OpenID library is outside the repository. The client obtains a new token for every
  message: \<open>gen\<close> is the token of the call at hand, or nothing when it could not be had. On the server
  \<open>verify\<close> maps a raw token to its subject, or to nothing when the library rejects it; the library looks at the
  clock, so that what it accepts depends on the time, and the functions here are given the \<open>verify\<close> of the moment.
\<close>

section \<open>Keys and messages\<close>

definition GetAuthKey :: "string \<Rightarrow> int \<Rightarrow> string" where
  "GetAuthKey token timestamp = md5_hex (token @ int_to_string timestamp)"

definition GenerateResponseErrorString :: "string \<Rightarrow> string \<Rightarrow> bool \<Rightarrow> string" where
  "GenerateResponseErrorString summary err detailed = (if detailed then err else summary)"

record login_msg =
  lm_RunID :: string
  lm_User :: string
  lm_PoolCount :: int
  lm_Timestamp :: int
  lm_PrivilegeKey :: string
  lm_AlwaysAuthPass :: bool

record key_msg =
  km_Timestamp :: int
  km_PrivilegeKey :: string

record work_conn_msg = key_msg +
  wm_RunID :: string

section \<open>Setters\<close>

definition AuthScopeHeartBeats :: string where "AuthScopeHeartBeats = ''HeartBeats''"
definition AuthScopeNewWorkConns :: string where "AuthScopeNewWorkConns = ''NewWorkConns''"

datatype auth_error = LoginTokenMismatch | HeartbeatTokenMismatch | WorkConnTokenMismatch
  | InvalidOidcToken | DifferentOidcSubject | NoAccessToken | UnsupportedMethod

datatype auth_method = AuthMethodToken | AuthMethodOIDC | OtherMethod string

text \<open>The two OpenID setters differ in where their tokens come from only.\<close>

datatype auth_setter = TokenSetter "string list" string | OidcSetter "string list"

definition NewAuthSetter :: "auth_method \<Rightarrow> string list \<Rightarrow> string \<Rightarrow> auth_error + auth_setter" where
  "NewAuthSetter method scopes token =
     (case method of
        AuthMethodToken \<Rightarrow> Inr (TokenSetter scopes token)
      | AuthMethodOIDC \<Rightarrow> Inr (OidcSetter scopes)
      | OtherMethod _ \<Rightarrow> Inl UnsupportedMethod)"

fun SetLogin :: "string option \<Rightarrow> auth_setter \<Rightarrow> login_msg \<Rightarrow> auth_error + login_msg" where
  "SetLogin gen (TokenSetter scopes token) m = Inr (m\<lparr>lm_PrivilegeKey := GetAuthKey token (lm_Timestamp m)\<rparr>)"
| "SetLogin gen (OidcSetter scopes) m =
     (case gen of None \<Rightarrow> Inl NoAccessToken | Some t \<Rightarrow> Inr (m\<lparr>lm_PrivilegeKey := t\<rparr>))"

fun SetKey :: "string \<Rightarrow> int \<Rightarrow> string option \<Rightarrow> auth_setter \<Rightarrow> 'a key_msg_scheme \<Rightarrow> auth_error + 'a key_msg_scheme" where
  "SetKey scope now gen (TokenSetter scopes token) m =
     (if scope \<notin> set scopes then Inr m
      else Inr (m\<lparr>km_Timestamp := now, km_PrivilegeKey := GetAuthKey token now\<rparr>))"
| "SetKey scope now gen (OidcSetter scopes) m =
     (if scope \<notin> set scopes then Inr m
      else (case gen of None \<Rightarrow> Inl NoAccessToken | Some t \<Rightarrow> Inr (m\<lparr>km_PrivilegeKey := t\<rparr>)))"

definition SetPing :: "int \<Rightarrow> string option \<Rightarrow> auth_setter \<Rightarrow> key_msg \<Rightarrow> auth_error + key_msg" where
  "SetPing now gen a m = SetKey AuthScopeHeartBeats now gen a m"

definition SetNewWorkConn :: "int \<Rightarrow> string option \<Rightarrow> auth_setter \<Rightarrow> work_conn_msg \<Rightarrow> auth_error + work_conn_msg" where
  "SetNewWorkConn now gen a m = SetKey AuthScopeNewWorkConns now gen a m"

section \<open>Verifiers\<close>

text \<open>The OpenID verifier remembers the subjects of the logins it accepted; the others have no state.\<close>

datatype auth_verifier = TokenVerifier "string list" string | OidcVerifier "string list" "string list" | AlwaysPass

definition NewAuthVerifier :: "auth_method \<Rightarrow> string list \<Rightarrow> string \<Rightarrow> auth_verifier option" where
  "NewAuthVerifier method scopes token =
     (case method of
        AuthMethodToken \<Rightarrow> Some (TokenVerifier scopes token)
      | AuthMethodOIDC \<Rightarrow> Some (OidcVerifier scopes [])
      | OtherMethod _ \<Rightarrow> None)"

fun VerifyLogin ::
  "(string \<Rightarrow> string option) \<Rightarrow> login_msg \<Rightarrow> auth_verifier \<Rightarrow> auth_error option \<times> auth_verifier" where
  "VerifyLogin verify m (TokenVerifier scopes token) =
     (if GetAuthKey token (lm_Timestamp m) \<noteq> lm_PrivilegeKey m then (Some LoginTokenMismatch, TokenVerifier scopes token)
      else (None, TokenVerifier scopes token))"
| "VerifyLogin verify m (OidcVerifier scopes subjects) =
     (case verify (lm_PrivilegeKey m) of
        None \<Rightarrow> (Some InvalidOidcToken, OidcVerifier scopes subjects)
      | Some subject \<Rightarrow>
          (None, OidcVerifier scopes (if subject \<in> set subjects then subjects else subjects @ [subject])))"
| "VerifyLogin verify m AlwaysPass = (None, AlwaysPass)"

definition verifyPostLoginToken :: "(string \<Rightarrow> string option) \<Rightarrow> string list \<Rightarrow> string \<Rightarrow> auth_error option" where
  "verifyPostLoginToken verify subjects key =
     (case verify key of
        None \<Rightarrow> Some InvalidOidcToken
      | Some subject \<Rightarrow> if subject \<notin> set subjects then Some DifferentOidcSubject else None)"

fun VerifyKey ::
  "string \<Rightarrow> auth_error \<Rightarrow> (string \<Rightarrow> string option) \<Rightarrow> 'a key_msg_scheme \<Rightarrow> auth_verifier \<Rightarrow> auth_error option" where
  "VerifyKey scope mismatch verify m (TokenVerifier scopes token) =
     (if scope \<notin> set scopes then None
      else if GetAuthKey token (km_Timestamp m) \<noteq> km_PrivilegeKey m then Some mismatch
      else None)"
| "VerifyKey scope mismatch verify m (OidcVerifier scopes subjects) =
     (if scope \<notin> set scopes then None else verifyPostLoginToken verify subjects (km_PrivilegeKey m))"
| "VerifyKey scope mismatch verify m AlwaysPass = None"

definition VerifyPing :: "(string \<Rightarrow> string option) \<Rightarrow> key_msg \<Rightarrow> auth_verifier \<Rightarrow> auth_error option" where
  "VerifyPing verify m a = VerifyKey AuthScopeHeartBeats HeartbeatTokenMismatch verify m a"

definition VerifyNewWorkConn ::
  "(string \<Rightarrow> string option) \<Rightarrow> work_conn_msg \<Rightarrow> auth_verifier \<Rightarrow> auth_error option" where
  "VerifyNewWorkConn verify m a = VerifyKey AuthScopeNewWorkConns WorkConnTokenMismatch verify m a"

section \<open>The interface of a setter and its verifier\<close>

text \<open>What a client relies on: what its setter makes of a message the verifier of the server accepts, and
  the logins of others do not change that. \<open>agree\<close> relates the settings of the two sides, \<open>covers\<close>
  says that the setter fills in the key of a scope whenever the verifier asks for it; \<open>valid\<close> says that a login with
  the token of the client is good at a time, and \<open>same\<close> that a later token, at its time, is as good as that of
  the login.\<close>

locale auth_pair =
  fixes set_login :: "'g \<Rightarrow> 's \<Rightarrow> login_msg \<Rightarrow> auth_error + login_msg"
    and set_key :: "string \<Rightarrow> int \<Rightarrow> 'g \<Rightarrow> 's \<Rightarrow> 'm \<Rightarrow> auth_error + 'm"
    and verify_login :: "'t \<Rightarrow> login_msg \<Rightarrow> 'v \<Rightarrow> auth_error option \<times> 'v"
    and verify_key :: "string \<Rightarrow> 't \<Rightarrow> 'm \<Rightarrow> 'v \<Rightarrow> auth_error option"
    and agree :: "'s \<Rightarrow> 'v \<Rightarrow> bool"
    and covers :: "string \<Rightarrow> 's \<Rightarrow> 'v \<Rightarrow> bool"
    and valid :: "'s \<Rightarrow> 't \<Rightarrow> 'g \<Rightarrow> bool"
    and same :: "'s \<Rightarrow> 't \<Rightarrow> 'g \<Rightarrow> 't \<Rightarrow> 'g \<Rightarrow> bool"
  assumes login_accepted: "agree a v \<Longrightarrow> valid a t g \<Longrightarrow> set_login g a m = Inr m' \<Longrightarrow> fst (verify_login t m' v) = None"
    and login_agree: "agree a v \<Longrightarrow> agree a (snd (verify_login t l v))"
    and login_covers: "covers scope a v \<Longrightarrow> covers scope a (snd (verify_login t l v))"
    and key_accepted: "agree a v \<Longrightarrow> covers scope a v \<Longrightarrow> valid a t g \<Longrightarrow> same a t g t' g' \<Longrightarrow> set_login g a m = Inr m' \<Longrightarrow>
          set_key scope now g' a k = Inr k' \<Longrightarrow> verify_key scope t' k' (snd (verify_login t m' v)) = None"
    and key_stays: "verify_key scope t k v = None \<Longrightarrow> verify_key scope t k (snd (verify_login t' l v)) = None"
begin

text \<open>The verifier after a sequence of logins, accepted or not, each at its time.\<close>

definition after_logins :: "('t \<times> login_msg) list \<Rightarrow> 'v \<Rightarrow> 'v" where
  "after_logins ls v = foldl (\<lambda>v l. snd (verify_login (fst l) (snd l) v)) v ls"

lemma after_logins_agree: "agree a v \<Longrightarrow> agree a (after_logins ls v)"
  by (induction ls arbitrary: v) (auto simp: after_logins_def login_agree)

lemma after_logins_covers: "covers scope a v \<Longrightarrow> covers scope a (after_logins ls v)"
  by (induction ls arbitrary: v) (auto simp: after_logins_def login_covers)

lemma after_logins_key: "verify_key scope t k v = None \<Longrightarrow> verify_key scope t k (after_logins ls v) = None"
  by (induction ls arbitrary: v) (auto simp: after_logins_def key_stays)

text \<open>A client that agrees with the server logs in, and its later messages are accepted, whoever logs in
  before and in between.\<close>

lemma session_accepted:
  assumes "agree a v" and "covers scope a v" and "valid a t g" and "same a t g t' g'"
    and "set_login g a m = Inr m'" and "set_key scope now g' a k = Inr k'"
  shows "fst (verify_login t m' (after_logins ls v)) = None \<and>
    verify_key scope t' k' (after_logins ls' (snd (verify_login t m' (after_logins ls v)))) = None"
  using login_accepted [OF after_logins_agree [OF assms(1)] assms(3,5)]
    after_logins_key [OF key_accepted [OF after_logins_agree [OF assms(1)] after_logins_covers [OF assms(2)] assms(3-6)]]
  by blast

end

fun auth_agree :: "auth_setter \<Rightarrow> auth_verifier \<Rightarrow> bool" where
  "auth_agree (TokenSetter scopes token) (TokenVerifier scopes' token') = (token = token')"
| "auth_agree (OidcSetter scopes) (OidcVerifier scopes' subjects) = True"
| "auth_agree a AlwaysPass = True"
| "auth_agree a v = False"

fun setter_scopes :: "auth_setter \<Rightarrow> string set" where
  "setter_scopes (TokenSetter scopes token) = set scopes"
| "setter_scopes (OidcSetter scopes) = set scopes"

fun verifier_scopes :: "auth_verifier \<Rightarrow> string set" where
  "verifier_scopes (TokenVerifier scopes token) = set scopes"
| "verifier_scopes (OidcVerifier scopes subjects) = set scopes"
| "verifier_scopes AlwaysPass = {}"

definition auth_covers :: "string \<Rightarrow> auth_setter \<Rightarrow> auth_verifier \<Rightarrow> bool" where
  "auth_covers scope a v = (scope \<in> verifier_scopes v \<longrightarrow> scope \<in> setter_scopes a)"

text \<open>With OpenID, the library has to accept the token of the login at the time of the login, and the token of a later
  message, if there is one, at the time of that message and with the same subject.\<close>

fun token_valid :: "(int \<Rightarrow> string \<Rightarrow> string option) \<Rightarrow> auth_setter \<Rightarrow> int \<Rightarrow> string option \<Rightarrow> bool" where
  "token_valid verify (TokenSetter scopes token) t gen = True"
| "token_valid verify (OidcSetter scopes) t gen = (case gen of None \<Rightarrow> True | Some x \<Rightarrow> verify t x \<noteq> None)"

fun token_same :: "(int \<Rightarrow> string \<Rightarrow> string option) \<Rightarrow> auth_setter \<Rightarrow> int \<Rightarrow> string option \<Rightarrow> int \<Rightarrow> string option \<Rightarrow> bool" where
  "token_same verify (TokenSetter scopes token) t gen t' gen' = True"
| "token_same verify (OidcSetter scopes) t gen t' gen' =
     (case (gen, gen') of (Some x, Some y) \<Rightarrow> verify t' y = verify t x | _ \<Rightarrow> True)"

lemma verifier_scopes_login: "verifier_scopes (snd (VerifyLogin verify l v)) = verifier_scopes v"
  by (cases v) (auto split: option.splits)

lemma key_stays_accepted:
  "VerifyKey scope e verify k v = None \<Longrightarrow> VerifyKey scope e verify k (snd (VerifyLogin verify' l v)) = None"
  by (cases v) (auto simp: verifyPostLoginToken_def split: option.splits if_splits)

lemma login_then_key:
  assumes "auth_agree a v" and "auth_covers scope a v" and "token_valid verify a t g" and "token_same verify a t g t' g'"
    and "SetLogin g a m = Inr m'" and "SetKey scope now g' a k = Inr k'"
  shows "VerifyKey scope e (verify t') k' (snd (VerifyLogin (verify t) m' v)) = None"
  using assms
  by (cases a; cases v) (auto simp: auth_covers_def verifyPostLoginToken_def split: option.splits if_splits)

interpretation auth: auth_pair SetLogin SetKey "\<lambda>t. VerifyLogin (verify t)" "\<lambda>scope t m v. VerifyKey scope e (verify t) m v"
  auth_agree auth_covers "token_valid verify" "token_same verify" for verify e
proof unfold_locales
  show "fst (VerifyLogin (verify t) m' v) = None" if "auth_agree a v" "token_valid verify a t g" "SetLogin g a m = Inr m'" for a v t g m m'
    using that by (cases a; cases v) (auto split: option.splits)
  show "auth_agree a (snd (VerifyLogin (verify t) l v))" if "auth_agree a v" for a v t l
    using that by (cases a; cases v) (auto split: option.splits)
qed (auto simp: auth_covers_def verifier_scopes_login key_stays_accepted intro: login_then_key)

section \<open>Properties\<close>

text \<open>C28: A client whose token is the server's, or whose OpenID tokens, a new one for every message, are each accepted
  by the library at the time the server checks them and have one subject, and whose extra scopes include the
  server's, logs in, and its pings and work connections are accepted, whatever logins the server handles before
  and in between, and however long after the login they come.\<close>

theorem auth_session_accepted:
  assumes "auth_agree a v"
    and "auth_covers AuthScopeHeartBeats a v" and "auth_covers AuthScopeNewWorkConns a v"
    and "token_valid verify a t gl" and "token_same verify a t gl t1 gp" and "token_same verify a t gl t2 gw"
    and "SetLogin gl a m = Inr m'" and "SetPing now1 gp a p = Inr p'" and "SetNewWorkConn now2 gw a w = Inr w'"
  shows "\<exists>v'. VerifyLogin (verify t) m' (foldl (\<lambda>v l. snd (VerifyLogin (verify (fst l)) (snd l) v)) v ls) = (None, v') \<and>
    VerifyPing (verify t1) p' (foldl (\<lambda>v l. snd (VerifyLogin (verify (fst l)) (snd l) v)) v' ls') = None \<and>
    VerifyNewWorkConn (verify t2) w' (foldl (\<lambda>v l. snd (VerifyLogin (verify (fst l)) (snd l) v)) v' ls') = None"
  using auth.session_accepted [OF assms(1,2,4,5,7) assms(8) [unfolded SetPing_def], where e = HeartbeatTokenMismatch and ls = ls and ls' = ls']
    auth.session_accepted [OF assms(1,3,4,6,7) assms(9) [unfolded SetNewWorkConn_def], where e = WorkConnTokenMismatch and ls = ls and ls' = ls']
  by (auto simp: auth.after_logins_def VerifyPing_def VerifyNewWorkConn_def prod_eq_iff)

text \<open>A provider whose tokens expire: the first one has expired when the client pings with the second one.\<close>

definition demo_provider :: "int \<Rightarrow> string \<Rightarrow> string option" where
  "demo_provider t x = (if x = ''one'' \<and> t < 60 \<or> x = ''two'' \<and> t < 200 then Some ''bob'' else None)"

theorem auth_session_accepted_witness:
  fixes a v m p w
  defines "a \<equiv> OidcSetter [AuthScopeHeartBeats, AuthScopeNewWorkConns]" and "v \<equiv> OidcVerifier [AuthScopeHeartBeats, AuthScopeNewWorkConns] []"
    and "m \<equiv> \<lparr>lm_RunID = [], lm_User = [], lm_PoolCount = 0, lm_Timestamp = 5, lm_PrivilegeKey = [], lm_AlwaysAuthPass = False\<rparr>"
    and "p \<equiv> \<lparr>km_Timestamp = 0, km_PrivilegeKey = []\<rparr>" and "w \<equiv> \<lparr>km_Timestamp = 0, km_PrivilegeKey = [], wm_RunID = ''r''\<rparr>"
  shows "demo_provider 100 ''one'' = None \<and>
    (\<exists>m' p' w' v'. SetLogin (Some ''one'') a m = Inr m' \<and> SetPing 100 (Some ''two'') a p = Inr p' \<and>
       SetNewWorkConn 100 (Some ''two'') a w = Inr w' \<and> VerifyLogin (demo_provider 10) m' v = (None, v') \<and>
       VerifyPing (demo_provider 100) p' v' = None \<and> VerifyNewWorkConn (demo_provider 100) w' v' = None) \<and>
    (\<exists>m' p' w' v'. SetLogin None (TokenSetter [AuthScopeHeartBeats] ''t'') m = Inr m' \<and>
       SetPing 9 None (TokenSetter [AuthScopeHeartBeats] ''t'') p = Inr p' \<and>
       SetNewWorkConn 9 None (TokenSetter [AuthScopeHeartBeats] ''t'') w = Inr w' \<and>
       VerifyLogin (demo_provider 0) m' (TokenVerifier [AuthScopeHeartBeats] ''t'') = (None, v') \<and>
       VerifyPing (demo_provider 9) p' v' = None \<and> VerifyNewWorkConn (demo_provider 9) w' v' = None)"
proof (intro conjI)
  show "demo_provider 100 ''one'' = None" by (simp add: demo_provider_def)
  have tok: "token_valid demo_provider a 10 (Some ''one'')" "token_same demo_provider a 10 (Some ''one'') 100 (Some ''two'')"
    by (simp_all add: a_def demo_provider_def)
  have a: "auth_agree a v" "auth_covers scope a v" for scope by (simp_all add: a_def v_def auth_covers_def)
  obtain m' p' w' where "SetLogin (Some ''one'') a m = Inr m'" "SetPing 100 (Some ''two'') a p = Inr p'" "SetNewWorkConn 100 (Some ''two'') a w = Inr w'"
    by (simp add: a_def SetPing_def SetNewWorkConn_def)
  from auth_session_accepted [OF a(1) a(2) a(2) tok(1) tok(2) tok(2) this, of "[]" "[]"] this
  show "\<exists>m' p' w' v'. SetLogin (Some ''one'') a m = Inr m' \<and> SetPing 100 (Some ''two'') a p = Inr p' \<and>
       SetNewWorkConn 100 (Some ''two'') a w = Inr w' \<and> VerifyLogin (demo_provider 10) m' v = (None, v') \<and>
       VerifyPing (demo_provider 100) p' v' = None \<and> VerifyNewWorkConn (demo_provider 100) w' v' = None" by auto
next
  let ?a = "TokenSetter [AuthScopeHeartBeats] ''t''" and ?v = "TokenVerifier [AuthScopeHeartBeats] ''t''"
  have a: "auth_agree ?a ?v" "auth_covers scope ?a ?v" "token_valid demo_provider ?a 0 None" "token_same demo_provider ?a 0 None 9 None" for scope
    by (simp_all add: auth_covers_def)
  obtain m' p' w' where "SetLogin None ?a m = Inr m'" "SetPing 9 None ?a p = Inr p'" "SetNewWorkConn 9 None ?a w = Inr w'"
    by (simp add: SetPing_def SetNewWorkConn_def AuthScopeHeartBeats_def AuthScopeNewWorkConns_def)
  from auth_session_accepted [OF a(1) a(2) a(2) a(3) a(4) a(4) this, of "[]" "[]"] this
  show "\<exists>m' p' w' v'. SetLogin None ?a m = Inr m' \<and> SetPing 9 None ?a p = Inr p' \<and> SetNewWorkConn 9 None ?a w = Inr w' \<and>
       VerifyLogin (demo_provider 0) m' ?v = (None, v') \<and> VerifyPing (demo_provider 9) p' v' = None \<and>
       VerifyNewWorkConn (demo_provider 9) w' v' = None" by auto
qed

text \<open>The OpenID verifier accepts a ping that must carry a token exactly when the library accepts the token at that
  time and its subject is that of some login that was accepted, at its time, before; other logins do not count.\<close>

theorem oidc_ping_subject:
  assumes "AuthScopeHeartBeats \<in> set scopes"
  shows "VerifyPing (verify t) p (foldl (\<lambda>v l. snd (VerifyLogin (verify (fst l)) (snd l) v)) (OidcVerifier scopes []) ls) = None \<longleftrightarrow>
    (\<exists>l \<in> set ls. verify (fst l) (lm_PrivilegeKey (snd l)) \<noteq> None \<and> verify (fst l) (lm_PrivilegeKey (snd l)) = verify t (km_PrivilegeKey p))"
proof -
  have run: "\<exists>subjects. foldl (\<lambda>v l. snd (VerifyLogin (verify (fst l)) (snd l) v)) (OidcVerifier scopes ss) ls = OidcVerifier scopes subjects \<and>
      set subjects = set ss \<union> {s. \<exists>l \<in> set ls. verify (fst l) (lm_PrivilegeKey (snd l)) = Some s}" for ss
  proof (induction ls arbitrary: ss)
    case (Cons l ls)
    show ?case
    proof (cases "verify (fst l) (lm_PrivilegeKey (snd l))")
      case None
      then show ?thesis using Cons [of ss] by auto
    next
      case (Some s)
      then show ?thesis using Cons [of "if s \<in> set ss then ss else ss @ [s]"] by auto
    qed
  qed simp
  from run [of "[]"] show ?thesis
    using assms by (cases "verify t (km_PrivilegeKey p)") (fastforce simp: VerifyPing_def verifyPostLoginToken_def split: if_splits)+
qed

end
