(* ===== verification/Client_Health.thy ===== *)
theory Client_Health
  imports Proxy_Config "HOL-Library.Word"
begin

text \<open>
  Health checks of the client, \<open>client/health/health.go\<close>: the settings of a monitor and one round of its
  worker. Dialling and the HTTP request are parameters: \<open>dial addr\<close> says whether a connection can be
  opened, \<open>http_get url\<close> is the status code of the answer, nothing when there is none.
\<close>

section \<open>The monitor\<close>

record monitor =
  mo_checkType :: string
  mo_interval :: int
  mo_timeout :: int
  mo_maxFailedTimes :: int
  mo_addr :: string
  mo_url :: string
  mo_header :: string_map
  mo_failedTimes :: "64 word"
  mo_statusOK :: bool

text \<open>\<open>mo_header\<close> has the calls of \<open>header.Set\<close> in order; the checks only pass the header on.\<close>

definition second_ns :: int where "second_ns = 1000000000"

definition NewMonitor :: "health_check \<Rightarrow> string \<Rightarrow> monitor" where
  "NewMonitor cfg addr =
     (let interval = (if hk_IntervalSeconds cfg \<le> 0 then 10 else hk_IntervalSeconds cfg);
          timeout = (if hk_TimeoutSeconds cfg \<le> 0 then 3 else hk_TimeoutSeconds cfg);
          maxFailed = (if hk_MaxFailed cfg \<le> 0 then 1 else hk_MaxFailed cfg);
          url = (if hk_Type cfg = ''http'' \<and> hk_Path cfg \<noteq> []
                 then ''http://'' @ addr @ (if \<not> has_prefix (hk_Path cfg) ''/'' then ''/'' else []) @ hk_Path cfg else [])
      in \<lparr>mo_checkType = hk_Type cfg, mo_interval = interval * second_ns, mo_timeout = timeout * second_ns,
          mo_maxFailedTimes = maxFailed, mo_addr = addr, mo_url = url,
          mo_header = hk_HTTPHeaders cfg, mo_failedTimes = 0, mo_statusOK = False\<rparr>)"

definition doTCPCheck :: "(string \<Rightarrow> bool) \<Rightarrow> monitor \<Rightarrow> bool" where
  "doTCPCheck dial m = (mo_addr m = [] \<or> dial (mo_addr m))"

definition doHTTPCheck :: "(string \<Rightarrow> int option) \<Rightarrow> monitor \<Rightarrow> bool" where
  "doHTTPCheck http_get m = (case http_get (mo_url m) of None \<Rightarrow> False | Some code \<Rightarrow> code div 100 = 2)"

text \<open>Whether the check succeeds; an unknown type is an error.\<close>

definition doCheck :: "(string \<Rightarrow> bool) \<Rightarrow> (string \<Rightarrow> int option) \<Rightarrow> monitor \<Rightarrow> bool" where
  "doCheck dial http_get m =
     (if mo_checkType m = ''tcp'' then doTCPCheck dial m
      else if mo_checkType m = ''http'' then doHTTPCheck http_get m
      else False)"

text \<open>One round of \<open>checkWorker\<close>: which callback it calls, if any.\<close>

datatype callback = StatusNormal | StatusFailed

definition monitor_round :: "bool \<Rightarrow> monitor \<Rightarrow> callback option \<times> monitor" where
  "monitor_round ok m =
     (if ok then
        (if \<not> mo_statusOK m then (Some StatusNormal, m\<lparr>mo_statusOK := True\<rparr>) else (None, m))
      else
        (let m' = m\<lparr>mo_failedTimes := mo_failedTimes m + 1\<rparr> in
         if mo_statusOK m' \<and> mo_maxFailedTimes m' \<le> sint (mo_failedTimes m')
         then (Some StatusFailed, m'\<lparr>mo_statusOK := False\<rparr>) else (None, m')))"

fun monitor_run :: "bool list \<Rightarrow> monitor \<Rightarrow> callback list \<times> monitor" where
  "monitor_run [] m = ([], m)"
| "monitor_run (ok # oks) m =
     (case monitor_round ok m of
        (c, m') \<Rightarrow> (case monitor_run oks m' of (cs, m'') \<Rightarrow> ((case c of None \<Rightarrow> [] | Some x \<Rightarrow> [x]) @ cs, m'')))"

section \<open>Lemmas\<close>

text \<open>The callbacks alternate, a monitor starts with success.\<close>

fun alternates :: "callback \<Rightarrow> callback list \<Rightarrow> bool" where
  "alternates c [] = True"
| "alternates c (x # xs) = (x = c \<and> alternates (if c = StatusNormal then StatusFailed else StatusNormal) xs)"

definition next_callback :: "monitor \<Rightarrow> callback" where
  "next_callback m = (if mo_statusOK m then StatusFailed else StatusNormal)"

lemma monitor_run_alternates: "alternates (next_callback m) (fst (monitor_run oks m))"
proof (induction oks arbitrary: m)
  case (Cons ok oks)
  obtain c m' where r: "monitor_round ok m = (c, m')" by fastforce
  have "(c = None \<and> next_callback m' = next_callback m) \<or>
      (c = Some (next_callback m) \<and> next_callback m' = (if next_callback m = StatusNormal then StatusFailed else StatusNormal))"
    using r by (auto simp: monitor_round_def next_callback_def Let_def split: if_splits)
  with Cons.IH [of m'] r show ?case by (auto split: prod.splits)
qed simp

lemma monitor_run_counts:
  "mo_failedTimes (snd (monitor_run oks m)) = mo_failedTimes m + of_nat (length (filter Not oks)) \<and>
   mo_maxFailedTimes (snd (monitor_run oks m)) = mo_maxFailedTimes m"
proof (induction oks arbitrary: m)
  case (Cons ok oks)
  obtain c m' where r: "monitor_round ok m = (c, m')" by fastforce
  have "mo_failedTimes m' = mo_failedTimes m + (if ok then 0 else 1)" "mo_maxFailedTimes m' = mo_maxFailedTimes m"
    using r by (auto simp: monitor_round_def Let_def split: if_splits)
  with Cons.IH [of m'] r show ?case by (auto split: prod.splits)
qed simp

lemma monitor_run_append:
  "monitor_run (xs @ ys) m = (fst (monitor_run xs m) @ fst (monitor_run ys (snd (monitor_run xs m))), snd (monitor_run ys (snd (monitor_run xs m))))"
  by (induction xs arbitrary: m) (auto split: prod.splits)

section \<open>Properties\<close>

text \<open>The failures are counted over the whole life of a monitor and not since the last success: once it has
  seen as many failures as allowed, at any time and however far apart, every single failure of a service
  that was healthy takes the proxy down, until the counter passes the signed range.\<close>

theorem health_failures_accumulate:
  assumes "m = NewMonitor cfg addr" and "hk_MaxFailed cfg \<le> int (length (filter Not oks)) + 1"
    and "length (filter Not oks) < 2 ^ 62"
  shows "last (fst (monitor_run (oks @ [True, False]) m)) = StatusFailed \<and>
    mo_statusOK (snd (monitor_run (oks @ [True, False]) m)) = False"
proof -
  define m1 where "m1 = snd (monitor_run oks m)"
  define m2 where "m2 = snd (monitor_round True m1)"
  let ?n = "length (filter Not oks)"
  have m1: "mo_failedTimes m1 = of_nat ?n" "mo_maxFailedTimes m1 = (if hk_MaxFailed cfg \<le> 0 then 1 else hk_MaxFailed cfg)"
    using monitor_run_counts [of oks m] by (simp_all add: m1_def assms(1) NewMonitor_def Let_def)
  have m2: "mo_failedTimes m2 = mo_failedTimes m1" "mo_maxFailedTimes m2 = mo_maxFailedTimes m1" "mo_statusOK m2"
    by (simp_all add: m2_def monitor_round_def)
  have "sint (mo_failedTimes m2 + 1) = int ?n + 1"
  proof -
    have w: "mo_failedTimes m2 + 1 = word_of_int (int ?n + 1)" by (simp add: m1(1) m2(1))
    show ?thesis unfolding w sint_sbintrunc' using assms(3) by (intro signed_take_bit_int_eq_self) simp_all
  qed
  then have "monitor_round False m2 = (Some StatusFailed, m2\<lparr>mo_failedTimes := mo_failedTimes m2 + 1, mo_statusOK := False\<rparr>)"
    using m1(2) m2(2,3) assms(2) by (simp add: monitor_round_def Let_def)
  moreover obtain c where "monitor_round True m1 = (c, m2)" by (simp add: m2_def prod_eq_iff)
  ultimately have "monitor_run [True, False] m1 =
      ((case c of None \<Rightarrow> [] | Some x \<Rightarrow> [x]) @ [StatusFailed], m2\<lparr>mo_failedTimes := mo_failedTimes m2 + 1, mo_statusOK := False\<rparr>)"
    by simp
  then show ?thesis by (simp add: monitor_run_append m1_def [symmetric])
qed

theorem health_failures_accumulate_witness:
  "last (fst (monitor_run ([True, False, True, False, True] @ [True, False])
     (NewMonitor (health_check0\<lparr>hk_Type := ''tcp'', hk_MaxFailed := 3\<rparr>) ''127.0.0.1:80''))) = StatusFailed"
  using health_failures_accumulate [OF refl, of "health_check0\<lparr>hk_Type := ''tcp'', hk_MaxFailed := 3\<rparr>"
      "[True, False, True, False, True]" "''127.0.0.1:80''"] by simp

end
