(* ===== verification/Client_Proxy.thy ===== *)
theory Client_Proxy
  imports Client_Health
begin

text \<open>
  The proxies of a client: the state machine of one proxy (\<open>client/proxy/proxy_wrapper.go\<close>) and the manager
  that keeps them in step with the configuration (\<open>client/proxy/proxy_manager.go\<close>). Each method holds
  the lock of the wrapper or of the manager, so it is one function; what it sends to the server is a list
  of messages. The outcome of \<open>pxy.Run\<close> is an argument, nothing for success.
\<close>

section \<open>The wrapper\<close>

datatype phase = PhaseNew | PhaseWaitStart | PhaseStartErr | PhaseRunning | PhaseCheckFailed | PhaseClosed

fun phase_string :: "phase \<Rightarrow> string" where
  "phase_string PhaseNew = ''new''"
| "phase_string PhaseWaitStart = ''wait start''"
| "phase_string PhaseStartErr = ''start error''"
| "phase_string PhaseRunning = ''running''"
| "phase_string PhaseCheckFailed = ''check failed''"
| "phase_string PhaseClosed = ''closed''"

definition waitResponseTimeout :: int where "waitResponseTimeout = 20 * second_ns"
definition startErrTimeout :: int where "startErrTimeout = 30 * second_ns"

datatype client_msg = MsgNewProxy new_proxy | MsgCloseProxy string

record 'p working_status =
  ws_Name :: string
  ws_Type :: string
  ws_Phase :: phase
  ws_Err :: string
  ws_Cfg :: "'p proxy_config"
  ws_RemoteAddr :: string

text \<open>\<open>pw_failed\<close> is the field \<open>health\<close>: 1 for failed.\<close>

record 'p wrapper = "'p working_status" +
  pw_monitor :: "monitor option"
  pw_failed :: bool
  pw_lastSendStartMsg :: int
  pw_lastStartErr :: int

definition NewWrapper :: "'p proxy_config \<Rightarrow> 'p wrapper" where
  "NewWrapper cfg =
     (let b = GetBaseConfig cfg; check = hk_Type (pb_HealthCheck b) \<noteq> [] \<and> 0 < pb_LocalPort b in
      \<lparr>ws_Name = pb_Name b, ws_Type = pb_Type b, ws_Phase = PhaseNew, ws_Err = [], ws_Cfg = cfg, ws_RemoteAddr = [],
       pw_monitor = (if check
         then Some (NewMonitor (pb_HealthCheck b) (JoinHostPort (pb_LocalIP b) (int_to_string (pb_LocalPort b)))) else None),
       pw_failed = check, pw_lastSendStartMsg = 0, pw_lastStartErr = 0\<rparr>)"

datatype status_error = NotWaitStart | RespError string | RunError string

definition SetRunningStatus ::
  "int \<Rightarrow> string option \<Rightarrow> string \<Rightarrow> string \<Rightarrow> 'p wrapper \<Rightarrow> status_error option \<times> client_msg list \<times> 'p wrapper" where
  "SetRunningStatus now run remoteAddr respErr pw =
     (if ws_Phase pw \<noteq> PhaseWaitStart then (Some NotWaitStart, [], pw)
      else
        (let pw1 = pw\<lparr>ws_RemoteAddr := remoteAddr\<rparr> in
         if respErr \<noteq> [] then
           (Some (RespError respErr), [], pw1\<lparr>ws_Phase := PhaseStartErr, ws_Err := respErr, pw_lastStartErr := now\<rparr>)
         else
           (case run of
              Some err \<Rightarrow> (Some (RunError err), [MsgCloseProxy (ws_Name pw)],
                           pw1\<lparr>ws_Phase := PhaseStartErr, ws_Err := err, pw_lastStartErr := now\<rparr>)
            | None \<Rightarrow> (None, [], pw1\<lparr>ws_Phase := PhaseRunning, ws_Err := []\<rparr>))))"

text \<open>One round of \<open>checkWorker\<close>.\<close>

definition wrapper_check :: "int \<Rightarrow> 'p wrapper \<Rightarrow> client_msg list \<times> 'p wrapper" where
  "wrapper_check now pw =
     (if \<not> pw_failed pw then
        (if ws_Phase pw = PhaseNew \<or> ws_Phase pw = PhaseCheckFailed \<or>
            (ws_Phase pw = PhaseWaitStart \<and> pw_lastSendStartMsg pw + waitResponseTimeout < now) \<or>
            (ws_Phase pw = PhaseStartErr \<and> pw_lastStartErr pw + startErrTimeout < now)
         then ([MsgNewProxy (MarshalToMsg (ws_Cfg pw) new_proxy0)],
               pw\<lparr>ws_Phase := PhaseWaitStart, pw_lastSendStartMsg := now\<rparr>)
         else ([], pw))
      else
        (if ws_Phase pw = PhaseRunning \<or> ws_Phase pw = PhaseWaitStart
         then ([MsgCloseProxy (ws_Name pw)], pw\<lparr>ws_Phase := PhaseCheckFailed\<rparr>)
         else ([], pw)))"

definition statusNormalCallback :: "'p wrapper \<Rightarrow> 'p wrapper" where
  "statusNormalCallback pw = pw\<lparr>pw_failed := False\<rparr>"

definition statusFailedCallback :: "'p wrapper \<Rightarrow> 'p wrapper" where
  "statusFailedCallback pw = pw\<lparr>pw_failed := True\<rparr>"

text \<open>A round of the monitor of the wrapper, with its callback.\<close>

definition wrapper_monitor :: "bool \<Rightarrow> 'p wrapper \<Rightarrow> 'p wrapper" where
  "wrapper_monitor ok pw =
     (case pw_monitor pw of
        None \<Rightarrow> pw
      | Some m \<Rightarrow>
          (case monitor_round ok m of
             (c, m') \<Rightarrow>
               (let pw' = pw\<lparr>pw_monitor := Some m'\<rparr> in
                case c of None \<Rightarrow> pw' | Some StatusNormal \<Rightarrow> statusNormalCallback pw'
                | Some StatusFailed \<Rightarrow> statusFailedCallback pw')))"

definition wrapper_Stop :: "'p wrapper \<Rightarrow> client_msg list \<times> 'p wrapper" where
  "wrapper_Stop pw = ([MsgCloseProxy (ws_Name pw)], pw\<lparr>ws_Phase := PhaseClosed, pw_monitor := None\<rparr>)"

text \<open>Whether a work connection is passed to the proxy; otherwise it is closed.\<close>

definition InWorkConn :: "'p wrapper \<Rightarrow> bool" where
  "InWorkConn pw = (ws_Phase pw = PhaseRunning)"

definition GetStatus :: "'p wrapper \<Rightarrow> 'p working_status" where
  "GetStatus pw = \<lparr>ws_Name = ws_Name pw, ws_Type = ws_Type pw, ws_Phase = ws_Phase pw, ws_Err = ws_Err pw,
     ws_Cfg = ws_Cfg pw, ws_RemoteAddr = ws_RemoteAddr pw\<rparr>"

section \<open>The wrapper as a machine\<close>

text \<open>What can happen to a wrapper, in any order: an answer of the server, a round of the worker, a round of the
  monitor, and the end.\<close>

datatype wrapper_event = WResp int "string option" string string | WCheck int | WMonitor bool | WStop

fun wrapper_step :: "wrapper_event \<Rightarrow> 'p wrapper \<Rightarrow> client_msg list \<times> 'p wrapper" where
  "wrapper_step (WResp now run addr err) pw = snd (SetRunningStatus now run addr err pw)"
| "wrapper_step (WCheck now) pw = wrapper_check now pw"
| "wrapper_step (WMonitor ok) pw = ([], wrapper_monitor ok pw)"
| "wrapper_step WStop pw = wrapper_Stop pw"

fun wrapper_run :: "wrapper_event list \<Rightarrow> 'p wrapper \<Rightarrow> client_msg list \<times> 'p wrapper" where
  "wrapper_run [] pw = ([], pw)"
| "wrapper_run (e # es) pw =
     (case wrapper_step e pw of (ms, pw') \<Rightarrow> (case wrapper_run es pw' of (ms', pw'') \<Rightarrow> (ms @ ms', pw'')))"

lemma wrapper_run_append:
  "wrapper_run (xs @ ys) pw = (fst (wrapper_run xs pw) @ fst (wrapper_run ys (snd (wrapper_run xs pw))),
     snd (wrapper_run ys (snd (wrapper_run xs pw))))"
  by (induction xs arbitrary: pw) (auto split: prod.splits)

lemma wrapper_run_snoc:
  "wrapper_run (xs @ [e]) pw = (fst (wrapper_run xs pw) @ fst (wrapper_step e (snd (wrapper_run xs pw))),
     snd (wrapper_step e (snd (wrapper_run xs pw))))"
  by (simp add: wrapper_run_append split: prod.splits)

lemmas wrapper_defs = SetRunningStatus_def wrapper_check_def wrapper_monitor_def wrapper_Stop_def
  statusNormalCallback_def statusFailedCallback_def Let_def

text \<open>The identity of a wrapper never changes.\<close>

lemma wrapper_step_identity:
  "ws_Name (snd (wrapper_step e pw)) = ws_Name pw \<and> ws_Type (snd (wrapper_step e pw)) = ws_Type pw \<and>
   ws_Cfg (snd (wrapper_step e pw)) = ws_Cfg pw"
  by (cases e) (auto simp: wrapper_defs split: option.splits prod.splits callback.splits)

lemma wrapper_run_identity:
  "ws_Name (snd (wrapper_run es pw)) = ws_Name pw \<and> ws_Type (snd (wrapper_run es pw)) = ws_Type pw \<and>
   ws_Cfg (snd (wrapper_run es pw)) = ws_Cfg pw"
  by (induction es arbitrary: pw) (simp_all add: split_beta wrapper_step_identity)

text \<open>The monitor, if any, changes only itself and the flag.\<close>

lemma wrapper_monitor_sel [simp]:
  "ws_Phase (wrapper_monitor ok pw) = ws_Phase pw" "ws_Err (wrapper_monitor ok pw) = ws_Err pw"
  "ws_RemoteAddr (wrapper_monitor ok pw) = ws_RemoteAddr pw" "ws_Cfg (wrapper_monitor ok pw) = ws_Cfg pw"
  "ws_Name (wrapper_monitor ok pw) = ws_Name pw"
  by (auto simp: wrapper_defs split: option.splits prod.splits callback.splits)

section \<open>What the server has been told\<close>

text \<open>The messages of a wrapper and its phase: a proxy that waits or runs is one whose last message asked the
  server to start it with its configuration; one that is new, failed its check or is closed has nothing
  asked, or was closed last.\<close>

definition told :: "'p wrapper \<Rightarrow> client_msg list \<Rightarrow> bool" where
  "told pw ms \<longleftrightarrow>
     (if ws_Phase pw = PhaseWaitStart \<or> ws_Phase pw = PhaseRunning
      then ms \<noteq> [] \<and> last ms = MsgNewProxy (MarshalToMsg (ws_Cfg pw) new_proxy0)
      else if ws_Phase pw = PhaseStartErr then ms \<noteq> []
      else ms = [] \<or> last ms = MsgCloseProxy (ws_Name pw)) \<and>
     (ws_Phase pw = PhaseRunning \<longrightarrow> ws_Err pw = [])"

lemma told_step:
  assumes "told pw ms" and "wrapper_step e pw = (ms', pw')"
  shows "told pw' (ms @ ms')"
  using assms
  by (cases e) (auto simp: told_def wrapper_defs split: if_splits option.splits prod.splits callback.splits)

lemma told_run: "told (snd (wrapper_run es (NewWrapper cfg))) (fst (wrapper_run es (NewWrapper cfg)))"
proof (induction es rule: rev_induct)
  case Nil
  show ?case by (simp add: told_def NewWrapper_def Let_def)
next
  case (snoc e es)
  then show ?case by (simp add: wrapper_run_snoc told_step)
qed

lemma NewWrapper_sel [simp]:
  "ws_Name (NewWrapper cfg) = pb_Name (GetBaseConfig cfg)" "ws_Type (NewWrapper cfg) = pb_Type (GetBaseConfig cfg)"
  "ws_Cfg (NewWrapper cfg) = cfg" "ws_Phase (NewWrapper cfg) = PhaseNew"
  by (simp_all add: NewWrapper_def Let_def)

text \<open>C29: The phase of a proxy agrees with what the client has told the server, after any sequence of answers,
  health checks and rounds of the worker: a proxy that is shown as running, and so accepts work
  connections, has no error, and the last thing the server heard of it is its own configuration; a new
  proxy, one that failed its check and a closed one were never announced, or closed last.\<close>

theorem wrapper_phase_agrees:
  assumes "wrapper_run es (NewWrapper cfg) = (ms, pw)"
  shows "(InWorkConn pw \<longrightarrow> ws_Err pw = [] \<and> ms \<noteq> [] \<and> last ms = MsgNewProxy (MarshalToMsg cfg new_proxy0)) \<and>
    (ws_Phase pw \<in> {PhaseNew, PhaseCheckFailed, PhaseClosed} \<longrightarrow>
       ms = [] \<or> last ms = MsgCloseProxy (pb_Name (GetBaseConfig cfg)))"
proof -
  have t: "told pw ms" using told_run [of es cfg] assms by simp
  have "ws_Cfg pw = cfg" "ws_Name pw = pb_Name (GetBaseConfig cfg)"
    using wrapper_run_identity [of es "NewWrapper cfg"] assms by simp_all
  with t show ?thesis by (auto simp: told_def InWorkConn_def split: if_splits)
qed

definition tcp_demo :: "unit proxy_config" where
  "tcp_demo = TCPProxyConfig (proxy_base0\<lparr>pb_Name := ''ssh'', pb_Type := ''tcp''\<rparr>) 6000"

theorem wrapper_phase_agrees_witness:
  "ws_Err (snd (wrapper_run [WCheck 0, WResp 1 None '':6000'' []] (NewWrapper tcp_demo))) = [] \<and>
   InWorkConn (snd (wrapper_run [WCheck 0, WResp 1 None '':6000'' []] (NewWrapper tcp_demo)))"
proof -
  let ?r = "wrapper_run [WCheck 0, WResp 1 None '':6000'' []] (NewWrapper tcp_demo)"
  have "InWorkConn (snd ?r)"
    by (simp add: InWorkConn_def wrapper_defs NewWrapper_def tcp_demo_def proxy_base0_def health_check0_def)
  then show ?thesis using wrapper_phase_agrees [OF prod.collapse [symmetric], of "[WCheck 0, WResp 1 None '':6000'' []]" tcp_demo] by blast
qed

section \<open>Recovery\<close>

lemma closed_stays: "ws_Phase pw = PhaseClosed \<Longrightarrow> wrapper_step e pw = (ms, pw') \<Longrightarrow> ws_Phase pw' = PhaseClosed"
  by (cases e) (auto simp: wrapper_defs split: option.splits prod.splits callback.splits if_splits)

text \<open>C15: A proxy recovers. Whatever happened before, unless it was stopped, a proxy whose service is healthy
  waits for an answer or runs after a round of the worker that comes more than 20 seconds after it last
  asked the server and 30 seconds after its last start error; when it waits and the server then accepts
  it and the local side starts, it runs, without an error and with the address the server gave.\<close>

theorem wrapper_recovers:
  assumes "\<not> pw_failed pw" and "ws_Phase pw \<noteq> PhaseClosed"
    and "pw_lastSendStartMsg pw + waitResponseTimeout < now" and "pw_lastStartErr pw + startErrTimeout < now"
    and "wrapper_check now pw = (ms, pw1)"
  shows "(ws_Phase pw1 = PhaseRunning \<and> ms = [] \<and> pw1 = pw) \<or>
    (ws_Phase pw1 = PhaseWaitStart \<and> ms = [MsgNewProxy (MarshalToMsg (ws_Cfg pw) new_proxy0)] \<and>
     (\<exists>pw2. SetRunningStatus later None addr [] pw1 = (None, [], pw2) \<and> ws_Phase pw2 = PhaseRunning \<and>
        ws_Err pw2 = [] \<and> ws_RemoteAddr pw2 = addr \<and> InWorkConn pw2))"
  using assms by (cases "ws_Phase pw") (auto simp: wrapper_defs InWorkConn_def)

theorem wrapper_recovers_witness:
  "\<exists>pw1. snd (wrapper_check (40 * second_ns)
      (snd (wrapper_run [WCheck 0, WResp 1 None [] ''port unavailable''] (NewWrapper tcp_demo)))) = pw1 \<and>
    (ws_Phase pw1 = PhaseRunning \<or> ws_Phase pw1 = PhaseWaitStart)"
proof -
  let ?pw = "snd (wrapper_run [WCheck 0, WResp 1 None [] ''port unavailable''] (NewWrapper tcp_demo))"
  have "\<not> pw_failed ?pw" "ws_Phase ?pw \<noteq> PhaseClosed" "pw_lastSendStartMsg ?pw + waitResponseTimeout < 40 * second_ns"
    "pw_lastStartErr ?pw + startErrTimeout < 40 * second_ns"
    by (simp_all add: wrapper_defs NewWrapper_def tcp_demo_def proxy_base0_def health_check0_def
        waitResponseTimeout_def startErrTimeout_def second_ns_def)
  from wrapper_recovers [OF this prod.collapse [symmetric]] show ?thesis by auto
qed

section \<open>Answers that come late\<close>

text \<open>An answer does not say which request it answers. A proxy that asked, failed its health check, and asked again
  takes the answer to its first request for the one to its second, and ignores the refusal of the
  second when that comes: it runs, with the address the server gave the first time, while the server has refused what
  it asked for last.\<close>

definition checked_demo :: "unit proxy_config" where
  "checked_demo = TCPProxyConfig (proxy_base0\<lparr>pb_Name := ''web'', pb_Type := ''tcp'', pb_LocalPort := 80,
     pb_HealthCheck := health_check0\<lparr>hk_Type := ''tcp'', hk_MaxFailed := 1\<rparr>\<rparr>) 6000"

theorem stale_answer:
  "let N = MsgNewProxy (MarshalToMsg checked_demo new_proxy0);
       asked = [WMonitor True, WCheck 0, WMonitor False, WCheck 1, WMonitor True, WCheck 2];
       (ms, pw) = wrapper_run (asked @ [WResp 3 None '':6000'' [], WResp 4 None [] ''already in use'']) (NewWrapper checked_demo)
   in ms = [N, MsgCloseProxy ''web'', N] \<and> ws_Phase pw = PhaseRunning \<and> InWorkConn pw \<and> ws_RemoteAddr pw = '':6000''"
  by code_simp

end
