(* ===== verification/Client_Manager.thy ===== *)
theory Client_Manager
  imports Client_Proxy
begin

text \<open>
  The managers of the client: \<open>proxy.Manager\<close> (\<open>client/proxy/proxy_manager.go\<close>) and \<open>visitor.Manager\<close>
  (\<open>client/visitor/visitor_manager.go\<close>). Both bring a table of running things in step with a list of
  configurations; the locale \<open>config_sync\<close> states what that means and both are shown to do it.

  A loop over a Go map is given the order of the keys as an argument.
\<close>

section \<open>The interface\<close>

text \<open>\<open>lo.KeyBy\<close>: the last of the entries with a key wins.\<close>

definition key_by :: "('c \<Rightarrow> string) \<Rightarrow> 'c list \<Rightarrow> (string \<rightharpoonup> 'c)" where
  "key_by name cfgs = map_of (rev (map (\<lambda>c. (name c, c)) cfgs))"

lemma key_by_distinct:
  "distinct (map name cfgs) \<Longrightarrow> key_by name cfgs n = Some c \<longleftrightarrow> c \<in> set cfgs \<and> name c = n"
proof -
  assume d: "distinct (map name cfgs)"
  have "map fst (rev (map (\<lambda>c. (name c, c)) cfgs)) = rev (map name cfgs)" by (simp add: rev_map comp_def)
  then have "distinct (map fst (rev (map (\<lambda>c. (name c, c)) cfgs)))" using d by simp
  then show ?thesis unfolding key_by_def by (subst map_of_eq_Some_iff) auto
qed

lemma key_by_None: "key_by name cfgs n = None \<longleftrightarrow> n \<notin> name ` set cfgs"
  by (force simp: key_by_def map_of_eq_None_iff)

text \<open>A table of entries by name that is brought in step with configurations: an entry whose configuration
  is still wanted is left alone, every other one is replaced or removed.\<close>

locale config_sync =
  fixes invar :: "'s \<Rightarrow> bool"
    and entry :: "'s \<Rightarrow> string \<Rightarrow> 'e option"
    and cfg_of :: "'e \<Rightarrow> 'c"
    and name_of :: "'c \<Rightarrow> string"
    and fresh :: "'c \<Rightarrow> 'e"
    and sync :: "string list \<Rightarrow> 'c list \<Rightarrow> 's \<Rightarrow> 's"
  assumes cfg_fresh: "cfg_of (fresh c) = c"
    and sync_invar: "invar s \<Longrightarrow> set order = dom (entry s) \<Longrightarrow> distinct order \<Longrightarrow> distinct (map name_of cs) \<Longrightarrow> invar (sync order cs s)"
    and sync_entry: "invar s \<Longrightarrow> set order = dom (entry s) \<Longrightarrow> distinct order \<Longrightarrow> distinct (map name_of cs) \<Longrightarrow>
      entry (sync order cs s) n =
        (case key_by name_of cs n of
           None \<Rightarrow> None
         | Some c \<Rightarrow> (case entry s n of None \<Rightarrow> Some (fresh c) | Some e \<Rightarrow> Some (if cfg_of e = c then e else fresh c)))"
begin

text \<open>Afterwards the table has the wanted configurations and no other.\<close>

lemma sync_configs:
  assumes "invar s" and "set order = dom (entry s)" and "distinct order" and "distinct (map name_of cs)"
  shows "map_option cfg_of (entry (sync order cs s) n) = key_by name_of cs n"
  using sync_entry [OF assms, of n] cfg_fresh by (auto split: option.splits)

text \<open>An entry that is wanted as it is survives.\<close>

lemma sync_keeps:
  assumes "invar s" and "set order = dom (entry s)" and "distinct order" and "distinct (map name_of cs)"
    and "entry s n = Some e" and "cfg_of e \<in> set cs" and "name_of (cfg_of e) = n"
  shows "entry (sync order cs s) n = Some e"
proof -
  have "key_by name_of cs n = Some (cfg_of e)" using key_by_distinct [OF assms(4)] assms(6,7) by blast
  then show ?thesis using sync_entry [OF assms(1-4), of n] assms(5) by simp
qed

text \<open>Doing it again changes nothing.\<close>

lemma sync_again:
  assumes "invar s" and "set order = dom (entry s)" and "distinct order" and "distinct (map name_of cs)"
    and "set order' = dom (entry (sync order cs s))" and "distinct order'"
  shows "entry (sync order' cs (sync order cs s)) = entry (sync order cs s)"
proof
  fix n
  have i: "invar (sync order cs s)" using sync_invar [OF assms(1-4)] .
  show "entry (sync order' cs (sync order cs s)) n = entry (sync order cs s) n"
    using sync_entry [OF i assms(5,6,4), of n] sync_configs [OF assms(1-4), of n]
    by (auto split: option.splits)
qed

end

section \<open>The proxy manager\<close>

type_synonym 'p proxies = "string \<rightharpoonup> 'p wrapper"

definition cfg_name :: "'p proxy_config \<Rightarrow> string" where
  "cfg_name c = pb_Name (GetBaseConfig c)"

fun remove_stale :: "(string \<rightharpoonup> 'p proxy_config) \<Rightarrow> string list \<Rightarrow> 'p proxies \<Rightarrow> client_msg list \<times> 'p proxies" where
  "remove_stale wanted [] pm = ([], pm)"
| "remove_stale wanted (name # names) pm =
     (case pm name of
        None \<Rightarrow> remove_stale wanted names pm
      | Some pxy \<Rightarrow>
          if wanted name = None \<or> wanted name \<noteq> Some (ws_Cfg pxy)
          then (case remove_stale wanted names (pm(name := None)) of
                  (ms, pm') \<Rightarrow> (fst (wrapper_Stop pxy) @ ms, pm'))
          else remove_stale wanted names pm)"

fun add_missing :: "'p proxy_config list \<Rightarrow> 'p proxies \<Rightarrow> 'p proxies" where
  "add_missing [] pm = pm"
| "add_missing (cfg # cfgs) pm =
     add_missing cfgs (if pm (cfg_name cfg) = None then pm(cfg_name cfg \<mapsto> NewWrapper cfg) else pm)"

definition UpdateAll :: "string list \<Rightarrow> 'p proxy_config list \<Rightarrow> 'p proxies \<Rightarrow> client_msg list \<times> 'p proxies" where
  "UpdateAll order cfgs pm =
     (case remove_stale (key_by cfg_name cfgs) order pm of (ms, pm') \<Rightarrow> (ms, add_missing cfgs pm'))"

definition StartProxy ::
  "int \<Rightarrow> string option \<Rightarrow> string \<Rightarrow> string \<Rightarrow> string \<Rightarrow> 'p proxies \<Rightarrow> (string + status_error) option \<times> client_msg list \<times> 'p proxies" where
  "StartProxy now run name remoteAddr serverRespErr pm =
     (case pm name of
        None \<Rightarrow> (Some (Inl (''proxy ['' @ name @ ''] not found'')), [], pm)
      | Some pxy \<Rightarrow>
          (case SetRunningStatus now run remoteAddr serverRespErr pxy of
             (err, ms, pxy') \<Rightarrow> (map_option Inr err, ms, pm(name \<mapsto> pxy'))))"

definition pxys_Close :: "string list \<Rightarrow> 'p proxies \<Rightarrow> client_msg list \<times> 'p proxies" where
  "pxys_Close order pm = (concat (map (\<lambda>n. case pm n of None \<Rightarrow> [] | Some pxy \<Rightarrow> fst (wrapper_Stop pxy)) order), Map.empty)"

text \<open>Whether the work connection of a name is passed on; otherwise it is closed.\<close>

definition HandleWorkConn :: "string \<Rightarrow> 'p proxies \<Rightarrow> bool" where
  "HandleWorkConn name pm = (case pm name of None \<Rightarrow> False | Some pw \<Rightarrow> InWorkConn pw)"

definition GetAllProxyStatus :: "string list \<Rightarrow> 'p proxies \<Rightarrow> 'p working_status list" where
  "GetAllProxyStatus order pm = List.map_filter (\<lambda>n. map_option GetStatus (pm n)) order"

definition GetProxyStatus :: "string \<Rightarrow> 'p proxies \<Rightarrow> 'p working_status option" where
  "GetProxyStatus name pm = map_option GetStatus (pm name)"

text \<open>Every wrapper is kept under its own name.\<close>

definition pxys_ok :: "'p proxies \<Rightarrow> bool" where
  "pxys_ok pm \<longleftrightarrow> (\<forall>n pw. pm n = Some pw \<longrightarrow> ws_Name pw = n \<and> cfg_name (ws_Cfg pw) = n)"

definition stale :: "(string \<rightharpoonup> 'p proxy_config) \<Rightarrow> 'p proxies \<Rightarrow> string \<Rightarrow> bool" where
  "stale wanted pm n \<longleftrightarrow> (case pm n of None \<Rightarrow> False | Some pw \<Rightarrow> wanted n \<noteq> Some (ws_Cfg pw))"

lemma remove_stale_Cons:
  "remove_stale wanted (m # names) pm =
     (if stale wanted pm m
      then (fst (wrapper_Stop (the (pm m))) @ fst (remove_stale wanted names (pm(m := None))),
            snd (remove_stale wanted names (pm(m := None))))
      else remove_stale wanted names pm)"
  by (cases "pm m") (auto simp: stale_def split_beta)

lemma stale_del: "stale wanted (pm(m := None)) n = (n \<noteq> m \<and> stale wanted pm n)"
  by (simp add: stale_def)

lemma remove_stale_result:
  assumes "distinct names"
  shows "snd (remove_stale wanted names pm) n = (if n \<in> set names \<and> stale wanted pm n then None else pm n)"
  using assms
proof (induction names arbitrary: pm)
  case (Cons m names)
  then show ?case by (auto simp del: remove_stale.simps simp: remove_stale_Cons stale_del)
qed simp

lemma remove_stale_msgs:
  assumes "pxys_ok pm" and "distinct names"
  shows "fst (remove_stale wanted names pm) = map MsgCloseProxy (filter (stale wanted pm) names)"
  using assms
proof (induction names arbitrary: pm)
  case (Cons m names)
  have f: "filter (stale wanted (pm(m := None))) names = filter (stale wanted pm) names"
    using Cons.prems(2) by (intro filter_cong) (auto simp: stale_del)
  have "pxys_ok (pm(m := None))" using Cons.prems(1) by (auto simp: pxys_ok_def)
  then have "fst (remove_stale wanted names (pm(m := None))) = map MsgCloseProxy (filter (stale wanted pm) names)"
    unfolding f [symmetric] by (rule Cons.IH) (use Cons.prems(2) in simp)
  moreover have "fst (wrapper_Stop (the (pm m))) = [MsgCloseProxy m]" if "stale wanted pm m"
    using that Cons.prems(1) by (auto simp: stale_def pxys_ok_def wrapper_Stop_def split: option.splits)
  ultimately show ?case using Cons by (simp del: remove_stale.simps add: remove_stale_Cons)
qed simp

lemma add_missing_result:
  assumes "distinct (map cfg_name cfgs)"
  shows "add_missing cfgs pm n =
    (case pm n of Some pw \<Rightarrow> Some pw | None \<Rightarrow> map_option NewWrapper (key_by cfg_name cfgs n))"
  using assms
proof (induction cfgs arbitrary: pm)
  case (Cons c cfgs)
  have "key_by cfg_name (c # cfgs) n = (if n = cfg_name c then Some c else key_by cfg_name cfgs n)"
    using Cons.prems key_by_None [of cfg_name cfgs "cfg_name c"]
    by (auto simp: key_by_def map_add_def split: option.splits)
  then show ?case using Cons by (auto split: option.splits)
qed (simp add: key_by_def split: option.splits)

lemma UpdateAll_entry:
  assumes "set order = dom pm" and "distinct order" and "distinct (map cfg_name cfgs)"
  shows "snd (UpdateAll order cfgs pm) n =
    (case key_by cfg_name cfgs n of
       None \<Rightarrow> None
     | Some c \<Rightarrow> (case pm n of None \<Rightarrow> Some (NewWrapper c) | Some pw \<Rightarrow> Some (if ws_Cfg pw = c then pw else NewWrapper c)))"
proof -
  have "snd (remove_stale (key_by cfg_name cfgs) order pm) n = (if stale (key_by cfg_name cfgs) pm n then None else pm n)"
    unfolding remove_stale_result [OF assms(2)] assms(1) by (auto simp: stale_def split: option.splits)
  then have "snd (UpdateAll order cfgs pm) n =
      (case (if stale (key_by cfg_name cfgs) pm n then None else pm n) of
         Some pw \<Rightarrow> Some pw | None \<Rightarrow> map_option NewWrapper (key_by cfg_name cfgs n))"
    using add_missing_result [OF assms(3)] by (simp add: UpdateAll_def split_beta)
  then show ?thesis
    by (cases "pm n"; cases "key_by cfg_name cfgs n") (auto simp: stale_def)
qed

lemma UpdateAll_ok:
  assumes "pxys_ok pm" and "set order = dom pm" and "distinct order" and "distinct (map cfg_name cfgs)"
  shows "pxys_ok (snd (UpdateAll order cfgs pm))"
  using assms(1) key_by_distinct [OF assms(4)]
  by (auto simp: pxys_ok_def UpdateAll_entry [OF assms(2-4)] cfg_name_def split: option.splits if_splits)

interpretation proxy_sync: config_sync pxys_ok "\<lambda>pm. pm" ws_Cfg cfg_name NewWrapper
  "\<lambda>order cfgs pm. snd (UpdateAll order cfgs pm)"
  by unfold_locales (auto simp: UpdateAll_entry UpdateAll_ok split: option.splits)

lemma stale_iff:
  assumes "pxys_ok pm" and "distinct (map cfg_name cfgs)"
  shows "stale (key_by cfg_name cfgs) pm n \<longleftrightarrow> (\<exists>pw. pm n = Some pw \<and> ws_Cfg pw \<notin> set cfgs)"
  using assms(1) key_by_distinct [OF assms(2), of n] by (auto simp: stale_def pxys_ok_def split: option.splits)

text \<open>C13: A reload of the client applies the new configuration, in which no name occurs twice, and disturbs nothing else: afterwards there is exactly
  one proxy for each configuration; a proxy whose configuration is still in the list is the same one as
  before, with its phase and address; the server is told to close exactly the proxies whose
  configuration is gone, each once; and loading the same list again does nothing.\<close>

theorem client_reload:
  assumes "pxys_ok pm" and "set order = dom pm" and "distinct order" and "distinct (map cfg_name cfgs)"
    and "UpdateAll order cfgs pm = (ms, pm')" and "set order' = dom pm'" and "distinct order'"
  shows "((\<exists>pw. pm' n = Some pw \<and> ws_Cfg pw = c) \<longleftrightarrow> c \<in> set cfgs \<and> cfg_name c = n) \<and>
    (pm n = Some pw0 \<and> ws_Cfg pw0 \<in> set cfgs \<longrightarrow> pm' n = Some pw0) \<and>
    distinct ms \<and> set ms = {MsgCloseProxy m |m pw. pm m = Some pw \<and> ws_Cfg pw \<notin> set cfgs} \<and>
    UpdateAll order' cfgs pm' = ([], pm')"
proof -
  have pm': "pm' = snd (UpdateAll order cfgs pm)" and ms: "ms = map MsgCloseProxy (filter (stale (key_by cfg_name cfgs) pm) order)"
    using assms(5) remove_stale_msgs [OF assms(1,3), of "key_by cfg_name cfgs"] by (simp_all add: UpdateAll_def split_beta)
  have ok': "pxys_ok pm'" using UpdateAll_ok [OF assms(1-4)] by (simp add: pm')
  have c: "map_option ws_Cfg (pm' n) = key_by cfg_name cfgs n" for n
    using proxy_sync.sync_configs [OF assms(1-4)] by (simp add: pm')
  have "\<not> stale (key_by cfg_name cfgs) pm' n" for n
    using c [of n] by (auto simp: stale_def split: option.splits)
  then have "UpdateAll order' cfgs pm' = ([], pm')"
    using proxy_sync.sync_again [OF assms(1-4), of order'] assms(6,7) remove_stale_msgs [OF ok' assms(7), of "key_by cfg_name cfgs"]
    by (simp add: pm' UpdateAll_def split_beta)
  moreover have "set ms = {MsgCloseProxy m |m pw. pm m = Some pw \<and> ws_Cfg pw \<notin> set cfgs}"
    using assms(2) by (auto simp: ms stale_iff [OF assms(1,4)])
  moreover have "distinct ms" using assms(3) by (simp add: ms distinct_map inj_on_def)
  moreover have "pm n = Some pw0 \<and> ws_Cfg pw0 \<in> set cfgs \<longrightarrow> pm' n = Some pw0"
    using proxy_sync.sync_keeps [OF assms(1-4)] assms(1) by (auto simp: pm' pxys_ok_def)
  moreover have "(\<exists>pw. pm' n = Some pw \<and> ws_Cfg pw = c) \<longleftrightarrow> c \<in> set cfgs \<and> cfg_name c = n"
    using c [of n] key_by_distinct [OF assms(4), of n c] by (cases "pm' n") auto
  ultimately show ?thesis by blast
qed

theorem client_reload_witness:
  "fst (UpdateAll [''ssh''] [] [''ssh'' \<mapsto> NewWrapper tcp_demo]) = [MsgCloseProxy ''ssh''] \<and>
   set (fst (UpdateAll [''ssh''] [] [''ssh'' \<mapsto> NewWrapper tcp_demo])) =
     {MsgCloseProxy m |m pw. [''ssh'' \<mapsto> NewWrapper tcp_demo] m = Some pw \<and> ws_Cfg pw \<notin> {}}"
proof -
  let ?pm = "[''ssh'' \<mapsto> NewWrapper tcp_demo]"
  have "pxys_ok ?pm" by (simp add: pxys_ok_def cfg_name_def tcp_demo_def NewWrapper_def Let_def)
  moreover have d: "set [''ssh''] = dom ?pm" "distinct [''ssh'']" "distinct (map cfg_name ([] :: unit proxy_config list))" by simp_all
  moreover have "set [] = dom (snd (UpdateAll [''ssh''] [] ?pm))" by (simp add: UpdateAll_def key_by_def wrapper_Stop_def)
  ultimately have "set (fst (UpdateAll [''ssh''] [] ?pm)) = {MsgCloseProxy m |m pw. ?pm m = Some pw \<and> ws_Cfg pw \<notin> {}}"
    using client_reload [OF _ d prod.collapse [symmetric], of "[]"] by simp
  then show ?thesis
    by (simp add: UpdateAll_def key_by_def wrapper_Stop_def tcp_demo_def)
qed

section \<open>The visitor manager\<close>

text \<open>A visitor configuration has a name; \<open>start\<close> is \<open>NewVisitor\<close> with \<open>Run\<close>, nothing when one of them fails.
  Closing a visitor is an effect on it, listed by name.\<close>

record ('c, 'v) vis_manager =
  vm_cfgs :: "string \<rightharpoonup> 'c"
  vm_visitors :: "string \<rightharpoonup> 'v"

definition startVisitor :: "('c \<Rightarrow> string) \<Rightarrow> ('c \<Rightarrow> 'v option) \<Rightarrow> 'c \<Rightarrow> ('c, 'v) vis_manager \<Rightarrow> ('c, 'v) vis_manager" where
  "startVisitor name start cfg vm =
     (case start cfg of None \<Rightarrow> vm | Some v \<Rightarrow> vm\<lparr>vm_visitors := (vm_visitors vm)(name cfg \<mapsto> v)\<rparr>)"

fun vis_remove :: "(string \<rightharpoonup> 'c) \<Rightarrow> string list \<Rightarrow> ('c, 'v) vis_manager \<Rightarrow> ('c, 'v) vis_manager" where
  "vis_remove wanted [] vm = vm"
| "vis_remove wanted (n # ns) vm =
     (case vm_cfgs vm n of
        None \<Rightarrow> vis_remove wanted ns vm
      | Some old \<Rightarrow>
          vis_remove wanted ns
            (if wanted n = None \<or> wanted n \<noteq> Some old
             then vm\<lparr>vm_cfgs := (vm_cfgs vm)(n := None), vm_visitors := (vm_visitors vm)(n := None)\<rparr> else vm))"

fun vis_add :: "('c \<Rightarrow> string) \<Rightarrow> ('c \<Rightarrow> 'v option) \<Rightarrow> 'c list \<Rightarrow> ('c, 'v) vis_manager \<Rightarrow> ('c, 'v) vis_manager" where
  "vis_add name start [] vm = vm"
| "vis_add name start (cfg # cfgs) vm =
     vis_add name start cfgs
       (if vm_cfgs vm (name cfg) = None
        then startVisitor name start cfg (vm\<lparr>vm_cfgs := (vm_cfgs vm)(name cfg \<mapsto> cfg)\<rparr>) else vm)"

definition vis_UpdateAll ::
  "('c \<Rightarrow> string) \<Rightarrow> ('c \<Rightarrow> 'v option) \<Rightarrow> string list \<Rightarrow> 'c list \<Rightarrow> ('c, 'v) vis_manager \<Rightarrow> ('c, 'v) vis_manager" where
  "vis_UpdateAll name start order cfgs vm = vis_add name start cfgs (vis_remove (key_by name cfgs) order vm)"

text \<open>One tick of \<open>keepVisitorsRunning\<close>: every configured visitor that does not run is tried again.\<close>

fun keepVisitorsRunning :: "('c \<Rightarrow> string) \<Rightarrow> ('c \<Rightarrow> 'v option) \<Rightarrow> string list \<Rightarrow> ('c, 'v) vis_manager \<Rightarrow> ('c, 'v) vis_manager" where
  "keepVisitorsRunning name start [] vm = vm"
| "keepVisitorsRunning name start (n # ns) vm =
     keepVisitorsRunning name start ns
       (case vm_cfgs vm n of
          None \<Rightarrow> vm
        | Some cfg \<Rightarrow> if vm_visitors vm (name cfg) = None then startVisitor name start cfg vm else vm)"

text \<open>A connection for a visitor is passed to the one that runs.\<close>

definition TransferConn :: "string \<Rightarrow> ('c, 'v) vis_manager \<Rightarrow> 'v option" where
  "TransferConn name vm = vm_visitors vm name"

text \<open>What the manager has under a name: the configuration and the visitor, if it runs.\<close>

definition vis_entry :: "('c, 'v) vis_manager \<Rightarrow> string \<Rightarrow> ('c \<times> 'v option) option" where
  "vis_entry vm n = map_option (\<lambda>c. (c, vm_visitors vm n)) (vm_cfgs vm n)"

definition vis_ok :: "('c \<Rightarrow> string) \<Rightarrow> ('c, 'v) vis_manager \<Rightarrow> bool" where
  "vis_ok name vm \<longleftrightarrow> dom (vm_visitors vm) \<subseteq> dom (vm_cfgs vm) \<and> (\<forall>n c. vm_cfgs vm n = Some c \<longrightarrow> name c = n)"

lemma vis_remove_result:
  assumes "distinct ns"
  shows "vm_cfgs (vis_remove wanted ns vm) n =
      (if n \<in> set ns \<and> vm_cfgs vm n \<noteq> None \<and> wanted n \<noteq> vm_cfgs vm n then None else vm_cfgs vm n) \<and>
    vm_visitors (vis_remove wanted ns vm) n =
      (if n \<in> set ns \<and> vm_cfgs vm n \<noteq> None \<and> wanted n \<noteq> vm_cfgs vm n then None else vm_visitors vm n)"
  using assms by (induction ns arbitrary: vm) (auto split: option.splits)

lemma vis_add_result:
  assumes "distinct (map name cfgs)" and "dom (vm_visitors vm) \<subseteq> dom (vm_cfgs vm)"
  shows "vis_entry (vis_add name start cfgs vm) n =
      (case vm_cfgs vm n of Some c \<Rightarrow> Some (c, vm_visitors vm n) | None \<Rightarrow> map_option (\<lambda>c. (c, start c)) (key_by name cfgs n)) \<and>
    dom (vm_visitors (vis_add name start cfgs vm)) \<subseteq> dom (vm_cfgs (vis_add name start cfgs vm))"
  using assms
proof (induction cfgs arbitrary: vm)
  case (Cons c cfgs)
  let ?vm = "if vm_cfgs vm (name c) = None
    then startVisitor name start c (vm\<lparr>vm_cfgs := (vm_cfgs vm)(name c \<mapsto> c)\<rparr>) else vm"
  have k: "key_by name (c # cfgs) n = (if n = name c then Some c else key_by name cfgs n)"
    using Cons.prems(1) key_by_None [of name cfgs "name c"] by (auto simp: key_by_def map_add_def split: option.splits)
  have d: "dom (vm_visitors ?vm) \<subseteq> dom (vm_cfgs ?vm)"
    using Cons.prems(2) by (auto simp: startVisitor_def split: option.splits if_splits)
  have "vm_visitors vm (name c) = None" if "vm_cfgs vm (name c) = None"
    using Cons.prems(2) that by (meson domIff in_mono)
  then have "vm_cfgs ?vm n = (if n = name c \<and> vm_cfgs vm n = None then Some c else vm_cfgs vm n) \<and>
      vm_visitors ?vm n = (if n = name c \<and> vm_cfgs vm n = None then start c else vm_visitors vm n)"
    by (auto simp: startVisitor_def split: option.splits)
  then show ?case
    using Cons.IH [OF _ d] Cons.prems(1) k by (auto split: option.splits)
qed (auto simp: key_by_def vis_entry_def split: option.splits)

lemma vis_UpdateAll_entry:
  assumes "vis_ok name vm" and "set order = dom (vis_entry vm)" and "distinct order" and "distinct (map name cfgs)"
  shows "vis_entry (vis_UpdateAll name start order cfgs vm) n =
      (case key_by name cfgs n of
         None \<Rightarrow> None
       | Some c \<Rightarrow> (case vis_entry vm n of None \<Rightarrow> Some (c, start c) | Some e \<Rightarrow> Some (if fst e = c then e else (c, start c)))) \<and>
    dom (vm_visitors (vis_UpdateAll name start order cfgs vm)) \<subseteq> dom (vm_cfgs (vis_UpdateAll name start order cfgs vm))"
proof -
  let ?w = "key_by name cfgs"
  let ?vm = "vis_remove ?w order vm"
  have "set order = dom (vm_cfgs vm)" using assms(2) by (auto simp: vis_entry_def)
  then have c: "vm_cfgs ?vm m = (if ?w m \<noteq> vm_cfgs vm m then None else vm_cfgs vm m)"
      and v: "vm_visitors ?vm m = (if vm_cfgs vm m \<noteq> None \<and> ?w m \<noteq> vm_cfgs vm m then None else vm_visitors vm m)" for m
    using vis_remove_result [OF assms(3), of ?w vm m] by auto
  have "\<exists>c. vm_cfgs vm m = Some c" if "vm_visitors vm m = Some v" for m v using assms(1) that by (auto simp: vis_ok_def)
  then have d: "dom (vm_visitors ?vm) \<subseteq> dom (vm_cfgs ?vm)" by (fastforce simp: c v split: if_splits)
  show ?thesis
    using vis_add_result [OF assms(4) d, of start n]
    by (auto simp: vis_UpdateAll_def vis_entry_def c v split: option.splits if_splits)
qed

lemma vis_UpdateAll_ok:
  assumes "vis_ok name vm" and "set order = dom (vis_entry vm)" and "distinct order" and "distinct (map name cfgs)"
  shows "vis_ok name (vis_UpdateAll name start order cfgs vm)"
proof -
  note e = vis_UpdateAll_entry [OF assms, of start]
  have "name c = n" if "vm_cfgs (vis_UpdateAll name start order cfgs vm) n = Some c" for n c
  proof -
    have "vis_entry (vis_UpdateAll name start order cfgs vm) n \<noteq> None" using that by (simp add: vis_entry_def)
    then obtain c' where k: "key_by name cfgs n = Some c'" using e [of n] by (auto split: option.splits)
    then have "c = c'" using e [of n] that by (auto simp: vis_entry_def split: option.splits if_splits)
    then show ?thesis using k key_by_distinct [OF assms(4)] by auto
  qed
  then show ?thesis using e by (auto simp: vis_ok_def)
qed

interpretation visitor_sync: config_sync "vis_ok name" vis_entry fst name "\<lambda>c. (c, start c)" "vis_UpdateAll name start"
  for name start
  by unfold_locales (auto simp: vis_UpdateAll_entry vis_UpdateAll_ok split: option.splits)

lemma keepVisitorsRunning_result:
  assumes "vis_ok name vm" and "distinct ns"
  shows "vm_cfgs (keepVisitorsRunning name start ns vm) = vm_cfgs vm \<and>
    vm_visitors (keepVisitorsRunning name start ns vm) n =
      (if n \<in> set ns \<and> vm_visitors vm n = None then Option.bind (vm_cfgs vm n) start else vm_visitors vm n)"
  using assms
proof (induction ns arbitrary: vm)
  case (Cons m ns)
  let ?vm = "case vm_cfgs vm m of None \<Rightarrow> vm | Some cfg \<Rightarrow> if vm_visitors vm (name cfg) = None then startVisitor name start cfg vm else vm"
  have nm: "vm_cfgs vm m = Some c \<Longrightarrow> name c = m" for c using Cons.prems(1) by (simp add: vis_ok_def)
  have "vis_ok name ?vm" using Cons.prems(1) nm by (auto simp: vis_ok_def startVisitor_def split: option.splits if_splits)
  moreover have "vm_cfgs ?vm = vm_cfgs vm" by (auto simp: startVisitor_def split: option.splits)
  moreover have "vm_visitors ?vm n = (if n = m \<and> vm_visitors vm n = None then Option.bind (vm_cfgs vm n) start else vm_visitors vm n)"
    using nm Cons.prems(1) by (auto simp: startVisitor_def vis_ok_def split: option.splits)
  ultimately show ?case using Cons.IH [of ?vm] Cons.prems(2) by auto
qed simp

text \<open>After a reload of the visitors and one tick of the worker that keeps them running, a visitor is there for
  connections exactly if it is configured and was running already with this configuration, or starts
  at the reload or at the tick; nothing else is there.\<close>

theorem visitors_run_after_tick:
  assumes "vis_ok name vm" and "set order = dom (vis_entry vm)" and "distinct order" and "distinct (map name cfgs)"
    and "vm1 = vis_UpdateAll name start order cfgs vm" and "set order1 = dom (vm_cfgs vm1)" and "distinct order1"
  shows "TransferConn n (keepVisitorsRunning name start1 order1 vm1) =
    (case key_by name cfgs n of
       None \<Rightarrow> None
     | Some c \<Rightarrow>
         (case (if vm_cfgs vm n = Some c then vm_visitors vm n else start c) of
            Some v \<Rightarrow> Some v | None \<Rightarrow> start1 c))"
proof -
  have ok: "vis_ok name vm1" using vis_UpdateAll_ok [OF assms(1-4)] by (simp add: assms(5))
  have e: "vis_entry vm1 n = (case key_by name cfgs n of
         None \<Rightarrow> None
       | Some c \<Rightarrow> (case vis_entry vm n of None \<Rightarrow> Some (c, start c) | Some e \<Rightarrow> Some (if fst e = c then e else (c, start c))))"
    using vis_UpdateAll_entry [OF assms(1-4)] by (simp add: assms(5))
  have v: "vm_cfgs vm1 n = None \<Longrightarrow> vm_visitors vm1 n = None" using ok by (auto simp: vis_ok_def)
  have "TransferConn n (keepVisitorsRunning name start1 order1 vm1) =
      (if vm_visitors vm1 n = None then Option.bind (vm_cfgs vm1 n) start1 else vm_visitors vm1 n)"
    using keepVisitorsRunning_result [OF ok assms(7), of start1 n] assms(6) v by (auto simp: TransferConn_def)
  then show ?thesis
    using e v by (cases "key_by name cfgs n"; cases "vm_cfgs vm n") (auto simp: vis_entry_def split: option.splits if_splits)
qed

theorem visitors_run_after_tick_witness:
  "TransferConn ''v'' (keepVisitorsRunning id (\<lambda>_. Some (1 :: nat)) [''v'']
     (vis_UpdateAll id (\<lambda>_. None) [] [''v''] \<lparr>vm_cfgs = Map.empty, vm_visitors = Map.empty\<rparr>)) = Some 1"
proof -
  let ?vm = "\<lparr>vm_cfgs = Map.empty, vm_visitors = Map.empty :: string \<rightharpoonup> nat\<rparr>"
  have p: "vis_ok id ?vm" "set [] = dom (vis_entry ?vm)" "distinct ([] :: string list)" "distinct (map id [''v''])"
    by (auto simp: vis_ok_def vis_entry_def)
  have o: "set [''v''] = dom (vm_cfgs (vis_UpdateAll id (\<lambda>_. None) [] [''v''] ?vm))" "distinct [''v'']"
    by (auto simp: vis_UpdateAll_def startVisitor_def)
  show ?thesis
    using visitors_run_after_tick [OF p refl o, of "''v''" "\<lambda>_. Some 1"] by (simp add: key_by_def)
qed

end
