(* ===== verification/Client_Api.thy ===== *)
theory Client_Api
  imports Client_Manager Web_Client "HOL-Library.Product_Lexorder"
begin

text \<open>
  The admin interface of the client, \<open>client/admin_api.go\<close>, with the end of \<open>LoadClientConfig\<close>
  (\<open>pkg/config/load.go\<close>) and the table of \<open>Overview.vue\<close>. The decoding of a configuration file and the
  further validation are the parameters \<open>parse\<close> and \<open>invalid\<close>; a visitor configuration is an argument
  with its name, its enabled flag and its completion. The file of the client is a text that writing
  replaces, or fails to.
\<close>

section \<open>The status of the proxies\<close>

definition NewProxyStatusResp :: "('p \<Rightarrow> string) \<Rightarrow> string \<Rightarrow> 'p working_status \<Rightarrow> js" where
  "NewProxyStatusResp ptype serverAddr st =
     (let b = GetBaseConfig (ws_Cfg st);
          local = (if pb_LocalPort b \<noteq> 0 then JoinHostPort (pb_LocalIP b) (int_to_string (pb_LocalPort b)) else []);
          remote = (if ws_Err st = []
                    then (if ws_Type st \<in> set [''tcp'', ''udp''] then serverAddr @ ws_RemoteAddr st else ws_RemoteAddr st)
                    else [])
      in JObj [(''name'', JStr (ws_Name st)), (''type'', JStr (ws_Type st)), (''status'', JStr (phase_string (ws_Phase st))),
               (''err'', JStr (ws_Err st)), (''local_addr'', JStr local),
               (''plugin'', JStr (case pb_Plugin b of None \<Rightarrow> [] | Some p \<Rightarrow> ptype p)), (''remote_addr'', JStr remote)])"

definition text_ok :: "js \<Rightarrow> response" where
  "text_ok v = \<lparr>rs_ok = True, rs_status = 200, rs_statusText = ''OK'', rs_text = [], rs_json = Some v\<rparr>"

text \<open>The answer groups the proxies by type, each group sorted by name; the keys of a Go map are written in
  order. Without a session the object is empty.\<close>

definition apiStatus :: "('p \<Rightarrow> string) \<Rightarrow> string \<Rightarrow> string list \<Rightarrow> 'p proxies option \<Rightarrow> response" where
  "apiStatus ptype serverAddr order ctl =
     (case ctl of
        None \<Rightarrow> text_ok (JObj [])
      | Some pm \<Rightarrow>
          (let ps = GetAllProxyStatus order pm in
           text_ok (JObj (map (\<lambda>t. (t, JArr (map (NewProxyStatusResp ptype serverAddr)
             (sort_key ws_Name (filter (\<lambda>st. ws_Type st = t) ps))))) (sort (remdups (map ws_Type ps)))))))"

text \<open>The columns of the table of \<open>Overview.vue\<close>: property and label.\<close>

definition status_columns :: "(string \<times> string) list" where
  "status_columns =
     [(''name'', ''name''), (''type'', ''type''), (''local_addr'', ''local address''), (''plugin'', ''plugin''),
      (''remote_addr'', ''remote address''), (''status'', ''status''), (''err'', ''info'')]"

definition status_cells :: "js \<Rightarrow> (string \<times> js) list" where
  "status_cells row = map (\<lambda>c. (snd c, js_opt_get row (fst c))) status_columns"

section \<open>The configuration\<close>

record client_common =
  cc_User :: string
  cc_Start :: "string list"

text \<open>The end of \<open>LoadClientConfig\<close>: the proxies to start, the enabled ones, completed.\<close>

definition select_proxies :: "('p \<Rightarrow> 'p) \<Rightarrow> client_common \<Rightarrow> 'p proxy_config list \<Rightarrow> 'p proxy_config list" where
  "select_proxies pcomplete cc cfgs =
     map (cfg_Complete pcomplete (cc_User cc))
       (filter (\<lambda>c. pb_Enabled (GetBaseConfig c) = None \<or> pb_Enabled (GetBaseConfig c) = Some True)
         (if cc_Start cc \<noteq> [] then filter (\<lambda>c. cfg_name c \<in> set (cc_Start cc)) cfgs else cfgs))"

definition select_visitors ::
  "('c \<Rightarrow> string) \<Rightarrow> ('c \<Rightarrow> bool option) \<Rightarrow> (client_common \<Rightarrow> 'c \<Rightarrow> 'c) \<Rightarrow> client_common \<Rightarrow> 'c list \<Rightarrow> 'c list" where
  "select_visitors vname venabled vcomplete cc cfgs =
     map (vcomplete cc)
       (filter (\<lambda>c. venabled c = None \<or> venabled c = Some True)
         (if cc_Start cc \<noteq> [] then filter (\<lambda>c. vname c \<in> set (cc_Start cc)) cfgs else cfgs))"

text \<open>The service, as far as these handlers touch it. \<open>cl_ctl\<close> is the session.\<close>

record ('p, 'c, 'v) client_service =
  cl_configFilePath :: string
  cl_file :: "string option"
  cl_proxyCfgs :: "'p proxy_config list"
  cl_visitorCfgs :: "'c list"
  cl_ctl :: "('p proxies \<times> ('c, 'v) vis_manager) option"

definition plain :: "int \<Rightarrow> string \<Rightarrow> string \<Rightarrow> response" where
  "plain code status msg = \<lparr>rs_ok = (200 \<le> code \<and> code \<le> 299), rs_status = code, rs_statusText = status,
     rs_text = msg, rs_json = None\<rparr>"

text \<open>\<open>read_err\<close> is the text of the error of the operating system. The outcome of the upload: the text is written;
  the body of the request cannot be read; the file cannot be opened, and is left as it was; or writing breaks off
  after some characters. \<open>os.WriteFile\<close> truncates the file when it opens it, so that only these characters are left.\<close>

datatype write_outcome = Written | BodyUnread string | NotOpened string | BrokenOff nat string

definition apiGetConfig :: "string \<Rightarrow> ('p, 'c, 'v) client_service \<Rightarrow> response" where
  "apiGetConfig read_err s =
     (if cl_configFilePath s = [] then plain 400 ''Bad Request'' ''frpc has no config file path''
      else (case cl_file s of
              None \<Rightarrow> plain 400 ''Bad Request'' read_err
            | Some content \<Rightarrow> plain 200 ''OK'' content))"

definition write_error :: "string \<Rightarrow> response" where
  "write_error e = plain 500 ''Internal Server Error'' (''write content to frpc config file error: '' @ e)"

definition apiPutConfig :: "write_outcome \<Rightarrow> string \<Rightarrow> ('p, 'c, 'v) client_service \<Rightarrow> response \<times> ('p, 'c, 'v) client_service" where
  "apiPutConfig w body s =
     (case w of
        BodyUnread e \<Rightarrow> (plain 400 ''Bad Request'' (''read request body error: '' @ e), s)
      | _ \<Rightarrow>
          if body = [] then (plain 400 ''Bad Request'' ''body can't be empty'', s)
          else
            (case w of
               NotOpened e \<Rightarrow> (write_error e, s)
             | BrokenOff n e \<Rightarrow> (write_error e, s\<lparr>cl_file := Some (take n body)\<rparr>)
             | _ \<Rightarrow> (plain 200 ''OK'' [], s\<lparr>cl_file := Some body\<rparr>)))"

text \<open>\<open>UpdateAllConfigurer\<close> of the service and of the session; the orders are those of the two tables.\<close>

definition UpdateAllConfigurer ::
  "('c \<Rightarrow> string) \<Rightarrow> ('c \<Rightarrow> 'v option) \<Rightarrow> string list \<Rightarrow> string list \<Rightarrow> 'p proxy_config list \<Rightarrow> 'c list \<Rightarrow>
   ('p, 'c, 'v) client_service \<Rightarrow> client_msg list \<times> ('p, 'c, 'v) client_service" where
  "UpdateAllConfigurer vname start vorder order proxyCfgs visitorCfgs s =
     (let s1 = s\<lparr>cl_proxyCfgs := proxyCfgs, cl_visitorCfgs := visitorCfgs\<rparr> in
      case cl_ctl s1 of
        None \<Rightarrow> ([], s1)
      | Some (pm, vm) \<Rightarrow>
          (let vm' = vis_UpdateAll vname start vorder visitorCfgs vm in
           case UpdateAll order proxyCfgs pm of
             (ms, pm') \<Rightarrow> (ms, s1\<lparr>cl_ctl := Some (pm', vm')\<rparr>)))"

definition apiReload ::
  "(string option \<Rightarrow> string + client_common \<times> 'p proxy_config list \<times> 'c list) \<Rightarrow>
   (client_common \<Rightarrow> 'p proxy_config list \<Rightarrow> 'c list \<Rightarrow> string option) \<Rightarrow> ('p \<Rightarrow> 'p) \<Rightarrow>
   ('c \<Rightarrow> string) \<Rightarrow> ('c \<Rightarrow> bool option) \<Rightarrow> (client_common \<Rightarrow> 'c \<Rightarrow> 'c) \<Rightarrow> ('c \<Rightarrow> 'v option) \<Rightarrow>
   string list \<Rightarrow> string list \<Rightarrow> ('p, 'c, 'v) client_service \<Rightarrow> response \<times> client_msg list \<times> ('p, 'c, 'v) client_service" where
  "apiReload parse invalid pcomplete vname venabled vcomplete start vorder order s =
     (case parse (cl_file s) of
        Inl e \<Rightarrow> (plain 400 ''Bad Request'' e, [], s)
      | Inr (cc, ps, vs) \<Rightarrow>
          (let ps' = select_proxies pcomplete cc ps; vs' = select_visitors vname venabled vcomplete cc vs in
           case invalid cc ps' vs' of
             Some e \<Rightarrow> (plain 400 ''Bad Request'' e, [], s)
           | None \<Rightarrow> (plain 200 ''OK'' [], UpdateAllConfigurer vname start vorder order ps' vs' s)))"

section \<open>Properties\<close>

lemma GetAllProxyStatus_dom:
  assumes "set order = dom pm"
  shows "GetAllProxyStatus order pm = map (\<lambda>n. GetStatus (the (pm n))) order"
proof -
  have "set order \<subseteq> dom pm" using assms by simp
  then show ?thesis
    by (induction order) (auto simp: GetAllProxyStatus_def map_filter_simps split: option.splits)
qed

lemma insort_key_map: "insort_key g (f x) (map f xs) = map f (insort_key (\<lambda>x. g (f x)) x xs)"
  by (induction xs) auto

lemma sort_key_map: "sort_key g (map f xs) = map f (sort_key (\<lambda>x. g (f x)) xs)"
  by (induction xs) (simp_all add: insort_key_map)

lemma sort_key_cong: "(\<And>x. x \<in> set xs \<Longrightarrow> f x = g x) \<Longrightarrow> sort_key f xs = sort_key g xs"
proof (induction xs)
  case (Cons x xs)
  have "insort_key f x ys = insort_key g x ys" if "set ys \<subseteq> set xs" for ys
    using that Cons.prems by (induction ys) auto
  then show ?case using Cons by simp
qed simp

text \<open>Blocks of sorted names under ascending types.\<close>

lemma blocks_sorted:
  fixes ty :: "string \<Rightarrow> string"
  assumes "sorted_wrt (<) ts" and "\<And>t. sorted (f t)" and "\<And>t n. n \<in> set (f t) \<Longrightarrow> ty n = t"
  shows "sorted_wrt (\<lambda>a b. (ty a, a) \<le> (ty b, b)) (concat (map f ts))"
  using assms(1)
proof (induction ts)
  case (Cons t ts)
  have "sorted_wrt (\<lambda>a b. (ty a, a) \<le> (ty b, b)) (f t)"
    using assms(2,3) by (intro sorted_wrt_mono_rel [OF _ assms(2) [of t]]) (auto simp: less_eq_prod_def)
  moreover have "(ty a, a) \<le> (ty b, b)" if "a \<in> set (f t)" "b \<in> set (f t')" "t' \<in> set ts" for a b t'
    using Cons.prems that assms(3) by (auto simp: less_eq_prod_def)
  ultimately show ?case using Cons by (auto simp: sorted_wrt_append)
qed simp

lemma blocks_distinct:
  assumes "distinct ts" and "\<And>t. distinct (f t)" and "\<And>t n. n \<in> set (f t) \<Longrightarrow> ty n = t"
  shows "distinct (concat (map f ts))"
  using assms(1)
proof (induction ts)
  case (Cons t ts)
  have "t' \<notin> set ts" if "n \<in> set (f t)" "n \<in> set (f t')" for n t'
    using Cons.prems that assms(3) by (metis distinct.simps(2))
  then show ?case using Cons assms(2) by auto
qed simp

text \<open>C27: The overview page of the client shows every proxy of the session exactly once, by type and then by name,
  with the name, the type, the local address, the plugin, the phase and the error of its wrapper, and
  with the address that the server gave it when there is no error.\<close>

theorem status_page_rows:
  assumes "pxys_ok pm" and "set order = dom pm" and "distinct order"
  shows "\<exists>ns. distinct ns \<and> set ns = dom pm \<and>
    sorted_wrt (\<lambda>a b. (ws_Type (the (pm a)), a) \<le> (ws_Type (the (pm b)), b)) ns \<and>
    fetchData_status err (Inr (apiStatus ptype serverAddr order (Some pm))) old =
      (map (\<lambda>n. NewProxyStatusResp ptype serverAddr (GetStatus (the (pm n)))) ns, None) \<and>
    (pm n = Some pw \<longrightarrow> status_cells (NewProxyStatusResp ptype serverAddr (GetStatus pw)) =
      [(''name'', JStr n), (''type'', JStr (ws_Type pw)),
       (''local address'', JStr (if pb_LocalPort (GetBaseConfig (ws_Cfg pw)) = 0 then []
          else JoinHostPort (pb_LocalIP (GetBaseConfig (ws_Cfg pw))) (int_to_string (pb_LocalPort (GetBaseConfig (ws_Cfg pw)))))),
       (''plugin'', JStr (case pb_Plugin (GetBaseConfig (ws_Cfg pw)) of None \<Rightarrow> [] | Some p \<Rightarrow> ptype p)),
       (''remote address'', JStr (if ws_Err pw \<noteq> [] then []
          else if ws_Type pw = ''tcp'' \<or> ws_Type pw = ''udp'' then serverAddr @ ws_RemoteAddr pw else ws_RemoteAddr pw)),
       (''status'', JStr (phase_string (ws_Phase pw))), (''info'', JStr (ws_Err pw))])"
proof -
  define ty where "ty n = ws_Type (the (pm n))" for n
  define f where "f t = sort (filter (\<lambda>n. ty n = t) order)" for t
  define st where "st n = GetStatus (the (pm n))" for n
  let ?ts = "sort (remdups (map ty order))"
  let ?row = "\<lambda>n. NewProxyStatusResp ptype serverAddr (st n)"
  have g: "GetAllProxyStatus order pm = map st order"
    unfolding st_def by (rule GetAllProxyStatus_dom [OF assms(2)])
  have t: "map ws_Type (map st order) = map ty order" by (simp add: st_def ty_def GetStatus_def)
  have b: "sort_key ws_Name (filter (\<lambda>s. ws_Type s = t) (map st order)) = map st (f t)" for t
  proof -
    have "filter (\<lambda>s. ws_Type s = t) (map st order) = map st (filter (\<lambda>n. ty n = t) order)"
      by (simp add: filter_map comp_def st_def ty_def GetStatus_def)
    moreover have "ws_Name (st n) = n" if "n \<in> set order" for n
      using that assms(1,2) by (auto simp: st_def GetStatus_def pxys_ok_def)
    then have "sort_key (\<lambda>n. ws_Name (st n)) (filter (\<lambda>n. ty n = t) order) = f t"
      unfolding f_def by (intro sort_key_cong) simp
    ultimately show ?thesis by (simp only: sort_key_map)
  qed
  have "push_groups (map (\<lambda>t. (t, JArr (map ?row (f t)))) ts) acc = (acc @ map ?row (concat (map f ts)), None)" for ts acc
    by (induction ts arbitrary: acc) auto
  moreover have "apiStatus ptype serverAddr order (Some pm) = text_ok (JObj (map (\<lambda>t. (t, JArr (map ?row (f t)))) ?ts))"
    unfolding apiStatus_def Let_def option.simps g t b by (simp add: comp_def)
  ultimately have "fetchData_status err (Inr (apiStatus ptype serverAddr order (Some pm))) old = (map ?row (concat (map f ?ts)), None)"
    by (simp only: fetchData_status_def) (simp add: text_ok_def res_json_def)
  moreover have "distinct (concat (map f ?ts))"
    by (rule blocks_distinct [where ty = ty]) (use assms(3) in \<open>auto simp: f_def\<close>)
  moreover have "sorted_wrt (\<lambda>a b. (ty a, a) \<le> (ty b, b)) (concat (map f ?ts))"
    by (rule blocks_sorted) (auto simp: f_def strict_sorted_iff)
  moreover have "set (concat (map f ?ts)) = dom pm" using assms(2) by (auto simp: f_def)
  moreover have "pm n = Some pw \<Longrightarrow> ws_Name pw = n" using assms(1) by (simp add: pxys_ok_def)
  ultimately show ?thesis
    unfolding ty_def [symmetric] st_def [symmetric]
    by (intro exI [of _ "concat (map f ?ts)"] conjI impI)
      (simp_all add: status_cells_def status_columns_def NewProxyStatusResp_def js_opt_get_def GetStatus_def Let_def del: set_concat)
qed

theorem status_page_rows_witness:
  "\<exists>ns. set ns = {''ssh''} \<and>
    fetchData_status (\<lambda>_. []) (Inr (apiStatus (\<lambda>_. []) ''1.2.3.4'' [''ssh''] (Some [''ssh'' \<mapsto> NewWrapper tcp_demo]))) [] =
      (map (\<lambda>n. NewProxyStatusResp (\<lambda>_. []) ''1.2.3.4'' (GetStatus (the ([''ssh'' \<mapsto> NewWrapper tcp_demo] n)))) ns, None)"
proof -
  have "pxys_ok [''ssh'' \<mapsto> NewWrapper tcp_demo]" "set [''ssh''] = dom [''ssh'' \<mapsto> NewWrapper tcp_demo]" "distinct [''ssh'']"
    by (simp_all add: pxys_ok_def cfg_name_def tcp_demo_def NewWrapper_def Let_def)
  from status_page_rows [OF this, of "\<lambda>_. []" "\<lambda>_. []" "''1.2.3.4''" "[]" "''ssh''" "NewWrapper tcp_demo"]
  show ?thesis by (rule ex_forward) (elim conjE, intro conjI, simp, assumption)
qed

text \<open>Of a configuration uploaded on the page of the client, the text that was typed is what is written to the
  file, unless writing fails, and the reload works with the file; but the page reports success whatever
  the client answers: also when the file could not be written, does not parse or is not valid. When the write
  breaks off, the beginning of the text is all that is left of the file. The running proxies are left as they
  were when the reload fails.\<close>

theorem upload_always_success:
  assumes "text \<noteq> []" and "apiPutConfig w text s = (r1, s1)"
    and "apiReload parse invalid pcomplete vname venabled vcomplete start vorder order s1 = (r2, ms, s2)"
  shows "uploadConfig err True (Inr r1) (Inr r2) text = [PutConfig text, Reload, Message MSuccess ''Success''] \<and>
    cl_file s2 = (case w of Written \<Rightarrow> Some text | BrokenOff n e \<Rightarrow> Some (take n text) | _ \<Rightarrow> cl_file s) \<and>
    (rs_ok r1 \<longleftrightarrow> w = Written) \<and>
    (\<not> rs_ok r2 \<longrightarrow> ms = [] \<and> cl_ctl s2 = cl_ctl s \<and> cl_proxyCfgs s2 = cl_proxyCfgs s)"
  using assms
  by (cases w) (auto simp: uploadConfig_def apiPutConfig_def apiReload_def UpdateAllConfigurer_def plain_def write_error_def Let_def
      split: sum.splits option.splits prod.splits if_splits)

theorem upload_always_success_witness:
  "uploadConfig (\<lambda>_. []) True (Inr (write_error ''full'')) (Inr (plain 400 ''Bad Request'' ''bad'')) ''x'' =
     [PutConfig ''x'', Reload, Message MSuccess ''Success'']"
proof -
  let ?s = "\<lparr>cl_configFilePath = ''f'', cl_file = None, cl_proxyCfgs = [], cl_visitorCfgs = [], cl_ctl = None\<rparr> :: (unit, unit, unit) client_service"
  have "apiPutConfig (BrokenOff 0 ''full'') ''x'' ?s = (write_error ''full'', ?s\<lparr>cl_file := Some []\<rparr>)"
    by (simp add: apiPutConfig_def)
  from upload_always_success [OF _ this, of "\<lambda>_. Inl ''bad''"] show ?thesis by (simp add: apiReload_def)
qed

end
