(* ===== verification/Config_Page.thy ===== *)
theory Config_Page
  imports Client_Api
begin

text \<open>
  The configuration page of the client dashboard (\<open>web/frpc/src/components/ClientConfigure.vue\<close>) as the browser
  runs it, together with the client that it talks to (\<open>client/admin_api.go\<close>). The callbacks of the page
  run one at a time; between a request and its callback the user goes on working, the client handles the
  request at some moment, and its answer arrives at a later one.
\<close>

section \<open>The page\<close>

datatype cfg_request = GetConfig | PutBody string | GetReload

text \<open>An open request with its answer, once there is one.\<close>

record config_page =
  cp_textarea :: string
  cp_boxes :: nat
  cp_open :: "(nat \<times> cfg_request \<times> fetch_result option) list"
  cp_next :: nat
  cp_messages :: "(msg_type \<times> string) list"

definition cfg_send :: "cfg_request \<Rightarrow> config_page \<Rightarrow> config_page" where
  "cfg_send q p = p\<lparr>cp_open := cp_open p @ [(cp_next p, q, None)], cp_next := cp_next p + 1\<rparr>"

definition cfg_say :: "msg_type \<Rightarrow> string \<Rightarrow> config_page \<Rightarrow> config_page" where
  "cfg_say ty txt p = p\<lparr>cp_messages := cp_messages p @ [(ty, txt)]\<rparr>"

text \<open>The script sets up the text and asks for the file.\<close>

definition cfg_mount :: config_page where
  "cfg_mount = cfg_send GetConfig \<lparr>cp_textarea = [], cp_boxes = 0, cp_open = [], cp_next = 0, cp_messages = []\<rparr>"

text \<open>The two outcomes of the confirmation box.\<close>

definition on_confirm :: "config_page \<Rightarrow> config_page" where
  "on_confirm p =
     (if cp_textarea p = [] then cfg_say MWarning ''Configure content can not be empty!'' p
      else cfg_send (PutBody (cp_textarea p)) p)"

definition on_cancel :: "config_page \<Rightarrow> config_page" where
  "on_cancel p = cfg_say MInfo ''Canceled'' p"

text \<open>The callbacks of the three requests.\<close>

definition on_answer :: "(js_error \<Rightarrow> string) \<Rightarrow> cfg_request \<Rightarrow> fetch_result \<Rightarrow> config_page \<Rightarrow> config_page" where
  "on_answer err q reply p =
     (case q of
        GetConfig \<Rightarrow>
          (case reply of
             Inl _ \<Rightarrow> cfg_say MWarning ''Get configure content from frpc failed!'' p
           | Inr res \<Rightarrow> p\<lparr>cp_textarea := rs_text res\<rparr>)
      | PutBody _ \<Rightarrow>
          (case reply of
             Inl _ \<Rightarrow> cfg_say MWarning ''Put config to frpc and hot reload failed!'' p
           | Inr _ \<Rightarrow> cfg_send GetReload p)
      | GetReload \<Rightarrow>
          (case reply of
             Inl e \<Rightarrow> cfg_say MWarning (''Reload frpc configure file error, '' @ err e) p
           | Inr _ \<Rightarrow> cfg_say MSuccess ''Success'' p))"

section \<open>Page and client\<close>

text \<open>What the handlers of the client take from elsewhere.\<close>

record ('p, 'c, 'v) client_env =
  ce_parse :: "string option \<Rightarrow> string + client_common \<times> 'p proxy_config list \<times> 'c list"
  ce_invalid :: "client_common \<Rightarrow> 'p proxy_config list \<Rightarrow> 'c list \<Rightarrow> string option"
  ce_pcomplete :: "'p \<Rightarrow> 'p"
  ce_vname :: "'c \<Rightarrow> string"
  ce_venabled :: "'c \<Rightarrow> bool option"
  ce_vcomplete :: "client_common \<Rightarrow> 'c \<Rightarrow> 'c"
  ce_start :: "'c \<Rightarrow> 'v option"
  ce_read_err :: string

definition reload ::
  "('p, 'c, 'v) client_env \<Rightarrow> string list \<Rightarrow> string list \<Rightarrow> ('p, 'c, 'v) client_service \<Rightarrow>
   response \<times> client_msg list \<times> ('p, 'c, 'v) client_service" where
  "reload e vorder order s =
     apiReload (ce_parse e) (ce_invalid e) (ce_pcomplete e) (ce_vname e) (ce_venabled e) (ce_vcomplete e) (ce_start e) vorder order s"

text \<open>The requests that the page has given up, because the connection failed, can still reach the client
  (\<open>cs_stray\<close>). A handler that writes the file can be interrupted by others: \<open>cs_writers\<close> are the writes under way,
  each with its request, the text and the number of characters written so far.\<close>

record ('p, 'c, 'v) cfg_system =
  cs_page :: config_page
  cs_client :: "('p, 'c, 'v) client_service"
  cs_sent :: "client_msg list"
  cs_stray :: "(nat \<times> cfg_request) list"
  cs_writers :: "(nat \<times> string \<times> nat) list"

text \<open>\<open>Handle\<close> is the moment at which the client handles a request without interruption: with the outcome of writing
  the file, if it is an upload, and the orders of its two tables. An upload can also be handled in steps: the file is
  opened and truncated, written in pieces, and closed, with an error or not. \<open>Break\<close> is a failure of the
  connection.\<close>

datatype cfg_event =
    Edit string | ClickRefresh | ClickUpload | Confirm | Cancel
  | Handle nat write_outcome "string list" "string list"
  | WriteOpen nat | WriteChunk nat nat | WriteEnd nat "string option"
  | Break nat js_error | Deliver nat

definition set_answer :: "nat \<Rightarrow> fetch_result \<Rightarrow> config_page \<Rightarrow> config_page" where
  "set_answer i reply p =
     p\<lparr>cp_open := map (\<lambda>x. if fst x = i then (i, fst (snd x), Some reply) else x) (cp_open p)\<rparr>"

definition handle_request ::
  "('p, 'c, 'v) client_env \<Rightarrow> write_outcome \<Rightarrow> string list \<Rightarrow> string list \<Rightarrow> cfg_request \<Rightarrow> ('p, 'c, 'v) client_service \<Rightarrow>
   response \<times> client_msg list \<times> ('p, 'c, 'v) client_service" where
  "handle_request e w vorder order q s =
     (case q of
        GetConfig \<Rightarrow> (apiGetConfig (ce_read_err e) s, [], s)
      | PutBody body \<Rightarrow> (case apiPutConfig w body s of (res, s') \<Rightarrow> (res, [], s'))
      | GetReload \<Rightarrow> reload e vorder order s)"

text \<open>The request under a number that the client has not begun to handle, and its answer, which is lost when the
  page has given the request up.\<close>

definition unhandled :: "('p, 'c, 'v) cfg_system \<Rightarrow> nat \<Rightarrow> cfg_request option" where
  "unhandled s i =
     (if i \<in> fst ` set (cs_writers s) then None
      else (case map_of (cp_open (cs_page s)) i of Some (q, None) \<Rightarrow> Some q | _ \<Rightarrow> map_of (cs_stray s) i))"

definition page_answered :: "nat \<Rightarrow> response \<Rightarrow> config_page \<Rightarrow> config_page" where
  "page_answered i res p =
     (case map_of (cp_open p) i of Some (q, None) \<Rightarrow> set_answer i (Inr res) p | _ \<Rightarrow> p)"

definition respond :: "nat \<Rightarrow> response \<Rightarrow> ('p, 'c, 'v) cfg_system \<Rightarrow> ('p, 'c, 'v) cfg_system" where
  "respond i res s =
     s\<lparr>cs_page := page_answered i res (cs_page s), cs_stray := filter (\<lambda>x. fst x \<noteq> i) (cs_stray s)\<rparr>"

text \<open>Writing a piece at an offset of a file: what is missing before the offset reads as zeros.\<close>

definition write_at :: "nat \<Rightarrow> string \<Rightarrow> string \<Rightarrow> string" where
  "write_at k d f =
     (if d = [] then f else take k f @ replicate (k - length f) (CHR 0x00) @ d @ drop (k + length d) f)"

definition set_file :: "string \<Rightarrow> ('p, 'c, 'v) cfg_system \<Rightarrow> ('p, 'c, 'v) cfg_system" where
  "set_file f s = s\<lparr>cs_client := (cs_client s)\<lparr>cl_file := Some f\<rparr>\<rparr>"

definition write_open :: "nat \<Rightarrow> ('p, 'c, 'v) cfg_system \<Rightarrow> ('p, 'c, 'v) cfg_system" where
  "write_open i s =
     (case unhandled s i of
        Some (PutBody body) \<Rightarrow>
          if body = [] then s else (set_file [] s)\<lparr>cs_writers := cs_writers s @ [(i, body, 0)]\<rparr>
      | _ \<Rightarrow> s)"

definition write_chunk :: "nat \<Rightarrow> nat \<Rightarrow> ('p, 'c, 'v) cfg_system \<Rightarrow> ('p, 'c, 'v) cfg_system" where
  "write_chunk i n s =
     (case map_of (cs_writers s) i of
        None \<Rightarrow> s
      | Some (body, k) \<Rightarrow>
          (let d = take n (drop k body) in
           (case cl_file (cs_client s) of None \<Rightarrow> s | Some f \<Rightarrow> set_file (write_at k d f) s)
             \<lparr>cs_writers := map (\<lambda>x. if fst x = i then (i, body, k + length d) else x) (cs_writers s)\<rparr>))"

definition write_end :: "nat \<Rightarrow> string option \<Rightarrow> ('p, 'c, 'v) cfg_system \<Rightarrow> ('p, 'c, 'v) cfg_system" where
  "write_end i e s =
     (case map_of (cs_writers s) i of
        None \<Rightarrow> s
      | Some (body, k) \<Rightarrow>
          if e = None \<and> k < length body then s
          else (respond i (case e of None \<Rightarrow> plain 200 ''OK'' [] | Some x \<Rightarrow> write_error x) s)
             \<lparr>cs_writers := filter (\<lambda>x. fst x \<noteq> i) (cs_writers s)\<rparr>)"

fun cfg_step :: "(js_error \<Rightarrow> string) \<Rightarrow> ('p, 'c, 'v) client_env \<Rightarrow> ('p, 'c, 'v) cfg_system \<Rightarrow> cfg_event \<Rightarrow> ('p, 'c, 'v) cfg_system" where
  "cfg_step err e s (Edit txt) = s\<lparr>cs_page := (cs_page s)\<lparr>cp_textarea := txt\<rparr>\<rparr>"
| "cfg_step err e s ClickRefresh = s\<lparr>cs_page := cfg_send GetConfig (cs_page s)\<rparr>"
| "cfg_step err e s ClickUpload = s\<lparr>cs_page := (cs_page s)\<lparr>cp_boxes := cp_boxes (cs_page s) + 1\<rparr>\<rparr>"
| "cfg_step err e s Confirm =
     (if cp_boxes (cs_page s) = 0 then s
      else s\<lparr>cs_page := on_confirm ((cs_page s)\<lparr>cp_boxes := cp_boxes (cs_page s) - 1\<rparr>)\<rparr>)"
| "cfg_step err e s Cancel =
     (if cp_boxes (cs_page s) = 0 then s
      else s\<lparr>cs_page := on_cancel ((cs_page s)\<lparr>cp_boxes := cp_boxes (cs_page s) - 1\<rparr>)\<rparr>)"
| "cfg_step err e s (Handle i w vorder order) =
     (case unhandled s i of
        Some q \<Rightarrow>
          (case handle_request e w vorder order q (cs_client s) of
             (res, ms, cl) \<Rightarrow> (respond i res s)\<lparr>cs_client := cl, cs_sent := cs_sent s @ ms\<rparr>)
      | None \<Rightarrow> s)"
| "cfg_step err e s (WriteOpen i) = write_open i s"
| "cfg_step err e s (WriteChunk i n) = write_chunk i n s"
| "cfg_step err e s (WriteEnd i x) = write_end i x s"
| "cfg_step err e s (Break i x) =
     (case map_of (cp_open (cs_page s)) i of
        Some (q, r) \<Rightarrow>
          s\<lparr>cs_page := set_answer i (Inl x) (cs_page s),
            cs_stray := cs_stray s @ (if unhandled s i = Some q \<and> r = None then [(i, q)] else [])\<rparr>
      | None \<Rightarrow> s)"
| "cfg_step err e s (Deliver i) =
     (case map_of (cp_open (cs_page s)) i of
        Some (q, Some reply) \<Rightarrow>
          s\<lparr>cs_page := on_answer err q reply ((cs_page s)\<lparr>cp_open := filter (\<lambda>x. fst x \<noteq> i) (cp_open (cs_page s))\<rparr>)\<rparr>
      | _ \<Rightarrow> s)"

text \<open>The page is opened on a client, and a sequence of events happens.\<close>

definition cfg_run ::
  "(js_error \<Rightarrow> string) \<Rightarrow> ('p, 'c, 'v) client_env \<Rightarrow> ('p, 'c, 'v) client_service \<Rightarrow> cfg_event list \<Rightarrow> ('p, 'c, 'v) cfg_system" where
  "cfg_run err e cl evs = foldl (cfg_step err e)
     \<lparr>cs_page = cfg_mount, cs_client = cl, cs_sent = [], cs_stray = [], cs_writers = []\<rparr> evs"

lemma cfg_run_snoc: "cfg_run err e cl (evs @ [ev]) = cfg_step err e (cfg_run err e cl evs) ev"
  by (simp add: cfg_run_def)

section \<open>Only confirmed texts reach the client\<close>

text \<open>A text that stood in the editor when the user confirmed a box.\<close>

definition confirmed ::
  "(js_error \<Rightarrow> string) \<Rightarrow> ('p, 'c, 'v) client_env \<Rightarrow> ('p, 'c, 'v) client_service \<Rightarrow> cfg_event list \<Rightarrow> string \<Rightarrow> bool" where
  "confirmed err e cl evs x \<longleftrightarrow>
     (\<exists>evs1 evs2. evs = evs1 @ Confirm # evs2 \<and> 0 < cp_boxes (cs_page (cfg_run err e cl evs1)) \<and>
        x = cp_textarea (cs_page (cfg_run err e cl evs1)) \<and> x \<noteq> [])"

definition proxies_of :: "('p, 'c, 'v) client_env \<Rightarrow> string option \<Rightarrow> 'p proxy_config list \<Rightarrow> bool" where
  "proxies_of e f cfgs \<longleftrightarrow>
     (\<exists>cc ps vs. ce_parse e f = Inr (cc, ps, vs) \<and> cfgs = select_proxies (ce_pcomplete e) cc ps \<and>
        ce_invalid e cc cfgs (select_visitors (ce_vname e) (ce_venabled e) (ce_vcomplete e) cc vs) = None)"

fun body_ok :: "(string \<Rightarrow> bool) \<Rightarrow> cfg_request \<Rightarrow> bool" where
  "body_ok C (PutBody x) = C x"
| "body_ok C _ = True"

definition bodies_ok :: "(string \<Rightarrow> bool) \<Rightarrow> config_page \<Rightarrow> bool" where
  "bodies_ok C p \<longleftrightarrow> list_all (\<lambda>x. body_ok C (fst (snd x))) (cp_open p)"

text \<open>The client has the file that it had or one with the property \<open>P\<close>, and its proxies are the ones it had or those
  of such a file.\<close>

definition client_from ::
  "('p, 'c, 'v) client_env \<Rightarrow> ('p, 'c, 'v) client_service \<Rightarrow> (string \<Rightarrow> bool) \<Rightarrow> ('p, 'c, 'v) client_service \<Rightarrow> bool" where
  "client_from e cl P c \<longleftrightarrow>
     (cl_file c = cl_file cl \<or> (\<exists>x. cl_file c = Some x \<and> P x)) \<and>
     (cl_proxyCfgs c = cl_proxyCfgs cl \<or>
      (\<exists>f. (f = cl_file cl \<or> (\<exists>x. f = Some x \<and> P x)) \<and> proxies_of e f (cl_proxyCfgs c)))"

text \<open>A text made of pieces of texts: every character stands in one of them at the same place, or is a zero of a
  hole; and the beginnings of texts.\<close>

definition pieces_of :: "(string \<Rightarrow> bool) \<Rightarrow> string \<Rightarrow> bool" where
  "pieces_of C z \<longleftrightarrow> (\<forall>k < length z. z ! k = CHR 0x00 \<or> (\<exists>x. C x \<and> k < length x \<and> z ! k = x ! k))"

definition beginning_of :: "(string \<Rightarrow> bool) \<Rightarrow> string \<Rightarrow> bool" where
  "beginning_of C z \<longleftrightarrow> (\<exists>x n. C x \<and> z = take n x)"

text \<open>Requests under way and texts being written have the property \<open>C\<close>.\<close>

definition texts_ok :: "(string \<Rightarrow> bool) \<Rightarrow> ('p, 'c, 'v) cfg_system \<Rightarrow> bool" where
  "texts_ok C s \<longleftrightarrow> bodies_ok C (cs_page s) \<and> list_all (\<lambda>x. body_ok C (snd x)) (cs_stray s) \<and>
     list_all (\<lambda>x. C (fst (snd x))) (cs_writers s)"

lemma cp_simps [simp]:
  "cp_open (cfg_send q p) = cp_open p @ [(cp_next p, q, None)]" "cp_open (cfg_say ty txt p) = cp_open p"
  "cp_textarea (cfg_send q p) = cp_textarea p" "cp_textarea (cfg_say ty txt p) = cp_textarea p"
  "cp_next (cfg_send q p) = cp_next p + 1" "cp_next (cfg_say ty txt p) = cp_next p"
  "cp_messages (cfg_send q p) = cp_messages p" "cp_messages (cfg_say ty txt p) = cp_messages p @ [(ty, txt)]"
  "cp_boxes (cfg_send q p) = cp_boxes p" "cp_boxes (cfg_say ty txt p) = cp_boxes p"
  by (simp_all add: cfg_send_def cfg_say_def)

lemma bodies_ok_simps [simp]:
  "bodies_ok C (cfg_send q p) \<longleftrightarrow> bodies_ok C p \<and> body_ok C q" "bodies_ok C (cfg_say ty txt p) = bodies_ok C p"
  "bodies_ok C (p\<lparr>cp_textarea := t\<rparr>) = bodies_ok C p" "bodies_ok C (p\<lparr>cp_boxes := n\<rparr>) = bodies_ok C p"
  by (auto simp: bodies_ok_def)

lemma bodies_ok_set_answer [simp]: "bodies_ok C (set_answer i reply p) = bodies_ok C p"
proof -
  have "body_ok C (fst (snd (if fst x = i then (i, fst (snd x), Some reply) else x))) = body_ok C (fst (snd x))" for x by simp
  then show ?thesis by (simp add: bodies_ok_def set_answer_def list.pred_map comp_def)
qed

lemma bodies_ok_drop: "bodies_ok C p \<Longrightarrow> bodies_ok C (p\<lparr>cp_open := filter f (cp_open p)\<rparr>)"
  by (simp add: bodies_ok_def list_all_iff)

lemma bodies_ok_answer: "bodies_ok C p \<Longrightarrow> bodies_ok C (on_answer err q reply p)"
  by (simp add: on_answer_def split: cfg_request.splits sum.splits)

lemma bodies_ok_mono: "bodies_ok C p \<Longrightarrow> (\<And>x. C x \<Longrightarrow> C' x) \<Longrightarrow> bodies_ok C' p"
proof -
  assume m: "\<And>x. C x \<Longrightarrow> C' x"
  have "body_ok C q \<Longrightarrow> body_ok C' q" for q using m by (cases q) auto
  then show "bodies_ok C p \<Longrightarrow> bodies_ok C' p" by (auto simp: bodies_ok_def list_all_iff)
qed

lemma reload_effect:
  assumes "reload e vorder order s = (res, ms, s')"
  shows "cl_file s' = cl_file s" "cl_configFilePath s' = cl_configFilePath s"
    "s' = s \<or> proxies_of e (cl_file s) (cl_proxyCfgs s')"
  using assms
  by (auto simp: reload_def apiReload_def UpdateAllConfigurer_def proxies_of_def Let_def
      split: sum.splits option.splits prod.splits)

lemma texts_ok_mono: "texts_ok C s \<Longrightarrow> (\<And>x. C x \<Longrightarrow> C' x) \<Longrightarrow> texts_ok C' s"
proof -
  assume m: "\<And>x. C x \<Longrightarrow> C' x"
  have "body_ok C q \<Longrightarrow> body_ok C' q" for q using m by (cases q) auto
  then show "texts_ok C s \<Longrightarrow> texts_ok C' s" using m bodies_ok_mono [of C _ C'] by (auto simp: texts_ok_def list_all_iff)
qed

lemma unhandled_ok:
  assumes "texts_ok C s" and "unhandled s i = Some q"
  shows "body_ok C q"
proof -
  have "(\<exists>r. (i, q, r) \<in> set (cp_open (cs_page s))) \<or> (i, q) \<in> set (cs_stray s)"
    using assms(2) by (auto simp: unhandled_def split: if_splits option.splits dest!: map_of_SomeD)
  then show ?thesis using assms(1) by (force simp: texts_ok_def bodies_ok_def list_all_iff)
qed

lemma bodies_ok_answered [simp]: "bodies_ok C (page_answered i res p) = bodies_ok C p"
  by (simp add: page_answered_def split: option.splits)

lemma write_sel [simp]:
  "cs_page (write_chunk i n s) = cs_page s" "cs_page (write_open i s) = cs_page s"
  "cs_stray (write_chunk i n s) = cs_stray s" "cs_stray (write_open i s) = cs_stray s"
  "cl_proxyCfgs (cs_client (write_chunk i n s)) = cl_proxyCfgs (cs_client s)"
  "cl_proxyCfgs (cs_client (write_open i s)) = cl_proxyCfgs (cs_client s)"
  "cs_client (write_end i x s) = cs_client s"
  by (auto simp: write_chunk_def write_open_def write_end_def respond_def set_file_def Let_def split: option.splits cfg_request.splits)

lemma respond_sel [simp]:
  "cs_page (respond i res s) = page_answered i res (cs_page s)" "cs_client (respond i res s) = cs_client s"
  "cs_stray (respond i res s) = filter (\<lambda>x. fst x \<noteq> i) (cs_stray s)" "cs_writers (respond i res s) = cs_writers s"
  "cs_sent (respond i res s) = cs_sent s"
  by (simp_all add: respond_def)

text \<open>What a step does to the writes under way and to the file.\<close>

lemma step_writers:
  "cs_writers (cfg_step err e s ev) =
     (case ev of
        WriteOpen i \<Rightarrow>
          (case unhandled s i of Some (PutBody b) \<Rightarrow> cs_writers s @ (if b = [] then [] else [(i, b, 0)]) | _ \<Rightarrow> cs_writers s)
      | WriteChunk i n \<Rightarrow>
          (case map_of (cs_writers s) i of
             None \<Rightarrow> cs_writers s
           | Some (b, k) \<Rightarrow> map (\<lambda>x. if fst x = i then (i, b, k + length (take n (drop k b))) else x) (cs_writers s))
      | WriteEnd i x \<Rightarrow>
          (case map_of (cs_writers s) i of
             None \<Rightarrow> cs_writers s
           | Some (b, k) \<Rightarrow> if x = None \<and> k < length b then cs_writers s else filter (\<lambda>y. fst y \<noteq> i) (cs_writers s))
      | _ \<Rightarrow> cs_writers s)"
  by (cases ev) (auto simp: write_open_def write_chunk_def write_end_def set_file_def Let_def split: option.splits cfg_request.splits prod.splits)

lemma handle_file:
  assumes "handle_request e w vo od q c = (res, ms, c')"
  shows "cl_file c' =
    (case q of PutBody b \<Rightarrow> if b = [] then cl_file c else (case w of Written \<Rightarrow> Some b | BrokenOff n x \<Rightarrow> Some (take n b) | _ \<Rightarrow> cl_file c)
     | _ \<Rightarrow> cl_file c)"
  using assms reload_effect(1) [of e vo od c]
  by (cases q; cases w) (auto simp: handle_request_def apiPutConfig_def split: if_splits)

lemma step_file:
  "cl_file (cs_client (cfg_step err e s ev)) =
     (case ev of
        Handle i w vo od \<Rightarrow>
          (case unhandled s i of
             Some (PutBody b) \<Rightarrow>
               if b = [] then cl_file (cs_client s)
               else (case w of Written \<Rightarrow> Some b | BrokenOff n x \<Rightarrow> Some (take n b) | _ \<Rightarrow> cl_file (cs_client s))
           | _ \<Rightarrow> cl_file (cs_client s))
      | WriteOpen i \<Rightarrow>
          (case unhandled s i of Some (PutBody b) \<Rightarrow> if b = [] then cl_file (cs_client s) else Some [] | _ \<Rightarrow> cl_file (cs_client s))
      | WriteChunk i n \<Rightarrow>
          (case map_of (cs_writers s) i of
             None \<Rightarrow> cl_file (cs_client s)
           | Some (b, k) \<Rightarrow> map_option (write_at k (take n (drop k b))) (cl_file (cs_client s)))
      | _ \<Rightarrow> cl_file (cs_client s))"
proof (cases ev)
  case (Handle i w vo od)
  then show ?thesis
    using handle_file [of e w vo od _ "cs_client s"] by (auto split: option.splits prod.splits cfg_request.splits)
qed (auto simp: write_open_def write_chunk_def set_file_def Let_def split: option.splits cfg_request.splits)

lemma step_proxies:
  "cl_proxyCfgs (cs_client (cfg_step err e s ev)) = cl_proxyCfgs (cs_client s) \<or>
   proxies_of e (cl_file (cs_client s)) (cl_proxyCfgs (cs_client (cfg_step err e s ev)))"
proof (cases ev)
  case (Handle i w vo od)
  have "cl_proxyCfgs c' = cl_proxyCfgs c \<or> proxies_of e (cl_file c) (cl_proxyCfgs c')"
    if "handle_request e w vo od q c = (res, ms, c')" for q c res ms c'
    using that reload_effect(3) [of e vo od c]
    by (cases q; cases w) (auto simp: handle_request_def apiPutConfig_def split: if_splits)
  then show ?thesis using Handle by (auto split: option.splits prod.splits)
qed (auto split: option.splits)

lemma client_from_step:
  assumes "client_from e cl P (cs_client s)"
    and "cl_file (cs_client (cfg_step err e s ev)) = cl_file cl \<or> (\<exists>x. cl_file (cs_client (cfg_step err e s ev)) = Some x \<and> P x)"
  shows "client_from e cl P (cs_client (cfg_step err e s ev))"
proof -
  let ?g = "cl_proxyCfgs (cs_client (cfg_step err e s ev))"
  let ?F = "\<lambda>f. f = cl_file cl \<or> (\<exists>x. f = Some x \<and> P x)"
  have o: "?F (cl_file (cs_client s))"
    "cl_proxyCfgs (cs_client s) = cl_proxyCfgs cl \<or> (\<exists>f. ?F f \<and> proxies_of e f (cl_proxyCfgs (cs_client s)))"
    using assms(1) unfolding client_from_def by (rule conjunct1, rule conjunct2)
  have "?g = cl_proxyCfgs cl \<or> (\<exists>f. ?F f \<and> proxies_of e f ?g)"
    using step_proxies [of err e s ev]
  proof
    assume "?g = cl_proxyCfgs (cs_client s)"
    then show ?thesis using o(2) by simp
  next
    assume "proxies_of e (cl_file (cs_client s)) ?g"
    with o(1) have "?F (cl_file (cs_client s)) \<and> proxies_of e (cl_file (cs_client s)) ?g" by (rule conjI)
    then show ?thesis by (intro disjI2) (rule exI)
  qed
  then show ?thesis using assms(2) unfolding client_from_def by (rule conjI [rotated])
qed

lemma client_from_mono: "client_from e cl P c \<Longrightarrow> (\<And>x. P x \<Longrightarrow> P' x) \<Longrightarrow> client_from e cl P' c"
  unfolding client_from_def by blast

lemma texts_ok_step:
  assumes "texts_ok C s"
    and "ev = Confirm \<Longrightarrow> 0 < cp_boxes (cs_page s) \<Longrightarrow> cp_textarea (cs_page s) \<noteq> [] \<Longrightarrow> C (cp_textarea (cs_page s))"
  shows "texts_ok C (cfg_step err e s ev)"
proof -
  have ok: "bodies_ok C (cs_page s)" "list_all (\<lambda>x. body_ok C (snd x)) (cs_stray s)" "list_all (\<lambda>x. C (fst (snd x))) (cs_writers s)"
    using assms(1) by (simp_all add: texts_ok_def)
  have w: "list_all (\<lambda>x. C (fst (snd x))) (cs_writers (cfg_step err e s ev))"
  proof (cases ev)
    case (WriteOpen i)
    have "C b" if "unhandled s i = Some (PutBody b)" for b using unhandled_ok [OF assms(1) that] by simp
    then show ?thesis using WriteOpen ok(3) unfolding step_writers by (simp split: option.split cfg_request.split)
  next
    case (WriteChunk i n)
    have "C b" if "map_of (cs_writers s) i = Some (b, k)" for b k
      using map_of_SomeD [OF that] ok(3) by (auto simp: list_all_iff)
    then show ?thesis using WriteChunk ok(3) unfolding step_writers by (auto simp: list_all_iff split: option.split)
  next
    case (WriteEnd i x)
    then show ?thesis using ok(3) unfolding step_writers by (auto simp: list_all_iff split: option.split)
  qed (use ok(3) in \<open>simp_all add: step_writers del: cfg_step.simps\<close>)
  have b: "bodies_ok C (cs_page (cfg_step err e s ev))"
  proof (cases ev)
    case (Deliver i)
    then show ?thesis using ok(1) by (auto split: option.splits intro: bodies_ok_answer bodies_ok_drop)
  next
    case (WriteEnd i x)
    then show ?thesis using ok(1) by (auto simp: write_end_def split: option.splits)
  qed (use ok(1) assms(2) in \<open>auto simp: on_confirm_def on_cancel_def split: option.splits prod.splits\<close>)
  have "list_all (\<lambda>x. body_ok C (snd x)) (cs_stray (cfg_step err e s ev))"
    using ok(2) unhandled_ok [OF assms(1)]
    by (cases ev) (auto simp: list_all_iff write_end_def split: option.splits prod.splits)
  then show ?thesis using w b by (simp add: texts_ok_def)
qed

lemma confirmed_mono: "confirmed err e cl evs x \<Longrightarrow> confirmed err e cl (evs @ evs') x"
  unfolding confirmed_def by fastforce

lemma texts_ok_run: "texts_ok (confirmed err e cl evs) (cfg_run err e cl evs)"
proof (induction evs rule: rev_induct)
  case Nil
  then show ?case by (simp add: cfg_run_def texts_ok_def bodies_ok_def cfg_mount_def)
next
  case (snoc ev evs)
  let ?C = "confirmed err e cl (evs @ [ev])"
  let ?s = "cfg_run err e cl evs"
  have "texts_ok ?C ?s" using texts_ok_mono [OF snoc] confirmed_mono by metis
  moreover have "?C (cp_textarea (cs_page ?s))"
    if "ev = Confirm" "0 < cp_boxes (cs_page ?s)" "cp_textarea (cs_page ?s) \<noteq> []"
    unfolding confirmed_def using that by (intro exI [of _ evs] exI [of _ "[]"]) simp
  ultimately show ?case unfolding cfg_run_snoc by (rule texts_ok_step)
qed

lemma texts_ok_snoc: "texts_ok (confirmed err e cl (evs @ [ev])) (cfg_run err e cl evs)"
  using texts_ok_mono [OF texts_ok_run] confirmed_mono by metis

subsection \<open>Writes in any order\<close>

definition file_pieces :: "('p, 'c, 'v) client_service \<Rightarrow> (string \<Rightarrow> bool) \<Rightarrow> ('p, 'c, 'v) cfg_system \<Rightarrow> bool" where
  "file_pieces cl C s \<longleftrightarrow> cl_file (cs_client s) = cl_file cl \<and> cs_writers s = [] \<or>
     (\<exists>z. cl_file (cs_client s) = Some z \<and> pieces_of C z)"

lemma pieces_of_take: "C x \<Longrightarrow> pieces_of C (take n x)"
  by (auto simp: pieces_of_def)

lemma pieces_of_self: "C x \<Longrightarrow> pieces_of C x"
  by (auto simp: pieces_of_def)

lemma pieces_of_write:
  assumes "pieces_of C z" and "C x"
  shows "pieces_of C (write_at k (take n (drop k x)) z)"
proof (cases "take n (drop k x) = []")
  case False
  let ?d = "take n (drop k x)"
  define a where "a = take k z @ replicate (k - length z) (CHR 0x00)"
  have l: "length a = k" by (simp add: a_def)
  have "write_at k ?d z ! j = CHR 0x00 \<or> (\<exists>x. C x \<and> j < length x \<and> write_at k ?d z ! j = x ! j)"
    if j: "j < length (write_at k ?d z)" for j
  proof -
    have e: "write_at k ?d z = a @ ?d @ drop (k + length ?d) z"
      using False by (simp add: write_at_def a_def)
    consider "j < k" "j < length z" | "j < k" "length z \<le> j" | "k \<le> j" "j < k + length ?d" | "k + length ?d \<le> j" by linarith
    then show ?thesis
    proof cases
      case 1
      then have "write_at k ?d z ! j = z ! j" by (simp add: e l nth_append) (simp add: a_def nth_append)
      then show ?thesis using assms(1) 1 by (simp add: pieces_of_def)
    next
      case 2
      then have "write_at k ?d z ! j = CHR 0x00" by (simp add: e l nth_append) (simp add: a_def nth_append less_diff_conv)
      then show ?thesis ..
    next
      case 3
      then have "j - k < length ?d" by linarith
      then have "write_at k ?d z ! j = x ! j" "j < length x" using 3 by (simp_all add: e l nth_append)
      then show ?thesis using assms(2) by blast
    next
      case 4
      then have "write_at k ?d z ! j = z ! j" "j < length z" using j by (auto simp: e l nth_append)
      then show ?thesis using assms(1) by (simp add: pieces_of_def)
    qed
  qed
  then show ?thesis by (simp add: pieces_of_def)
qed (simp add: write_at_def assms(1))

lemma file_pieces_step:
  assumes "file_pieces cl C s" and "texts_ok C s"
  shows "file_pieces cl C (cfg_step err e s ev)"
proof (cases ev)
  case (Handle i w vo od)
  show ?thesis
    using Handle assms(1) unhandled_ok [OF assms(2), of i] pieces_of_take [of C] pieces_of_self [of C]
    unfolding file_pieces_def step_file step_writers
    by (auto split: option.split cfg_request.split write_outcome.split)
next
  case (WriteOpen i)
  show ?thesis
    using WriteOpen assms(1) unhandled_ok [OF assms(2), of i]
    unfolding file_pieces_def step_file step_writers
    by (auto simp: pieces_of_def split: option.split cfg_request.split)
next
  case (WriteChunk i n)
  show ?thesis
  proof (cases "map_of (cs_writers s) i")
    case (Some bk)
    obtain b k where bk: "bk = (b, k)" by (cases bk)
    have "C b" using map_of_SomeD [OF Some] assms(2) bk by (auto simp: texts_ok_def list_all_iff)
    moreover obtain z where "cl_file (cs_client s) = Some z" "pieces_of C z"
      using assms(1) Some by (auto simp: file_pieces_def)
    ultimately have "pieces_of C (write_at k (take n (drop k b)) z)" "cl_file (cs_client s) = Some z" using pieces_of_write by blast+
    then show ?thesis using WriteChunk Some bk unfolding file_pieces_def step_file by simp
  qed (use WriteChunk assms(1) in \<open>simp add: file_pieces_def step_file step_writers del: cfg_step.simps\<close>)
next
  case (WriteEnd i x)
  then show ?thesis
    using assms(1) unfolding file_pieces_def step_file step_writers by (auto split: option.split)
qed (use assms(1) in \<open>simp_all add: file_pieces_def step_file step_writers del: cfg_step.simps\<close>)

lemma pieces_of_mono: "pieces_of C z \<Longrightarrow> (\<And>x. C x \<Longrightarrow> C' x) \<Longrightarrow> pieces_of C' z"
  unfolding pieces_of_def by blast

lemma file_pieces_run:
  "file_pieces cl (confirmed err e cl evs) (cfg_run err e cl evs) \<and>
   client_from e cl (pieces_of (confirmed err e cl evs)) (cs_client (cfg_run err e cl evs))"
proof (induction evs rule: rev_induct)
  case Nil
  then show ?case by (simp add: cfg_run_def file_pieces_def client_from_def)
next
  case (snoc ev evs)
  let ?C = "confirmed err e cl (evs @ [ev])"
  have m: "pieces_of ?C z" if "pieces_of (confirmed err e cl evs) z" for z
    using pieces_of_mono [OF that] confirmed_mono by metis
  have "file_pieces cl ?C (cfg_run err e cl evs)" using snoc m unfolding file_pieces_def by blast
  from file_pieces_step [OF this texts_ok_snoc]
  have f: "file_pieces cl ?C (cfg_step err e (cfg_run err e cl evs) ev)" .
  have "client_from e cl (pieces_of ?C) (cs_client (cfg_run err e cl evs))" using snoc m client_from_mono by blast
  from client_from_step [OF this] f show ?case unfolding cfg_run_snoc file_pieces_def by blast
qed

subsection \<open>One write at a time\<close>

text \<open>Events that begin to write the file.\<close>

definition starts_write :: "('p, 'c, 'v) cfg_system \<Rightarrow> cfg_event \<Rightarrow> bool" where
  "starts_write s ev \<longleftrightarrow>
     (case ev of
        WriteOpen i \<Rightarrow> True
      | Handle i w vo od \<Rightarrow> (case unhandled s i of Some (PutBody b) \<Rightarrow> True | _ \<Rightarrow> False)
      | _ \<Rightarrow> False)"

definition one_writer ::
  "(js_error \<Rightarrow> string) \<Rightarrow> ('p, 'c, 'v) client_env \<Rightarrow> ('p, 'c, 'v) client_service \<Rightarrow> cfg_event list \<Rightarrow> bool" where
  "one_writer err e cl evs \<longleftrightarrow>
     (\<forall>i < length evs. cs_writers (cfg_run err e cl (take i evs)) \<noteq> [] \<longrightarrow> \<not> starts_write (cfg_run err e cl (take i evs)) (evs ! i))"

text \<open>A write that fails after the file was opened, and a write that is interrupted at all.\<close>

fun breaks_off :: "cfg_event \<Rightarrow> bool" where
  "breaks_off (Handle i (BrokenOff n x) vo od) = True"
| "breaks_off (WriteEnd i (Some x)) = True"
| "breaks_off _ = False"

fun interrupted :: "cfg_event \<Rightarrow> bool" where
  "interrupted (WriteOpen i) = True"
| "interrupted ev = breaks_off ev"

text \<open>With one write at a time, \<open>broken\<close> telling whether one has failed.\<close>

definition file_beginning :: "('p, 'c, 'v) client_service \<Rightarrow> (string \<Rightarrow> bool) \<Rightarrow> bool \<Rightarrow> ('p, 'c, 'v) cfg_system \<Rightarrow> bool" where
  "file_beginning cl C broken s \<longleftrightarrow> cl_file (cs_client s) = cl_file cl \<and> cs_writers s = [] \<or>
     (\<exists>x n. C x \<and> cl_file (cs_client s) = Some (take n x) \<and>
        (cs_writers s = [] \<and> (broken \<or> length x \<le> n) \<or> (\<exists>i. cs_writers s = [(i, x, n)])))"

lemma write_at_end: "write_at n (take m (drop n x)) (take n x) = take (n + length (take m (drop n x))) x"
  by (cases "length (drop n x) \<le> m") (auto simp: write_at_def take_add min_def)

lemma file_beginningI:
  "C x \<Longrightarrow> cl_file (cs_client s) = Some (take n x) \<Longrightarrow> cs_writers s = [] \<and> (broken \<or> length x \<le> n) \<or> cs_writers s = [(i, x, n)] \<Longrightarrow>
   file_beginning cl C broken s"
  unfolding file_beginning_def by blast

lemma file_beginning_same:
  "cl_file (cs_client s') = cl_file (cs_client s) \<Longrightarrow> cs_writers s' = cs_writers s \<Longrightarrow> file_beginning cl C broken s \<Longrightarrow>
   file_beginning cl C broken s'"
  by (simp add: file_beginning_def)

lemma file_beginning_handle:
  assumes "file_beginning cl C broken s" and "texts_ok C s" and "cs_writers s \<noteq> [] \<Longrightarrow> \<not> starts_write s (Handle i w vo od)"
  shows "file_beginning cl C (broken \<or> breaks_off (Handle i w vo od)) (cfg_step err e s (Handle i w vo od))"
proof (cases "\<exists>b. unhandled s i = Some (PutBody b) \<and> b \<noteq> [] \<and> (w = Written \<or> (\<exists>n x. w = BrokenOff n x))")
  case True
  then obtain b where b: "unhandled s i = Some (PutBody b)" "b \<noteq> []" "w = Written \<or> (\<exists>n x. w = BrokenOff n x)" by blast
  have c: "C b" using unhandled_ok [OF assms(2) b(1)] by simp
  have "cs_writers s = []" using assms(3) b(1) by (auto simp: starts_write_def)
  then have cw: "cs_writers (cfg_step err e s (Handle i w vo od)) = []" by (simp add: step_writers del: cfg_step.simps)
  show ?thesis using b(3)
  proof (elim disjE exE)
    assume "w = Written"
    then show ?thesis using b c cw by (intro file_beginningI [of C b, OF c, of _ "length b"]) (simp_all add: step_file del: cfg_step.simps)
  next
    fix n x assume "w = BrokenOff n x"
    then show ?thesis using b c cw by (intro file_beginningI [of C b, OF c, of _ n]) (simp_all add: step_file del: cfg_step.simps)
  qed
next
  case False
  then have "file_beginning cl C broken (cfg_step err e s (Handle i w vo od))"
    by (intro file_beginning_same [OF _ _ assms(1)])
      (auto simp: step_file step_writers simp del: cfg_step.simps split: option.split cfg_request.split write_outcome.split)
  then show ?thesis unfolding file_beginning_def by blast
qed

lemma file_beginning_open:
  assumes "file_beginning cl C broken s" and "texts_ok C s" and "cs_writers s = []"
  shows "file_beginning cl C broken (cfg_step err e s (WriteOpen i))"
proof (cases "\<exists>b. unhandled s i = Some (PutBody b) \<and> b \<noteq> []")
  case True
  then obtain b where b: "unhandled s i = Some (PutBody b)" "b \<noteq> []" by blast
  show ?thesis
    using b assms(3) unhandled_ok [OF assms(2) b(1)]
    by (intro file_beginningI [of C b _ 0 _ i]) (simp_all add: step_file step_writers del: cfg_step.simps)
next
  case False
  then show ?thesis
    by (intro file_beginning_same [OF _ _ assms(1)])
      (auto simp: step_file step_writers simp del: cfg_step.simps split: option.split cfg_request.split)
qed

lemma file_beginning_writing:
  assumes "file_beginning cl C broken s" and "ev = WriteChunk i m \<or> ev = WriteEnd i y"
  shows "file_beginning cl C (broken \<or> breaks_off ev) (cfg_step err e s ev)"
proof (cases "map_of (cs_writers s) i")
  case None
  then have "file_beginning cl C broken (cfg_step err e s ev)"
    using assms(2) by (intro file_beginning_same [OF _ _ assms(1)]) (auto simp: step_file step_writers simp del: cfg_step.simps)
  then show ?thesis unfolding file_beginning_def by blast
next
  case (Some bk)
  then obtain x n where x: "C x" "cl_file (cs_client s) = Some (take n x)" "cs_writers s = [(i, x, n)]"
    using assms(1) by (auto simp: file_beginning_def split: if_splits)
  show ?thesis using assms(2)
  proof
    assume "ev = WriteChunk i m"
    then show ?thesis
      using x write_at_end [of n m x]
      by (intro file_beginningI [of C x, OF x(1), of _ "n + length (take m (drop n x))" _ i])
        (simp_all add: step_file step_writers del: cfg_step.simps)
  next
    assume "ev = WriteEnd i y"
    then show ?thesis
      using x by (intro file_beginningI [of C x, OF x(1), of _ n _ i], cases y)
        (auto simp: step_file step_writers simp del: cfg_step.simps)
  qed
qed

lemma file_beginning_step:
  assumes "file_beginning cl C broken s" and "texts_ok C s" and "cs_writers s \<noteq> [] \<Longrightarrow> \<not> starts_write s ev"
  shows "file_beginning cl C (broken \<or> breaks_off ev) (cfg_step err e s ev)"
proof (cases ev)
  case (Handle i w vo od)
  then show ?thesis using file_beginning_handle assms by blast
next
  case (WriteOpen i)
  then show ?thesis using file_beginning_open [OF assms(1,2)] assms(3) by (cases "cs_writers s = []") (auto simp: starts_write_def)
next
  case (WriteChunk i m)
  then show ?thesis using file_beginning_writing [OF assms(1), of ev i m None] by simp
next
  case (WriteEnd i x)
  then show ?thesis using file_beginning_writing [OF assms(1), of ev i 0 x] by simp
qed (use assms(1) in \<open>simp_all add: file_beginning_def step_file step_writers del: cfg_step.simps\<close>)

lemma one_writer_snoc:
  "one_writer err e cl (evs @ [ev]) \<longleftrightarrow> one_writer err e cl evs \<and>
     (cs_writers (cfg_run err e cl evs) \<noteq> [] \<longrightarrow> \<not> starts_write (cfg_run err e cl evs) ev)"
  by (auto simp: one_writer_def nth_append less_Suc_eq)

lemma file_beginning_from:
  assumes "file_beginning cl C broken s"
  shows "cl_file (cs_client s) = cl_file cl \<or> (\<exists>x. cl_file (cs_client s) = Some x \<and> beginning_of C x)"
  using assms unfolding file_beginning_def beginning_of_def by blast

lemma file_beginning_exact:
  assumes "file_beginning cl C False s" and "cs_writers s = []"
  shows "cl_file (cs_client s) = cl_file cl \<or> (\<exists>x. cl_file (cs_client s) = Some x \<and> C x)"
  using assms unfolding file_beginning_def by auto

lemma file_beginning_mono:
  "file_beginning cl C broken s \<Longrightarrow> (\<And>x. C x \<Longrightarrow> C' x) \<Longrightarrow> file_beginning cl C' broken s"
  unfolding file_beginning_def by blast

lemma file_beginning_run:
  assumes "one_writer err e cl evs"
  shows "file_beginning cl (confirmed err e cl evs) (list_ex breaks_off evs) (cfg_run err e cl evs) \<and>
    client_from e cl (beginning_of (confirmed err e cl evs)) (cs_client (cfg_run err e cl evs))"
  using assms
proof (induction evs rule: rev_induct)
  case Nil
  then show ?case by (simp add: cfg_run_def file_beginning_def client_from_def)
next
  case (snoc ev evs)
  let ?C = "confirmed err e cl (evs @ [ev])"
  have m: "?C x" if "confirmed err e cl evs x" for x using that by (rule confirmed_mono)
  have o: "one_writer err e cl evs" "cs_writers (cfg_run err e cl evs) \<noteq> [] \<Longrightarrow> \<not> starts_write (cfg_run err e cl evs) ev"
    using snoc.prems by (simp_all add: one_writer_snoc)
  have "file_beginning cl ?C (list_ex breaks_off evs) (cfg_run err e cl evs)"
    using snoc.IH [OF o(1)] m file_beginning_mono by blast
  from file_beginning_step [OF this texts_ok_snoc o(2)]
  have f: "file_beginning cl ?C (list_ex breaks_off (evs @ [ev])) (cfg_run err e cl (evs @ [ev]))"
    by (simp add: cfg_run_snoc)
  have "client_from e cl (beginning_of ?C) (cs_client (cfg_run err e cl evs))"
    using snoc.IH [OF o(1)] m client_from_mono [of e cl "beginning_of (confirmed err e cl evs)" _ "beginning_of ?C"]
    unfolding beginning_of_def by blast
  from client_from_step [OF this] file_beginning_from [OF f] f show ?case by (simp add: cfg_run_snoc)
qed

subsection \<open>Uninterrupted writes\<close>

lemma no_interrupt:
  assumes "\<not> list_ex interrupted evs"
  shows "cs_writers (cfg_run err e cl evs) = [] \<and> one_writer err e cl evs \<and> \<not> list_ex breaks_off evs"
  using assms
proof (induction evs rule: rev_induct)
  case (snoc ev evs)
  have "\<not> interrupted ev" using snoc.prems by simp
  moreover from this have "cs_writers (cfg_step err e s ev) = []" if "cs_writers s = []" for s :: "('a, 'b, 'c) cfg_system"
    using that by (cases ev) (simp_all add: step_writers del: cfg_step.simps)
  moreover have "\<not> breaks_off ev" using \<open>\<not> interrupted ev\<close> by (cases ev) simp_all
  ultimately show ?case using snoc by (simp add: cfg_run_snoc one_writer_snoc)
qed (simp add: cfg_run_def one_writer_def)

lemma client_exact_run:
  assumes "\<not> list_ex interrupted evs"
  shows "client_from e cl (confirmed err e cl evs) (cs_client (cfg_run err e cl evs))"
  using assms
proof (induction evs rule: rev_induct)
  case Nil
  then show ?case by (simp add: cfg_run_def client_from_def)
next
  case (snoc ev evs)
  let ?C = "confirmed err e cl (evs @ [ev])"
  have "client_from e cl ?C (cs_client (cfg_run err e cl evs))"
    using snoc client_from_mono confirmed_mono by (metis list_ex_append)
  moreover have "file_beginning cl ?C False (cfg_run err e cl (evs @ [ev]))" "cs_writers (cfg_run err e cl (evs @ [ev])) = []"
    using no_interrupt [OF snoc.prems, of err e cl] file_beginning_run [of err e cl "evs @ [ev]"] by simp_all
  ultimately show ?case using client_from_step file_beginning_exact unfolding cfg_run_snoc by metis
qed

text \<open>C10: What the page writes is what the user confirmed. Whatever is typed, clicked, confirmed and cancelled, and
  however the requests, their handling and the answers interleave: the configuration file of the client is the one
  it had, or every character of it stands, at the same place, in a text that was in the editor at the moment of a
  confirmation, or is a zero of a hole. When no two uploads are written at the same time, the file is the one it
  had or the beginning of one such text, and when moreover no write has failed and none is under way, all of
  it. When all writes are neither interrupted nor fail, it is always exactly a confirmed text. In each of the
  cases the proxies of the client are the ones it had or those of such a file, which parsed and was valid.\<close>

theorem config_only_confirmed:
  fixes err e cl evs
  defines "s \<equiv> cfg_run err e cl evs" and "C \<equiv> confirmed err e cl evs"
  shows "client_from e cl (pieces_of C) (cs_client s) \<and>
    (one_writer err e cl evs \<longrightarrow> client_from e cl (beginning_of C) (cs_client s) \<and>
      (\<not> list_ex breaks_off evs \<and> cs_writers s = [] \<longrightarrow>
        cl_file (cs_client s) = cl_file cl \<or> (\<exists>x. cl_file (cs_client s) = Some x \<and> C x))) \<and>
    (\<not> list_ex interrupted evs \<longrightarrow> client_from e cl C (cs_client s))"
  unfolding s_def C_def
  using file_pieces_run [of cl err e evs] file_beginning_run [of err e cl evs] client_exact_run [of evs e cl err]
    file_beginning_exact [of cl "confirmed err e cl evs" "cfg_run err e cl evs"] by auto

definition env_demo :: "(unit, unit, unit) client_env" where
  "env_demo = \<lparr>ce_parse = (\<lambda>f. if f = Some ''bad'' then Inl ''bad'' else Inr (\<lparr>cc_User = [], cc_Start = []\<rparr>, [], [])),
     ce_invalid = (\<lambda>_ _ _. None), ce_pcomplete = id, ce_vname = (\<lambda>_. []), ce_venabled = (\<lambda>_. None), ce_vcomplete = (\<lambda>_. id),
     ce_start = (\<lambda>_. None), ce_read_err = ''no such file''\<rparr>"

definition client_demo :: "string option \<Rightarrow> (unit, unit, unit) client_service" where
  "client_demo f = \<lparr>cl_configFilePath = ''frpc.toml'', cl_file = f, cl_proxyCfgs = [], cl_visitorCfgs = [], cl_ctl = None\<rparr>"

lemmas cfg_eval = cfg_run_def cfg_mount_def cfg_send_def on_confirm_def on_answer_def handle_request_def apiGetConfig_def
  apiPutConfig_def set_answer_def unhandled_def respond_def page_answered_def write_open_def write_chunk_def write_end_def
  set_file_def write_at_def plain_def Let_def

text \<open>An upload of which one of two characters has been written, and an upload in one go.\<close>

theorem config_only_confirmed_witness:
  fixes err and evs1 evs2 :: "cfg_event list"
  defines "err \<equiv> \<lambda>_. []"
    and "evs1 \<equiv> [Edit ''ab'', ClickUpload, Confirm, WriteOpen 1, WriteChunk 1 1]"
    and "evs2 \<equiv> [Edit ''ab'', ClickUpload, Confirm, Handle 1 Written [] []]"
  shows "cl_file (cs_client (cfg_run err env_demo (client_demo None) evs1)) = Some ''a'' \<and>
    client_from env_demo (client_demo None) (beginning_of (confirmed err env_demo (client_demo None) evs1))
      (cs_client (cfg_run err env_demo (client_demo None) evs1)) \<and>
    cl_file (cs_client (cfg_run err env_demo (client_demo None) evs2)) = Some ''ab'' \<and>
    client_from env_demo (client_demo None) (confirmed err env_demo (client_demo None) evs2)
      (cs_client (cfg_run err env_demo (client_demo None) evs2))"
proof -
  have "one_writer err env_demo (client_demo None) evs1"
    unfolding one_writer_def evs1_def
    by (auto simp: cfg_eval client_demo_def starts_write_def less_Suc_eq numeral_eq_Suc)
  moreover have "\<not> list_ex interrupted evs2" by (simp add: evs2_def)
  moreover have "cl_file (cs_client (cfg_run err env_demo (client_demo None) evs1)) = Some ''a''"
    "cl_file (cs_client (cfg_run err env_demo (client_demo None) evs2)) = Some ''ab''"
    by (simp_all add: evs1_def evs2_def cfg_eval client_demo_def)
  ultimately show ?thesis
    using config_only_confirmed [where err = err and e = env_demo and cl = "client_demo None" and evs = evs1]
      config_only_confirmed [where err = err and e = env_demo and cl = "client_demo None" and evs = evs2] by blast
qed

text \<open>The condition is needed: of two uploads that are written at the same time the end of the longer one can be left
  behind the shorter one, and the file is neither of the two texts.\<close>

lemma uploads_mix:
  "cl_file (cs_client (cfg_run err e cl
     [Edit ''old text'', ClickUpload, Confirm, Edit ''new'', ClickUpload, Confirm,
      WriteOpen 1, WriteOpen 2, WriteChunk 1 8, WriteEnd 1 None, WriteChunk 2 3, WriteEnd 2 None])) = Some ''new text''"
  by (simp add: cfg_eval)

text \<open>A write in steps that nothing comes between is the handler in one go.\<close>

lemma write_in_steps:
  assumes "unhandled s i = Some (PutBody body)" and "body \<noteq> []" and "length body \<le> n"
  shows "foldl (cfg_step err e) s [WriteOpen i, WriteChunk i n, WriteEnd i None] = cfg_step err e s (Handle i Written vo od)"
proof -
  have w: "i \<notin> fst ` set (cs_writers s)" using assms(1) by (auto simp: unhandled_def split: if_splits)
  then have "map_of (cs_writers s) i = None" by (simp add: map_of_eq_None_iff)
  moreover have "map (\<lambda>x. if fst x = i then f x else x) (cs_writers s) = cs_writers s" for f
    by (rule map_idI) (use w in force)
  moreover have "filter (\<lambda>x. fst x \<noteq> i) (cs_writers s) = cs_writers s" using w by (auto simp: filter_id_conv)
  moreover have "n \<noteq> 0" using assms(2,3) by (cases body) auto
  ultimately show ?thesis
    using assms
    by (simp add: write_open_def write_chunk_def write_end_def handle_request_def apiPutConfig_def respond_def set_file_def
        write_at_def map_add_def)
qed

section \<open>Every upload is accounted for\<close>

definition cfg_ids_ok :: "config_page \<Rightarrow> bool" where
  "cfg_ids_ok p \<longleftrightarrow> distinct (map fst (cp_open p)) \<and> list_all (\<lambda>k. k < cp_next p) (map fst (cp_open p))"

lemma cfg_ids_ok_simps [simp]:
  "cfg_ids_ok (cfg_say ty txt p) = cfg_ids_ok p" "cfg_ids_ok (p\<lparr>cp_textarea := t\<rparr>) = cfg_ids_ok p"
  "cfg_ids_ok (p\<lparr>cp_boxes := n\<rparr>) = cfg_ids_ok p"
  by (simp_all add: cfg_ids_ok_def)

lemma cfg_ids_ok_send: "cfg_ids_ok p \<Longrightarrow> cfg_ids_ok (cfg_send q p)"
  by (auto simp: cfg_ids_ok_def list_all_iff)

lemma cfg_ids_ok_drop: "cfg_ids_ok p \<Longrightarrow> cfg_ids_ok (p\<lparr>cp_open := filter f (cp_open p)\<rparr>)"
  by (auto simp: cfg_ids_ok_def list_all_iff distinct_map_filter)

lemma set_answer_fst: "map fst (cp_open (set_answer i reply p)) = map fst (cp_open p)"
  by (simp add: set_answer_def)

lemma cfg_ids_ok_set_answer [simp]: "cfg_ids_ok (set_answer i reply p) = cfg_ids_ok p"
  unfolding cfg_ids_ok_def set_answer_fst by (simp add: set_answer_def)

definition upload_messages :: "config_page \<Rightarrow> (msg_type \<times> string) list" where
  "upload_messages p = filter (\<lambda>m. m \<noteq> (MWarning, ''Get configure content from frpc failed!'')) (cp_messages p)"

definition uploads_open :: "config_page \<Rightarrow> nat" where
  "uploads_open p = length (filter (\<lambda>x. fst (snd x) \<noteq> GetConfig) (cp_open p))"

lemma uploads_open_simps [simp]:
  "uploads_open (cfg_send q p) = uploads_open p + (if q = GetConfig then 0 else 1)" "uploads_open (cfg_say ty txt p) = uploads_open p"
  "uploads_open (p\<lparr>cp_textarea := t\<rparr>) = uploads_open p" "uploads_open (p\<lparr>cp_boxes := n\<rparr>) = uploads_open p"
  "uploads_open (set_answer i reply p) = uploads_open p"
  by (simp_all add: uploads_open_def set_answer_def filter_map comp_def if_distrib cong: if_cong)

lemma uploads_open_drop:
  assumes "cfg_ids_ok p" and "map_of (cp_open p) i = Some (q, r)"
  shows "uploads_open p = uploads_open (p\<lparr>cp_open := filter (\<lambda>x. fst x \<noteq> i) (cp_open p)\<rparr>) + (if q = GetConfig then 0 else 1)"
proof -
  obtain as bs where o: "cp_open p = as @ (i, q, r) # bs" using split_list [OF map_of_SomeD [OF assms(2)]] by blast
  then have "i \<notin> fst ` set as" "i \<notin> fst ` set bs" using assms(1) by (auto simp: cfg_ids_ok_def)
  then have "filter (\<lambda>x. fst x \<noteq> i) as = as" "filter (\<lambda>x. fst x \<noteq> i) bs = bs" by (auto simp: filter_id_conv)
  then show ?thesis using o by (simp add: uploads_open_def)
qed

lemma upload_messages_simps [simp]:
  "upload_messages (cfg_send q p) = upload_messages p"
  "upload_messages (p\<lparr>cp_textarea := t\<rparr>) = upload_messages p" "upload_messages (p\<lparr>cp_boxes := n\<rparr>) = upload_messages p"
  "upload_messages (p\<lparr>cp_open := qs\<rparr>) = upload_messages p" "upload_messages (set_answer i reply p) = upload_messages p"
  "upload_messages (cfg_say ty txt p) = upload_messages p @
     (if ty = MWarning \<and> txt = ''Get configure content from frpc failed!'' then [] else [(ty, txt)])"
  by (simp_all add: upload_messages_def set_answer_def)

definition accounted :: "config_page \<Rightarrow> nat" where
  "accounted p = length (upload_messages p) + cp_boxes p + uploads_open p"

lemma accounted_answer:
  "accounted (on_answer err q reply p) = accounted p + (if q = GetConfig then 0 else 1)"
  by (simp add: on_answer_def accounted_def split: cfg_request.splits sum.splits)

lemma answered_simps [simp]:
  "cp_boxes (set_answer i r p) = cp_boxes p" "cp_boxes (page_answered i res p) = cp_boxes p"
  "cp_next (set_answer i r p) = cp_next p" "cp_next (page_answered i res p) = cp_next p"
  "uploads_open (page_answered i res p) = uploads_open p" "upload_messages (page_answered i res p) = upload_messages p"
  "cfg_ids_ok (page_answered i res p) = cfg_ids_ok p"
  by (simp_all add: page_answered_def split: option.splits) (simp_all add: set_answer_def)

lemma accounted_step:
  assumes "cfg_ids_ok (cs_page s)"
  shows "cfg_ids_ok (cs_page (cfg_step err e s ev)) \<and>
    accounted (cs_page (cfg_step err e s ev)) = accounted (cs_page s) + (if ev = ClickUpload then 1 else 0)"
proof (cases ev)
  case (Deliver i)
  let ?p = "(cs_page s)\<lparr>cp_open := filter (\<lambda>x. fst x \<noteq> i) (cp_open (cs_page s))\<rparr>"
  have "accounted (on_answer err q reply ?p) = accounted (cs_page s)" if "map_of (cp_open (cs_page s)) i = Some (q, r)" for q r reply
    using uploads_open_drop [OF assms that] by (simp add: accounted_answer) (simp add: accounted_def)
  moreover have "cfg_ids_ok (on_answer err q reply ?p)" for q reply
    using cfg_ids_ok_drop [OF assms] by (simp add: on_answer_def cfg_ids_ok_send split: cfg_request.splits sum.splits)
  ultimately show ?thesis using Deliver assms by (auto split: option.splits)
next
  case Confirm
  then show ?thesis using assms by (auto simp: on_confirm_def accounted_def cfg_ids_ok_send)
next
  case Cancel
  then show ?thesis using assms by (auto simp: on_cancel_def accounted_def)
next
  case (Handle i w vo od)
  then show ?thesis using assms by (auto simp: accounted_def split: option.splits prod.splits)
next
  case (WriteEnd i x)
  then show ?thesis using assms by (auto simp: accounted_def write_end_def split: option.splits)
next
  case (Break i x)
  then show ?thesis using assms by (auto simp: accounted_def split: option.splits)
qed (use assms in \<open>auto simp: accounted_def cfg_ids_ok_send\<close>)

lemma cfg_run_accounted:
  "cfg_ids_ok (cs_page (cfg_run err e cl evs)) \<and>
   accounted (cs_page (cfg_run err e cl evs)) = length (filter (\<lambda>ev. ev = ClickUpload) evs)"
proof (induction evs rule: rev_induct)
  case Nil
  then show ?case
    by (simp add: cfg_run_def cfg_mount_def cfg_ids_ok_send accounted_def)
      (simp add: cfg_ids_ok_def upload_messages_def uploads_open_def)
next
  case (snoc ev evs)
  then show ?case using accounted_step [of "cfg_run err e cl evs" err e ev] by (simp add: cfg_run_snoc)
qed

text \<open>C39: Every click on the upload button is accounted for, exactly once: it has ended in one message, waits in its
  box, or has one request under way. No click is lost, and none reports twice.\<close>

theorem uploads_accounted:
  fixes err e cl evs
  defines "p \<equiv> cs_page (cfg_run err e cl evs)"
  shows "length (upload_messages p) + cp_boxes p + uploads_open p = length (filter (\<lambda>ev. ev = ClickUpload) evs)"
  using cfg_run_accounted [of err e cl evs] by (simp add: p_def accounted_def)

section \<open>Upload and read back\<close>

lemma cfg_fresh:
  assumes "cfg_ids_ok p"
  shows "map_of (cp_open p) (cp_next p) = None" "map_of (cp_open p) (Suc (cp_next p)) = None"
    "map_of (cp_open p) (Suc (Suc (cp_next p))) = None"
    "\<And>f. map (\<lambda>x. if fst x = cp_next p then f x else x) (cp_open p) = cp_open p"
    "filter (\<lambda>x. fst x \<noteq> cp_next p) (cp_open p) = cp_open p"
proof -
  have l: "fst x < cp_next p" if "x \<in> set (cp_open p)" for x using assms that by (auto simp: cfg_ids_ok_def list_all_iff)
  then show "map_of (cp_open p) (cp_next p) = None" "map_of (cp_open p) (Suc (cp_next p)) = None"
    "map_of (cp_open p) (Suc (Suc (cp_next p))) = None"
    by (force simp: map_of_eq_None_iff)+
  show "map (\<lambda>x. if fst x = cp_next p then f x else x) (cp_open p) = cp_open p" for f
    by (rule map_idI) (use l in fastforce)
  show "filter (\<lambda>x. fst x \<noteq> cp_next p) (cp_open p) = cp_open p" using l by (force simp: filter_id_conv)
qed

text \<open>Requests the client has begun to handle or that the page has given up have an older number.\<close>

definition sys_ids_ok :: "('p, 'c, 'v) cfg_system \<Rightarrow> bool" where
  "sys_ids_ok s \<longleftrightarrow> cfg_ids_ok (cs_page s) \<and> list_all (\<lambda>x. fst x < cp_next (cs_page s)) (cs_stray s) \<and>
     list_all (\<lambda>x. fst x < cp_next (cs_page s)) (cs_writers s)"

lemma unhandled_id:
  assumes "sys_ids_ok s" and "unhandled s i = Some q"
  shows "i < cp_next (cs_page s)"
proof -
  have "i \<in> fst ` set (cp_open (cs_page s)) \<or> i \<in> fst ` set (cs_stray s)"
    using assms(2) by (auto simp: unhandled_def split: if_splits option.splits dest!: map_of_SomeD intro: image_eqI [rotated])
  then show ?thesis using assms(1) by (auto simp: sys_ids_ok_def cfg_ids_ok_def list_all_iff)
qed

lemma step_next: "cp_next (cs_page s) \<le> cp_next (cs_page (cfg_step err e s ev))"
  by (cases ev)
    (auto simp: on_confirm_def on_cancel_def on_answer_def write_end_def split: option.splits prod.splits cfg_request.splits sum.splits)

lemma sys_ids_ok_step:
  assumes "sys_ids_ok s"
  shows "sys_ids_ok (cfg_step err e s ev)"
proof -
  let ?n = "cp_next (cs_page s)"
  have ok: "cfg_ids_ok (cs_page s)" "\<forall>x \<in> set (cs_stray s). fst x < ?n" "\<forall>x \<in> set (cs_writers s). fst x < ?n"
    using assms by (auto simp: sys_ids_ok_def list_all_iff)
  have "\<forall>x \<in> set (cs_writers (cfg_step err e s ev)). fst x < ?n"
    using ok(3) unhandled_id [OF assms] unfolding step_writers
    by (auto split: cfg_event.split option.split cfg_request.split dest: map_of_SomeD)
  moreover have "\<forall>x \<in> set (cs_stray (cfg_step err e s ev)). fst x < ?n"
    using ok(2) unhandled_id [OF assms] by (cases ev) (auto simp: write_end_def split: option.splits prod.splits)
  ultimately show ?thesis
    using accounted_step [OF ok(1)] step_next [of s err e ev] unfolding sys_ids_ok_def list_all_iff by (meson less_le_trans)
qed

lemma sys_ids_ok_run: "sys_ids_ok (cfg_run err e cl evs)"
proof (induction evs rule: rev_induct)
  case Nil
  have "cfg_ids_ok (cs_page (cfg_run err e cl []))" using cfg_run_accounted by blast
  then show ?case by (simp add: sys_ids_ok_def cfg_run_def)
qed (simp add: cfg_run_snoc sys_ids_ok_step)

lemma sys_fresh:
  assumes "sys_ids_ok s" and "cs_page s' = cfg_send q (cs_page s)" and "cs_writers s' = cs_writers s"
  shows "unhandled s' (cp_next (cs_page s)) = Some q"
    "filter (\<lambda>x. fst x \<noteq> cp_next (cs_page s)) (cs_stray s) = cs_stray s"
proof -
  let ?n = "cp_next (cs_page s)"
  have ok: "cfg_ids_ok (cs_page s)" "\<forall>x \<in> set (cs_stray s). fst x < ?n" "\<forall>x \<in> set (cs_writers s). fst x < ?n"
    using assms(1) by (auto simp: sys_ids_ok_def list_all_iff)
  then have "?n \<notin> fst ` set (cs_writers s')" using assms(3) by auto
  then show "unhandled s' ?n = Some q" using cfg_fresh(1) [OF ok(1)] assms(2) by (simp add: unhandled_def map_add_def)
  show "filter (\<lambda>x. fst x \<noteq> ?n) (cs_stray s) = cs_stray s" using ok(2) by (auto simp: filter_id_conv)
qed

text \<open>A request, its handling and its callback in a row.\<close>

definition ask :: "nat \<Rightarrow> write_outcome \<Rightarrow> string list \<Rightarrow> string list \<Rightarrow> cfg_event list" where
  "ask i w vorder order = [Handle i w vorder order, Deliver i]"

lemma ask_answer:
  assumes "sys_ids_ok s" and "handle_request e w vo od q (cs_client s) = (res, ms, c)"
  shows "foldl (cfg_step err e) (s\<lparr>cs_page := cfg_send q (cs_page s)\<rparr>) (ask (cp_next (cs_page s)) w vo od) =
    s\<lparr>cs_page := on_answer err q (Inr res) ((cs_page s)\<lparr>cp_next := cp_next (cs_page s) + 1\<rparr>),
      cs_client := c, cs_sent := cs_sent s @ ms\<rparr>"
proof -
  have ok: "cfg_ids_ok (cs_page s)" using assms(1) by (simp add: sys_ids_ok_def)
  have "unhandled (s\<lparr>cs_page := cfg_send q (cs_page s)\<rparr>) (cp_next (cs_page s)) = Some q" by (rule sys_fresh [OF assms(1)]) simp_all
  moreover have "filter (\<lambda>x. fst x \<noteq> cp_next (cs_page s)) (cs_stray s) = cs_stray s"
    by (rule sys_fresh(2) [OF assms(1), of "s\<lparr>cs_page := cfg_send q (cs_page s)\<rparr>" q]) simp_all
  ultimately show ?thesis
    using assms(2) cfg_fresh [OF ok]
    by (simp add: ask_def map_add_def set_answer_def page_answered_def respond_def) (simp add: cfg_send_def)
qed

lemma cs_commute: "s\<lparr>cs_page := p, cs_client := c\<rparr> = s\<lparr>cs_client := c, cs_page := p\<rparr>"
  by (cases s) simp

text \<open>C11: Upload and read back. From any moment on, when the user uploads what is in the editor, confirms, and the
  client can write its file, then whatever other requests are still open: after the two answers there is
  one message more, the one of success, the file has the text, the client runs what reloading makes of
  it, and a refresh shows the text again.\<close>

theorem config_upload_roundtrip:
  assumes "s = cfg_run err e cl evs" and "n = cp_next (cs_page s)" and "x = cp_textarea (cs_page s)" and "x \<noteq> []"
    and "cl_configFilePath (cs_client s) \<noteq> []"
    and "s' = foldl (cfg_step err e) s
      ([ClickUpload, Confirm] @ ask n Written [] [] @ ask (n + 1) Written vorder order @ [ClickRefresh] @ ask (n + 2) Written [] [])"
  shows "cp_textarea (cs_page s') = x \<and> cl_file (cs_client s') = Some x \<and>
    cp_messages (cs_page s') = cp_messages (cs_page s) @ [(MSuccess, ''Success'')] \<and>
    cs_client s' = snd (snd (reload e vorder order ((cs_client s)\<lparr>cl_file := Some x\<rparr>)))"
proof -
  let ?c1 = "(cs_client s)\<lparr>cl_file := Some x\<rparr>"
  let ?p = "cs_page s"
  obtain res ms c2 where r: "reload e vorder order ?c1 = (res, ms, c2)" by (cases "reload e vorder order ?c1")
  have c2: "cl_file c2 = Some x" "cl_configFilePath c2 \<noteq> []" using reload_effect [OF r] assms(5) by simp_all
  have ok: "sys_ids_ok s" using sys_ids_ok_run assms(1) by blast
  have ok1: "sys_ids_ok (s\<lparr>cs_page := ?p\<lparr>cp_next := n + 1\<rparr>, cs_client := c\<rparr>)"
    "sys_ids_ok (s\<lparr>cs_page := cfg_say ty t (?p\<lparr>cp_next := n + 2\<rparr>), cs_client := c, cs_sent := m\<rparr>)" for ty t c m
    using ok assms(2) by (auto simp: sys_ids_ok_def cfg_ids_ok_def list_all_iff less_SucI)
  have put: "handle_request e Written [] [] (PutBody x) (cs_client s) = (plain 200 ''OK'' [], [], ?c1)"
    using assms(4) by (simp add: handle_request_def apiPutConfig_def)
  have get: "handle_request e Written [] [] GetConfig c2 = (plain 200 ''OK'' x, [], c2)"
    using c2 by (simp add: handle_request_def apiGetConfig_def)
  let ?s1 = "s\<lparr>cs_page := cfg_send (PutBody x) ?p\<rparr>"
  let ?q1 = "?p\<lparr>cp_next := n + 1\<rparr>"
  let ?s2 = "s\<lparr>cs_page := cfg_send GetReload ?q1, cs_client := ?c1\<rparr>"
  let ?q2 = "cfg_say MSuccess ''Success'' (?p\<lparr>cp_next := n + 2\<rparr>)"
  let ?s3 = "s\<lparr>cs_page := ?q2, cs_client := c2, cs_sent := cs_sent s @ ms\<rparr>"
  have 1: "foldl (cfg_step err e) s [ClickUpload, Confirm] = ?s1"
    using assms(3,4) by (simp add: on_confirm_def)
  have 2: "foldl (cfg_step err e) ?s1 (ask n Written [] []) = ?s2"
    using ask_answer [OF ok put] assms(2) by (simp add: on_answer_def)
  have 3: "foldl (cfg_step err e) ?s2 (ask (n + 1) Written vorder order) = ?s3"
    by (subst cs_commute, use ask_answer [of "s\<lparr>cs_page := ?q1, cs_client := ?c1\<rparr>" e Written vorder order GetReload res ms c2 err] ok1(1) r
      in \<open>simp add: on_answer_def handle_request_def\<close>)
  have 4: "foldl (cfg_step err e) ?s3 ([ClickRefresh] @ ask (n + 2) Written [] []) =
      ?s3\<lparr>cs_page := ?q2\<lparr>cp_next := n + 3, cp_textarea := x\<rparr>\<rparr>"
    using ask_answer [of ?s3 e Written "[]" "[]" GetConfig _ _ c2 err] ok1(2) get
    by (simp add: on_answer_def plain_def numeral_3_eq_3)
  have "s' = ?s3\<lparr>cs_page := ?q2\<lparr>cp_next := n + 3, cp_textarea := x\<rparr>\<rparr>"
    unfolding assms(6) foldl_append 1 2 3 4 [unfolded foldl_append] ..
  then show ?thesis using c2 r by simp
qed

theorem config_upload_roundtrip_witness:
  "cl_file (cs_client (foldl (cfg_step (\<lambda>_. []) env_demo) (cfg_run (\<lambda>_. []) env_demo (client_demo None) [Edit ''x = 1''])
     ([ClickUpload, Confirm] @ ask 1 Written [] [] @ ask 2 Written [] [] @ [ClickRefresh] @ ask 3 Written [] []))) = Some ''x = 1''"
proof -
  have "cp_next (cs_page (cfg_run (\<lambda>_. []) env_demo (client_demo None) [Edit ''x = 1''])) = 1"
    "cp_textarea (cs_page (cfg_run (\<lambda>_. []) env_demo (client_demo None) [Edit ''x = 1''])) = ''x = 1''"
    "cl_configFilePath (cs_client (cfg_run (\<lambda>_. []) env_demo (client_demo None) [Edit ''x = 1''])) \<noteq> []"
    by (simp_all add: cfg_run_def cfg_mount_def client_demo_def)
  note r = config_upload_roundtrip [OF refl this(1) [symmetric] this(2) [symmetric] list.distinct(2) this(3) refl, of "[]" "[]"]
  have "(1::nat) + 1 = 2" "(1::nat) + 2 = 3" by simp_all
  from conjunct1 [OF conjunct2 [OF r], unfolded this] show ?thesis .
qed

section \<open>Texts that are not the user's\<close>

text \<open>A text typed while an answer is under way is lost: the answer to the request that the page sends when it is
  opened replaces it.\<close>

theorem edit_lost:
  assumes "cl_configFilePath cl \<noteq> []" and "cl_file cl = Some content"
  shows "cp_textarea (cs_page (cfg_run err e cl [Handle 0 w vo od, Edit x, Deliver 0])) = content"
  using assms
  by (simp add: cfg_run_def cfg_mount_def cfg_send_def handle_request_def apiGetConfig_def set_answer_def on_answer_def plain_def
      unhandled_def respond_def page_answered_def)

text \<open>When the file cannot be read, the page shows the text of the error as the configuration, and an upload
  writes it to the file.\<close>

theorem error_text_uploaded:
  assumes "cl_configFilePath cl \<noteq> []" and "cl_file cl = None" and "ce_read_err e \<noteq> []"
  shows "cl_file (cs_client (cfg_run err e cl [Handle 0 Written [] [], Deliver 0, ClickUpload, Confirm, Handle 1 Written [] []])) =
    Some (ce_read_err e)"
  using assms
  by (simp add: cfg_run_def cfg_mount_def cfg_send_def handle_request_def apiGetConfig_def apiPutConfig_def set_answer_def
      unhandled_def respond_def page_answered_def
      on_answer_def on_confirm_def plain_def)

end
