(* ===== verification/Nathole_Ctl.thy ===== *)
theory Nathole_Ctl
  imports Nathole Auth Registry
begin

text \<open>
  Brokering of hole punching on the server, \<open>pkg/nathole/controller.go\<close>: the table of xtcp proxies, the
  sessions, and the answers that tell the two peers what to do. \<open>HandleVisitor\<close> runs in its own goroutine
  and waits in the middle for the message of the client, so it is three steps: the entry, under the lock
  of the controller, the decision after the client's message, and the end, which removes the session.
  The random session id is an argument.
\<close>

section \<open>Messages and state\<close>

record nat_visitor_msg =
  nv_TransactionID :: string
  nv_ProxyName :: string
  nv_PreCheck :: bool
  nv_Protocol :: string
  nv_SignKey :: string
  nv_Timestamp :: int
  nv_MappedAddrs :: "string list"
  nv_AssistedAddrs :: "string list"

record nat_client_msg =
  nl_TransactionID :: string
  nl_ProxyName :: string
  nl_Sid :: string
  nl_MappedAddrs :: "string list"
  nl_AssistedAddrs :: "string list"

record detect_behavior =
  db_Mode :: nat
  db_Role :: string
  db_TTL :: int
  db_SendDelayMs :: int
  db_ReadTimeoutMs :: int
  db_SendRandomPorts :: int
  db_ListenRandomPorts :: int
  db_CandidatePorts :: "(int \<times> int) list"

definition detect0 :: detect_behavior where
  "detect0 = \<lparr>db_Mode = 0, db_Role = [], db_TTL = 0, db_SendDelayMs = 0, db_ReadTimeoutMs = 0,
     db_SendRandomPorts = 0, db_ListenRandomPorts = 0, db_CandidatePorts = []\<rparr>"

record nat_resp =
  nr_TransactionID :: string
  nr_Sid :: string
  nr_Protocol :: string
  nr_CandidateAddrs :: "string list"
  nr_AssistedAddrs :: "string list"
  nr_DetectBehavior :: detect_behavior
  nr_Error :: string

record nat_client =
  nc_sk :: string
  nc_allowUsers :: "string list"

record nat_session =
  ns_visitorMsg :: nat_visitor_msg
  ns_clientMsg :: "nat_client_msg option"
  ns_analysisKey :: string
  ns_recommandMode :: nat
  ns_recommandIndex :: nat

record nat_ctl =
  nt_clientCfgs :: "string \<rightharpoonup> nat_client"
  nt_sessions :: "string \<rightharpoonup> nat_session"
  nt_analyzer :: analyzer

definition NewController :: "int \<Rightarrow> nat_ctl" where
  "NewController d = \<lparr>nt_clientCfgs = Map.empty, nt_sessions = Map.empty, nt_analyzer = NewAnalyzer d\<rparr>"

section \<open>The table of proxies\<close>

datatype nat_error = ProxyRepeated | ServerNotExist | UserNotAllowed | VisitorAuthFailed

definition ListenClient :: "string \<Rightarrow> nat_client \<Rightarrow> nat_ctl \<Rightarrow> nat_error + nat_ctl" where
  "ListenClient name cfg c =
     (case nt_clientCfgs c name of
        Some _ \<Rightarrow> Inl ProxyRepeated
      | None \<Rightarrow> Inr (c\<lparr>nt_clientCfgs := (nt_clientCfgs c)(name \<mapsto> cfg)\<rparr>))"

definition CloseClient :: "string \<Rightarrow> nat_ctl \<Rightarrow> nat_ctl" where
  "CloseClient name c = c\<lparr>nt_clientCfgs := (nt_clientCfgs c)(name := None)\<rparr>"

interpretation nat_clients: name_registry "\<lambda>_. True" id nt_clientCfgs ListenClient CloseClient
  by unfold_locales (auto simp: ListenClient_def CloseClient_def)

section \<open>Analysis\<close>

definition parseIPs :: "string list \<Rightarrow> string list" where
  "parseIPs addrs = List.map_filter (\<lambda>a. case SplitHostPort a of Inl _ \<Rightarrow> None | Inr (ip, _) \<Rightarrow> Some ip) addrs"

text \<open>\<open>slices.Compact\<close> replaces runs of equal elements by one. It works in place and clears the rest: who still
  holds the list finds the remaining elements followed by empty strings.\<close>

definition slices_Compact :: "string list \<Rightarrow> string list" where
  "slices_Compact xs = remdups_adj xs"

definition compacted :: "string list \<Rightarrow> string list" where
  "compacted xs = remdups_adj xs @ replicate (length xs - length (remdups_adj xs)) []"

definition format_bool :: "bool \<Rightarrow> string" where
  "format_bool b = (if b then ''true'' else ''false'')"

definition peer_key :: "string list \<Rightarrow> nat_feature \<Rightarrow> string" where
  "peer_key mapped f =
     (case slices_Compact (parseIPs mapped) of [] \<Rightarrow> [] | ip # _ \<Rightarrow> ip) @
     nf_NatType f @ nf_Behavior f @ format_bool (nf_RegularPortsChange f)"

definition genAnalysisKey :: "string list \<Rightarrow> nat_feature \<Rightarrow> string list \<Rightarrow> nat_feature \<Rightarrow> string" where
  "genAnalysisKey vMapped vFeature cMapped cFeature = md5_hex (peer_key vMapped vFeature @ peer_key cMapped cFeature)"

definition getRangePorts :: "string list \<Rightarrow> int \<Rightarrow> int \<Rightarrow> (int \<times> int) list" where
  "getRangePorts addrs difference maxNumber =
     (if maxNumber \<le> 0 then []
      else if addrs = [] then []
      else (case SplitHostPort (last addrs) of
              Inl _ \<Rightarrow> []
            | Inr (_, portStr) \<Rightarrow>
                (case parse_int64 portStr of
                   None \<Rightarrow> []
                 | Some port \<Rightarrow>
                     [(max (max (port - difference - 5) (port - maxNumber)) 1,
                       min (min (port + difference + 5) (port + maxNumber)) 65535)])))"

definition behavior_resp :: "nat \<Rightarrow> int \<Rightarrow> behavior \<Rightarrow> (int \<times> int) list \<Rightarrow> detect_behavior" where
  "behavior_resp mode timeoutMs b ports =
     \<lparr>db_Mode = mode, db_Role = rb_Role b, db_TTL = rb_TTL b, db_SendDelayMs = rb_SendDelayMs b,
      db_ReadTimeoutMs = timeoutMs - rb_SendDelayMs b, db_SendRandomPorts = rb_PortsRandomNumber b,
      db_ListenRandomPorts = rb_ListenRandomPorts b, db_CandidatePorts = ports\<rparr>"

text \<open>The answers to the visitor and to the client; an error stands for the classification that failed. The lists of the
  two messages are compacted for the candidate addresses before the candidate ports are taken from them.\<close>

definition analysis ::
  "int \<Rightarrow> string \<Rightarrow> nat_visitor_msg \<Rightarrow> nat_client_msg \<Rightarrow> nat_session \<Rightarrow> analyzer \<Rightarrow>
   (classify_error + nat_resp \<times> nat_resp) \<times> nat_session \<times> analyzer" where
  "analysis now sid vm cm s an =
     (case ClassifyNATFeature (nl_MappedAddrs cm) (parseIPs (nl_AssistedAddrs cm)) of
        Inl e \<Rightarrow> (Inl e, s, an)
      | Inr cF \<Rightarrow>
          (case ClassifyNATFeature (nv_MappedAddrs vm) (parseIPs (nv_AssistedAddrs vm)) of
             Inl e \<Rightarrow> (Inl e, s, an)
           | Inr vF \<Rightarrow>
               (let key = genAnalysisKey (nv_MappedAddrs vm) vF (nl_MappedAddrs cm) cF in
                case GetRecommandBehaviors now key cF vF an of
                  ((mode, index, cB, vB), an') \<Rightarrow>
                    (let t0 = max (rb_SendDelayMs cB) (rb_SendDelayMs vB) + 5000;
                         timeoutMs = (if rb_ListenRandomPorts cB > 0 \<or> rb_ListenRandomPorts vB > 0 then t0 + 30000 else t0);
                         vResp = \<lparr>nr_TransactionID = nv_TransactionID vm, nr_Sid = sid, nr_Protocol = nv_Protocol vm,
                           nr_CandidateAddrs = slices_Compact (nl_MappedAddrs cm), nr_AssistedAddrs = slices_Compact (nl_AssistedAddrs cm),
                           nr_DetectBehavior = behavior_resp mode timeoutMs vB
                             (getRangePorts (compacted (nl_MappedAddrs cm)) (nf_PortsDifference cF) (rb_PortsRangeNumber vB)), nr_Error = []\<rparr>;
                         cResp = \<lparr>nr_TransactionID = nl_TransactionID cm, nr_Sid = sid, nr_Protocol = nv_Protocol vm,
                           nr_CandidateAddrs = slices_Compact (nv_MappedAddrs vm), nr_AssistedAddrs = slices_Compact (nv_AssistedAddrs vm),
                           nr_DetectBehavior = behavior_resp mode timeoutMs cB
                             (getRangePorts (compacted (nv_MappedAddrs vm)) (nf_PortsDifference vF) (rb_PortsRangeNumber cB)), nr_Error = []\<rparr>
                     in (Inr (vResp, cResp),
                         s\<lparr>ns_visitorMsg := vm\<lparr>nv_MappedAddrs := compacted (nv_MappedAddrs vm), nv_AssistedAddrs := compacted (nv_AssistedAddrs vm)\<rparr>,
                           ns_clientMsg := Some (cm\<lparr>nl_MappedAddrs := compacted (nl_MappedAddrs cm), nl_AssistedAddrs := compacted (nl_AssistedAddrs cm)\<rparr>),
                           ns_analysisKey := key, ns_recommandMode := mode, ns_recommandIndex := index\<rparr>, an')))))"

definition GenNatHoleResponse :: "string \<Rightarrow> string \<Rightarrow> nat_resp" where
  "GenNatHoleResponse transactionID errInfo =
     \<lparr>nr_TransactionID = transactionID, nr_Sid = [], nr_Protocol = [], nr_CandidateAddrs = [], nr_AssistedAddrs = [],
      nr_DetectBehavior = detect0, nr_Error = errInfo\<rparr>"

section \<open>Handlers\<close>

text \<open>The entry of \<open>HandleVisitor\<close>: what is sent to the visitor at once, if anything, and the session that is
  opened. \<open>Some None\<close> is the answer without an error.\<close>

definition HandleVisitor ::
  "string \<Rightarrow> nat_visitor_msg \<Rightarrow> string \<Rightarrow> nat_ctl \<Rightarrow> nat_error option option \<times> nat_ctl" where
  "HandleVisitor sid m visitorUser c =
     (if nv_PreCheck m then
        (case nt_clientCfgs c (nv_ProxyName m) of
           None \<Rightarrow> (Some (Some ServerNotExist), c)
         | Some cfg \<Rightarrow>
             if visitorUser \<notin> set (nc_allowUsers cfg) \<and> ''*'' \<notin> set (nc_allowUsers cfg)
             then (Some (Some UserNotAllowed), c)
             else (Some None, c))
      else
        (case nt_clientCfgs c (nv_ProxyName m) of
           None \<Rightarrow> (Some (Some ServerNotExist), c)
         | Some cfg \<Rightarrow>
             if nv_SignKey m \<noteq> GetAuthKey (nc_sk cfg) (nv_Timestamp m) then (Some (Some VisitorAuthFailed), c)
             else (None, c\<lparr>nt_sessions := (nt_sessions c)(sid \<mapsto>
                    \<lparr>ns_visitorMsg = m, ns_clientMsg = None, ns_analysisKey = [], ns_recommandMode = 0, ns_recommandIndex = 0\<rparr>)\<rparr>)))"

definition HandleClient :: "nat_client_msg \<Rightarrow> nat_ctl \<Rightarrow> nat_ctl" where
  "HandleClient m c =
     (case nt_sessions c (nl_Sid m) of
        None \<Rightarrow> c
      | Some s \<Rightarrow> c\<lparr>nt_sessions := (nt_sessions c)(nl_Sid m \<mapsto> s\<lparr>ns_clientMsg := Some m\<rparr>)\<rparr>)"

text \<open>After the notification: the answers to both peers, each with the milliseconds after which it is sent; the
  answer to the sender waits until the receiver can have opened its hole. \<open>err\<close> gives the text of an error.\<close>

definition send_wait :: "nat_resp \<Rightarrow> int" where
  "send_wait r = (if db_Role (nr_DetectBehavior r) = ''sender'' then 1000 else 0)"

definition decide ::
  "(classify_error \<Rightarrow> string) \<Rightarrow> int \<Rightarrow> string \<Rightarrow> nat_ctl \<Rightarrow> ((int \<times> nat_resp) \<times> (int \<times> nat_resp)) option \<times> nat_ctl" where
  "decide err now sid c =
     (case nt_sessions c sid of
        None \<Rightarrow> (None, c)
      | Some s \<Rightarrow>
          (case ns_clientMsg s of
             None \<Rightarrow> (None, c)
           | Some cm \<Rightarrow>
               (case analysis now sid (ns_visitorMsg s) cm s (nt_analyzer c) of
                  (r, s', an) \<Rightarrow>
                    (let (v, cl) = (case r of
                           Inl e \<Rightarrow> (GenNatHoleResponse (nv_TransactionID (ns_visitorMsg s)) (err e),
                                    GenNatHoleResponse (nl_TransactionID cm) (err e))
                         | Inr rs \<Rightarrow> rs)
                     in (Some ((send_wait v, v), (send_wait cl, cl)),
                         c\<lparr>nt_sessions := (nt_sessions c)(sid \<mapsto> s'), nt_analyzer := an\<rparr>)))))"

definition end_session :: "string \<Rightarrow> nat_ctl \<Rightarrow> nat_ctl" where
  "end_session sid c = c\<lparr>nt_sessions := (nt_sessions c)(sid := None)\<rparr>"

definition HandleReport :: "int \<Rightarrow> string \<Rightarrow> bool \<Rightarrow> nat_ctl \<Rightarrow> nat_ctl" where
  "HandleReport now sid success c =
     (case nt_sessions c sid of
        None \<Rightarrow> c
      | Some s \<Rightarrow>
          if success
          then c\<lparr>nt_analyzer := analyzer_ReportSuccess now (ns_analysisKey s) (ns_recommandMode s) (ns_recommandIndex s) (nt_analyzer c)\<rparr>
          else c)"

definition nat_clean :: "int \<Rightarrow> nat_ctl \<Rightarrow> nat_ctl" where
  "nat_clean now c = c\<lparr>nt_analyzer := analyzer_Clean now (nt_analyzer c)\<rparr>"

section \<open>What a peer does with its answer\<close>

text \<open>\<open>MakeHole\<close> of the peers: the milliseconds after which it starts to send, the addresses it sends to, and the
  milliseconds it listens after that. The sender alone waits before it sends.\<close>

definition hole_start :: "nat_resp \<Rightarrow> int" where
  "hole_start r =
     (let b = nr_DetectBehavior r in if db_Role b = DetectRoleSender \<and> db_SendDelayMs b > 0 then db_SendDelayMs b else 0)"

definition hole_addrs :: "nat_resp \<Rightarrow> string list" where
  "hole_addrs r =
     slices_Compact
       (if db_Role (nr_DetectBehavior r) = DetectRoleSender then nr_AssistedAddrs r @ nr_CandidateAddrs r
        else if db_CandidatePorts (nr_DetectBehavior r) = [] then nr_CandidateAddrs r else [])"

definition hole_timeout :: "nat_resp \<Rightarrow> int" where
  "hole_timeout r = (let t = db_ReadTimeoutMs (nr_DetectBehavior r) in if t > 0 then t else 5000)"

section \<open>Reachable states\<close>

inductive nat_reachable :: "nat_ctl \<Rightarrow> bool" where
  start: "nat_reachable (NewController d)"
| listen: "nat_reachable c \<Longrightarrow> ListenClient name cfg c = Inr c' \<Longrightarrow> nat_reachable c'"
| close: "nat_reachable c \<Longrightarrow> nat_reachable (CloseClient name c)"
| visitor: "nat_reachable c \<Longrightarrow> nt_sessions c sid = None \<Longrightarrow> nat_reachable (snd (HandleVisitor sid m user c))"
| client: "nat_reachable c \<Longrightarrow> nat_reachable (HandleClient cm c)"
| decided: "nat_reachable c \<Longrightarrow> nat_reachable (snd (decide err now sid c))"
| ended: "nat_reachable c \<Longrightarrow> nat_reachable (end_session sid c)"
| report: "nat_reachable c \<Longrightarrow> nat_reachable (HandleReport now sid success c)"
| clean: "nat_reachable c \<Longrightarrow> nat_reachable (nat_clean now c)"

lemma analysis_analyzer:
  "analyzer_reachable an \<Longrightarrow> analyzer_reachable (snd (snd (analysis now sid vm cm s an)))"
  using analyzer_reachable.recommend [of an]
  by (fastforce simp: analysis_def Let_def split: sum.splits prod.splits dest: arg_cong [where f = snd])

lemma decide_analyzer:
  "nt_analyzer (snd (decide err now sid c)) = nt_analyzer c \<or>
   (\<exists>s cm. nt_analyzer (snd (decide err now sid c)) = snd (snd (analysis now sid (ns_visitorMsg s) cm s (nt_analyzer c))))"
proof (cases "nt_sessions c sid")
  case (Some s)
  show ?thesis
  proof (cases "ns_clientMsg s")
    case (Some cm)
    obtain r s' an where "analysis now sid (ns_visitorMsg s) cm s (nt_analyzer c) = (r, s', an)"
      by (cases "analysis now sid (ns_visitorMsg s) cm s (nt_analyzer c)")
    moreover from this have "nt_analyzer (snd (decide err now sid c)) = an"
      using \<open>nt_sessions c sid = Some s\<close> Some by (simp add: decide_def split_beta)
    ultimately show ?thesis by (metis snd_conv)
  qed (simp add: decide_def Some)
qed (simp add: decide_def)

lemma nat_reachable_analyzer: "nat_reachable c \<Longrightarrow> analyzer_reachable (nt_analyzer c)"
proof (induction rule: nat_reachable.induct)
  case (decided c err now sid)
  then show ?case using decide_analyzer [of err now sid c] analysis_analyzer by fastforce
qed (auto simp: NewController_def ListenClient_def CloseClient_def HandleVisitor_def HandleClient_def end_session_def
    HandleReport_def nat_clean_def intro: analyzer_reachable.intros split: option.splits)

section \<open>Properties\<close>

definition nat_demo :: nat_ctl where
  "nat_demo = (NewController 0)\<lparr>nt_clientCfgs := [''p2p'' \<mapsto> \<lparr>nc_sk = ''abc'', nc_allowUsers = [''alice'']\<rparr>]\<rparr>"

definition visitor_demo :: nat_visitor_msg where
  "visitor_demo = \<lparr>nv_TransactionID = ''t'', nv_ProxyName = ''p2p'', nv_PreCheck = False, nv_Protocol = ''quic'',
     nv_SignKey = GetAuthKey ''abc'' 7, nv_Timestamp = 7, nv_MappedAddrs = [], nv_AssistedAddrs = []\<rparr>"

text \<open>The ports a peer is told to try are ports, at most as many as asked for on either side, and they
  include the last port the other peer was seen with, whenever that is one.\<close>

theorem getRangePorts_bounds:
  assumes "(from, to) \<in> set (getRangePorts addrs difference maxNumber)"
    and "SplitHostPort (last addrs) = Inr (host, portStr)" and "parse_int64 portStr = Some port" and "0 \<le> difference"
  shows "1 \<le> from \<and> to \<le> 65535 \<and> to - from \<le> 2 * maxNumber \<and>
    (1 \<le> port \<and> port \<le> 65535 \<longrightarrow> from \<le> port \<and> port \<le> to)"
  using assms by (auto simp: getRangePorts_def split: if_splits)

theorem getRangePorts_bounds_witness:
  "getRangePorts [''1.2.3.4:80''] 2 10 = [(73, 87)] \<and> (73 :: int) \<le> 80 \<and> (80 :: int) \<le> 87"
proof -
  have h: "SplitHostPort (last [''1.2.3.4:80'']) = Inr (''1.2.3.4'', ''80'')"
    by (simp add: SplitHostPort_def last_index_byte_def index_byte_def Let_def)
  have p: "parse_int64 ''80'' = Some 80" by code_simp
  have g: "getRangePorts [''1.2.3.4:80''] 2 10 = [(73, 87)]" using h p by (simp add: getRangePorts_def)
  then show ?thesis
    using getRangePorts_bounds [of 73 87 "[''1.2.3.4:80'']" 2 10, OF _ h p] by simp
qed

text \<open>Of the two behaviours of a pair the one of the receiver has no delay.\<close>

definition receiver_prompt :: "behavior \<times> behavior \<Rightarrow> bool" where
  "receiver_prompt p \<longleftrightarrow> (rb_Role (fst p) = DetectRoleReceiver \<longrightarrow> rb_SendDelayMs (fst p) = 0) \<and>
     (rb_Role (snd p) = DetectRoleReceiver \<longrightarrow> rb_SendDelayMs (snd p) = 0) \<and> 0 \<le> rb_SendDelayMs (fst p) \<and> 0 \<le> rb_SendDelayMs (snd p)"

lemma behaviors_prompt: "list_all receiver_prompt (getBehaviorByMode mode)"
  by (simp add: getBehaviorByMode_def mode_tables receiver_prompt_def beh0_def DetectRoleSender_def DetectRoleReceiver_def)

lemma recommended_prompt:
  assumes "analyzer_reachable a" and "GetRecommandBehaviors now key c v a = ((mode, index, cB, vB), a')"
  shows "receiver_prompt (cB, vB)"
proof -
  let ?p = "getBehaviorByMode mode ! index"
  note i = GetRecommandBehaviors_index [OF assms]
  have "receiver_prompt ?p" using i behaviors_prompt [of mode] by (simp add: list_all_length)
  then have "receiver_prompt ?p \<and> receiver_prompt (snd ?p, fst ?p)" by (auto simp: receiver_prompt_def)
  then show ?thesis using i by (auto simp: Let_def split: if_splits)
qed

text \<open>An answer for the peer that is told the addresses of the other one.\<close>

definition tells :: "nat_resp \<Rightarrow> string list \<Rightarrow> string list \<Rightarrow> bool" where
  "tells r mapped assisted \<longleftrightarrow> nr_CandidateAddrs r = slices_Compact mapped \<and> nr_AssistedAddrs r = slices_Compact assisted"

lemma sender_addrs:
  assumes "tells r mapped assisted" and "db_Role (nr_DetectBehavior r) = DetectRoleSender"
  shows "set (hole_addrs r) = set mapped \<union> set assisted"
  using assms by (auto simp: tells_def hole_addrs_def slices_Compact_def)

text \<open>What the analysis says, once it succeeds.\<close>

lemma analysis_answers:
  assumes "analyzer_reachable an" and "analysis now sid vm cm s an = (Inr (v, cl), s', an')"
  shows "nr_Sid v = sid \<and> nr_Sid cl = sid \<and> nr_Protocol v = nv_Protocol vm \<and> nr_Protocol cl = nv_Protocol vm \<and>
    db_Mode (nr_DetectBehavior v) = db_Mode (nr_DetectBehavior cl) \<and>
    tells v (nl_MappedAddrs cm) (nl_AssistedAddrs cm) \<and> tells cl (nv_MappedAddrs vm) (nv_AssistedAddrs vm) \<and>
    (\<exists>cB vB t. opposite_roles (cB, vB) \<and> receiver_prompt (cB, vB) \<and> max (rb_SendDelayMs cB) (rb_SendDelayMs vB) + 5000 \<le> t \<and>
       db_Role (nr_DetectBehavior v) = rb_Role vB \<and> db_Role (nr_DetectBehavior cl) = rb_Role cB \<and>
       db_SendDelayMs (nr_DetectBehavior v) = rb_SendDelayMs vB \<and> db_SendDelayMs (nr_DetectBehavior cl) = rb_SendDelayMs cB \<and>
       db_ReadTimeoutMs (nr_DetectBehavior v) = t - rb_SendDelayMs vB \<and> db_ReadTimeoutMs (nr_DetectBehavior cl) = t - rb_SendDelayMs cB)"
proof -
  obtain cF vF key mode index cB vB an'' where
    G: "GetRecommandBehaviors now key cF vF an = ((mode, index, cB, vB), an'')" and
    K: "ClassifyNATFeature (nl_MappedAddrs cm) (parseIPs (nl_AssistedAddrs cm)) = Inr cF"
      "ClassifyNATFeature (nv_MappedAddrs vm) (parseIPs (nv_AssistedAddrs vm)) = Inr vF"
      "key = genAnalysisKey (nv_MappedAddrs vm) vF (nl_MappedAddrs cm) cF"
    using assms(2) by (auto simp: analysis_def Let_def split: sum.splits prod.splits)
  define t where "t = (if rb_ListenRandomPorts cB > 0 \<or> rb_ListenRandomPorts vB > 0
      then max (rb_SendDelayMs cB) (rb_SendDelayMs vB) + 5000 + 30000 else max (rb_SendDelayMs cB) (rb_SendDelayMs vB) + 5000)"
  have "opposite_roles (cB, vB)" "receiver_prompt (cB, vB)"
    using recommended_opposite [OF assms(1) G] recommended_prompt [OF assms(1) G] by blast+
  moreover have "max (rb_SendDelayMs cB) (rb_SendDelayMs vB) + 5000 \<le> t" by (simp add: t_def)
  moreover have "nr_Sid v = sid \<and> nr_Sid cl = sid \<and> nr_Protocol v = nv_Protocol vm \<and> nr_Protocol cl = nv_Protocol vm \<and>
    tells v (nl_MappedAddrs cm) (nl_AssistedAddrs cm) \<and> tells cl (nv_MappedAddrs vm) (nv_AssistedAddrs vm)"
    "\<exists>ps qs. nr_DetectBehavior v = behavior_resp mode t vB ps \<and> nr_DetectBehavior cl = behavior_resp mode t cB qs"
    using assms(2) unfolding analysis_def K(1,2) sum.case Let_def K(3) [symmetric] G prod.case t_def [symmetric]
    by (auto simp: tells_def)
  ultimately show ?thesis by (fastforce simp: behavior_resp_def)
qed

text \<open>The answers to a sender and to a receiver, each with the moment at which it is sent, fit in time.\<close>

definition timely :: "int \<times> nat_resp \<Rightarrow> int \<times> nat_resp \<Rightarrow> bool" where
  "timely x y = (case (x, y) of ((ws, S), (wr, R)) \<Rightarrow>
     db_Role (nr_DetectBehavior S) = DetectRoleSender \<and> db_Role (nr_DetectBehavior R) = DetectRoleReceiver \<and>
     wr = 0 \<and> ws = 1000 \<and> wr + hole_start R < ws + hole_start S \<and>
     ws + hole_start S + 4000 \<le> wr + hole_start R + hole_timeout R \<and> 5000 \<le> hole_timeout S)"

lemma timelyI:
  assumes "opposite_roles (bS, bR)" and "rb_Role bS = DetectRoleSender" and "receiver_prompt (bS, bR)"
    and "max (rb_SendDelayMs bS) (rb_SendDelayMs bR) + 5000 \<le> t"
    and "db_Role (nr_DetectBehavior S) = rb_Role bS" "db_Role (nr_DetectBehavior R) = rb_Role bR"
    and "db_SendDelayMs (nr_DetectBehavior S) = rb_SendDelayMs bS" "db_SendDelayMs (nr_DetectBehavior R) = rb_SendDelayMs bR"
    and "db_ReadTimeoutMs (nr_DetectBehavior S) = t - rb_SendDelayMs bS" "db_ReadTimeoutMs (nr_DetectBehavior R) = t - rb_SendDelayMs bR"
  shows "timely (send_wait S, S) (send_wait R, R)"
proof -
  have d: "DetectRoleSender = ''sender''" "DetectRoleReceiver = ''receiver''" by (simp_all add: DetectRoleSender_def DetectRoleReceiver_def)
  have r: "rb_Role bR = DetectRoleReceiver" using assms(1,2) by (auto simp: opposite_roles_def d)
  then have "rb_SendDelayMs bR = 0" "0 \<le> rb_SendDelayMs bS" using assms(3) by (simp_all add: receiver_prompt_def)
  then show ?thesis
    using assms r by (auto simp: timely_def send_wait_def hole_start_def hole_timeout_def d Let_def)
qed

text \<open>C32: When the server decides, the two peers get answers that fit together: the same session, protocol and
  mode; one sends and the other receives; each is told the addresses the other was seen with, without adjacent
  repetitions, and the sender sends to all of them, the assisted ones included. The answer to the receiver goes out at
  once, the one to the sender a second later. Counted from the moments at which the answers are sent, the
  sender starts to send only after the receiver did, the receiver still listens for at least four seconds after that,
  and the sender for at least five.\<close>

theorem hole_answers_match:
  assumes "nat_reachable c" and "nt_sessions c sid = Some s" and "ns_clientMsg s = Some cm"
    and "decide err now sid c = (Some ((wv, v), (wc, cl)), c')" and "nr_Error v = []" and "\<And>e. err e \<noteq> []"
  shows "nr_Sid v = sid \<and> nr_Sid cl = sid \<and> nr_Protocol v = nr_Protocol cl \<and>
    db_Mode (nr_DetectBehavior v) = db_Mode (nr_DetectBehavior cl) \<and>
    tells v (nl_MappedAddrs cm) (nl_AssistedAddrs cm) \<and>
    tells cl (nv_MappedAddrs (ns_visitorMsg s)) (nv_AssistedAddrs (ns_visitorMsg s)) \<and>
    (timely (wv, v) (wc, cl) \<and> set (hole_addrs v) = set (nl_MappedAddrs cm) \<union> set (nl_AssistedAddrs cm) \<or>
     timely (wc, cl) (wv, v) \<and> set (hole_addrs cl) = set (nv_MappedAddrs (ns_visitorMsg s)) \<union> set (nv_AssistedAddrs (ns_visitorMsg s)))"
proof -
  obtain r s' an' where A: "analysis now sid (ns_visitorMsg s) cm s (nt_analyzer c) = (r, s', an')"
    by (cases "analysis now sid (ns_visitorMsg s) cm s (nt_analyzer c)")
  have rs: "r = Inr (v, cl)" "wv = send_wait v" "wc = send_wait cl"
    using assms(2-6) A by (cases r; auto simp: decide_def GenNatHoleResponse_def split: prod.splits)+
  note a = analysis_answers [OF nat_reachable_analyzer [OF assms(1)] A [unfolded rs(1)]]
  then obtain cB vB t where
    o: "opposite_roles (cB, vB)" and p: "receiver_prompt (cB, vB)" and t: "max (rb_SendDelayMs cB) (rb_SendDelayMs vB) + 5000 \<le> t" and
    b: "db_Role (nr_DetectBehavior v) = rb_Role vB" "db_Role (nr_DetectBehavior cl) = rb_Role cB"
       "db_SendDelayMs (nr_DetectBehavior v) = rb_SendDelayMs vB" "db_SendDelayMs (nr_DetectBehavior cl) = rb_SendDelayMs cB"
       "db_ReadTimeoutMs (nr_DetectBehavior v) = t - rb_SendDelayMs vB" "db_ReadTimeoutMs (nr_DetectBehavior cl) = t - rb_SendDelayMs cB"
    by blast
  have sw: "opposite_roles (vB, cB)" "receiver_prompt (vB, cB)" "max (rb_SendDelayMs vB) (rb_SendDelayMs cB) + 5000 \<le> t"
    using o p t by (auto simp: opposite_roles_def receiver_prompt_def)
  have "timely (wv, v) (wc, cl)" if "rb_Role vB = DetectRoleSender"
    unfolding rs(2,3) by (rule timelyI [OF sw(1) that sw(2,3)]) (simp_all add: b)
  moreover have "timely (wc, cl) (wv, v)" if "rb_Role cB = DetectRoleSender"
    unfolding rs(2,3) by (rule timelyI [OF o that p t]) (simp_all add: b)
  moreover have "rb_Role vB = DetectRoleSender \<or> rb_Role cB = DetectRoleSender" using o by (auto simp: opposite_roles_def)
  ultimately show ?thesis using a b sender_addrs by metis
qed

definition session_demo :: nat_ctl where
  "session_demo = HandleClient
     \<lparr>nl_TransactionID = ''u'', nl_ProxyName = ''p2p'', nl_Sid = ''sid'', nl_MappedAddrs = [''1.2.3.4:80'', ''1.2.3.4:80''], nl_AssistedAddrs = []\<rparr>
     (snd (HandleVisitor ''sid'' (visitor_demo\<lparr>nv_MappedAddrs := [''1.2.3.4:80'', ''1.2.3.4:80'']\<rparr>) ''alice'' nat_demo))"

theorem hole_answers_match_witness:
  "\<exists>wv v wc cl c'. decide (\<lambda>_. ''e'') 0 ''sid'' session_demo = (Some ((wv, v), (wc, cl)), c') \<and>
     nr_Sid v = ''sid'' \<and> nr_CandidateAddrs v = [''1.2.3.4:80'']"
proof -
  have h: "SplitHostPort ''1.2.3.4:80'' = Inr (''1.2.3.4'', ''80'')" "parse_int64 ''80'' = Some 80"
    by (simp add: SplitHostPort_def last_index_byte_def index_byte_def Let_def, code_simp)
  obtain F where F: "ClassifyNATFeature [''1.2.3.4:80'', ''1.2.3.4:80''] (parseIPs []) = Inr F"
    by (simp add: ClassifyNATFeature_def h Let_def parseIPs_def map_filter_simps)
  obtain s where s: "nt_sessions session_demo ''sid'' = Some s" "ns_clientMsg s = Some
      \<lparr>nl_TransactionID = ''u'', nl_ProxyName = ''p2p'', nl_Sid = ''sid'', nl_MappedAddrs = [''1.2.3.4:80'', ''1.2.3.4:80''], nl_AssistedAddrs = []\<rparr>"
      "nv_MappedAddrs (ns_visitorMsg s) = [''1.2.3.4:80'', ''1.2.3.4:80'']" "nv_AssistedAddrs (ns_visitorMsg s) = []"
    by (simp add: session_demo_def HandleClient_def HandleVisitor_def nat_demo_def visitor_demo_def)
  have r: "nat_reachable session_demo"
  proof -
    have "ListenClient ''p2p'' \<lparr>nc_sk = ''abc'', nc_allowUsers = [''alice'']\<rparr> (NewController 0) = Inr nat_demo"
      by (simp add: ListenClient_def NewController_def nat_demo_def)
    then have "nat_reachable nat_demo" by (rule nat_reachable.listen [OF nat_reachable.start])
    then show ?thesis
      unfolding session_demo_def by (intro nat_reachable.client nat_reachable.visitor) (assumption, simp add: nat_demo_def NewController_def)
  qed
  obtain mode index cB vB an where G: "GetRecommandBehaviors 0 (genAnalysisKey [''1.2.3.4:80'', ''1.2.3.4:80''] F [''1.2.3.4:80'', ''1.2.3.4:80''] F) F F
      (nt_analyzer session_demo) = ((mode, index, cB, vB), an)"
    by (metis prod.exhaust)
  obtain wv v wc cl c' where d: "decide (\<lambda>_. ''e'') 0 ''sid'' session_demo = (Some ((wv, v), (wc, cl)), c')" "nr_Error v = []"
    using s F G by (simp add: decide_def analysis_def Let_def)
  have "nr_Sid v = ''sid''" "tells v [''1.2.3.4:80'', ''1.2.3.4:80''] []" using hole_answers_match [OF r s(1,2) d] by auto
  moreover from this have "nr_CandidateAddrs v = [''1.2.3.4:80'']" by (simp add: tells_def slices_Compact_def)
  ultimately show ?thesis using d(1) by blast
qed

text \<open>Candidate ports are lost when an address is repeated: the list has been compacted in place before they are taken
  from its last element, which is then empty. A peer behind a NAT whose ports change regularly, seen twice in a row
  with the same address, is not looked for on its neighbouring ports.\<close>

lemma remdups_adj_same_length: "length (remdups_adj xs) = length xs \<Longrightarrow> remdups_adj xs = xs"
proof (induction xs rule: remdups_adj.induct)
  case (3 x y xs)
  then show ?case using remdups_adj_length [of "x # xs"] by (auto split: if_splits)
qed simp_all

lemma compacted_repeated:
  assumes "slices_Compact addrs \<noteq> addrs"
  shows "last (compacted addrs) = []" and "getRangePorts (compacted addrs) difference maxNumber = []"
proof -
  have "length (remdups_adj addrs) < length addrs"
    using assms remdups_adj_length [of addrs] remdups_adj_same_length [of addrs] by (auto simp: slices_Compact_def le_less)
  then show l: "last (compacted addrs) = []" by (simp add: compacted_def)
  show "getRangePorts (compacted addrs) difference maxNumber = []"
    unfolding getRangePorts_def l by (simp add: SplitHostPort_def last_index_byte_def Let_def)
qed

theorem repeated_address_no_ports:
  assumes "analysis now sid vm cm s an = (Inr (v, cl), s', an')"
  shows "(slices_Compact (nl_MappedAddrs cm) \<noteq> nl_MappedAddrs cm \<longrightarrow> db_CandidatePorts (nr_DetectBehavior v) = []) \<and>
    (slices_Compact (nv_MappedAddrs vm) \<noteq> nv_MappedAddrs vm \<longrightarrow> db_CandidatePorts (nr_DetectBehavior cl) = [])"
  using assms compacted_repeated(2)
  by (auto simp: analysis_def behavior_resp_def Let_def split: sum.splits prod.splits)

text \<open>The users a hole punching proxy allows are checked only when the visitor asks for the check: a visitor
  that knows the secret key and whose user is not allowed is refused when its message asks for the
  check, and gets its session when the same message does not.\<close>

theorem xtcp_user_check_optional:
  assumes "nt_clientCfgs c (nv_ProxyName m) = Some cfg" and "visitorUser \<notin> set (nc_allowUsers cfg)"
    and "''*'' \<notin> set (nc_allowUsers cfg)" and "nv_SignKey m = GetAuthKey (nc_sk cfg) (nv_Timestamp m)"
  shows "HandleVisitor sid (m\<lparr>nv_PreCheck := True\<rparr>) visitorUser c = (Some (Some UserNotAllowed), c) \<and>
    (\<exists>c'. HandleVisitor sid (m\<lparr>nv_PreCheck := False\<rparr>) visitorUser c = (None, c') \<and> nt_sessions c' sid \<noteq> None)"
  using assms by (auto simp: HandleVisitor_def)

theorem xtcp_user_check_optional_witness:
  "\<exists>c'. HandleVisitor ''sid'' (visitor_demo\<lparr>nv_PreCheck := False\<rparr>) ''mallory'' nat_demo = (None, c') \<and> nt_sessions c' ''sid'' \<noteq> None"
  using xtcp_user_check_optional [of nat_demo visitor_demo "\<lparr>nc_sk = ''abc'', nc_allowUsers = [''alice'']\<rparr>" "''mallory''" "''sid''"]
  by (simp add: nat_demo_def visitor_demo_def)

end
