(* ===== verification/Server_Visitor.thy ===== *)
theory Server_Visitor
  imports Auth Registry
begin

text \<open>
  Connections of visitors to secret proxies: \<open>visitor.Manager\<close> (\<open>server/visitor/visitor.go\<close>) and the internal
  listener it feeds (\<open>pkg/util/net/listener.go\<close>). A connection is opaque (\<open>'k\<close>); a listener is its queue of
  connections. \<open>wrap\<close> stands for the encryption and compression layers put around a connection, nothing
  when the encryption cannot be set up.
\<close>

section \<open>The internal listener\<close>

record 'k listener =
  il_acceptCh :: "'k list"
  il_closed :: bool

definition accept_capacity :: nat where "accept_capacity = 128"

definition NewInternalListener :: "'k listener" where
  "NewInternalListener = \<lparr>il_acceptCh = [], il_closed = False\<rparr>"

datatype visitor_error = ListenerRepeated | SignAuthFailed | VisitorNotAllowed | EncryptionFailed | ListenerNotExist | ListenerIsClosed

text \<open>Sending on the closed channel panics, which becomes the error; a full queue closes the connection, and
  that is not an error. The second component says whether the connection was queued.\<close>

definition PutConn :: "'k \<Rightarrow> 'k listener \<Rightarrow> (visitor_error option \<times> bool) \<times> 'k listener" where
  "PutConn conn l =
     (if il_closed l then ((Some ListenerIsClosed, False), l)
      else if length (il_acceptCh l) < accept_capacity then ((None, True), l\<lparr>il_acceptCh := il_acceptCh l @ [conn]\<rparr>)
      else ((None, False), l))"

text \<open>\<open>Accept\<close>: what is left in the queue is still delivered after the close; \<open>None\<close> is the error, and the
  outer \<open>None\<close> waiting.\<close>

definition Accept :: "'k listener \<Rightarrow> ('k option \<times> 'k listener) option" where
  "Accept l =
     (case il_acceptCh l of
        c # cs \<Rightarrow> Some (Some c, l\<lparr>il_acceptCh := cs\<rparr>)
      | [] \<Rightarrow> if il_closed l then Some (None, l) else None)"

definition il_Close :: "'k listener \<Rightarrow> 'k listener" where
  "il_Close l = l\<lparr>il_closed := True\<rparr>"

section \<open>The manager\<close>

record 'k ln_bundle =
  bd_l :: "'k listener"
  bd_sk :: string
  bd_allowUsers :: "string list"

type_synonym 'k vis_mgr = "string \<rightharpoonup> 'k ln_bundle"

definition vm_New :: "'k vis_mgr" where
  "vm_New = Map.empty"

definition vm_add :: "string \<Rightarrow> 'k ln_bundle \<Rightarrow> 'k vis_mgr \<Rightarrow> visitor_error + 'k vis_mgr" where
  "vm_add name b vm = (case vm name of Some _ \<Rightarrow> Inl ListenerRepeated | None \<Rightarrow> Inr (vm(name \<mapsto> b)))"

definition vm_Listen :: "string \<Rightarrow> string \<Rightarrow> string list \<Rightarrow> 'k vis_mgr \<Rightarrow> visitor_error + 'k vis_mgr" where
  "vm_Listen name sk allowUsers vm =
     vm_add name \<lparr>bd_l = NewInternalListener, bd_sk = sk, bd_allowUsers = allowUsers\<rparr> vm"

definition vm_NewConn ::
  "('k \<Rightarrow> 'k option) \<Rightarrow> string \<Rightarrow> 'k \<Rightarrow> int \<Rightarrow> string \<Rightarrow> string \<Rightarrow> 'k vis_mgr \<Rightarrow> (visitor_error option \<times> bool) \<times> 'k vis_mgr" where
  "vm_NewConn wrap name conn timestamp signKey visitorUser vm =
     (case vm name of
        None \<Rightarrow> ((Some ListenerNotExist, False), vm)
      | Some b \<Rightarrow>
          if GetAuthKey (bd_sk b) timestamp \<noteq> signKey then ((Some SignAuthFailed, False), vm)
          else if visitorUser \<notin> set (bd_allowUsers b) \<and> ''*'' \<notin> set (bd_allowUsers b) then ((Some VisitorNotAllowed, False), vm)
          else (case wrap conn of
                  None \<Rightarrow> ((Some EncryptionFailed, False), vm)
                | Some rwc \<Rightarrow>
                    (case PutConn rwc (bd_l b) of (r, l') \<Rightarrow> (r, vm(name \<mapsto> b\<lparr>bd_l := l'\<rparr>)))))"

definition vm_CloseListener :: "string \<Rightarrow> 'k vis_mgr \<Rightarrow> 'k vis_mgr" where
  "vm_CloseListener name vm = vm(name := None)"

text \<open>Closing the listener of a name, which the proxy that listens there holds.\<close>

definition vm_close_ln :: "string \<Rightarrow> 'k vis_mgr \<Rightarrow> 'k vis_mgr" where
  "vm_close_ln name vm = (case vm name of None \<Rightarrow> vm | Some b \<Rightarrow> vm(name \<mapsto> b\<lparr>bd_l := il_Close (bd_l b)\<rparr>))"

interpretation visitors: name_registry "\<lambda>_. True" id "\<lambda>vm. vm" vm_add vm_CloseListener
  by unfold_locales (auto simp: vm_add_def vm_CloseListener_def)

section \<open>Properties\<close>

text \<open>The names under which connections wait never hold more than the capacity.\<close>

definition vm_bounded :: "'k vis_mgr \<Rightarrow> bool" where
  "vm_bounded vm \<longleftrightarrow> (\<forall>n b. vm n = Some b \<longrightarrow> length (il_acceptCh (bd_l b)) \<le> accept_capacity)"

datatype 'k vis_event = VListen string string "string list" | VConn "'k \<Rightarrow> 'k option" string 'k int string string
  | VAccept string | VCloseLn string | VClose string

fun vm_step :: "'k vis_event \<Rightarrow> 'k vis_mgr \<Rightarrow> 'k vis_mgr" where
  "vm_step (VListen name sk users) vm = (case vm_Listen name sk users vm of Inl _ \<Rightarrow> vm | Inr vm' \<Rightarrow> vm')"
| "vm_step (VConn wrap name conn ts key user) vm = snd (vm_NewConn wrap name conn ts key user vm)"
| "vm_step (VAccept name) vm =
     (case vm name of
        None \<Rightarrow> vm
      | Some b \<Rightarrow> (case Accept (bd_l b) of None \<Rightarrow> vm | Some (_, l) \<Rightarrow> vm(name \<mapsto> b\<lparr>bd_l := l\<rparr>)))"
| "vm_step (VCloseLn name) vm = vm_close_ln name vm"
| "vm_step (VClose name) vm = vm_CloseListener name vm"

lemma vm_bounded_upd: "vm_bounded vm \<Longrightarrow> length (il_acceptCh (bd_l b)) \<le> accept_capacity \<Longrightarrow> vm_bounded (vm(n \<mapsto> b))"
  by (auto simp: vm_bounded_def)

lemma vm_bounded_step: "vm_bounded vm \<Longrightarrow> vm_bounded (vm_step e vm)"
proof (cases e)
  case (VAccept n)
  assume b: "vm_bounded vm"
  show ?thesis
  proof (cases "vm n")
    case (Some bd)
    then have "length (il_acceptCh (bd_l bd)) \<le> accept_capacity" using b by (simp add: vm_bounded_def)
    then show ?thesis
      using b Some VAccept by (auto simp: Accept_def intro!: vm_bounded_upd split: list.splits)
  qed (simp add: b VAccept)
qed (auto simp: vm_Listen_def vm_add_def vm_NewConn_def PutConn_def vm_close_ln_def vm_CloseListener_def il_Close_def
    NewInternalListener_def vm_bounded_def split: option.splits if_splits)

text \<open>However visitors, proxies and the accepting side interleave, no secret proxy has more than 128 waiting
  connections.\<close>

theorem visitor_queue_bounded: "vm_bounded (fold vm_step evs vm_New)"
proof -
  have "vm_bounded vm \<Longrightarrow> vm_bounded (fold vm_step evs vm)" for vm
    by (induction evs arbitrary: vm) (auto intro: vm_bounded_step)
  moreover have "vm_bounded vm_New" by (simp add: vm_bounded_def vm_New_def)
  ultimately show ?thesis by blast
qed

text \<open>C33: A visitor's connection is queued for a secret proxy exactly if the proxy listens and is open, the
  visitor proves the secret key for the time stamp, its user is among the allowed ones or all are
  allowed, the encryption can be set up and there is room; in every other case nothing changes.\<close>

theorem visitor_conn_admitted:
  assumes "vm_NewConn wrap name conn timestamp signKey visitorUser vm = ((e, queued), vm')"
  shows "(queued \<longleftrightarrow> (\<exists>b rwc. vm name = Some b \<and> signKey = GetAuthKey (bd_sk b) timestamp \<and>
       (visitorUser \<in> set (bd_allowUsers b) \<or> ''*'' \<in> set (bd_allowUsers b)) \<and> wrap conn = Some rwc \<and>
       \<not> il_closed (bd_l b) \<and> length (il_acceptCh (bd_l b)) < 128)) \<and>
    (queued \<longrightarrow> e = None \<and> (\<exists>b rwc. vm name = Some b \<and> wrap conn = Some rwc \<and>
       vm' = vm(name \<mapsto> b\<lparr>bd_l := (bd_l b)\<lparr>il_acceptCh := il_acceptCh (bd_l b) @ [rwc]\<rparr>\<rparr>))) \<and>
    (\<not> queued \<longrightarrow> vm' = vm)"
  using assms
  by (auto simp: vm_NewConn_def PutConn_def accept_capacity_def fun_upd_idem split: option.splits if_splits)

theorem visitor_conn_admitted_witness:
  "\<exists>vm'. vm_NewConn Some ''ssh'' (1 :: nat) 7 (GetAuthKey ''abc'' 7) ''bob''
     [''ssh'' \<mapsto> \<lparr>bd_l = NewInternalListener, bd_sk = ''abc'', bd_allowUsers = [''alice'']\<rparr>] = ((Some VisitorNotAllowed, False), vm') \<and>
     vm' = [''ssh'' \<mapsto> \<lparr>bd_l = NewInternalListener, bd_sk = ''abc'', bd_allowUsers = [''alice'']\<rparr>]"
proof -
  let ?vm = "[''ssh'' \<mapsto> \<lparr>bd_l = NewInternalListener, bd_sk = ''abc'', bd_allowUsers = [''alice'']\<rparr>] :: nat vis_mgr"
  obtain vm' where e: "vm_NewConn Some ''ssh'' 1 7 (GetAuthKey ''abc'' 7) ''bob'' ?vm = ((Some VisitorNotAllowed, False), vm')"
    by (simp add: vm_NewConn_def)
  from visitor_conn_admitted [OF this] e show ?thesis by blast
qed

end
