(* ===== verification/Server_Proxy.thy ===== *)
theory Server_Proxy
  imports Group_Listener Server_Visitor Nathole_Ctl Proxy_Config
begin

text \<open>
  The proxies of the server, \<open>server/proxy/*.go\<close>: what \<open>Run\<close> takes from the resource controller
  (\<open>server/controller/resource.go\<close>) for each type of proxy and what \<open>Close\<close> gives back. The operating system
  and the iteration orders of a run are in \<open>run_env\<close>. A resource is given back by the object that holds
  it, so a listener is a reference into the component it came from. \<open>None\<close> is a panic, which closing a
  closed channel is. The worker goroutines that copy data are not part of the model.
\<close>

section \<open>Resources\<close>

text \<open>The ports of TCP proxies are the world of the TCP groups, the multiplexers those of the HTTPS and tcpmux
  groups, and the HTTP route table is shared with the HTTP groups, as in the code. A route leads to the
  proxy of a name.\<close>

record 'k resources =
  rs_tcp :: tcp_ctl
  rs_udp :: port_mgr
  rs_http :: "string http_ctl"
  rs_https :: https_ctl
  rs_tcpmux :: tcpmux_ctl
  rs_visitor :: "'k vis_mgr"
  rs_nat :: "nat_ctl option"

text \<open>What \<open>NewService\<close> creates. The multiplexers are there whether their ports are configured or not: without
  the port the validation of the configuration refuses the proxies that would use them.\<close>

definition NewResources :: "server_config \<Rightarrow> ports_range list \<Rightarrow> bool \<Rightarrow> int \<Rightarrow> 'k resources" where
  "NewResources cfg allowPorts passthrough analysisReserve =
     \<lparr>rs_tcp = new_ctl (NewManager ''tcp'' (sc_ProxyBindAddr cfg) allowPorts),
      rs_udp = NewManager ''udp'' (sc_ProxyBindAddr cfg) allowPorts,
      rs_http = NewHTTPGroupController, rs_https = new_ctl NewHTTPSMuxer,
      rs_tcpmux = new_ctl (NewHTTPConnectTCPMuxer passthrough), rs_visitor = vm_New,
      rs_nat = Some (NewController analysisReserve)\<rparr>"

record run_env =
  re_net :: net_env
  re_now :: int
  re_tcpPorts :: "int list"
  re_udpPorts :: "int list"
  re_listenTCP :: "int \<Rightarrow> bool"
  re_listenUDP :: "int \<Rightarrow> bool"

datatype run_error = RunPort port_error | RunListen listen_error | RunSocket | RunRoute router_error | RunGroup group_error
  | RunVisitor visitor_error | RunNat nat_error | RunUnknownMultiplexer | RunNatUnsupported

datatype sp_listener = LnSocket | LnTcpGroup nat nat | LnHttps nat | LnHttpsGroup nat nat | LnMux nat | LnMuxGroup nat nat | LnVisitor

datatype close_fn = UnRoute string string string | UnGroup string

record 'p srv_proxy =
  sp_name :: string
  sp_user :: string
  sp_conf :: "'p proxy_config"
  sp_usedPortsNum :: int
  sp_realBindPort :: int
  sp_listeners :: "sp_listener list"
  sp_closeFuncs :: "close_fn list"
  sp_isClosed :: bool

fun used_ports :: "'p proxy_config \<Rightarrow> int" where
  "used_ports (TCPProxyConfig _ _) = 1"
| "used_ports (UDPProxyConfig _ _) = 1"
| "used_ports _ = 0"

definition NewProxy :: "string \<Rightarrow> 'p proxy_config \<Rightarrow> 'p srv_proxy" where
  "NewProxy user conf =
     \<lparr>sp_name = pb_Name (GetBaseConfig conf), sp_user = user, sp_conf = conf, sp_usedPortsNum = used_ports conf,
      sp_realBindPort = 0, sp_listeners = [], sp_closeFuncs = [], sp_isClosed = False\<rparr>"

section \<open>Closing\<close>

fun close_listener :: "int \<Rightarrow> string \<Rightarrow> sp_listener \<Rightarrow> 'k resources \<Rightarrow> 'k resources option" where
  "close_listener now name LnSocket rc = Some rc"
| "close_listener now name (LnTcpGroup a ln) rc = map_option (\<lambda>s. rc\<lparr>rs_tcp := s\<rparr>) (tcp_group_CloseListener now a ln (rs_tcp rc))"
| "close_listener now name (LnHttps l) rc =
     map_option (\<lambda>v. rc\<lparr>rs_https := (rs_https rc)\<lparr>lc_world := v\<rparr>\<rparr>) (mux_Close l (lc_world (rs_https rc)))"
| "close_listener now name (LnHttpsGroup a ln) rc = map_option (\<lambda>s. rc\<lparr>rs_https := s\<rparr>) (https_group_CloseListener a ln (rs_https rc))"
| "close_listener now name (LnMux l) rc =
     map_option (\<lambda>v. rc\<lparr>rs_tcpmux := (rs_tcpmux rc)\<lparr>lc_world := v\<rparr>\<rparr>) (mux_Close l (lc_world (rs_tcpmux rc)))"
| "close_listener now name (LnMuxGroup a ln) rc = map_option (\<lambda>s. rc\<lparr>rs_tcpmux := s\<rparr>) (tcpmux_group_CloseListener a ln (rs_tcpmux rc))"
| "close_listener now name LnVisitor rc = Some (rc\<lparr>rs_visitor := vm_close_ln name (rs_visitor rc)\<rparr>)"

fun base_Close :: "int \<Rightarrow> string \<Rightarrow> sp_listener list \<Rightarrow> 'k resources \<Rightarrow> 'k resources option" where
  "base_Close now name [] rc = Some rc"
| "base_Close now name (l # ls) rc = Option.bind (close_listener now name l rc) (base_Close now name ls)"

fun run_close_fn :: "string \<Rightarrow> 'k resources \<Rightarrow> close_fn \<Rightarrow> 'k resources" where
  "run_close_fn name rc (UnRoute d l u) =
     rc\<lparr>rs_http := (rs_http rc)\<lparr>hc_router := routers_Del d l u (hc_router (rs_http rc))\<rparr>\<rparr>"
| "run_close_fn name rc (UnGroup grp) = rc\<lparr>rs_http := hc_UnRegister name grp (rs_http rc)\<rparr>"

definition pxy_Close :: "int \<Rightarrow> 'p srv_proxy \<Rightarrow> 'k resources \<Rightarrow> ('p srv_proxy \<times> 'k resources) option" where
  "pxy_Close now p rc =
     (case sp_conf p of
        TCPProxyConfig b _ \<Rightarrow>
          map_option (\<lambda>rc'. (p, if pb_Group b = []
            then rc'\<lparr>rs_tcp := (rs_tcp rc')\<lparr>lc_world := Release now (sp_realBindPort p) (lc_world (rs_tcp rc'))\<rparr>\<rparr> else rc'))
            (base_Close now (sp_name p) (sp_listeners p) rc)
      | UDPProxyConfig _ _ \<Rightarrow>
          map_option (\<lambda>rc'. (p\<lparr>sp_isClosed := True\<rparr>, rc'\<lparr>rs_udp := Release now (sp_realBindPort p) (rs_udp rc')\<rparr>))
            (if sp_isClosed p then Some rc else base_Close now (sp_name p) (sp_listeners p) rc)
      | HTTPProxyConfig _ _ _ \<Rightarrow>
          map_option (\<lambda>rc'. (p, foldl (run_close_fn (sp_name p)) rc' (sp_closeFuncs p)))
            (base_Close now (sp_name p) (sp_listeners p) rc)
      | HTTPSProxyConfig _ _ \<Rightarrow> map_option (Pair p) (base_Close now (sp_name p) (sp_listeners p) rc)
      | TCPMuxProxyConfig _ _ _ \<Rightarrow> map_option (Pair p) (base_Close now (sp_name p) (sp_listeners p) rc)
      | XTCPProxyConfig _ _ _ _ \<Rightarrow>
          (if sp_isClosed p then Some (p, rc)
           else map_option (\<lambda>rc'. (p\<lparr>sp_isClosed := True\<rparr>, rc'\<lparr>rs_nat := map_option (CloseClient (sp_name p)) (rs_nat rc')\<rparr>))
             (base_Close now (sp_name p) (sp_listeners p) rc))
      | _ \<Rightarrow>
          map_option (\<lambda>rc'. (p, rc'\<lparr>rs_visitor := vm_CloseListener (sp_name p) (rs_visitor rc')\<rparr>))
            (base_Close now (sp_name p) (sp_listeners p) rc))"

section \<open>Running\<close>

type_synonym ('p, 'k) run_result = "((run_error + string) \<times> 'p srv_proxy \<times> 'k resources) option"

definition CanonicalAddr :: "string \<Rightarrow> int \<Rightarrow> string" where
  "CanonicalAddr host port = (if port = 80 \<or> port = 443 then host else JoinHostPort host (int_to_string port))"

text \<open>TCP: the port goes into the configuration of the proxy, where the dashboard reads it.\<close>

definition tcp_Run :: "run_env \<Rightarrow> server_config \<Rightarrow> 'p proxy_base \<Rightarrow> int \<Rightarrow> 'p srv_proxy \<Rightarrow> 'k resources \<Rightarrow> ('p, 'k) run_result" where
  "tcp_Run env cfg b port p rc =
     (if pb_Group b \<noteq> [] then
        (case tcp_ctl_Listen (re_net env) (re_now env) (re_tcpPorts env) (re_listenTCP env) (sp_name p) (pb_Group b)
                (pb_GroupKey b) (sc_ProxyBindAddr cfg) port (rs_tcp rc) of
           (Inl e, s) \<Rightarrow> Some (Inl (RunListen e), p, rc\<lparr>rs_tcp := s\<rparr>)
         | (Inr (ln, real), s) \<Rightarrow>
             Some (Inr ('':'' @ int_to_string real),
                   p\<lparr>sp_realBindPort := real, sp_listeners := sp_listeners p @ [LnTcpGroup (the (lc_groups s (pb_Group b))) ln],
                     sp_conf := TCPProxyConfig b real\<rparr>, rc\<lparr>rs_tcp := s\<rparr>))
      else
        (case Acquire (re_net env) (re_now env) (re_tcpPorts env) (sp_name p) port (lc_world (rs_tcp rc)) of
           (Inl e, pm) \<Rightarrow> Some (Inl (RunPort e), p, rc\<lparr>rs_tcp := (rs_tcp rc)\<lparr>lc_world := pm\<rparr>\<rparr>)
         | (Inr real, pm) \<Rightarrow>
             if \<not> re_listenTCP env real
             then Some (Inl RunSocket, p\<lparr>sp_realBindPort := real\<rparr>,
                    rc\<lparr>rs_tcp := (rs_tcp rc)\<lparr>lc_world := Release (re_now env) real pm\<rparr>\<rparr>)
             else Some (Inr ('':'' @ int_to_string real),
                    p\<lparr>sp_realBindPort := real, sp_listeners := sp_listeners p @ [LnSocket], sp_conf := TCPProxyConfig b real\<rparr>,
                    rc\<lparr>rs_tcp := (rs_tcp rc)\<lparr>lc_world := pm\<rparr>\<rparr>)))"

definition udp_Run :: "run_env \<Rightarrow> 'p proxy_base \<Rightarrow> int \<Rightarrow> 'p srv_proxy \<Rightarrow> 'k resources \<Rightarrow> ('p, 'k) run_result" where
  "udp_Run env b port p rc =
     (case Acquire (re_net env) (re_now env) (re_udpPorts env) (sp_name p) port (rs_udp rc) of
        (Inl e, pm) \<Rightarrow> Some (Inl (RunPort e), p, rc\<lparr>rs_udp := pm\<rparr>)
      | (Inr real, pm) \<Rightarrow>
          (let p' = p\<lparr>sp_realBindPort := real, sp_conf := UDPProxyConfig b real\<rparr> in
           if \<not> re_listenUDP env real then Some (Inl RunSocket, p', rc\<lparr>rs_udp := Release (re_now env) real pm\<rparr>)
           else Some (Inr ('':'' @ int_to_string real), p', rc\<lparr>rs_udp := pm\<rparr>)))"

text \<open>The domains of a proxy in the order of the code: the custom ones that are not empty, then the subdomain.\<close>

definition run_domains :: "server_config \<Rightarrow> domain_config \<Rightarrow> string list" where
  "run_domains cfg d =
     filter (\<lambda>x. x \<noteq> []) (dm_CustomDomains d) @
     (if dm_SubDomain d \<noteq> [] then [dm_SubDomain d @ ''.'' @ sc_SubDomainHost cfg] else [])"

text \<open>One route of an HTTP proxy.\<close>

definition http_register ::
  "'p proxy_base \<Rightarrow> http_config \<Rightarrow> string \<Rightarrow> string \<Rightarrow> 'p srv_proxy \<Rightarrow> 'k resources \<Rightarrow> run_error option \<times> 'p srv_proxy \<times> 'k resources" where
  "http_register b h domain location p rc =
     (if pb_Group b \<noteq> [] then
        (case hc_Register (sp_name p) (pb_Group b) (pb_GroupKey b)
                \<lparr>gr_domain = domain, gr_location = location, gr_routeByHTTPUser = ht_RouteByHTTPUser h, gr_createConn = sp_name p\<rparr>
                (rs_http rc) of
           (Some e, s) \<Rightarrow> (Some (RunGroup e), p, rc\<lparr>rs_http := s\<rparr>)
         | (None, s) \<Rightarrow> (None, p\<lparr>sp_closeFuncs := sp_closeFuncs p @ [UnGroup (pb_Group b)]\<rparr>, rc\<lparr>rs_http := s\<rparr>))
      else
        (case routers_Add domain location (ht_RouteByHTTPUser h) (Direct (sp_name p)) (hc_router (rs_http rc)) of
           Inl e \<Rightarrow> (Some (RunRoute e), p, rc)
         | Inr r \<Rightarrow> (None, p\<lparr>sp_closeFuncs := sp_closeFuncs p @ [UnRoute domain location (ht_RouteByHTTPUser h)]\<rparr>,
                     rc\<lparr>rs_http := (rs_http rc)\<lparr>hc_router := r\<rparr>\<rparr>)))"

fun http_register_all ::
  "'p proxy_base \<Rightarrow> http_config \<Rightarrow> (string \<times> string) list \<Rightarrow> 'p srv_proxy \<Rightarrow> 'k resources \<Rightarrow> run_error option \<times> 'p srv_proxy \<times> 'k resources" where
  "http_register_all b h [] p rc = (None, p, rc)"
| "http_register_all b h (dl # dls) p rc =
     (case http_register b h (fst dl) (snd dl) p rc of
        (Some e, p', rc') \<Rightarrow> (Some e, p', rc')
      | (None, p', rc') \<Rightarrow> http_register_all b h dls p' rc')"

definition http_Run ::
  "run_env \<Rightarrow> server_config \<Rightarrow> 'p proxy_base \<Rightarrow> domain_config \<Rightarrow> http_config \<Rightarrow> 'p srv_proxy \<Rightarrow> 'k resources \<Rightarrow> ('p, 'k) run_result" where
  "http_Run env cfg b d h p rc =
     (let locations = (if length (ht_Locations h) = 0 then [[]] else ht_Locations h);
          dls = concat (map (\<lambda>x. map (Pair x) locations) (run_domains cfg d)) in
      case http_register_all b h dls p rc of
        (None, p', rc') \<Rightarrow> Some (Inr (join_with '','' (map (\<lambda>dl. CanonicalAddr (fst dl) (sc_VhostHTTPPort cfg)) dls)), p', rc')
      | (Some e, p', rc') \<Rightarrow> map_option (\<lambda>(p'', rc''). (Inl e, p'', rc'')) (pxy_Close (re_now env) p' rc'))"

definition empty_route :: "string \<Rightarrow> string route_config" where
  "empty_route domain = \<lparr>rc_Domain = domain, rc_Location = [], rc_RewriteHost = [], rc_Username = [], rc_Password = [],
     rc_Headers = [], rc_ResponseHeaders = [], rc_RouteByHTTPUser = [], rc_CreateConnFn = None, rc_ChooseEndpointFn = None,
     rc_CreateConnByEndpointFn = None\<rparr>"

definition listenForDomain :: "'p proxy_base \<Rightarrow> string \<Rightarrow> 'k resources \<Rightarrow> (run_error + sp_listener) \<times> 'k resources" where
  "listenForDomain b domain rc =
     (if pb_Group b \<noteq> [] then
        (case https_ctl_Listen (pb_Group b) (pb_GroupKey b) (empty_route domain) (rs_https rc) of
           (Inl e, s) \<Rightarrow> (Inl (RunListen e), rc\<lparr>rs_https := s\<rparr>)
         | (Inr ln, s) \<Rightarrow> (Inr (LnHttpsGroup (the (lc_groups s (pb_Group b))) ln), rc\<lparr>rs_https := s\<rparr>))
      else
        (case mux_Listen (empty_route domain) (lc_world (rs_https rc)) of
           (Inl e, v) \<Rightarrow> (Inl (RunRoute e), rc\<lparr>rs_https := (rs_https rc)\<lparr>lc_world := v\<rparr>\<rparr>)
         | (Inr l, v) \<Rightarrow> (Inr (LnHttps l), rc\<lparr>rs_https := (rs_https rc)\<lparr>lc_world := v\<rparr>\<rparr>)))"

definition httpConnectListen ::
  "'p proxy_base \<Rightarrow> tcpmux_config \<Rightarrow> string \<Rightarrow> 'k resources \<Rightarrow> (run_error + sp_listener) \<times> 'k resources" where
  "httpConnectListen b t domain rc =
     (let r = (empty_route domain)\<lparr>rc_RouteByHTTPUser := tx_RouteByHTTPUser t, rc_Username := tx_HTTPUser t, rc_Password := tx_HTTPPassword t\<rparr> in
      if pb_Group b \<noteq> [] then
        (case tcpmux_ctl_Listen (tx_Multiplexer t) (pb_Group b) (pb_GroupKey b) r (rs_tcpmux rc) of
           (Inl e, s) \<Rightarrow> (Inl (RunListen e), rc\<lparr>rs_tcpmux := s\<rparr>)
         | (Inr ln, s) \<Rightarrow> (Inr (LnMuxGroup (the (lc_groups s (pb_Group b))) ln), rc\<lparr>rs_tcpmux := s\<rparr>))
      else
        (case mux_Listen r (lc_world (rs_tcpmux rc)) of
           (Inl e, v) \<Rightarrow> (Inl (RunRoute e), rc\<lparr>rs_tcpmux := (rs_tcpmux rc)\<lparr>lc_world := v\<rparr>\<rparr>)
         | (Inr l, v) \<Rightarrow> (Inr (LnMux l), rc\<lparr>rs_tcpmux := (rs_tcpmux rc)\<lparr>lc_world := v\<rparr>\<rparr>)))"

text \<open>The loops over the domains of HTTPS and tcpmux.\<close>

fun listen_all ::
  "(string \<Rightarrow> 'k resources \<Rightarrow> (run_error + sp_listener) \<times> 'k resources) \<Rightarrow> string list \<Rightarrow> 'p srv_proxy \<Rightarrow> 'k resources \<Rightarrow>
   run_error option \<times> 'p srv_proxy \<times> 'k resources" where
  "listen_all listen [] p rc = (None, p, rc)"
| "listen_all listen (d # ds) p rc =
     (case listen d rc of
        (Inl e, rc') \<Rightarrow> (Some e, p, rc')
      | (Inr l, rc') \<Rightarrow> listen_all listen ds (p\<lparr>sp_listeners := sp_listeners p @ [l]\<rparr>) rc')"

definition domains_Run ::
  "run_env \<Rightarrow> int \<Rightarrow> (string \<Rightarrow> 'k resources \<Rightarrow> (run_error + sp_listener) \<times> 'k resources) \<Rightarrow> string list \<Rightarrow> 'p srv_proxy \<Rightarrow>
   'k resources \<Rightarrow> ('p, 'k) run_result" where
  "domains_Run env port listen ds p rc =
     (case listen_all listen ds p rc of
        (None, p', rc') \<Rightarrow> Some (Inr (join_with '','' (map (\<lambda>d. CanonicalAddr d port) ds)), p', rc')
      | (Some e, p', rc') \<Rightarrow> map_option (\<lambda>(p'', rc''). (Inl e, p'', rc'')) (pxy_Close (re_now env) p' rc'))"

text \<open>An empty list of allowed users means the user of the proxy only.\<close>

definition allow_users :: "string list \<Rightarrow> string \<Rightarrow> string list" where
  "allow_users users user = (if length users = 0 then [user] else users)"

definition visitor_Run :: "string \<Rightarrow> string list \<Rightarrow> 'p srv_proxy \<Rightarrow> 'k resources \<Rightarrow> ('p, 'k) run_result" where
  "visitor_Run sk users p rc =
     (case vm_Listen (sp_name p) sk (allow_users users (sp_user p)) (rs_visitor rc) of
        Inl e \<Rightarrow> Some (Inl (RunVisitor e), p, rc)
      | Inr vm \<Rightarrow> Some (Inr [], p\<lparr>sp_listeners := sp_listeners p @ [LnVisitor]\<rparr>, rc\<lparr>rs_visitor := vm\<rparr>))"

definition xtcp_Run :: "string \<Rightarrow> string list \<Rightarrow> 'p srv_proxy \<Rightarrow> 'k resources \<Rightarrow> ('p, 'k) run_result" where
  "xtcp_Run sk users p rc =
     (case rs_nat rc of
        None \<Rightarrow> Some (Inl RunNatUnsupported, p, rc)
      | Some n \<Rightarrow>
          (case ListenClient (sp_name p) \<lparr>nc_sk = sk, nc_allowUsers = allow_users users (sp_user p)\<rparr> n of
             Inl e \<Rightarrow> Some (Inl (RunNat e), p, rc)
           | Inr n' \<Rightarrow> Some (Inr [], p, rc\<lparr>rs_nat := Some n'\<rparr>)))"

definition pxy_Run :: "run_env \<Rightarrow> server_config \<Rightarrow> 'p srv_proxy \<Rightarrow> 'k resources \<Rightarrow> ('p, 'k) run_result" where
  "pxy_Run env cfg p rc =
     (case sp_conf p of
        TCPProxyConfig b port \<Rightarrow> tcp_Run env cfg b port p rc
      | UDPProxyConfig b port \<Rightarrow> udp_Run env b port p rc
      | HTTPProxyConfig b d h \<Rightarrow> http_Run env cfg b d h p rc
      | HTTPSProxyConfig b d \<Rightarrow> domains_Run env (sc_VhostHTTPSPort cfg) (listenForDomain b) (run_domains cfg d) p rc
      | TCPMuxProxyConfig b d t \<Rightarrow>
          (if tx_Multiplexer t = ''httpconnect''
           then domains_Run env (sc_TCPMuxHTTPConnectPort cfg) (httpConnectListen b t) (run_domains cfg d) p rc
           else map_option (\<lambda>(p', rc'). (Inl RunUnknownMultiplexer, p', rc')) (pxy_Close (re_now env) p rc))
      | STCPProxyConfig b sk users \<Rightarrow> visitor_Run sk users p rc
      | SUDPProxyConfig b sk users \<Rightarrow> visitor_Run sk users p rc
      | XTCPProxyConfig b sk users nt \<Rightarrow> xtcp_Run sk users p rc)"

section \<open>HTTP routes\<close>

abbreviation http_routes :: "'k resources \<Rightarrow> string \<times> string \<times> string \<Rightarrow> string route_target option" where
  "http_routes rc \<equiv> route_lookup (hc_router (rs_http rc))"

abbreviation with_router :: "'k resources \<Rightarrow> string route_target routers \<Rightarrow> 'k resources" where
  "with_router rc r \<equiv> rc\<lparr>rs_http := (rs_http rc)\<lparr>hc_router := r\<rparr>\<rparr>"

abbreviation dl_key :: "string \<Rightarrow> string \<times> string \<Rightarrow> string \<times> string \<times> string" where
  "dl_key u dl \<equiv> (to_lower (fst dl), snd dl, u)"

text \<open>What the registrations of a proxy without a group have done, after any number of them.\<close>

definition routed :: "string \<Rightarrow> string \<Rightarrow> (string \<times> string) list \<Rightarrow> 'k resources \<Rightarrow> 'k resources \<Rightarrow> bool" where
  "routed name u ks rc rc' \<longleftrightarrow>
     (\<exists>r'. rc' = with_router rc r' \<and> routers_inv r' \<and>
        route_lookup r' = (\<lambda>x. if x \<in> dl_key u ` set ks then Some (Direct name) else http_routes rc x)) \<and>
     (\<forall>k \<in> set ks. http_routes rc (dl_key u k) = None) \<and> routers_inv (hc_router (rs_http rc))"

lemma routed_refl: "routers_inv (hc_router (rs_http rc)) \<Longrightarrow> routed name u [] rc rc"
  by (auto simp: routed_def intro!: exI [of _ "hc_router (rs_http rc)"])

lemma routed_add:
  assumes "routed name u ks rc rc'" and "routers_Add d l u (Direct name) (hc_router (rs_http rc')) = Inr r"
  shows "routed name u (ks @ [(d, l)]) rc (with_router rc' r)"
proof -
  obtain r' where r': "rc' = with_router rc r'" "routers_inv r'"
      "route_lookup r' = (\<lambda>x. if x \<in> dl_key u ` set ks then Some (Direct name) else http_routes rc x)"
    using assms(1) by (auto simp: routed_def)
  have A: "route_lookup r' (to_lower d, l, u) = None" "route_lookup r = (route_lookup r')((to_lower d, l, u) \<mapsto> Direct name)" "routers_inv r"
    using routes.add_Inr [OF r'(2), where k = "(d, l, u)" and v = "Direct name" and s' = r] assms(2) r'(1) by simp_all
  have n: "http_routes rc (to_lower d, l, u) = None" using A(1) r'(3) by (auto split: if_splits)
  have "with_router rc' r = with_router rc r" using r'(1) by simp
  moreover have "route_lookup r = (\<lambda>x. if x \<in> dl_key u ` set (ks @ [(d, l)]) then Some (Direct name) else http_routes rc x)"
    using A(2) r'(3) by (auto simp: fun_eq_iff)
  moreover have "\<forall>k \<in> set (ks @ [(d, l)]). http_routes rc (dl_key u k) = None" using assms(1) n by (auto simp: routed_def)
  ultimately show ?thesis using A(3) assms(1) unfolding routed_def by blast
qed

lemma register_all_routed:
  assumes "http_register_all b h dls p rc' = (e, p', rc'')" and "pb_Group b = []"
    and "routed (sp_name p) (ht_RouteByHTTPUser h) ks rc rc'"
  shows "\<exists>js. routed (sp_name p) (ht_RouteByHTTPUser h) (ks @ js) rc rc'' \<and> (e = None \<longrightarrow> js = dls) \<and>
    p' = p\<lparr>sp_closeFuncs := sp_closeFuncs p @ map (\<lambda>k. UnRoute (fst k) (snd k) (ht_RouteByHTTPUser h)) js\<rparr>"
  using assms
proof (induction dls arbitrary: p rc' ks)
  case (Cons dl dls)
  let ?u = "ht_RouteByHTTPUser h"
  show ?case
  proof (cases "routers_Add (fst dl) (snd dl) ?u (Direct (sp_name p)) (hc_router (rs_http rc'))")
    case (Inl er)
    then show ?thesis using Cons.prems by (intro exI [of _ "[]"]) (auto simp: http_register_def)
  next
    case (Inr r)
    let ?p = "p\<lparr>sp_closeFuncs := sp_closeFuncs p @ [UnRoute (fst dl) (snd dl) ?u]\<rparr>"
    have "http_register_all b h dls ?p (with_router rc' r) = (e, p', rc'')"
      using Cons.prems(1,2) Inr by (simp add: http_register_def)
    moreover have "routed (sp_name ?p) ?u (ks @ [dl]) rc (with_router rc' r)"
      using routed_add [OF Cons.prems(3), of "fst dl" "snd dl" r] Inr by simp
    ultimately obtain js where "routed (sp_name ?p) ?u ((ks @ [dl]) @ js) rc rc''" "e = None \<longrightarrow> js = dls"
        "p' = ?p\<lparr>sp_closeFuncs := sp_closeFuncs ?p @ map (\<lambda>k. UnRoute (fst k) (snd k) ?u) js\<rparr>"
      using Cons.IH [of ?p "with_router rc' r" "ks @ [dl]"] Cons.prems(2) by blast
    then show ?thesis by (intro exI [of _ "dl # js"]) simp
  qed
qed (auto intro: exI [of _ "[]"])

lemma close_fns_http:
  "routers_inv r \<Longrightarrow>
   \<exists>r'. foldl (run_close_fn name) (with_router rc r) (map (\<lambda>k. UnRoute (fst k) (snd k) u) ks) = with_router rc r' \<and>
     routers_inv r' \<and> route_lookup r' = (\<lambda>x. if x \<in> dl_key u ` set ks then None else route_lookup r x)"
proof (induction ks arbitrary: r)
  case (Cons k ks)
  let ?r = "routers_Del (fst k) (snd k) u r"
  have i: "routers_inv ?r" using Cons.prems by (rule routers_Del_inv)
  have "route_lookup ?r = (route_lookup r)(dl_key u k := None)"
    using routes.lookup_del [OF Cons.prems, of "(fst k, snd k, u)"] by simp
  moreover obtain r' where "foldl (run_close_fn name) (with_router rc ?r) (map (\<lambda>k. UnRoute (fst k) (snd k) u) ks) = with_router rc r'"
      "routers_inv r'" "route_lookup r' = (\<lambda>x. if x \<in> dl_key u ` set ks then None else route_lookup ?r x)"
    using Cons.IH [OF i] by blast
  ultimately show ?case by (intro exI [of _ r']) (simp add: fun_eq_iff)
qed auto

lemma routed_lookup:
  assumes "routed name u ks rc rc'"
  shows "http_routes rc' = (\<lambda>x. if x \<in> dl_key u ` set ks then Some (Direct name) else http_routes rc x)"
    and "\<forall>k \<in> set ks. http_routes rc (dl_key u k) = None"
  using assms by (auto simp: routed_def)

text \<open>Closing gives back exactly the routes.\<close>

lemma routed_close:
  assumes "routed name u ks rc rc'"
  shows "\<exists>r. foldl (run_close_fn name) rc' (map (\<lambda>k. UnRoute (fst k) (snd k) u) ks) = with_router rc r \<and>
    routers_inv r \<and> route_lookup r = http_routes rc"
proof -
  obtain r' where r': "rc' = with_router rc r'" "routers_inv r'"
      "route_lookup r' = (\<lambda>x. if x \<in> dl_key u ` set ks then Some (Direct name) else http_routes rc x)"
    using assms by (auto simp: routed_def)
  have n: "\<forall>k \<in> set ks. http_routes rc (dl_key u k) = None" using assms by (simp add: routed_def)
  obtain r where r: "foldl (run_close_fn name) (with_router rc r') (map (\<lambda>k. UnRoute (fst k) (snd k) u) ks) = with_router rc r"
      "routers_inv r" "route_lookup r = (\<lambda>x. if x \<in> dl_key u ` set ks then None else route_lookup r' x)"
    using close_fns_http [OF r'(2), of name rc u ks] by blast
  have "route_lookup r x = http_routes rc x" for x using r(3) r'(3) n by (cases "x \<in> dl_key u ` set ks") auto
  then have "route_lookup r = http_routes rc" by (rule ext)
  then show ?thesis using r(1,2) r'(1) by blast
qed

definition http_targets :: "server_config \<Rightarrow> domain_config \<Rightarrow> http_config \<Rightarrow> (string \<times> string) list" where
  "http_targets cfg d h = concat (map (\<lambda>x. map (Pair x) (if length (ht_Locations h) = 0 then [[]] else ht_Locations h)) (run_domains cfg d))"

text \<open>C26: An HTTP proxy outside a group takes all its routes or none. If it starts, every domain of its
  configuration leads to it, at every location, and to no one else's loss: the routes were free, all
  others are as before; and closing it gives exactly these routes back. If it does not start, the route
  table is as before.\<close>

theorem http_proxy_routes:
  assumes "sp_conf p = HTTPProxyConfig b d h" and "pb_Group b = []" and "sp_closeFuncs p = []" and "sp_listeners p = []"
    and "routers_inv (hc_router (rs_http rc))" and "pxy_Run env cfg p rc = Some (res, p', rc')"
  shows "case res of
      Inl e \<Rightarrow> http_routes rc' = http_routes rc
    | Inr addr \<Rightarrow>
        (\<forall>k. http_routes rc' k =
           (if k \<in> dl_key (ht_RouteByHTTPUser h) ` set (http_targets cfg d h) then Some (Direct (sp_name p)) else http_routes rc k)) \<and>
        (\<forall>k \<in> dl_key (ht_RouteByHTTPUser h) ` set (http_targets cfg d h). http_routes rc k = None) \<and>
        (\<exists>p'' rc''. pxy_Close now p' rc' = Some (p'', rc'') \<and> http_routes rc'' = http_routes rc)"
proof -
  let ?u = "ht_RouteByHTTPUser h"
  let ?un = "\<lambda>js. map (\<lambda>k. UnRoute (fst k) (snd k) ?u) js"
  obtain e p1 rc1 where R: "http_register_all b h (http_targets cfg d h) p rc = (e, p1, rc1)"
    by (cases "http_register_all b h (http_targets cfg d h) p rc") auto
  obtain js where js: "routed (sp_name p) ?u js rc rc1" "e = None \<longrightarrow> js = http_targets cfg d h"
      "p1 = p\<lparr>sp_closeFuncs := ?un js\<rparr>"
    using register_all_routed [OF R assms(2) routed_refl [OF assms(5)]] assms(3) by auto
  have run: "pxy_Run env cfg p rc =
      (case e of None \<Rightarrow> Some (Inr (join_with '','' (map (\<lambda>dl. CanonicalAddr (fst dl) (sc_VhostHTTPPort cfg)) (http_targets cfg d h))), p1, rc1)
       | Some x \<Rightarrow> map_option (\<lambda>(p'', rc''). (Inl x, p'', rc'')) (pxy_Close (re_now env) p1 rc1))"
    using R assms(1) by (simp add: pxy_Run_def http_Run_def http_targets_def Let_def split: option.splits)
  have close: "pxy_Close t p1 rc1 = Some (p1, foldl (run_close_fn (sp_name p)) rc1 (?un js))" for t
    using js(3) assms(1,4) by (simp add: pxy_Close_def)
  obtain r where r: "foldl (run_close_fn (sp_name p)) rc1 (?un js) = with_router rc r" "route_lookup r = http_routes rc"
    using routed_close [OF js(1)] by blast
  show ?thesis
  proof (cases e)
    case None
    then have "res = Inr (join_with '','' (map (\<lambda>dl. CanonicalAddr (fst dl) (sc_VhostHTTPPort cfg)) (http_targets cfg d h)))"
        "p' = p1" "rc' = rc1"
      using run assms(6) by simp_all
    moreover have "pxy_Close now p1 rc1 = Some (p1, with_router rc r)" "http_routes (with_router rc r) = http_routes rc"
      using close [of now] r by simp_all
    moreover have "http_routes rc1 = (\<lambda>x. if x \<in> dl_key ?u ` set (http_targets cfg d h) then Some (Direct (sp_name p)) else http_routes rc x)"
        "\<forall>k \<in> set (http_targets cfg d h). http_routes rc (dl_key ?u k) = None"
      using routed_lookup [OF js(1)] js(2) None by simp_all
    ultimately show ?thesis by simp
  next
    case (Some x)
    then have "res = Inl x" "rc' = with_router rc r" using run assms(6) close r by auto
    then show ?thesis using r(2) by simp
  qed
qed

definition sample_config :: server_config where
  "sample_config =
     \<lparr>sc_Version = ''0.65.0'', sc_BindPort = 7000, sc_KCPBindPort = 0, sc_QUICBindPort = 0, sc_VhostHTTPPort = 80,
      sc_VhostHTTPSPort = 443, sc_TCPMuxHTTPConnectPort = 1337, sc_SubDomainHost = ''f.org'', sc_ProxyBindAddr = [],
      sc_MaxPoolCount = 5, sc_MaxPortsPerClient = 2, sc_HeartbeatTimeout = 90, sc_UserConnTimeout = 10,
      sc_TLSForce = False, sc_DetailedErrorsToClient = True\<rparr>"

definition sample_env :: run_env where
  "sample_env = \<lparr>re_net = env_all, re_now = 1, re_tcpPorts = [], re_udpPorts = [], re_listenTCP = \<lambda>_. True, re_listenUDP = \<lambda>_. True\<rparr>"

definition sample_resources :: "unit resources" where
  "sample_resources = NewResources sample_config [range_6000] False 0"

definition sample_web :: "unit srv_proxy" where
  "sample_web = NewProxy [] (HTTPProxyConfig (proxy_base0\<lparr>pb_Name := ''web''\<rparr>)
     \<lparr>dm_CustomDomains = [''A.org''], dm_SubDomain = ''w''\<rparr> (http0\<lparr>ht_Locations := [''/x'']\<rparr>))"

lemma sample_web_runs:
  "map_option fst (pxy_Run sample_env sample_config sample_web sample_resources) = Some (Inr ''A.org,w.f.org'')"
  by code_simp

theorem http_proxy_routes_witness:
  "\<exists>p rc. pxy_Run sample_env sample_config sample_web sample_resources = Some (Inr ''A.org,w.f.org'', p, rc) \<and>
     http_routes rc (''a.org'', ''/x'', []) = Some (Direct ''web'') \<and>
     http_routes rc (''w.f.org'', ''/x'', []) = Some (Direct ''web'') \<and>
     http_routes rc (''b.org'', ''/x'', []) = None"
proof -
  obtain p rc where R: "pxy_Run sample_env sample_config sample_web sample_resources = Some (Inr ''A.org,w.f.org'', p, rc)"
    using sample_web_runs by auto
  have c: "sp_conf sample_web = HTTPProxyConfig (proxy_base0\<lparr>pb_Name := ''web''\<rparr>)
      \<lparr>dm_CustomDomains = [''A.org''], dm_SubDomain = ''w''\<rparr> (http0\<lparr>ht_Locations := [''/x'']\<rparr>)"
    by (simp add: sample_web_def NewProxy_def)
  have f: "pb_Group (proxy_base0\<lparr>pb_Name := ''web''\<rparr>) = []" "sp_closeFuncs sample_web = []" "sp_listeners sample_web = []"
      "sp_name sample_web = ''web''" "ht_RouteByHTTPUser (http0\<lparr>ht_Locations := [''/x'']\<rparr>) = []"
    by (simp_all add: proxy_base0_def sample_web_def NewProxy_def http0_def)
  have i: "routers_inv (hc_router (rs_http sample_resources))"
    by (simp add: sample_resources_def NewResources_def NewHTTPGroupController_def NewRouters_inv)
  have e: "http_routes sample_resources k = None" for k
    by (simp add: sample_resources_def NewResources_def NewHTTPGroupController_def route_lookup_NewRouters)
  have t: "dl_key [] ` set (http_targets sample_config \<lparr>dm_CustomDomains = [''A.org''], dm_SubDomain = ''w''\<rparr> (http0\<lparr>ht_Locations := [''/x'']\<rparr>))
      = {(''a.org'', ''/x'', []), (''w.f.org'', ''/x'', [])}"
    by code_simp
  from http_proxy_routes [OF c f(1,2,3) i R, where now = 0] have "http_routes rc k =
      (if k \<in> {(''a.org'', ''/x'', []), (''w.f.org'', ''/x'', [])} then Some (Direct ''web'') else None)" for k
    unfolding f t by (cases k) (simp add: e)
  then show ?thesis using R by simp
qed

section \<open>Closing a UDP proxy twice\<close>

text \<open>\<open>Close\<close> of a UDP proxy gives the port back even when the proxy is closed already, and it is called
  twice: the goroutine that reads the socket calls it again when the first call has closed the socket. If
  another proxy got the port in between, the second call takes it away: the port is free for a third
  proxy while the other one is using it.\<close>

theorem udp_second_close_frees:
  assumes "sp_conf p = UDPProxyConfig b port" and "sp_isClosed p" and "pm_usedPorts (rs_udp rc) (sp_realBindPort p) = Some c"
  shows "\<exists>rc'. pxy_Close now p rc = Some (p, rc') \<and> pm_usedPorts (rs_udp rc') (sp_realBindPort p) = None \<and>
    sp_realBindPort p \<in> pm_freePorts (rs_udp rc')"
  using assms by (simp add: pxy_Close_def Release_def)

definition sample_dns :: "string \<Rightarrow> unit srv_proxy" where
  "sample_dns name = NewProxy [] (UDPProxyConfig (proxy_base0\<lparr>pb_Name := name\<rparr>) 6000)"

text \<open>Proxy \<open>a\<close> runs and is closed, \<open>b\<close> gets the port.\<close>

definition sample_udp_swap :: "(unit srv_proxy \<times> unit resources) option" where
  "sample_udp_swap =
     Option.bind (pxy_Run sample_env sample_config (sample_dns ''a'') sample_resources) (\<lambda>(_, a, rc1).
     Option.bind (pxy_Close 2 a rc1) (\<lambda>(a', rc2).
     map_option (\<lambda>(_, b, rc3). (a', rc3)) (pxy_Run sample_env sample_config (sample_dns ''b'') rc2)))"

lemma sample_udp_swapped:
  "\<exists>a rc. sample_udp_swap = Some (a, rc) \<and> sp_conf a = UDPProxyConfig (proxy_base0\<lparr>pb_Name := ''a''\<rparr>) 6000 \<and> sp_isClosed a \<and>
     sp_realBindPort a = 6000 \<and> pm_usedPorts (rs_udp rc) 6000 = Some 1"
  by (simp add: sample_udp_swap_def sample_dns_def NewProxy_def pxy_Run_def udp_Run_def sample_env_def sample_resources_def NewResources_def
      Acquire_def acquire_specified_def alloc_ctx_def take_port_def set_ctx_port_def Release_def pxy_Close_def Let_def
      NewManager_def allowed_ports_def range_ports_def range_6000_def isPortAvailable_def env_all_def sample_config_def)

theorem udp_second_close_frees_witness:
  "\<exists>a rc rc'. sample_udp_swap = Some (a, rc) \<and> pm_usedPorts (rs_udp rc) 6000 = Some 1 \<and> pxy_Close 3 a rc = Some (a, rc') \<and>
     6000 \<in> pm_freePorts (rs_udp rc')"
proof -
  obtain a rc where A: "sample_udp_swap = Some (a, rc)" "sp_conf a = UDPProxyConfig (proxy_base0\<lparr>pb_Name := ''a''\<rparr>) 6000"
      "sp_isClosed a" "sp_realBindPort a = 6000" "pm_usedPorts (rs_udp rc) 6000 = Some 1"
    using sample_udp_swapped by blast
  from udp_second_close_frees [OF A(2,3), of rc 1 3] A(1,4,5) show ?thesis by auto
qed

end
