(* ===== verification/Server_Control.thy ===== *)
theory Server_Control
  imports Server_Proxy Proxy_Manager Mem_Metrics Auth
begin

text \<open>
  The sessions of the clients on the server: \<open>server/control.go\<close>, the login and work connection handlers of
  \<open>server/service.go\<close>, and the plugin chain of \<open>pkg/plugin/server/manager.go\<close>.

  A control handles the messages of its client one after the other, but the controls of different
  clients run side by side on the shared managers. A handler is therefore cut where another control
  may come in between: the registration of a proxy is the checks, \<open>Run\<close>, the entry into the
  manager and the statistics; the exit of the worker closes one proxy at a time. What a control is in the
  middle of is \<open>ct_pending\<close>. An event that is not enabled changes nothing; \<open>None\<close> is a panic of the process.
\<close>

section \<open>Plugins\<close>

text \<open>An answer of a plugin; the content of a request is the login of the client and the message.\<close>

datatype 'c plugin_result = PluginFails | PluginRejects string | PluginUnchange | PluginContent 'c

datatype plugin_error = PluginSendError | PluginReject string

type_synonym 'm plugin = "login_msg \<times> 'm \<Rightarrow> (login_msg \<times> 'm) plugin_result"

fun run_plugins :: "('c \<Rightarrow> 'c plugin_result) list \<Rightarrow> 'c \<Rightarrow> plugin_error + 'c" where
  "run_plugins [] content = Inr content"
| "run_plugins (p # ps) content =
     (case p content of
        PluginFails \<Rightarrow> Inl PluginSendError
      | PluginRejects reason \<Rightarrow> Inl (PluginReject reason)
      | PluginUnchange \<Rightarrow> run_plugins ps content
      | PluginContent content' \<Rightarrow> run_plugins ps content')"

section \<open>State\<close>

datatype ctl_error = CtlPlugin plugin_error | CtlConfig config_error | ExceedMaxPorts | ProxyAlreadyExists string
  | CtlRun run_error | CtlName name_error | CtlAuth auth_error | NoControl string | PoolFull
  | NoController

datatype ctl_msg = LoginResp string | NewProxyResp string "ctl_error + string" | Pong "ctl_error option" | ReqWorkConn

text \<open>Where a control is between two events: a proxy passed the checks, is running, is in the manager but not yet in
  the statistics; a proxy was taken out of the manager but not yet out of the statistics, by a message or by
  the exit with these names left; the worker is leaving with these names left.\<close>

datatype 'p pending = Checked new_proxy "'p srv_proxy" | Ran new_proxy string "'p srv_proxy" | Added new_proxy string
  | Closing string string "string list option" | Exiting "string list"

record ('p, 'k) control =
  ct_login :: login_msg
  ct_runID :: string
  ct_poolCount :: int
  ct_alwaysPass :: bool
  ct_workConnCh :: "'k list"
  ct_chClosed :: bool
  ct_proxies :: "string \<rightharpoonup> 'p srv_proxy"
  ct_portsUsedNum :: int
  ct_lastPing :: int
  ct_waits :: "nat option"
  ct_started :: bool
  ct_connClosed :: bool
  ct_pending :: "'p pending option"
  ct_done :: bool

text \<open>The manager keeps a proxy together with the control that serves it.\<close>

record ('p, 'k) server =
  sv_ctls :: "string \<rightharpoonup> nat"
  sv_heap :: "nat \<rightharpoonup> ('p, 'k) control"
  sv_next :: nat
  sv_pxys :: "(nat \<times> 'p srv_proxy) pxy_manager"
  sv_rc :: "'k resources"
  sv_mem :: server_statistics
  sv_auth :: auth_verifier

text \<open>The configuration and what is outside: decoding of quantities, annotations and plugins of proxies, the OIDC
  provider as it answers at a time, whether the cipher of a connection cannot be made at a time, the clock and the server plugins.\<close>

record 'p server_env =
  se_cfg :: server_config
  se_scaled :: "string \<Rightarrow> int \<Rightarrow> int option"
  se_qualified :: "string \<Rightarrow> bool"
  se_pcomplete :: "'p \<Rightarrow> 'p"
  se_verify :: "int \<Rightarrow> string \<Rightarrow> string option"
  se_noCipher :: "int \<Rightarrow> bool"
  se_clock :: clock
  se_loginPlugins :: "unit plugin list"
  se_newProxyPlugins :: "new_proxy plugin list"
  se_pingPlugins :: "key_msg plugin list"
  se_workPlugins :: "work_conn_msg plugin list"

definition put_ctl :: "nat \<Rightarrow> ('p, 'k) control \<Rightarrow> ('p, 'k) server \<Rightarrow> ('p, 'k) server" where
  "put_ctl i c s = s\<lparr>sv_heap := (sv_heap s)(i \<mapsto> c)\<rparr>"

definition NewServer :: "auth_verifier \<Rightarrow> clock \<Rightarrow> int \<Rightarrow> 'k resources \<Rightarrow> ('p, 'k) server" where
  "NewServer a ck now rc =
     \<lparr>sv_ctls = Map.empty, sv_heap = Map.empty, sv_next = 0, sv_pxys = pm_New, sv_rc = rc, sv_mem = newServerMetrics ck now, sv_auth = a\<rparr>"

section \<open>Login\<close>

definition pool_count :: "server_config \<Rightarrow> login_msg \<Rightarrow> int" where
  "pool_count cfg m = (if lm_PoolCount m > sc_MaxPoolCount cfg then sc_MaxPoolCount cfg else lm_PoolCount m)"

definition pool_capacity :: "('p, 'k) control \<Rightarrow> int" where
  "pool_capacity c = ct_poolCount c + 10"

text \<open>\<open>make\<close> panics when the size of the channel is negative.\<close>

definition NewControl :: "int \<Rightarrow> server_config \<Rightarrow> login_msg \<Rightarrow> bool \<Rightarrow> nat option \<Rightarrow> ('p, 'k) control option" where
  "NewControl now cfg m alwaysPass old =
     (if pool_count cfg m + 10 < 0 then None
      else Some \<lparr>ct_login = m, ct_runID = lm_RunID m, ct_poolCount = pool_count cfg m, ct_alwaysPass = alwaysPass, ct_workConnCh = [],
                 ct_chClosed = False, ct_proxies = Map.empty, ct_portsUsedNum = 0, ct_lastPing = now, ct_waits = old,
                 ct_started = False, ct_connClosed = False, ct_pending = None, ct_done = False\<rparr>)"

definition Replaced :: "('p, 'k) control \<Rightarrow> ('p, 'k) control" where
  "Replaced c = c\<lparr>ct_runID := [], ct_connClosed := True\<rparr>"

text \<open>\<open>ControlManager.Add\<close>.\<close>

definition cm_Add :: "string \<Rightarrow> ('p, 'k) control \<Rightarrow> ('p, 'k) server \<Rightarrow> ('p, 'k) server" where
  "cm_Add runID c s =
     (let heap = (case sv_ctls s runID of
                    None \<Rightarrow> sv_heap s
                  | Some old \<Rightarrow> (case sv_heap s old of None \<Rightarrow> sv_heap s | Some oc \<Rightarrow> (sv_heap s)(old \<mapsto> Replaced oc)))
      in s\<lparr>sv_heap := heap(sv_next s \<mapsto> c), sv_next := Suc (sv_next s), sv_ctls := (sv_ctls s)(runID \<mapsto> sv_next s)\<rparr>)"

text \<open>\<open>ControlManager.Del\<close>: only the same control is deleted.\<close>

definition cm_Del :: "string \<Rightarrow> nat \<Rightarrow> ('p, 'k) server \<Rightarrow> ('p, 'k) server" where
  "cm_Del runID i s = (if sv_ctls s runID = Some i then s\<lparr>sv_ctls := (sv_ctls s)(runID := None)\<rparr> else s)"

text \<open>The login, up to the wait for the control that is replaced; \<open>rid\<close> is the run id of a new client. \<open>NewControl\<close>
  ends with an error when the cipher of the connection cannot be made, which a connection from inside does not need.\<close>

definition RegisterControl ::
  "'p server_env \<Rightarrow> int \<Rightarrow> string \<Rightarrow> bool \<Rightarrow> login_msg \<Rightarrow> ('p, 'k) server \<Rightarrow> (ctl_error option \<times> ('p, 'k) server) option" where
  "RegisterControl E now rid internal m0 s =
     (let m = (if lm_RunID m0 = [] then m0\<lparr>lm_RunID := rid\<rparr> else m0);
          pass = (internal \<and> lm_AlwaysAuthPass m)
      in case VerifyLogin (se_verify E now) m (if pass then AlwaysPass else sv_auth s) of
           (Some e, _) \<Rightarrow> Some (Some (CtlAuth e), s)
         | (None, a) \<Rightarrow>
             map_option (\<lambda>c.
                 let s' = (if pass then s else s\<lparr>sv_auth := a\<rparr>)
                 in if \<not> internal \<and> se_noCipher E now then (Some NoController, s') else (None, cm_Add (lm_RunID m) c s'))
               (NewControl now (se_cfg E) m pass (sv_ctls s (lm_RunID m))))"

definition handleLogin ::
  "'p server_env \<Rightarrow> int \<Rightarrow> string \<Rightarrow> bool \<Rightarrow> login_msg \<Rightarrow> ('p, 'k) server \<Rightarrow> (ctl_error option \<times> ('p, 'k) server) option" where
  "handleLogin E now rid internal m s =
     (case run_plugins (se_loginPlugins E) (m, ()) of
        Inl e \<Rightarrow> Some (Some (CtlPlugin e), s)
      | Inr (m', _) \<Rightarrow> RegisterControl E now rid internal m' s)"

text \<open>\<open>Start\<close>, when the replaced control is done. The client is counted right after it, which is taken together.\<close>

definition waits_over :: "('p, 'k) control \<Rightarrow> ('p, 'k) server \<Rightarrow> bool" where
  "waits_over c s =
     (case ct_waits c of None \<Rightarrow> True | Some old \<Rightarrow> (case sv_heap s old of None \<Rightarrow> True | Some oc \<Rightarrow> ct_done oc))"

definition ctl_Start :: "nat \<Rightarrow> ('p, 'k) server \<Rightarrow> ctl_msg list \<times> ('p, 'k) server" where
  "ctl_Start i s =
     (case sv_heap s i of
        None \<Rightarrow> ([], s)
      | Some c \<Rightarrow>
          if ct_started c \<or> \<not> waits_over c s then ([], s)
          else (LoginResp (ct_runID c) # replicate (nat (ct_poolCount c)) ReqWorkConn,
                (put_ctl i (c\<lparr>ct_started := True\<rparr>) s)\<lparr>sv_mem := mem_NewClient (sv_mem s)\<rparr>))"

section \<open>Proxies\<close>

text \<open>A message can be handled.\<close>

definition ready :: "('p, 'k) control \<Rightarrow> bool" where
  "ready c = (ct_started c \<and> \<not> ct_done c \<and> ct_pending c = None)"

definition ptype :: "'p srv_proxy \<Rightarrow> string" where
  "ptype p = pb_Type (GetBaseConfig (sp_conf p))"

definition free_ports :: "server_config \<Rightarrow> 'p srv_proxy \<Rightarrow> ('p, 'k) control \<Rightarrow> ('p, 'k) control" where
  "free_ports cfg p c =
     (if sc_MaxPortsPerClient cfg > 0 then c\<lparr>ct_portsUsedNum := ct_portsUsedNum c - sp_usedPortsNum p\<rparr> else c)"

text \<open>\<open>RegisterProxy\<close> up to \<open>Run\<close>.\<close>

definition RegisterProxy_check ::
  "'p server_env \<Rightarrow> new_proxy \<Rightarrow> (nat \<times> 'p srv_proxy) pxy_manager \<Rightarrow> ('p, 'k) control \<Rightarrow> (ctl_error + 'p srv_proxy) \<times> ('p, 'k) control" where
  "RegisterProxy_check E m pm c =
     (case NewProxyConfigurerFromMsg (se_scaled E) (se_qualified E) (se_pcomplete E) (se_cfg E) m of
        Inl e \<Rightarrow> (Inl (CtlConfig e), c)
      | Inr conf \<Rightarrow>
          (let p = NewProxy (lm_User (ct_login c)) conf in
           if sc_MaxPortsPerClient (se_cfg E) > 0 \<and> ct_portsUsedNum c + sp_usedPortsNum p > sc_MaxPortsPerClient (se_cfg E)
           then (Inl ExceedMaxPorts, c)
           else
             (let c' = (if sc_MaxPortsPerClient (se_cfg E) > 0 then c\<lparr>ct_portsUsedNum := ct_portsUsedNum c + sp_usedPortsNum p\<rparr> else c) in
              if pm_Exist (np_ProxyName m) pm then (Inl (ProxyAlreadyExists (np_ProxyName m)), free_ports (se_cfg E) p c')
              else (Inr p, c'))))"

text \<open>\<open>handleNewProxy\<close>, four steps. The type of the message is completed when the configuration is made.\<close>

definition np_begin :: "'p server_env \<Rightarrow> nat \<Rightarrow> new_proxy \<Rightarrow> ('p, 'k) server \<Rightarrow> ctl_msg list \<times> ('p, 'k) server" where
  "np_begin E i m s =
     (case sv_heap s i of
        None \<Rightarrow> ([], s)
      | Some c \<Rightarrow>
          if \<not> ready c then ([], s)
          else (case run_plugins (se_newProxyPlugins E) (ct_login c, m) of
                  Inl e \<Rightarrow> ([NewProxyResp (np_ProxyName m) (Inl (CtlPlugin e))], s)
                | Inr (_, m') \<Rightarrow>
                    (case RegisterProxy_check E m' (sv_pxys s) c of
                       (Inl e, c') \<Rightarrow> ([NewProxyResp (np_ProxyName m') (Inl e)], put_ctl i c' s)
                     | (Inr p, c') \<Rightarrow>
                         ([], put_ctl i (c'\<lparr>ct_pending := Some (Checked (m'\<lparr>np_ProxyType := EmptyOr (np_ProxyType m') ''tcp''\<rparr>) p)\<rparr>) s))))"

definition np_run :: "'p server_env \<Rightarrow> run_env \<Rightarrow> nat \<Rightarrow> ('p, 'k) server \<Rightarrow> (ctl_msg list \<times> ('p, 'k) server) option" where
  "np_run E env i s =
     (case sv_heap s i of
        None \<Rightarrow> Some ([], s)
      | Some c \<Rightarrow>
          (case ct_pending c of
             Some (Checked m p) \<Rightarrow>
               map_option (\<lambda>(r, p', rc). case r of
                   Inl e \<Rightarrow> ([NewProxyResp (np_ProxyName m) (Inl (CtlRun e))],
                            (put_ctl i ((free_ports (se_cfg E) p c)\<lparr>ct_pending := None\<rparr>) s)\<lparr>sv_rc := rc\<rparr>)
                 | Inr addr \<Rightarrow> ([], (put_ctl i (c\<lparr>ct_pending := Some (Ran m addr p')\<rparr>) s)\<lparr>sv_rc := rc\<rparr>))
                 (pxy_Run env (se_cfg E) p (sv_rc s))
           | _ \<Rightarrow> Some ([], s)))"

definition np_add :: "'p server_env \<Rightarrow> int \<Rightarrow> nat \<Rightarrow> ('p, 'k) server \<Rightarrow> (ctl_msg list \<times> ('p, 'k) server) option" where
  "np_add E now i s =
     (case sv_heap s i of
        None \<Rightarrow> Some ([], s)
      | Some c \<Rightarrow>
          (case ct_pending c of
             Some (Ran m addr p) \<Rightarrow>
               (case pm_Add (np_ProxyName m) (i, p) (sv_pxys s) of
                  Inl e \<Rightarrow>
                    map_option (\<lambda>(_, rc). ([NewProxyResp (np_ProxyName m) (Inl (CtlName e))],
                        (put_ctl i ((free_ports (se_cfg E) p c)\<lparr>ct_pending := None\<rparr>) s)\<lparr>sv_rc := rc\<rparr>))
                      (pxy_Close now p (sv_rc s))
                | Inr pm \<Rightarrow>
                    Some ([], (put_ctl i (c\<lparr>ct_proxies := (ct_proxies c)(sp_name p \<mapsto> p), ct_pending := Some (Added m addr)\<rparr>) s)\<lparr>sv_pxys := pm\<rparr>))
           | _ \<Rightarrow> Some ([], s)))"

definition np_done :: "'p server_env \<Rightarrow> int \<Rightarrow> nat \<Rightarrow> ('p, 'k) server \<Rightarrow> ctl_msg list \<times> ('p, 'k) server" where
  "np_done E now i s =
     (case sv_heap s i of
        None \<Rightarrow> ([], s)
      | Some c \<Rightarrow>
          (case ct_pending c of
             Some (Added m addr) \<Rightarrow>
               ([NewProxyResp (np_ProxyName m) (Inr addr)],
                (put_ctl i (c\<lparr>ct_pending := None\<rparr>) s)
                  \<lparr>sv_mem := mem_NewProxy (se_clock E) now (np_ProxyName m) (np_ProxyType m) (sv_mem s)\<rparr>)
           | _ \<Rightarrow> ([], s)))"

text \<open>\<open>CloseProxy\<close>, and the statistics after it.\<close>

definition ctl_CloseProxy :: "'p server_env \<Rightarrow> int \<Rightarrow> nat \<Rightarrow> string \<Rightarrow> ('p, 'k) server \<Rightarrow> ('p, 'k) server option" where
  "ctl_CloseProxy E now i name s =
     (case sv_heap s i of
        None \<Rightarrow> Some s
      | Some c \<Rightarrow>
          if \<not> ready c then Some s
          else (case ct_proxies c name of
                  None \<Rightarrow> Some s
                | Some p \<Rightarrow>
                    map_option (\<lambda>(p', rc).
                        (put_ctl i ((free_ports (se_cfg E) p c)\<lparr>ct_proxies := (ct_proxies c)(name := None),
                             ct_pending := Some (Closing (sp_name p) (ptype p) None)\<rparr>) s)
                          \<lparr>sv_rc := rc, sv_pxys := pm_Del (sp_name p) (sv_pxys s)\<rparr>)
                      (pxy_Close now p (sv_rc s))))"

definition close_stats :: "int \<Rightarrow> nat \<Rightarrow> ('p, 'k) server \<Rightarrow> ('p, 'k) server" where
  "close_stats now i s =
     (case sv_heap s i of
        None \<Rightarrow> s
      | Some c \<Rightarrow>
          (case ct_pending c of
             Some (Closing name t rest) \<Rightarrow>
               (put_ctl i (c\<lparr>ct_pending := map_option Exiting rest\<rparr>) s)\<lparr>sv_mem := mem_CloseProxy now name t (sv_mem s)\<rparr>
           | _ \<Rightarrow> s))"

section \<open>Exit of the worker\<close>

definition conn_Close :: "nat \<Rightarrow> ('p, 'k) server \<Rightarrow> ('p, 'k) server" where
  "conn_Close i s = (case sv_heap s i of None \<Rightarrow> s | Some c \<Rightarrow> put_ctl i (c\<lparr>ct_connClosed := True\<rparr>) s)"

text \<open>The dispatcher has stopped: the pool is closed and emptied; \<open>order\<close> is the order of the map of proxies.\<close>

definition exit_begin :: "string list \<Rightarrow> nat \<Rightarrow> ('p, 'k) server \<Rightarrow> ('p, 'k) server" where
  "exit_begin order i s =
     (case sv_heap s i of
        None \<Rightarrow> s
      | Some c \<Rightarrow>
          if \<not> ready c \<or> \<not> ct_connClosed c then s
          else put_ctl i (c\<lparr>ct_chClosed := True, ct_workConnCh := [], ct_pending := Some (Exiting order)\<rparr>) s)"

definition exit_one :: "int \<Rightarrow> nat \<Rightarrow> ('p, 'k) server \<Rightarrow> ('p, 'k) server option" where
  "exit_one now i s =
     (case sv_heap s i of
        None \<Rightarrow> Some s
      | Some c \<Rightarrow>
          (case ct_pending c of
             Some (Exiting (name # names)) \<Rightarrow>
               (case ct_proxies c name of
                  None \<Rightarrow> Some s
                | Some p \<Rightarrow>
                    map_option (\<lambda>(p', rc). (put_ctl i (c\<lparr>ct_pending := Some (Closing (sp_name p) (ptype p) (Some names))\<rparr>) s)
                          \<lparr>sv_rc := rc, sv_pxys := pm_Del (sp_name p) (sv_pxys s)\<rparr>)
                      (pxy_Close now p (sv_rc s)))
           | _ \<Rightarrow> Some s))"

definition exit_end :: "nat \<Rightarrow> ('p, 'k) server \<Rightarrow> ('p, 'k) server" where
  "exit_end i s =
     (case sv_heap s i of
        None \<Rightarrow> s
      | Some c \<Rightarrow>
          if ct_pending c = Some (Exiting []) \<and> \<not> ct_done c
          then (put_ctl i (c\<lparr>ct_pending := None, ct_done := True\<rparr>) s)\<lparr>sv_mem := mem_CloseClient (sv_mem s)\<rparr>
          else s)"

text \<open>The goroutine of \<open>RegisterControl\<close> that waits for the control.\<close>

definition forget :: "nat \<Rightarrow> ('p, 'k) server \<Rightarrow> ('p, 'k) server" where
  "forget i s =
     (case sv_heap s i of None \<Rightarrow> s | Some c \<Rightarrow> if ct_done c then cm_Del (lm_RunID (ct_login c)) i s else s)"

text \<open>\<open>ControlManager.Close\<close>.\<close>

definition cm_Close :: "('p, 'k) server \<Rightarrow> ('p, 'k) server" where
  "cm_Close s =
     s\<lparr>sv_heap := (\<lambda>i. case sv_heap s i of
          None \<Rightarrow> None
        | Some c \<Rightarrow> Some (if sv_ctls s (lm_RunID (ct_login c)) = Some i then c\<lparr>ct_connClosed := True\<rparr> else c)),
       sv_ctls := Map.empty\<rparr>"

section \<open>Heartbeats\<close>

definition auth_of :: "('p, 'k) server \<Rightarrow> ('p, 'k) control \<Rightarrow> auth_verifier" where
  "auth_of s c = (if ct_alwaysPass c then AlwaysPass else sv_auth s)"

definition handlePing :: "'p server_env \<Rightarrow> int \<Rightarrow> nat \<Rightarrow> key_msg \<Rightarrow> ('p, 'k) server \<Rightarrow> ctl_msg list \<times> ('p, 'k) server" where
  "handlePing E now i m s =
     (case sv_heap s i of
        None \<Rightarrow> ([], s)
      | Some c \<Rightarrow>
          if \<not> ready c then ([], s)
          else (case run_plugins (se_pingPlugins E) (ct_login c, m) of
                  Inl e \<Rightarrow> ([Pong (Some (CtlPlugin e))], s)
                | Inr (_, m') \<Rightarrow>
                    (case VerifyPing (se_verify E now) m' (auth_of s c) of
                       Some e \<Rightarrow> ([Pong (Some (CtlAuth e))], s)
                     | None \<Rightarrow> ([Pong None], put_ctl i (c\<lparr>ct_lastPing := now\<rparr>) s))))"

text \<open>One round of \<open>heartbeatWorker\<close>; times are in nanoseconds.\<close>

definition heartbeat_round :: "'p server_env \<Rightarrow> int \<Rightarrow> nat \<Rightarrow> ('p, 'k) server \<Rightarrow> ('p, 'k) server" where
  "heartbeat_round E now i s =
     (case sv_heap s i of
        None \<Rightarrow> s
      | Some c \<Rightarrow>
          if sc_HeartbeatTimeout (se_cfg E) \<le> 0 \<or> \<not> ct_started c then s
          else if now - ct_lastPing c > sc_HeartbeatTimeout (se_cfg E) * 1000000000 then conn_Close i s
          else s)"

section \<open>Work connections\<close>

text \<open>What becomes of a work connection. Sending on the closed channel panics, which is recovered, and the
  function returns no error: the connection is then nobody's.\<close>

datatype conn_fate = Pooled | Refused ctl_error | Abandoned

definition ctl_RegisterWorkConn :: "'k \<Rightarrow> ('p, 'k) control \<Rightarrow> conn_fate \<times> ('p, 'k) control" where
  "ctl_RegisterWorkConn conn c =
     (if ct_chClosed c then (Abandoned, c)
      else if int (length (ct_workConnCh c)) < pool_capacity c then (Pooled, c\<lparr>ct_workConnCh := ct_workConnCh c @ [conn]\<rparr>)
      else (Refused PoolFull, c))"

definition RegisterWorkConn ::
  "'p server_env \<Rightarrow> int \<Rightarrow> 'k \<Rightarrow> work_conn_msg \<Rightarrow> ('p, 'k) server \<Rightarrow> conn_fate \<times> ('p, 'k) server" where
  "RegisterWorkConn E now conn m s =
     (case Option.bind (sv_ctls s (wm_RunID m)) (\<lambda>i. map_option (Pair i) (sv_heap s i)) of
        None \<Rightarrow> (Refused (NoControl (wm_RunID m)), s)
      | Some (i, c) \<Rightarrow>
          (case run_plugins (se_workPlugins E) (ct_login c, m) of
             Inl e \<Rightarrow> (Refused (CtlPlugin e), s)
           | Inr (_, m') \<Rightarrow>
               (case VerifyNewWorkConn (se_verify E now) m' (auth_of s c) of
                  Some e \<Rightarrow> (Refused (CtlAuth e), s)
                | None \<Rightarrow> (case ctl_RegisterWorkConn conn c of (r, c') \<Rightarrow> (r, put_ctl i c' s)))))"

text \<open>\<open>GetWorkConn\<close>: a connection of the pool and a request for another one; an empty pool asks the client for one, and
  the caller waits or gives up.\<close>

datatype 'k work_conn = WorkConn 'k | CtlClosed | MustWait

definition GetWorkConn :: "nat \<Rightarrow> ('p, 'k) server \<Rightarrow> 'k work_conn \<times> ctl_msg list \<times> ('p, 'k) server" where
  "GetWorkConn i s =
     (case sv_heap s i of
        None \<Rightarrow> (CtlClosed, [], s)
      | Some c \<Rightarrow>
          (case ct_workConnCh c of
             conn # conns \<Rightarrow> (WorkConn conn, [ReqWorkConn], put_ctl i (c\<lparr>ct_workConnCh := conns\<rparr>) s)
           | [] \<Rightarrow> if ct_chClosed c then (CtlClosed, [], s) else (MustWait, [ReqWorkConn], s)))"

text \<open>A visitor is of the user of the control it names, of no user without a run id.\<close>

definition RegisterVisitorConn ::
  "('k \<Rightarrow> 'k option) \<Rightarrow> string \<Rightarrow> string \<Rightarrow> 'k \<Rightarrow> int \<Rightarrow> string \<Rightarrow> ('p, 'k) server \<Rightarrow>
   ((ctl_error + visitor_error) option \<times> bool) \<times> ('p, 'k) server" where
  "RegisterVisitorConn wrap runID name conn timestamp signKey s =
     (let enter = (\<lambda>user. case vm_NewConn wrap name conn timestamp signKey user (rs_visitor (sv_rc s)) of
                     ((e, queued), vm) \<Rightarrow> ((map_option Inr e, queued), s\<lparr>sv_rc := (sv_rc s)\<lparr>rs_visitor := vm\<rparr>\<rparr>))
      in if runID = [] then enter []
         else (case Option.bind (sv_ctls s runID) (sv_heap s) of
                 None \<Rightarrow> ((Some (Inl (NoControl runID)), False), s)
               | Some c \<Rightarrow> enter (lm_User (ct_login c))))"

section \<open>Runs\<close>

text \<open>What happens to a server. \<open>SvUser\<close> are the statistics of user connections and the clean-up of the dashboard.
  \<open>ControlManager.Close\<close> is the end of the process and not an event.\<close>

datatype 'k sv_event = SvLogin int string bool login_msg | SvStart nat | SvNewProxy nat new_proxy | SvRun nat run_env
  | SvAdd nat int | SvAdded nat int | SvCloseProxy nat int string | SvStats nat int | SvConnClose nat | SvExit nat "string list"
  | SvExitOne nat int | SvExitEnd nat | SvForget nat | SvPing nat int key_msg | SvHeartbeat nat int | SvWorkConn int 'k work_conn_msg
  | SvTake nat | SvVisitor "'k \<Rightarrow> 'k option" string string 'k int string | SvUser int mem_event

fun user_event :: "mem_event \<Rightarrow> bool" where
  "user_event (EvOpen _) = True"
| "user_event (EvCloseConn _) = True"
| "user_event (EvIn _ _) = True"
| "user_event (EvOut _ _) = True"
| "user_event (EvClear _) = True"
| "user_event _ = False"

fun sv_step :: "'p server_env \<Rightarrow> 'k sv_event \<Rightarrow> ('p, 'k) server \<Rightarrow> ('p, 'k) server option" where
  "sv_step E (SvLogin now rid internal m) s = map_option snd (handleLogin E now rid internal m s)"
| "sv_step E (SvStart i) s = Some (snd (ctl_Start i s))"
| "sv_step E (SvNewProxy i m) s = Some (snd (np_begin E i m s))"
| "sv_step E (SvRun i env) s = map_option snd (np_run E env i s)"
| "sv_step E (SvAdd i now) s = map_option snd (np_add E now i s)"
| "sv_step E (SvAdded i now) s = Some (snd (np_done E now i s))"
| "sv_step E (SvCloseProxy i now name) s = ctl_CloseProxy E now i name s"
| "sv_step E (SvStats i now) s = Some (close_stats now i s)"
| "sv_step E (SvConnClose i) s = Some (conn_Close i s)"
| "sv_step E (SvExit i order) s = Some (exit_begin order i s)"
| "sv_step E (SvExitOne i now) s = exit_one now i s"
| "sv_step E (SvExitEnd i) s = Some (exit_end i s)"
| "sv_step E (SvForget i) s = Some (forget i s)"
| "sv_step E (SvPing i now m) s = Some (snd (handlePing E now i m s))"
| "sv_step E (SvHeartbeat i now) s = Some (heartbeat_round E now i s)"
| "sv_step E (SvWorkConn now conn m) s = Some (snd (RegisterWorkConn E now conn m s))"
| "sv_step E (SvTake i) s = Some (snd (snd (GetWorkConn i s)))"
| "sv_step E (SvVisitor wrap runID name conn ts key) s = Some (snd (RegisterVisitorConn wrap runID name conn ts key s))"
| "sv_step E (SvUser now ev) s = Some (if user_event ev then s\<lparr>sv_mem := mem_step (se_clock E) now ev (sv_mem s)\<rparr> else s)"

fun sv_run :: "'p server_env \<Rightarrow> 'k sv_event list \<Rightarrow> ('p, 'k) server \<Rightarrow> ('p, 'k) server option" where
  "sv_run E [] s = Some s"
| "sv_run E (e # es) s = Option.bind (sv_step E e s) (sv_run E es)"

text \<open>The order in which the worker leaves is an order of the map.\<close>

fun proper_event :: "'k sv_event \<Rightarrow> ('p, 'k) server \<Rightarrow> bool" where
  "proper_event (SvExit i order) s = (\<forall>c. sv_heap s i = Some c \<longrightarrow> set order = dom (ct_proxies c) \<and> distinct order)"
| "proper_event _ s = True"

inductive sv_reachable :: "'p server_env \<Rightarrow> ('p, 'k) server \<Rightarrow> bool" for E where
  start: "sv_reachable E (NewServer a ck now rc)"
| step: "sv_reachable E s \<Longrightarrow> proper_event e s \<Longrightarrow> sv_step E e s = Some s' \<Longrightarrow> sv_reachable E s'"

fun is_exit :: "'k sv_event \<Rightarrow> bool" where
  "is_exit (SvExit _ _) = True"
| "is_exit _ = False"

lemma sv_run_reachable:
  assumes "sv_reachable E s" and "list_all (\<lambda>e. \<not> is_exit e) es" and "sv_run E es s = Some s'"
  shows "sv_reachable E s'"
  using assms
proof (induction es arbitrary: s)
  case (Cons e es)
  obtain t where t: "sv_step E e s = Some t" "sv_run E es t = Some s'" using Cons.prems(3) by (auto simp: bind_eq_Some_conv)
  have "proper_event e s" using Cons.prems(2) by (cases e) simp_all
  then have "sv_reachable E t" using sv_reachable.step [OF Cons.prems(1) _ t(1)] by blast
  then show ?case using Cons.IH Cons.prems(2) t(2) by simp
qed simp

section \<open>What running and closing leave of a proxy\<close>

definition same_proxy :: "'p srv_proxy \<Rightarrow> 'p srv_proxy \<Rightarrow> bool" where
  "same_proxy p p' \<longleftrightarrow> sp_name p' = sp_name p \<and> sp_usedPortsNum p' = sp_usedPortsNum p \<and> ptype p' = ptype p \<and>
     used_ports (sp_conf p') = used_ports (sp_conf p)"

lemma same_proxy_refl [simp]: "same_proxy p p"
  by (simp add: same_proxy_def)

lemma same_proxy_trans: "same_proxy p q \<Longrightarrow> same_proxy q r \<Longrightarrow> same_proxy p r"
  by (simp add: same_proxy_def)

lemma pxy_Close_same: "pxy_Close now p rc = Some (p', rc') \<Longrightarrow> same_proxy p p'"
  by (auto simp: pxy_Close_def same_proxy_def ptype_def split: proxy_config.splits if_splits)

lemma http_register_same: "http_register b h d l p rc = (e, p', rc') \<Longrightarrow> same_proxy p p'"
  by (auto simp: http_register_def same_proxy_def ptype_def split: if_splits prod.splits option.splits sum.splits)

lemma http_register_all_same: "http_register_all b h dls p rc = (e, p', rc') \<Longrightarrow> same_proxy p p'"
proof (induction dls arbitrary: p rc)
  case (Cons dl dls)
  then show ?case
    by (auto split: prod.splits option.splits dest: http_register_same intro: same_proxy_trans)
qed simp

lemma listen_all_same: "listen_all f ds p rc = (e, p', rc') \<Longrightarrow> same_proxy p p'"
proof (induction ds arbitrary: p rc)
  case (Cons d ds)
  have "same_proxy p (p\<lparr>sp_listeners := ls\<rparr>)" for ls by (simp add: same_proxy_def ptype_def)
  then show ?case using Cons by (auto split: prod.splits sum.splits intro: same_proxy_trans)
qed simp

lemma domains_Run_same: "domains_Run env port f ds p rc = Some (r, p', rc') \<Longrightarrow> same_proxy p p'"
  by (auto simp: domains_Run_def split: prod.splits option.splits dest!: listen_all_same pxy_Close_same intro: same_proxy_trans)

lemma pxy_Run_same: "pxy_Run env cfg p rc = Some (r, p', rc') \<Longrightarrow> same_proxy p p'"
proof (cases "sp_conf p")
  case (TCPProxyConfig b port)
  then show "pxy_Run env cfg p rc = Some (r, p', rc') \<Longrightarrow> ?thesis"
    by (auto simp: pxy_Run_def tcp_Run_def same_proxy_def ptype_def split: if_splits prod.splits sum.splits)
next
  case (UDPProxyConfig b port)
  then show "pxy_Run env cfg p rc = Some (r, p', rc') \<Longrightarrow> ?thesis"
    by (auto simp: pxy_Run_def udp_Run_def same_proxy_def ptype_def Let_def split: if_splits prod.splits sum.splits)
next
  case (HTTPProxyConfig b d h)
  then show "pxy_Run env cfg p rc = Some (r, p', rc') \<Longrightarrow> ?thesis"
    by (auto simp: pxy_Run_def http_Run_def Let_def split: prod.splits option.splits
        dest!: http_register_all_same pxy_Close_same intro: same_proxy_trans)
next
  case (HTTPSProxyConfig b d)
  then show "pxy_Run env cfg p rc = Some (r, p', rc') \<Longrightarrow> ?thesis" by (auto simp: pxy_Run_def dest: domains_Run_same)
next
  case (TCPMuxProxyConfig b d t)
  then show "pxy_Run env cfg p rc = Some (r, p', rc') \<Longrightarrow> ?thesis"
    by (auto simp: pxy_Run_def split: if_splits dest: domains_Run_same pxy_Close_same)
qed (auto simp: pxy_Run_def visitor_Run_def xtcp_Run_def same_proxy_def ptype_def split: sum.splits option.splits)

text \<open>The proxy of a message has its name and type.\<close>

lemma base_Unmarshal_name [simp]:
  "pb_Name (base_UnmarshalFromMsg sc m b) = np_ProxyName m" "pb_Type (base_UnmarshalFromMsg sc m b) = np_ProxyType m"
  by (simp_all add: base_UnmarshalFromMsg_def Let_def)

lemma base_Complete_name [simp]: "pb_Name (base_Complete pc [] b) = pb_Name b" "pb_Type (base_Complete pc [] b) = pb_Type b"
  by (simp_all add: base_Complete_def)

lemma UnmarshalFromMsg_base:
  "pb_Name (GetBaseConfig (UnmarshalFromMsg sc m c)) = np_ProxyName m \<and>
   pb_Type (GetBaseConfig (UnmarshalFromMsg sc m c)) = np_ProxyType m"
  by (cases c) simp_all

lemma cfg_Complete_base:
  "pb_Name (GetBaseConfig (cfg_Complete pc [] c)) = pb_Name (GetBaseConfig c) \<and>
   pb_Type (GetBaseConfig (cfg_Complete pc [] c)) = pb_Type (GetBaseConfig c)"
  by (cases c) (simp_all add: cfg_Complete_def)

lemma NewProxyConfigurerFromMsg_base:
  assumes "NewProxyConfigurerFromMsg sc qu pc cfg m = Inr c"
  shows "pb_Name (GetBaseConfig c) = np_ProxyName m" and "pb_Type (GetBaseConfig c) = EmptyOr (np_ProxyType m) ''tcp''"
  using assms
  by (auto simp: NewProxyConfigurerFromMsg_def Let_def cfg_Complete_base UnmarshalFromMsg_base
      simp del: ValidateProxyConfigurerForServer.simps split: option.splits)

section \<open>The step relation\<close>

text \<open>What an event can do to the sessions, the table of names and the statistics, whatever the resources do. Every event
  is one of these steps, and the invariants are shown for the steps.\<close>

definition becomes ::
  "('p, 'k) server \<Rightarrow> nat \<Rightarrow> ('p, 'k) control \<Rightarrow> (nat \<times> 'p srv_proxy) pxy_manager \<Rightarrow> server_statistics \<Rightarrow> ('p, 'k) server \<Rightarrow> bool" where
  "becomes s i c pm mem s' \<longleftrightarrow> sv_heap s' = (sv_heap s)(i \<mapsto> c) \<and> sv_ctls s' = sv_ctls s \<and> sv_next s' = sv_next s \<and>
     sv_pxys s' = pm \<and> sv_mem s' = mem"

definition pool_ok :: "server_config \<Rightarrow> ('p, 'k) control \<Rightarrow> bool" where
  "pool_ok cfg c \<longleftrightarrow> int (length (ct_workConnCh c)) \<le> pool_capacity c \<and> ct_poolCount c \<le> sc_MaxPoolCount cfg \<and>
     (ct_chClosed c \<longrightarrow> ct_workConnCh c = [])"

definition same_session :: "('p, 'k) control \<Rightarrow> ('p, 'k) control \<Rightarrow> bool" where
  "same_session c c' \<longleftrightarrow> ct_login c' = ct_login c \<and> ct_proxies c' = ct_proxies c \<and> ct_portsUsedNum c' = ct_portsUsedNum c \<and>
     ct_waits c' = ct_waits c \<and> ct_started c' = ct_started c \<and> ct_pending c' = ct_pending c \<and> ct_done c' = ct_done c"

lemma same_session_refl [simp]: "same_session c c"
  by (simp add: same_session_def)

definition fits :: "server_config \<Rightarrow> int \<Rightarrow> bool" where
  "fits cfg n \<longleftrightarrow> (sc_MaxPortsPerClient cfg > 0 \<longrightarrow> n \<le> sc_MaxPortsPerClient cfg)"

definition take_ports :: "server_config \<Rightarrow> 'p srv_proxy \<Rightarrow> ('p, 'k) control \<Rightarrow> ('p, 'k) control" where
  "take_ports cfg p c = (if sc_MaxPortsPerClient cfg > 0 then c\<lparr>ct_portsUsedNum := ct_portsUsedNum c + sp_usedPortsNum p\<rparr> else c)"

inductive sv_tr :: "'p server_env \<Rightarrow> ('p, 'k) server \<Rightarrow> ('p, 'k) server \<Rightarrow> bool" for E where
  other: "sv_heap s' = sv_heap s \<Longrightarrow> sv_ctls s' = sv_ctls s \<Longrightarrow> sv_next s' = sv_next s \<Longrightarrow> sv_pxys s' = sv_pxys s \<Longrightarrow>
    sv_mem s' = sv_mem s \<or> (\<exists>now ev. user_event ev \<and> sv_mem s' = mem_step (se_clock E) now ev (sv_mem s)) \<Longrightarrow> sv_tr E s s'"
| login: "NewControl now (se_cfg E) m pass (sv_ctls s (lm_RunID m)) = Some c \<Longrightarrow> sv_heap s' = sv_heap (cm_Add (lm_RunID m) c s) \<Longrightarrow>
    sv_ctls s' = (sv_ctls s)(lm_RunID m \<mapsto> sv_next s) \<Longrightarrow> sv_next s' = Suc (sv_next s) \<Longrightarrow> sv_pxys s' = sv_pxys s \<Longrightarrow>
    sv_mem s' = sv_mem s \<Longrightarrow> sv_tr E s s'"
| quiet: "sv_heap s i = Some c \<Longrightarrow> same_session c c' \<Longrightarrow> pool_ok (se_cfg E) c \<longrightarrow> pool_ok (se_cfg E) c' \<Longrightarrow>
    becomes s i c' (sv_pxys s) (sv_mem s) s' \<Longrightarrow> sv_tr E s s'"
| start: "sv_heap s i = Some c \<Longrightarrow> \<not> ct_started c \<Longrightarrow> waits_over c s \<Longrightarrow>
    becomes s i (c\<lparr>ct_started := True\<rparr>) (sv_pxys s) (mem_NewClient (sv_mem s)) s' \<Longrightarrow> sv_tr E s s'"
| checked: "sv_heap s i = Some c \<Longrightarrow> ready c \<Longrightarrow> sp_name p = np_ProxyName m \<Longrightarrow> ptype p = np_ProxyType m \<Longrightarrow>
    sp_usedPortsNum p = used_ports (sp_conf p) \<Longrightarrow> fits (se_cfg E) (ct_portsUsedNum c + sp_usedPortsNum p) \<Longrightarrow>
    becomes s i ((take_ports (se_cfg E) p c)\<lparr>ct_pending := Some (Checked m p)\<rparr>) (sv_pxys s) (sv_mem s) s' \<Longrightarrow> sv_tr E s s'"
| dropped: "sv_heap s i = Some c \<Longrightarrow> ct_pending c = Some (Checked m p) \<or> ct_pending c = Some (Ran m addr p) \<Longrightarrow>
    becomes s i ((free_ports (se_cfg E) p c)\<lparr>ct_pending := None\<rparr>) (sv_pxys s) (sv_mem s) s' \<Longrightarrow> sv_tr E s s'"
| ran: "sv_heap s i = Some c \<Longrightarrow> ct_pending c = Some (Checked m p) \<Longrightarrow> same_proxy p p' \<Longrightarrow>
    becomes s i (c\<lparr>ct_pending := Some (Ran m addr p')\<rparr>) (sv_pxys s) (sv_mem s) s' \<Longrightarrow> sv_tr E s s'"
| added: "sv_heap s i = Some c \<Longrightarrow> ct_pending c = Some (Ran m addr p) \<Longrightarrow> sv_pxys s (np_ProxyName m) = None \<Longrightarrow>
    becomes s i (c\<lparr>ct_proxies := (ct_proxies c)(sp_name p \<mapsto> p), ct_pending := Some (Added m addr)\<rparr>)
      ((sv_pxys s)(np_ProxyName m \<mapsto> (i, p))) (sv_mem s) s' \<Longrightarrow> sv_tr E s s'"
| counted: "sv_heap s i = Some c \<Longrightarrow> ct_pending c = Some (Added m addr) \<Longrightarrow>
    becomes s i (c\<lparr>ct_pending := None\<rparr>) (sv_pxys s) (mem_NewProxy (se_clock E) now (np_ProxyName m) (np_ProxyType m) (sv_mem s)) s' \<Longrightarrow>
    sv_tr E s s'"
| closed: "sv_heap s i = Some c \<Longrightarrow> ready c \<Longrightarrow> ct_proxies c name = Some p \<Longrightarrow>
    becomes s i ((free_ports (se_cfg E) p c)\<lparr>ct_proxies := (ct_proxies c)(name := None), ct_pending := Some (Closing (sp_name p) (ptype p) None)\<rparr>)
      ((sv_pxys s)(sp_name p := None)) (sv_mem s) s' \<Longrightarrow> sv_tr E s s'"
| uncounted: "sv_heap s i = Some c \<Longrightarrow> ct_pending c = Some (Closing name t rest) \<Longrightarrow>
    becomes s i (c\<lparr>ct_pending := map_option Exiting rest\<rparr>) (sv_pxys s) (mem_CloseProxy now name t (sv_mem s)) s' \<Longrightarrow> sv_tr E s s'"
| leaving: "sv_heap s i = Some c \<Longrightarrow> ready c \<Longrightarrow> ct_connClosed c \<Longrightarrow> set order = dom (ct_proxies c) \<Longrightarrow> distinct order \<Longrightarrow>
    becomes s i (c\<lparr>ct_chClosed := True, ct_workConnCh := [], ct_pending := Some (Exiting order)\<rparr>) (sv_pxys s) (sv_mem s) s' \<Longrightarrow> sv_tr E s s'"
| exit_closed: "sv_heap s i = Some c \<Longrightarrow> ct_pending c = Some (Exiting (name # names)) \<Longrightarrow> ct_proxies c name = Some p \<Longrightarrow>
    becomes s i (c\<lparr>ct_pending := Some (Closing (sp_name p) (ptype p) (Some names))\<rparr>) ((sv_pxys s)(sp_name p := None)) (sv_mem s) s' \<Longrightarrow>
    sv_tr E s s'"
| exited: "sv_heap s i = Some c \<Longrightarrow> ct_pending c = Some (Exiting []) \<Longrightarrow> \<not> ct_done c \<Longrightarrow>
    becomes s i (c\<lparr>ct_pending := None, ct_done := True\<rparr>) (sv_pxys s) (mem_CloseClient (sv_mem s)) s' \<Longrightarrow> sv_tr E s s'"
| forgot: "sv_heap s i = Some c \<Longrightarrow> ct_done c \<Longrightarrow> sv_ctls s (lm_RunID (ct_login c)) = Some i \<Longrightarrow> sv_heap s' = sv_heap s \<Longrightarrow>
    sv_ctls s' = (sv_ctls s)(lm_RunID (ct_login c) := None) \<Longrightarrow> sv_next s' = sv_next s \<Longrightarrow> sv_pxys s' = sv_pxys s \<Longrightarrow>
    sv_mem s' = sv_mem s \<Longrightarrow> sv_tr E s s'"

lemma tr_same [simp]: "sv_tr E s s"
  by (rule sv_tr.other) simp_all

lemma becomes_put [simp]: "becomes s i c pm mem ((put_ctl i c s)\<lparr>sv_rc := rc, sv_pxys := pm, sv_mem := mem\<rparr>)"
  by (simp add: becomes_def put_ctl_def)

lemma becomes_same [simp]:
  "becomes s i c (sv_pxys s) (sv_mem s) (put_ctl i c s)"
  "becomes s i c (sv_pxys s) mem ((put_ctl i c s)\<lparr>sv_mem := mem\<rparr>)"
  "becomes s i c (sv_pxys s) (sv_mem s) ((put_ctl i c s)\<lparr>sv_rc := rc\<rparr>)"
  "becomes s i c pm (sv_mem s) ((put_ctl i c s)\<lparr>sv_pxys := pm\<rparr>)"
  "becomes s i c pm (sv_mem s) ((put_ctl i c s)\<lparr>sv_rc := rc, sv_pxys := pm\<rparr>)"
  by (simp_all add: becomes_def put_ctl_def)

lemmas tr_rules =
  sv_tr.quiet [OF _ _ _ becomes_same(1)]
  sv_tr.start [OF _ _ _ becomes_same(2)]
  sv_tr.checked [OF _ _ _ _ _ _ becomes_same(1)]
  sv_tr.dropped [OF _ _ becomes_same(3)]
  sv_tr.ran [OF _ _ _ becomes_same(3)]
  sv_tr.added [OF _ _ _ becomes_same(4)]
  sv_tr.counted [OF _ _ becomes_same(2)]
  sv_tr.closed [OF _ _ _ becomes_same(5)]
  sv_tr.uncounted [OF _ _ becomes_same(2)]
  sv_tr.leaving [OF _ _ _ _ _ becomes_same(1)]
  sv_tr.exit_closed [OF _ _ _ becomes_same(5)]
  sv_tr.exited [OF _ _ _ becomes_same(2)]

text \<open>Every event is a step.\<close>

lemma cm_Add_sel [simp]:
  "sv_heap (cm_Add r c (s\<lparr>sv_auth := a\<rparr>)) = sv_heap (cm_Add r c s)"
  "sv_ctls (cm_Add r c s) = (sv_ctls s)(r \<mapsto> sv_next s)" "sv_next (cm_Add r c s) = Suc (sv_next s)"
  "sv_pxys (cm_Add r c s) = sv_pxys s" "sv_mem (cm_Add r c s) = sv_mem s"
  by (simp_all add: cm_Add_def Let_def split: option.splits)

lemma tr_auth [simp]: "sv_tr E s (s\<lparr>sv_auth := a\<rparr>)"
  by (rule sv_tr.other) simp_all

lemma tr_register:
  assumes "RegisterControl E now rid internal m0 s = Some (r, s')"
  shows "sv_tr E s s'"
proof -
  define m where "m = (if lm_RunID m0 = [] then m0\<lparr>lm_RunID := rid\<rparr> else m0)"
  define pass where "pass = (internal \<and> lm_AlwaysAuthPass m)"
  obtain err a where V: "VerifyLogin (se_verify E now) m (if pass then AlwaysPass else sv_auth s) = (err, a)" by fastforce
  let ?s = "if pass then s else s\<lparr>sv_auth := a\<rparr>"
  note R = assms [unfolded RegisterControl_def Let_def, folded m_def, folded pass_def, unfolded V]
  show ?thesis
  proof (cases err)
    case None
    with R obtain c where c: "NewControl now (se_cfg E) m pass (sv_ctls s (lm_RunID m)) = Some c"
      and s': "s' = ?s \<or> s' = cm_Add (lm_RunID m) c ?s"
      by (auto split: if_splits)
    have "sv_tr E s ?s" by simp
    moreover have "sv_tr E s (cm_Add (lm_RunID m) c ?s)" by (rule sv_tr.login [OF c]) simp_all
    ultimately show ?thesis using s' by blast
  qed (use R in simp)
qed

lemma tr_login: "handleLogin E now rid internal m s = Some (r, s') \<Longrightarrow> sv_tr E s s'"
  by (auto simp: handleLogin_def split: sum.splits prod.splits intro: tr_register)

lemma tr_start: "sv_tr E s (snd (ctl_Start i s))"
  by (auto simp: ctl_Start_def split: option.splits intro: tr_rules)

lemma RegisterProxy_check_Inl: "RegisterProxy_check E m pm c = (Inl e, c') \<Longrightarrow> c' = c"
  by (auto simp: RegisterProxy_check_def free_ports_def Let_def split: sum.splits if_splits)

lemma RegisterProxy_check_Inr:
  assumes "RegisterProxy_check E m pm c = (Inr p, c')"
  shows "c' = take_ports (se_cfg E) p c" and "sp_name p = np_ProxyName m" and "ptype p = EmptyOr (np_ProxyType m) ''tcp''"
    and "sp_usedPortsNum p = used_ports (sp_conf p)" and "fits (se_cfg E) (ct_portsUsedNum c + sp_usedPortsNum p)"
  using assms
  by (auto simp: RegisterProxy_check_def take_ports_def NewProxy_def ptype_def fits_def Let_def NewProxyConfigurerFromMsg_base
      split: sum.splits if_splits)

lemma tr_np_begin: "sv_tr E s (snd (np_begin E i m s))"
proof (cases "sv_heap s i")
  case (Some c)
  note i = this
  show ?thesis
  proof (cases "ready c")
    case True
    show ?thesis
    proof (cases "run_plugins (se_newProxyPlugins E) (ct_login c, m)")
      case (Inr x)
      obtain l m' where x: "x = (l, m')" by (cases x)
      obtain r c' where R: "RegisterProxy_check E m' (sv_pxys s) c = (r, c')" by (cases "RegisterProxy_check E m' (sv_pxys s) c")
      show ?thesis
      proof (cases r)
        case (Inl e)
        then have "c' = c" using R RegisterProxy_check_Inl by blast
        then show ?thesis using i True Inr x R Inl by (auto simp: np_begin_def intro: tr_rules)
      next
        case (Inr p)
        note F = RegisterProxy_check_Inr [OF R [unfolded Inr]]
        have "sv_tr E s (put_ctl i ((take_ports (se_cfg E) p c)\<lparr>ct_pending :=
            Some (Checked (m'\<lparr>np_ProxyType := EmptyOr (np_ProxyType m') ''tcp''\<rparr>) p)\<rparr>) s)"
          using i True F(2-5) by (intro tr_rules(3)) simp_all
        then show ?thesis using i True \<open>run_plugins _ _ = Inr x\<close> x R Inr F(1) by (simp add: np_begin_def)
      qed
    qed (simp add: np_begin_def i True)
  qed (simp add: np_begin_def i)
qed (simp add: np_begin_def)

lemma tr_np_run:
  assumes "np_run E env i s = Some (r, s')"
  shows "sv_tr E s s'"
proof (cases "\<exists>c m p. sv_heap s i = Some c \<and> ct_pending c = Some (Checked m p)")
  case True
  then obtain c m p where c: "sv_heap s i = Some c" "ct_pending c = Some (Checked m p)" by blast
  then obtain a p' rc where R: "pxy_Run env (se_cfg E) p (sv_rc s) = Some (a, p', rc)"
    using assms by (auto simp: np_run_def)
  then show ?thesis
    using assms c pxy_Run_same [OF R] by (cases a) (auto simp: np_run_def intro: tr_rules)
next
  case False
  then show ?thesis using assms by (auto simp: np_run_def split: option.splits pending.splits)
qed

lemma tr_np_add: "np_add E now i s = Some (r, s') \<Longrightarrow> sv_tr E s s'"
  by (auto simp: np_add_def pm_Add_def split: option.splits pending.splits prod.splits sum.splits
      intro: tr_rules)

lemma tr_np_done: "sv_tr E s (snd (np_done E now i s))"
  by (auto simp: np_done_def split: option.splits pending.splits intro: tr_rules)

lemma tr_close: "ctl_CloseProxy E now i name s = Some s' \<Longrightarrow> sv_tr E s s'"
  by (auto simp: ctl_CloseProxy_def pm_Del_def split: option.splits if_splits intro: tr_rules)

lemma tr_stats: "sv_tr E s (close_stats now i s)"
  by (auto simp: close_stats_def split: option.splits pending.splits intro: tr_rules)

lemma tr_conn_Close: "sv_tr E s (conn_Close i s)"
  by (auto simp: conn_Close_def same_session_def pool_ok_def pool_capacity_def split: option.splits intro!: tr_rules(1))

lemma tr_exit_begin: "proper_event (SvExit i order) s \<Longrightarrow> sv_tr E s (exit_begin order i s)"
  by (auto simp: exit_begin_def split: option.splits intro: tr_rules)

lemma tr_exit_one: "exit_one now i s = Some s' \<Longrightarrow> sv_tr E s s'"
  by (auto simp: exit_one_def pm_Del_def split: option.splits pending.splits list.splits intro: tr_rules)

lemma tr_exit_end: "sv_tr E s (exit_end i s)"
  by (auto simp: exit_end_def split: option.splits intro: tr_rules)

lemma tr_forget: "sv_tr E s (forget i s)"
  by (auto simp: forget_def cm_Del_def split: option.splits intro: sv_tr.forgot)

lemma tr_ping: "sv_tr E s (snd (handlePing E now i m s))"
  by (auto simp: handlePing_def same_session_def pool_ok_def pool_capacity_def split: option.splits sum.splits intro!: tr_rules(1))

lemma tr_heartbeat: "sv_tr E s (heartbeat_round E now i s)"
  by (auto simp: heartbeat_round_def tr_conn_Close split: option.splits)

lemma tr_work_conn: "sv_tr E s (snd (RegisterWorkConn E now conn m s))"
proof (cases "Option.bind (sv_ctls s (wm_RunID m)) (\<lambda>i. map_option (Pair i) (sv_heap s i))")
  case (Some ic)
  obtain i c where ic: "ic = (i, c)" by (cases ic)
  have h: "sv_heap s i = Some c" using Some ic by (auto simp: bind_eq_Some_conv)
  obtain r c' where R: "ctl_RegisterWorkConn conn c = (r, c')" by (cases "ctl_RegisterWorkConn conn c")
  have "sv_tr E s (put_ctl i c' s)"
    by (rule tr_rules(1) [OF h]) (use R in \<open>auto simp: ctl_RegisterWorkConn_def same_session_def pool_ok_def pool_capacity_def split: if_splits\<close>)
  then show ?thesis using Some ic R by (simp add: RegisterWorkConn_def split: sum.splits option.splits)
qed (simp add: RegisterWorkConn_def)

lemma tr_take: "sv_tr E s (snd (snd (GetWorkConn i s)))"
  by (auto simp: GetWorkConn_def same_session_def pool_ok_def pool_capacity_def split: option.splits list.splits intro!: tr_rules(1))

lemma tr_visitor: "sv_tr E s (snd (RegisterVisitorConn wrap runID name conn ts key s))"
  by (rule sv_tr.other) (simp_all add: RegisterVisitorConn_def Let_def split: option.splits prod.splits)

lemma tr_user: "user_event ev \<Longrightarrow> sv_tr E s (s\<lparr>sv_mem := mem_step (se_clock E) now ev (sv_mem s)\<rparr>)"
  by (rule sv_tr.other) auto

lemma sv_step_tr:
  assumes "sv_step E e s = Some s'" and "proper_event e s"
  shows "sv_tr E s s'"
proof (cases e)
  case (SvExit i order)
  then have "s' = exit_begin order i s" "proper_event (SvExit i order) s" using assms by simp_all
  then show ?thesis using tr_exit_begin by blast
next
  case (SvLogin now rid internal m)
  then show ?thesis using assms by (auto intro: tr_login)
next
  case (SvRun i env)
  then show ?thesis using assms by (auto intro: tr_np_run)
next
  case (SvAdd i now)
  then show ?thesis using assms by (auto intro: tr_np_add)
next
  case (SvCloseProxy i now name)
  then show ?thesis using assms by (auto intro: tr_close)
next
  case (SvExitOne i now)
  then show ?thesis using assms by (auto intro: tr_exit_one)
next
  case (SvUser now ev)
  then show ?thesis using assms tr_user by (cases "user_event ev") auto
qed (use assms(1) tr_start tr_np_begin tr_np_done tr_stats tr_conn_Close tr_exit_end tr_forget tr_ping tr_heartbeat
    tr_work_conn tr_take tr_visitor in auto)

end
