(* ===== verification/Server_Sessions.thy ===== *)
theory Server_Sessions
  imports Server_Control
begin

text \<open>
  What holds of every server, in whatever order its clients act: every name belongs to one client, the limits of ports
  and of pooled connections are kept, of the sessions of a client one at a time is served, and the
  statistics of the dashboard count what is there. The invariants are shown for the steps of \<open>sv_tr\<close>.
\<close>

section \<open>Invariants of a control and of the names\<close>

text \<open>The proxies of a control that are in the manager: none once it is done, those left while it leaves.\<close>

definition held :: "('p, 'k) control \<Rightarrow> string \<rightharpoonup> 'p srv_proxy" where
  "held c =
     (case ct_pending c of
        Some (Exiting ns) \<Rightarrow> ct_proxies c |` set ns
      | Some (Closing _ _ (Some ns)) \<Rightarrow> ct_proxies c |` set ns
      | _ \<Rightarrow> if ct_done c then Map.empty else ct_proxies c)"

definition ports_of :: "(string \<rightharpoonup> 'p srv_proxy) \<Rightarrow> int" where
  "ports_of f = (\<Sum>n\<in>dom f. sp_usedPortsNum (the (f n)))"

lemma ports_of_empty [simp]: "ports_of Map.empty = 0"
  by (simp add: ports_of_def)

lemma ports_of_del:
  assumes "finite (dom f)" and "f n = Some p"
  shows "ports_of (f(n := None)) = ports_of f - sp_usedPortsNum p"
proof -
  have "(\<Sum>k\<in>dom f - {n}. sp_usedPortsNum (the ((f(n := None)) k))) = (\<Sum>k\<in>dom f - {n}. sp_usedPortsNum (the (f k)))"
    by (rule sum.cong) auto
  moreover have "ports_of f = sp_usedPortsNum p + (\<Sum>k\<in>dom f - {n}. sp_usedPortsNum (the (f k)))"
    using sum.remove [OF assms(1), of n "\<lambda>k. sp_usedPortsNum (the (f k))"] assms(2) by (simp add: ports_of_def domI)
  ultimately show ?thesis by (simp add: ports_of_def)
qed

lemma ports_of_add:
  assumes "finite (dom f)" and "f n = None"
  shows "ports_of (f(n \<mapsto> p)) = ports_of f + sp_usedPortsNum p"
  using ports_of_del [of "f(n \<mapsto> p)" n p] assms by (simp add: fun_upd_idem)

definition proxy_ok :: "string \<Rightarrow> 'p srv_proxy \<Rightarrow> bool" where
  "proxy_ok n p \<longleftrightarrow> sp_name p = n \<and> sp_usedPortsNum p = used_ports (sp_conf p)"

lemma used_ports_nonneg: "0 \<le> used_ports c"
  by (cases c) simp_all

definition pend_ports :: "('p, 'k) control \<Rightarrow> int" where
  "pend_ports c = (case ct_pending c of Some (Checked _ p) \<Rightarrow> sp_usedPortsNum p | Some (Ran _ _ p) \<Rightarrow> sp_usedPortsNum p | _ \<Rightarrow> 0)"

definition pend_ok :: "('p, 'k) control \<Rightarrow> bool" where
  "pend_ok c =
     (case ct_pending c of
        None \<Rightarrow> True
      | Some (Checked m p) \<Rightarrow> proxy_ok (np_ProxyName m) p \<and> ptype p = np_ProxyType m
      | Some (Ran m _ p) \<Rightarrow> proxy_ok (np_ProxyName m) p \<and> ptype p = np_ProxyType m
      | Some (Added m _) \<Rightarrow> (\<exists>p. ct_proxies c (np_ProxyName m) = Some p \<and> ptype p = np_ProxyType m)
      | Some (Closing n _ (Some ns)) \<Rightarrow> distinct ns \<and> set ns \<subseteq> dom (ct_proxies c) \<and> n \<notin> set ns
      | Some (Closing n _ None) \<Rightarrow> True
      | Some (Exiting ns) \<Rightarrow> distinct ns \<and> set ns \<subseteq> dom (ct_proxies c))"

definition ctl_ok :: "server_config \<Rightarrow> ('p, 'k) control \<Rightarrow> bool" where
  "ctl_ok cfg c \<longleftrightarrow> finite (dom (ct_proxies c)) \<and> (\<forall>n p. ct_proxies c n = Some p \<longrightarrow> proxy_ok n p) \<and> pend_ok c \<and>
     (ct_pending c \<noteq> None \<longrightarrow> ct_started c \<and> \<not> ct_done c) \<and> (ct_done c \<longrightarrow> ct_started c) \<and> pool_ok cfg c \<and>
     (sc_MaxPortsPerClient cfg > 0 \<longrightarrow>
        ct_portsUsedNum c = ports_of (ct_proxies c) + pend_ports c \<and> ct_portsUsedNum c \<le> sc_MaxPortsPerClient cfg)"

lemmas ctl_defs = ctl_ok_def pend_ok_def pend_ports_def pool_ok_def pool_capacity_def held_def

text \<open>Every step keeps a control well formed; what it does to the names that are held.\<close>

lemma ok_new: "NewControl now cfg m pass old = Some c \<Longrightarrow> ctl_ok cfg c \<and> held c = Map.empty"
  by (auto simp: ctl_defs NewControl_def pool_count_def split: if_splits)

lemma pending_cong:
  assumes "ct_pending c' = ct_pending c" and "ct_proxies c' = ct_proxies c" and "ct_done c' = ct_done c"
  shows "pend_ok c' = pend_ok c" and "pend_ports c' = pend_ports c" and "held c' = held c"
  using assms by (simp_all add: pend_ok_def pend_ports_def held_def cong: option.case_cong pending.case_cong)

lemma ok_quiet:
  assumes "ctl_ok cfg c" and "same_session c c'" and "pool_ok cfg c \<longrightarrow> pool_ok cfg c'"
  shows "ctl_ok cfg c' \<and> held c' = held c"
  using assms pending_cong [of c' c] by (auto simp: ctl_ok_def same_session_def)

lemma ok_start: "ctl_ok cfg c \<Longrightarrow> ctl_ok cfg (c\<lparr>ct_started := True\<rparr>) \<and> held (c\<lparr>ct_started := True\<rparr>) = held c"
  using pending_cong [of "c\<lparr>ct_started := True\<rparr>" c] by (auto simp: ctl_ok_def pool_ok_def pool_capacity_def)

lemma ok_checked:
  assumes "ctl_ok cfg c" and "ready c" and "sp_name p = np_ProxyName m" and "ptype p = np_ProxyType m"
    and "sp_usedPortsNum p = used_ports (sp_conf p)" and "fits cfg (ct_portsUsedNum c + sp_usedPortsNum p)"
  shows "ctl_ok cfg ((take_ports cfg p c)\<lparr>ct_pending := Some (Checked m p)\<rparr>) \<and>
    held ((take_ports cfg p c)\<lparr>ct_pending := Some (Checked m p)\<rparr>) = held c"
  using assms by (simp add: ctl_defs take_ports_def ready_def proxy_ok_def fits_def)

lemma ok_dropped:
  assumes "ctl_ok cfg c" and "ct_pending c = Some (Checked m p) \<or> ct_pending c = Some (Ran m addr p)"
  shows "ctl_ok cfg ((free_ports cfg p c)\<lparr>ct_pending := None\<rparr>) \<and> held ((free_ports cfg p c)\<lparr>ct_pending := None\<rparr>) = held c"
  using assms used_ports_nonneg [of "sp_conf p"] by (auto simp: ctl_defs free_ports_def proxy_ok_def)

lemma ok_ran:
  assumes "ctl_ok cfg c" and "ct_pending c = Some (Checked m p)" and "same_proxy p p'"
  shows "ctl_ok cfg (c\<lparr>ct_pending := Some (Ran m addr p')\<rparr>) \<and> held (c\<lparr>ct_pending := Some (Ran m addr p')\<rparr>) = held c"
  using assms by (auto simp: ctl_defs proxy_ok_def same_proxy_def)

lemma ok_added:
  assumes "ctl_ok cfg c" and "ct_pending c = Some (Ran m addr p)" and "held c (np_ProxyName m) = None"
    and "c' = c\<lparr>ct_proxies := (ct_proxies c)(sp_name p \<mapsto> p), ct_pending := Some (Added m addr)\<rparr>"
  shows "ctl_ok cfg c' \<and> held c' = (held c)(np_ProxyName m \<mapsto> p)"
proof -
  have n: "sp_name p = np_ProxyName m" "\<not> ct_done c" "ct_proxies c (np_ProxyName m) = None" "finite (dom (ct_proxies c))"
    using assms(1-3) by (auto simp: ctl_defs proxy_ok_def)
  then show ?thesis using assms(1,2) ports_of_add [OF n(4,3), of p] unfolding assms(4) by (auto simp: ctl_defs proxy_ok_def)
qed

lemma ok_counted:
  assumes "ctl_ok cfg c" and "ct_pending c = Some (Added m addr)"
  shows "ctl_ok cfg (c\<lparr>ct_pending := None\<rparr>) \<and> held (c\<lparr>ct_pending := None\<rparr>) = held c"
  using assms by (auto simp: ctl_defs)

lemma ok_closed:
  assumes "ctl_ok cfg c" and "ready c" and "ct_proxies c name = Some p"
    and "c' = (free_ports cfg p c)\<lparr>ct_proxies := (ct_proxies c)(name := None), ct_pending := Some (Closing (sp_name p) (ptype p) None)\<rparr>"
  shows "ctl_ok cfg c' \<and> held c' = (held c)(name := None) \<and> held c name = Some p"
proof -
  have n: "proxy_ok name p" "finite (dom (ct_proxies c))" using assms(1,3) by (auto simp: ctl_ok_def)
  then show ?thesis
    using assms(1,2,3) ports_of_del [OF n(2) assms(3)] used_ports_nonneg [of "sp_conf p"] unfolding assms(4)
    by (auto simp: ctl_defs free_ports_def ready_def proxy_ok_def)
qed

lemma ok_uncounted:
  assumes "ctl_ok cfg c" and "ct_pending c = Some (Closing name t rest)"
  shows "ctl_ok cfg (c\<lparr>ct_pending := map_option Exiting rest\<rparr>) \<and> held (c\<lparr>ct_pending := map_option Exiting rest\<rparr>) = held c"
  using assms by (cases rest) (auto simp: ctl_defs)

lemma ok_leaving:
  assumes "ctl_ok cfg c" and "ready c" and "set order = dom (ct_proxies c)" and "distinct order"
    and "c' = c\<lparr>ct_chClosed := True, ct_workConnCh := [], ct_pending := Some (Exiting order)\<rparr>"
  shows "ctl_ok cfg c' \<and> held c' = held c"
proof -
  have "ct_proxies c |` set order = ct_proxies c" using assms(3) by (auto simp: restrict_map_def fun_eq_iff)
  then show ?thesis using assms by (auto simp: ctl_defs ready_def)
qed

lemma ok_exit_closed:
  assumes "ctl_ok cfg c" and "ct_pending c = Some (Exiting (name # names))" and "ct_proxies c name = Some p"
    and "c' = c\<lparr>ct_pending := Some (Closing (sp_name p) (ptype p) (Some names))\<rparr>"
  shows "ctl_ok cfg c' \<and> held c' = (held c)(name := None) \<and> held c name = Some p"
proof -
  have "sp_name p = name" using assms(1,3) by (auto simp: ctl_ok_def proxy_ok_def)
  then show ?thesis using assms by (auto simp: ctl_defs restrict_map_def fun_eq_iff)
qed

lemma ok_exited:
  assumes "ctl_ok cfg c" and "ct_pending c = Some (Exiting [])"
  shows "ctl_ok cfg (c\<lparr>ct_pending := None, ct_done := True\<rparr>) \<and> held (c\<lparr>ct_pending := None, ct_done := True\<rparr>) = held c"
  using assms by (auto simp: ctl_defs)

definition held_at :: "('p, 'k) server \<Rightarrow> nat \<Rightarrow> string \<rightharpoonup> 'p srv_proxy" where
  "held_at s i = (case sv_heap s i of None \<Rightarrow> Map.empty | Some c \<Rightarrow> held c)"

text \<open>The manager has exactly the names that are held, each under one control.\<close>

definition names_ok :: "('p, 'k) server \<Rightarrow> bool" where
  "names_ok s \<longleftrightarrow> (\<forall>n i p. sv_pxys s n = Some (i, p) \<longleftrightarrow> held_at s i n = Some p)"

definition sv_inv :: "'p server_env \<Rightarrow> ('p, 'k) server \<Rightarrow> bool" where
  "sv_inv E s \<longleftrightarrow> (\<forall>i c. sv_heap s i = Some c \<longrightarrow> i < sv_next s \<and> ctl_ok (se_cfg E) c) \<and> names_ok s"

lemma sv_invD:
  assumes "sv_inv E s" and "sv_heap s i = Some c"
  shows "i < sv_next s" and "ctl_ok (se_cfg E) c"
  using assms by (simp_all add: sv_inv_def)

text \<open>The three ways in which a step changes the names.\<close>

lemma inv_same:
  assumes "sv_inv E s" and "sv_heap s i = Some c" and "becomes s i c' (sv_pxys s) mem s'" and "ctl_ok (se_cfg E) c' \<and> held c' = held c"
  shows "sv_inv E s'"
proof -
  have "held_at s' = held_at s" using assms(2-4) by (auto simp: held_at_def becomes_def fun_eq_iff)
  then show ?thesis using assms by (auto simp: sv_inv_def names_ok_def becomes_def)
qed

lemma inv_add:
  assumes "sv_inv E s" and "sv_heap s i = Some c" and "sv_pxys s n = None" and "becomes s i c' ((sv_pxys s)(n \<mapsto> (i, p))) mem s'"
    and "ctl_ok (se_cfg E) c' \<and> held c' = (held c)(n \<mapsto> p)"
  shows "sv_inv E s'"
proof -
  have "held_at s' j = (if j = i then (held_at s i)(n \<mapsto> p) else held_at s j)" for j
    using assms(2,4,5) by (auto simp: held_at_def becomes_def fun_eq_iff)
  moreover have "held_at s j n = None" for j
  proof (rule ccontr)
    assume "held_at s j n \<noteq> None"
    then obtain q where "held_at s j n = Some q" by blast
    then show False using assms(1,3) by (metis names_ok_def sv_inv_def option.distinct(1))
  qed
  ultimately have "names_ok s'" using assms(1,4) by (auto simp: sv_inv_def names_ok_def becomes_def)
  then show ?thesis using assms by (auto simp: sv_inv_def becomes_def)
qed

lemma inv_del:
  assumes "sv_inv E s" and "sv_heap s i = Some c" and "becomes s i c' ((sv_pxys s)(n := None)) mem s'"
    and "ctl_ok (se_cfg E) c' \<and> held c' = (held c)(n := None) \<and> held c n = Some p"
  shows "sv_inv E s'"
proof -
  have h: "held_at s' j = (if j = i then (held_at s i)(n := None) else held_at s j)" for j
    using assms(2,3,4) by (auto simp: held_at_def becomes_def fun_eq_iff)
  have "sv_pxys s n = Some (i, p)" using assms(1,2,4) by (simp add: sv_inv_def names_ok_def held_at_def)
  then have "held_at s j n = None" if "j \<noteq> i" for j
    using assms(1) that by (metis names_ok_def sv_inv_def option.exhaust option.inject prod.inject)
  then have "names_ok s'" using assms(1,3) h by (auto simp: sv_inv_def names_ok_def becomes_def)
  then show ?thesis using assms by (auto simp: sv_inv_def becomes_def)
qed

lemma Replaced_session: "same_session c (Replaced c) \<and> (pool_ok cfg c \<longrightarrow> pool_ok cfg (Replaced c))"
  by (simp add: same_session_def Replaced_def pool_ok_def pool_capacity_def)

lemma cm_Add_heap:
  "sv_heap (cm_Add r c s) i =
     (if i = sv_next s then Some c
      else if sv_ctls s r = Some i then map_option Replaced (sv_heap s i) else sv_heap s i)"
  by (auto simp: cm_Add_def Let_def split: option.splits)

lemma inv_login:
  assumes "sv_inv E s" and "NewControl now (se_cfg E) m pass old = Some c" and "sv_heap s' = sv_heap (cm_Add r c s)"
    and "sv_next s' = Suc (sv_next s)" and "sv_pxys s' = sv_pxys s"
  shows "sv_inv E s'"
proof -
  note n = ok_new [OF assms(2)]
  have r: "ctl_ok (se_cfg E) (Replaced o') \<and> held (Replaced o') = held o'" if "ctl_ok (se_cfg E) o'" for o' :: "('a, 'b) control"
    using ok_quiet [OF that] Replaced_session by blast
  have "sv_heap s (sv_next s) = None"
    using sv_invD(1) [OF assms(1), of "sv_next s"] by (cases "sv_heap s (sv_next s)") auto
  then have "held_at s' = held_at s"
    using n r sv_invD(2) [OF assms(1)] by (auto simp: held_at_def assms(3) cm_Add_heap fun_eq_iff split: option.splits)
  moreover have "i < sv_next s' \<and> ctl_ok (se_cfg E) ci" if "sv_heap s' i = Some ci" for i ci
    using that n r sv_invD [OF assms(1)] assms(3,4) by (fastforce simp: cm_Add_heap split: if_splits)
  ultimately show ?thesis using assms(1,5) by (simp add: sv_inv_def names_ok_def)
qed

lemma sv_inv_tr:
  assumes "sv_tr E s s'" and "sv_inv E s"
  shows "sv_inv E s'"
  using assms(1)
proof cases
  case other
  then show ?thesis using assms(2) by (simp add: sv_inv_def names_ok_def held_at_def)
next
  case (login now m pass c)
  then show ?thesis using inv_login [OF assms(2)] by blast
next
  case (quiet i c c')
  then show ?thesis using inv_same [OF assms(2)] ok_quiet [OF sv_invD(2) [OF assms(2)]] by blast
next
  case (start i c)
  then show ?thesis using inv_same [OF assms(2)] ok_start [OF sv_invD(2) [OF assms(2)]] by blast
next
  case (checked i c p m)
  then show ?thesis using inv_same [OF assms(2)] ok_checked [OF sv_invD(2) [OF assms(2)]] by blast
next
  case (dropped i c m p addr)
  then show ?thesis using inv_same [OF assms(2)] ok_dropped [OF sv_invD(2) [OF assms(2)]] by blast
next
  case (ran i c m p p' addr)
  then show ?thesis using inv_same [OF assms(2)] ok_ran [OF sv_invD(2) [OF assms(2)]] by blast
next
  case (added i c m addr p)
  have "held_at s i (np_ProxyName m) = None"
    using assms(2) added(3) by (metis names_ok_def sv_inv_def option.exhaust option.distinct(1))
  then have "held c (np_ProxyName m) = None" using added(1) by (simp add: held_at_def)
  from inv_add [OF assms(2) added(1,3,4) ok_added [OF sv_invD(2) [OF assms(2) added(1)] added(2) this refl]] show ?thesis .
next
  case (counted i c m addr now)
  then show ?thesis using inv_same [OF assms(2)] ok_counted [OF sv_invD(2) [OF assms(2)]] by blast
next
  case (closed i c name p)
  have n: "sp_name p = name" using sv_invD(2) [OF assms(2) closed(1)] closed(3) by (simp add: ctl_ok_def proxy_ok_def)
  show ?thesis
    using inv_del [OF assms(2) closed(1,4)] ok_closed [OF sv_invD(2) [OF assms(2) closed(1)] closed(2,3) refl] n by simp
next
  case (uncounted i c name t rest now)
  then show ?thesis using inv_same [OF assms(2)] ok_uncounted [OF sv_invD(2) [OF assms(2)]] by blast
next
  case (leaving i c order)
  then show ?thesis using inv_same [OF assms(2)] ok_leaving [OF sv_invD(2) [OF assms(2)] _ _ _ refl] by blast
next
  case (exit_closed i c name names p)
  have n: "sp_name p = name" using sv_invD(2) [OF assms(2) exit_closed(1)] exit_closed(3) by (simp add: ctl_ok_def proxy_ok_def)
  show ?thesis
    using inv_del [OF assms(2) exit_closed(1,4)] ok_exit_closed [OF sv_invD(2) [OF assms(2) exit_closed(1)] exit_closed(2,3) refl] n by simp
next
  case (exited i c)
  then show ?thesis using inv_same [OF assms(2)] ok_exited [OF sv_invD(2) [OF assms(2)]] by blast
next
  case (forgot i c)
  then show ?thesis using assms(2) by (simp add: sv_inv_def names_ok_def held_at_def)
qed

lemma sv_inv_new: "sv_inv E (NewServer a ck now rc)"
  by (simp add: sv_inv_def names_ok_def held_at_def NewServer_def pm_New_def)

lemma sv_reachable_inv: "sv_reachable E s \<Longrightarrow> sv_inv E s"
  by (induction rule: sv_reachable.induct) (auto intro: sv_inv_new sv_inv_tr sv_step_tr)

section \<open>Sessions\<close>

text \<open>What matters for the order of the controls of one run id.\<close>

record session =
  ses_run :: string
  ses_waits :: "nat option"
  ses_started :: bool
  ses_done :: bool

definition session_of :: "('p, 'k) control \<Rightarrow> session" where
  "session_of c = \<lparr>ses_run = lm_RunID (ct_login c), ses_waits = ct_waits c, ses_started = ct_started c, ses_done = ct_done c\<rparr>"

definition sessions :: "('p, 'k) server \<Rightarrow> nat \<rightharpoonup> session" where
  "sessions s i = map_option session_of (sv_heap s i)"

text \<open>A control starts after all earlier ones of its run id; the manager knows the last one until all are done; a control
  that waits does so for a control that is at least as late as every one that is not done.\<close>

definition order_ok :: "(nat \<rightharpoonup> session) \<Rightarrow> bool" where
  "order_ok S \<longleftrightarrow> (\<forall>i j a b. S i = Some a \<and> S j = Some b \<and> i < j \<and> ses_run a = ses_run b \<and> ses_started b \<longrightarrow> ses_done a)"

definition newest_ok :: "(string \<rightharpoonup> nat) \<Rightarrow> (nat \<rightharpoonup> session) \<Rightarrow> bool" where
  "newest_ok C S \<longleftrightarrow>
     (\<forall>i a. S i = Some a \<longrightarrow> (case C (ses_run a) of None \<Rightarrow> ses_done a | Some k \<Rightarrow> i \<le> k)) \<and>
     (\<forall>r k. C r = Some k \<longrightarrow> (\<exists>b. S k = Some b \<and> ses_run b = r))"

definition waits_ok :: "(nat \<rightharpoonup> session) \<Rightarrow> bool" where
  "waits_ok S \<longleftrightarrow>
     (\<forall>i j a b. S i = Some a \<and> S j = Some b \<and> i < j \<and> ses_run a = ses_run b \<and> \<not> ses_done a \<longrightarrow>
        (\<exists>k d. ses_waits b = Some k \<and> i \<le> k \<and> k < j \<and> S k = Some d \<and> ses_run d = ses_run b))"

definition ses_inv :: "(string \<rightharpoonup> nat) \<Rightarrow> (nat \<rightharpoonup> session) \<Rightarrow> bool" where
  "ses_inv C S \<longleftrightarrow> order_ok S \<and> newest_ok C S \<and> waits_ok S"

lemma ses_invD:
  assumes "ses_inv C S"
  shows ses_order: "S i = Some a \<Longrightarrow> S j = Some b \<Longrightarrow> i < j \<Longrightarrow> ses_run a = ses_run b \<Longrightarrow> ses_started b \<Longrightarrow> ses_done a"
    and ses_gone: "S i = Some a \<Longrightarrow> C (ses_run a) = None \<Longrightarrow> ses_done a"
    and ses_newest: "S i = Some a \<Longrightarrow> C (ses_run a) = Some k \<Longrightarrow> i \<le> k"
    and ses_known: "C r = Some k \<Longrightarrow> \<exists>b. S k = Some b \<and> ses_run b = r"
    and ses_waiting: "S i = Some a \<Longrightarrow> S j = Some b \<Longrightarrow> i < j \<Longrightarrow> ses_run a = ses_run b \<Longrightarrow> \<not> ses_done a \<Longrightarrow>
      \<exists>k d. ses_waits b = Some k \<and> i \<le> k \<and> k < j \<and> S k = Some d \<and> ses_run d = ses_run b"
proof -
  have o: "order_ok S" and n: "newest_ok C S" and w: "waits_ok S" using assms by (simp_all add: ses_inv_def)
  show "S i = Some a \<Longrightarrow> S j = Some b \<Longrightarrow> i < j \<Longrightarrow> ses_run a = ses_run b \<Longrightarrow> ses_started b \<Longrightarrow> ses_done a"
    using o unfolding order_ok_def by blast
  show "S i = Some a \<Longrightarrow> C (ses_run a) = None \<Longrightarrow> ses_done a" "S i = Some a \<Longrightarrow> C (ses_run a) = Some k \<Longrightarrow> i \<le> k"
    using n unfolding newest_ok_def by force+
  show "C r = Some k \<Longrightarrow> \<exists>b. S k = Some b \<and> ses_run b = r" using n unfolding newest_ok_def by blast
  show "S i = Some a \<Longrightarrow> S j = Some b \<Longrightarrow> i < j \<Longrightarrow> ses_run a = ses_run b \<Longrightarrow> \<not> ses_done a \<Longrightarrow>
      \<exists>k d. ses_waits b = Some k \<and> i \<le> k \<and> k < j \<and> S k = Some d \<and> ses_run d = ses_run b"
    using w unfolding waits_ok_def by blast
qed

text \<open>A new control.\<close>

lemma ses_inv_login:
  assumes I: "ses_inv C S" and "\<And>i. S i \<noteq> None \<Longrightarrow> i < n" and "\<not> ses_started a" and "ses_waits a = C (ses_run a)"
  shows "ses_inv (C(ses_run a \<mapsto> n)) (S(n \<mapsto> a))"
proof -
  have S: "S n = None" "\<And>i x. S i = Some x \<Longrightarrow> i < n" using assms(2) by (blast, auto)
  have "order_ok (S(n \<mapsto> a))"
    unfolding order_ok_def using ses_order [OF I] S(2) assms(3) by (auto dest: less_imp_not_less)
  moreover have "newest_ok (C(ses_run a \<mapsto> n)) (S(n \<mapsto> a))"
    unfolding newest_ok_def
  proof (intro conjI allI impI)
    fix i x
    assume "(S(n \<mapsto> a)) i = Some x"
    then show "case (C(ses_run a \<mapsto> n)) (ses_run x) of None \<Rightarrow> ses_done x | Some k \<Rightarrow> i \<le> k"
      using ses_gone [OF I, of i x] ses_newest [OF I, of i x] S(2) [of i x] by (auto split: option.splits if_splits)
  next
    fix r k
    assume "(C(ses_run a \<mapsto> n)) r = Some k"
    then show "\<exists>x. (S(n \<mapsto> a)) k = Some x \<and> ses_run x = r"
      using ses_known [OF I, of r k] S(1) by (cases "r = ses_run a") auto
  qed
  moreover have "waits_ok (S(n \<mapsto> a))"
    unfolding waits_ok_def
  proof (intro allI impI)
    fix i j b d
    assume A: "(S(n \<mapsto> a)) i = Some b \<and> (S(n \<mapsto> a)) j = Some d \<and> i < j \<and> ses_run b = ses_run d \<and> \<not> ses_done b"
    have "i \<noteq> n"
    proof
      assume "i = n"
      then have "n < j" "S j = Some d" using A by auto
      then show False using S(2) by (meson less_imp_not_less)
    qed
    then have i: "S i = Some b" using A by simp
    show "\<exists>k e. ses_waits d = Some k \<and> i \<le> k \<and> k < j \<and> (S(n \<mapsto> a)) k = Some e \<and> ses_run e = ses_run d"
    proof (cases "j = n")
      case True
      then have d: "d = a" using A by simp
      obtain k where k: "C (ses_run a) = Some k" using ses_gone [OF I i] A d by (cases "C (ses_run a)") auto
      then have "i \<le> k" using ses_newest [OF I i] A d by simp
      obtain e where "S k = Some e" "ses_run e = ses_run a" using ses_known [OF I k] by blast
      then show ?thesis using k \<open>i \<le> k\<close> d True assms(4) S by (intro exI [of _ k] exI [of _ e]) auto
    next
      case False
      then obtain k e where "ses_waits d = Some k" "i \<le> k" "k < j" "S k = Some e" "ses_run e = ses_run d"
        using ses_waiting [OF I i, of j d] A by auto
      then show ?thesis using S(1) by (intro exI [of _ k] exI [of _ e]) auto
    qed
  qed
  ultimately show ?thesis by (simp add: ses_inv_def)
qed

text \<open>A control that is known goes on.\<close>

lemma ses_inv_upd:
  assumes I: "ses_inv C S" and j: "S j = Some b" and b: "ses_run b' = ses_run b" "ses_waits b' = ses_waits b" "ses_done b \<longrightarrow> ses_done b'"
    and st: "\<And>i a. S i = Some a \<Longrightarrow> i < j \<Longrightarrow> ses_run a = ses_run b \<Longrightarrow> ses_started b' \<Longrightarrow> ses_done a"
  shows "ses_inv C (S(j \<mapsto> b'))"
proof -
  have old: "\<exists>x'. S i = Some x' \<and> ses_run x' = ses_run x \<and> ses_waits x' = ses_waits x \<and> (ses_done x' \<longrightarrow> ses_done x)"
    if "(S(j \<mapsto> b')) i = Some x" for i x
    using that j b by (cases "i = j") auto
  have "order_ok (S(j \<mapsto> b'))"
    unfolding order_ok_def
  proof (intro allI impI)
    fix i k x y
    assume A: "(S(j \<mapsto> b')) i = Some x \<and> (S(j \<mapsto> b')) k = Some y \<and> i < k \<and> ses_run x = ses_run y \<and> ses_started y"
    obtain x' where x: "S i = Some x'" "ses_run x' = ses_run x" "ses_done x' \<longrightarrow> ses_done x" using old A by blast
    have "ses_done x'"
    proof (cases "k = j")
      case True
      then show ?thesis using st [OF x(1)] A x(2) b(1) by auto
    next
      case False
      then show ?thesis using ses_order [OF I x(1), of k y] A x(2) by auto
    qed
    then show "ses_done x" using x(3) by blast
  qed
  moreover have "newest_ok C (S(j \<mapsto> b'))"
    unfolding newest_ok_def
  proof (intro conjI allI impI)
    fix i x
    assume "(S(j \<mapsto> b')) i = Some x"
    then obtain x' where "S i = Some x'" "ses_run x' = ses_run x" "ses_done x' \<longrightarrow> ses_done x" using old by blast
    then show "case C (ses_run x) of None \<Rightarrow> ses_done x | Some k \<Rightarrow> i \<le> k"
      using ses_gone [OF I, of i x'] ses_newest [OF I, of i x'] by (auto split: option.splits)
  next
    fix r k
    assume "C r = Some k"
    then obtain x where "S k = Some x" "ses_run x = r" using ses_known [OF I] by blast
    then show "\<exists>x. (S(j \<mapsto> b')) k = Some x \<and> ses_run x = r" using j b(1) by (cases "k = j") auto
  qed
  moreover have "waits_ok (S(j \<mapsto> b'))"
    unfolding waits_ok_def
  proof (intro allI impI)
    fix i k x y
    assume A: "(S(j \<mapsto> b')) i = Some x \<and> (S(j \<mapsto> b')) k = Some y \<and> i < k \<and> ses_run x = ses_run y \<and> \<not> ses_done x"
    obtain x' y' where x: "S i = Some x'" "ses_run x' = ses_run x" "\<not> ses_done x'"
      and y: "S k = Some y'" "ses_run y' = ses_run y" "ses_waits y' = ses_waits y" using old A by meson
    obtain l d where d: "ses_waits y' = Some l" "i \<le> l" "l < k" "S l = Some d" "ses_run d = ses_run y'"
      using ses_waiting [OF I x(1) y(1)] A x y by auto
    then have "\<exists>d'. (S(j \<mapsto> b')) l = Some d' \<and> ses_run d' = ses_run y" using j b(1) y(2) by (cases "l = j") auto
    then show "\<exists>l d. ses_waits y = Some l \<and> i \<le> l \<and> l < k \<and> (S(j \<mapsto> b')) l = Some d \<and> ses_run d = ses_run y"
      using d y(3) by auto
  qed
  ultimately show ?thesis by (simp add: ses_inv_def)
qed

lemma ses_inv_start:
  assumes I: "ses_inv C S" and "\<And>i x. S i = Some x \<Longrightarrow> ses_done x \<Longrightarrow> ses_started x" and "S j = Some b"
    and "\<And>k d. ses_waits b = Some k \<Longrightarrow> S k = Some d \<Longrightarrow> ses_done d"
  shows "ses_inv C (S(j \<mapsto> b\<lparr>ses_started := True\<rparr>))"
proof (rule ses_inv_upd [OF I assms(3)])
  fix i a
  assume a: "S i = Some a" "i < j" "ses_run a = ses_run b"
  show "ses_done a"
  proof (rule ccontr)
    assume nd: "\<not> ses_done a"
    obtain k d where k: "ses_waits b = Some k" "i \<le> k" "S k = Some d" "ses_run d = ses_run b"
      using ses_waiting [OF I a(1) assms(3) a(2,3) nd] by blast
    then have d: "ses_done d" "ses_started d" using assms(2,4) by blast+
    show False using ses_order [OF I a(1) k(3)] k a(1,3) d nd by (cases "i = k") auto
  qed
qed simp_all

lemma ses_inv_done:
  assumes "ses_inv C S" and "S j = Some b"
  shows "ses_inv C (S(j \<mapsto> b\<lparr>ses_done := True\<rparr>))"
  by (rule ses_inv_upd [OF assms]) (use ses_order [OF assms(1) _ assms(2)] in auto)

lemma ses_inv_forget:
  assumes I: "ses_inv C S" and "\<And>i x. S i = Some x \<Longrightarrow> ses_done x \<Longrightarrow> ses_started x" and "S j = Some b" and "ses_done b"
    and "C (ses_run b) = Some j"
  shows "ses_inv (C(ses_run b := None)) S"
proof -
  have "ses_done a" if "S i = Some a" "ses_run a = ses_run b" for i a
  proof -
    have "i \<le> j" using ses_newest [OF I that(1)] that(2) assms(5) by simp
    moreover have "ses_started b" using assms(2-4) by blast
    ultimately show ?thesis using ses_order [OF I that(1) assms(3)] assms(3,4) that by (cases "i = j") auto
  qed
  then have "newest_ok (C(ses_run b := None)) S"
    using ses_gone [OF I] ses_newest [OF I] ses_known [OF I] by (fastforce simp: newest_ok_def split: option.splits)
  then show ?thesis using I by (simp add: ses_inv_def)
qed

lemma sessions_becomes:
  assumes "becomes s i c' pm mem s'" and "sv_heap s i = Some c"
  shows "sessions s' = (sessions s)(i \<mapsto> session_of c')" and "session_of c' = session_of c \<Longrightarrow> sessions s' = sessions s"
  using assms by (auto simp: sessions_def becomes_def fun_eq_iff)

lemma ses_inv_tr:
  assumes "sv_tr E s s'" and "sv_inv E s" and "ses_inv (sv_ctls s) (sessions s)"
  shows "ses_inv (sv_ctls s') (sessions s')"
proof -
  have started: "\<And>i x. sessions s i = Some x \<Longrightarrow> ses_done x \<Longrightarrow> ses_started x"
    using sv_invD(2) [OF assms(2)] by (auto simp: sessions_def session_of_def ctl_ok_def)
  have same: "ses_inv (sv_ctls s') (sessions s')"
    if "sv_heap s i = Some c" "becomes s i c' pm mem s'" "session_of c' = session_of c" for i c c' pm mem
    using that assms(3) sessions_becomes(2) [OF that(2,1,3)] by (simp add: becomes_def)
  from assms(1) show ?thesis
  proof cases
    case other
    then have "sessions s' = sessions s" by (intro ext) (simp add: sessions_def)
    then show ?thesis using assms(3) other(2) by simp
  next
    case (login now m pass c)
    have l: "\<And>i. sessions s i \<noteq> None \<Longrightarrow> i < sv_next s" using sv_invD(1) [OF assms(2)] by (auto simp: sessions_def)
    have n: "session_of c = \<lparr>ses_run = lm_RunID m, ses_waits = sv_ctls s (lm_RunID m), ses_started = False, ses_done = False\<rparr>"
      using login(1) by (auto simp: NewControl_def session_of_def split: if_splits)
    have "session_of (Replaced d) = session_of d" for d :: "('a, 'b) control" by (simp add: session_of_def Replaced_def)
    then have "sessions s' = (sessions s)(sv_next s \<mapsto> session_of c)"
      using login(2) by (auto simp: sessions_def cm_Add_heap fun_eq_iff option.map_comp comp_def)
    then show ?thesis using ses_inv_login [OF assms(3) l, of "session_of c"] n login(3) by simp
  next
    case (start i c)
    have w: "\<And>k d. ses_waits (session_of c) = Some k \<Longrightarrow> sessions s k = Some d \<Longrightarrow> ses_done d"
      using start(3) by (auto simp: waits_over_def sessions_def session_of_def split: option.splits)
    have "sessions s i = Some (session_of c)" using start(1) by (simp add: sessions_def)
    from ses_inv_start [OF assms(3) started this w]
    have "ses_inv (sv_ctls s) ((sessions s)(i \<mapsto> (session_of c)\<lparr>ses_started := True\<rparr>))" .
    moreover have "session_of (c\<lparr>ct_started := True\<rparr>) = (session_of c)\<lparr>ses_started := True\<rparr>" by (simp add: session_of_def)
    ultimately show ?thesis using sessions_becomes(1) [OF start(4,1)] start(4) by (simp add: becomes_def)
  next
    case (exited i c)
    have "sessions s i = Some (session_of c)" using exited(1) by (simp add: sessions_def)
    from ses_inv_done [OF assms(3) this]
    have "ses_inv (sv_ctls s) ((sessions s)(i \<mapsto> (session_of c)\<lparr>ses_done := True\<rparr>))" .
    moreover have "session_of (c\<lparr>ct_pending := None, ct_done := True\<rparr>) = (session_of c)\<lparr>ses_done := True\<rparr>" by (simp add: session_of_def)
    ultimately show ?thesis using sessions_becomes(1) [OF exited(4,1)] exited(4) by (simp add: becomes_def)
  next
    case (forgot i c)
    have "sessions s i = Some (session_of c)" using forgot(1) by (simp add: sessions_def)
    from ses_inv_forget [OF assms(3) started this] forgot(2,3)
    have "ses_inv ((sv_ctls s)(lm_RunID (ct_login c) := None)) (sessions s)" by (simp add: session_of_def)
    moreover have "sessions s' = sessions s" using forgot(4) by (intro ext) (simp add: sessions_def)
    ultimately show ?thesis using forgot(5) by simp
  qed (use same in \<open>auto simp: session_of_def same_session_def take_ports_def free_ports_def\<close>)
qed

lemma sv_reachable_sessions: "sv_reachable E s \<Longrightarrow> ses_inv (sv_ctls s) (sessions s)"
proof (induction rule: sv_reachable.induct)
  case (start a ck now rc)
  show ?case by (simp add: ses_inv_def order_ok_def newest_ok_def waits_ok_def sessions_def NewServer_def)
qed (blast intro: ses_inv_tr sv_step_tr sv_reachable_inv)

section \<open>The statistics\<close>

text \<open>A sum over the controls.\<close>

definition sum_ctls :: "(('p, 'k) control \<Rightarrow> int) \<Rightarrow> ('p, 'k) server \<Rightarrow> int" where
  "sum_ctls f s = (\<Sum>i\<in>{..<sv_next s}. case sv_heap s i of None \<Rightarrow> 0 | Some c \<Rightarrow> f c)"

lemma sum_ctls_becomes:
  assumes "becomes s i c' pm mem s'" and "sv_heap s i = Some c" and "i < sv_next s"
  shows "sum_ctls f s' = sum_ctls f s + (f c' - f c)"
proof -
  let ?g = "\<lambda>s j. case sv_heap s j of None \<Rightarrow> 0 | Some c \<Rightarrow> f c"
  have r: "sum_ctls f t = ?g t i + sum (?g t) ({..<sv_next s} - {i})" if "sv_next t = sv_next s" for t :: "('a, 'b) server"
    using that assms(3) by (simp add: sum_ctls_def sum.remove)
  have "sum (?g s') ({..<sv_next s} - {i}) = sum (?g s) ({..<sv_next s} - {i})"
    using assms(1) by (intro sum.cong) (auto simp: becomes_def)
  then show ?thesis using r [of s] r [of s'] assms(1,2) by (simp add: becomes_def)
qed

lemma sum_ctls_login:
  assumes "sv_heap s' = sv_heap (cm_Add r c s)" and "sv_next s' = Suc (sv_next s)" and "\<And>d. f (Replaced d) = f d"
  shows "sum_ctls f s' = sum_ctls f s + f c"
proof -
  have "(\<Sum>i\<in>{..<sv_next s}. case sv_heap s' i of None \<Rightarrow> 0 | Some c \<Rightarrow> f c) = sum_ctls f s"
    unfolding sum_ctls_def using assms(1,3) by (intro sum.cong) (auto simp: cm_Add_heap split: option.splits)
  then show ?thesis using assms(1,2) by (simp add: sum_ctls_def cm_Add_heap)
qed

definition names_of :: "string \<Rightarrow> ('p, 'k) server \<Rightarrow> string set" where
  "names_of t s = {n. \<exists>i p. sv_pxys s n = Some (i, p) \<and> ptype p = t}"

lemma finite_names:
  assumes "sv_inv E s"
  shows "finite (names_of t s)"
proof -
  have "names_of t s \<subseteq> (\<Union>i\<in>{..<sv_next s}. \<Union>c\<in>set_option (sv_heap s i). dom (ct_proxies c))"
  proof
    fix n
    assume "n \<in> names_of t s"
    then obtain i p where "held_at s i n = Some p" using assms by (auto simp: names_of_def sv_inv_def names_ok_def)
    then obtain c where c: "sv_heap s i = Some c" "held c n = Some p" by (auto simp: held_at_def split: option.splits)
    then have "n \<in> dom (ct_proxies c)"
      by (auto simp: held_def restrict_map_def split: option.splits pending.splits if_splits)
    then show "n \<in> (\<Union>i\<in>{..<sv_next s}. \<Union>c\<in>set_option (sv_heap s i). dom (ct_proxies c))"
      using c(1) sv_invD(1) [OF assms c(1)] by force
  qed
  moreover have "finite (\<Union>i\<in>{..<sv_next s}. \<Union>c\<in>set_option (sv_heap s i). dom (ct_proxies c))"
    using sv_invD(2) [OF assms] by (auto simp: ctl_ok_def)
  ultimately show ?thesis by (rule finite_subset)
qed

text \<open>A control that is between the manager and the statistics.\<close>

definition pend_delta :: "string \<Rightarrow> ('p, 'k) control \<Rightarrow> int" where
  "pend_delta t c =
     (case ct_pending c of
        Some (Added m _) \<Rightarrow> if np_ProxyType m = t then -1 else 0
      | Some (Closing _ u _) \<Rightarrow> if u = t then 1 else 0
      | _ \<Rightarrow> 0)"

definition serving :: "('p, 'k) control \<Rightarrow> int" where
  "serving c = (if ct_started c \<and> \<not> ct_done c then 1 else 0)"

definition counted_type :: "string \<Rightarrow> ('p, 'k) server \<Rightarrow> int" where
  "counted_type t s = int (card (names_of t s)) + sum_ctls (pend_delta t) s"

definition types_known :: "string set \<Rightarrow> ('p, 'k) control \<Rightarrow> bool" where
  "types_known D c \<longleftrightarrow>
     (\<forall>n p. held c n = Some p \<longrightarrow> (\<exists>m a. ct_pending c = Some (Added m a) \<and> np_ProxyName m = n) \<or> ptype p \<in> D) \<and>
     (\<forall>n u r. ct_pending c = Some (Closing n u r) \<longrightarrow> u \<in> D)"

abbreviation known_types :: "server_statistics \<Rightarrow> string set" where
  "known_types mem \<equiv> dom (ss_ProxyTypeCounts mem)"

definition stats_inv :: "('p, 'k) server \<Rightarrow> bool" where
  "stats_inv s \<longleftrightarrow> (\<forall>t. type_count (sv_mem s) t = word_of_int (counted_type t s)) \<and>
     sc_count (ss_ClientCounts (sv_mem s)) = word_of_int (sum_ctls serving s) \<and>
     (\<forall>i c. sv_heap s i = Some c \<longrightarrow> types_known (known_types (sv_mem s)) c)"

lemma types_known_mono: "types_known D c \<Longrightarrow> D \<subseteq> D' \<Longrightarrow> types_known D' c"
  unfolding types_known_def by blast

lemma names_card_add:
  assumes "sv_inv E s" and "sv_pxys s n = None" and "sv_pxys s' = (sv_pxys s)(n \<mapsto> (i, p))"
  shows "int (card (names_of t s')) = int (card (names_of t s)) + (if ptype p = t then 1 else 0)"
proof -
  have "names_of t s' = (if ptype p = t then insert n (names_of t s) else names_of t s)"
    using assms(2,3) by (auto simp: names_of_def)
  moreover have "n \<notin> names_of t s" using assms(2) by (simp add: names_of_def)
  ultimately show ?thesis using finite_names [OF assms(1)] by simp
qed

lemma names_card_del:
  assumes "sv_inv E s" and "sv_pxys s n = Some (i, p)" and "sv_pxys s' = (sv_pxys s)(n := None)"
  shows "int (card (names_of t s')) = int (card (names_of t s)) - (if ptype p = t then 1 else 0)"
proof -
  have e: "names_of t s' = names_of t s - {n}" using assms(3) by (auto simp: names_of_def)
  show ?thesis
  proof (cases "ptype p = t")
    case True
    then have "n \<in> names_of t s" using assms(2) by (auto simp: names_of_def)
    then have "card (names_of t s) = Suc (card (names_of t s - {n}))" by (rule card.remove [OF finite_names [OF assms(1)]])
    then show ?thesis using True e by simp
  next
    case False
    then have "n \<notin> names_of t s" using assms(2) by (auto simp: names_of_def)
    then show ?thesis using False e by simp
  qed
qed

text \<open>What an event of the statistics does to the counts.\<close>

lemma client_counts:
  "type_count (mem_NewClient m) t = type_count m t" "known_types (mem_NewClient m) = known_types m"
  "type_count (mem_CloseClient m) t = type_count m t" "known_types (mem_CloseClient m) = known_types m"
  "sc_count (ss_ClientCounts (mem_NewClient m)) = sc_count (ss_ClientCounts m) + 1"
  "sc_count (ss_ClientCounts (mem_CloseClient m)) = sc_count (ss_ClientCounts m) - 1"
  by (simp_all add: mem_NewClient_def mem_CloseClient_def type_count_def counter_Inc_def counter_Dec_def)

lemma new_proxy_counts:
  "type_count (mem_NewProxy ck now n u m) t = type_count m t + (if u = t then 1 else 0)"
  "known_types (mem_NewProxy ck now n u m) = insert u (known_types m)"
  "ss_ClientCounts (mem_NewProxy ck now n u m) = ss_ClientCounts m"
  by (simp_all add: mem_NewProxy_def type_count_def counter_Inc_def NewCounter_def Let_def split: option.splits)

lemma close_proxy_counts:
  assumes "u \<in> known_types m"
  shows "type_count (mem_CloseProxy now n u m) t = type_count m t - (if u = t then 1 else 0)"
    and "known_types (mem_CloseProxy now n u m) = known_types m"
    and "ss_ClientCounts (mem_CloseProxy now n u m) = ss_ClientCounts m"
  using assms by (auto simp: mem_CloseProxy_def type_count_def counter_Dec_def Let_def split: if_splits)

lemma user_counts:
  assumes "user_event ev"
  shows "type_count (mem_step ck now ev m) t = type_count m t" and "known_types (mem_step ck now ev m) = known_types m"
    and "sc_count (ss_ClientCounts (mem_step ck now ev m)) = sc_count (ss_ClientCounts m)"
proof -
  have "\<And>n s. ev = EvCloseProxy n s \<Longrightarrow> s \<in> known_types m" using assms by auto
  note S = mem_step_type_count [where e = ev and m = m, OF this, where ck = ck and now = now]
  show "type_count (mem_step ck now ev m) t = type_count m t" using assms S(1) [where t = t] by (cases ev) simp_all
  show "known_types (mem_step ck now ev m) = known_types m" 
    using assms by (cases ev) (simp_all add: mem_OpenConnection_def mem_CloseConnection_def mem_AddTrafficIn_def mem_AddTrafficOut_def
        clearUselessInfo_def)
  show "sc_count (ss_ClientCounts (mem_step ck now ev m)) = sc_count (ss_ClientCounts m)"
    unfolding mem_step_counts(1) using assms by (cases ev) simp_all
qed

text \<open>A step of one control.\<close>

lemma stats_step:
  assumes "stats_inv s" and "sv_inv E s" and "sv_heap s i = Some c" and "becomes s i c' pm mem s'"
    and "known_types (sv_mem s) \<subseteq> known_types mem" and "types_known (known_types mem) c'"
    and "\<And>t. type_count mem t = type_count (sv_mem s) t +
      word_of_int (int (card (names_of t s')) - int (card (names_of t s)) + (pend_delta t c' - pend_delta t c))"
    and "sc_count (ss_ClientCounts mem) = sc_count (ss_ClientCounts (sv_mem s)) + word_of_int (serving c' - serving c)"
  shows "stats_inv s'"
proof -
  note T = sum_ctls_becomes [OF assms(4,3) sv_invD(1) [OF assms(2,3)]]
  have m: "sv_mem s' = mem" using assms(4) by (simp add: becomes_def)
  have "type_count mem t = word_of_int (counted_type t s')" for t
    using assms(1,7) T [of "pend_delta t"] by (simp add: stats_inv_def counted_type_def)
  moreover have "sc_count (ss_ClientCounts mem) = word_of_int (sum_ctls serving s')"
    using assms(1,8) T [of serving] by (simp add: stats_inv_def)
  moreover have "types_known (known_types mem) d" if "sv_heap s' j = Some d" for j d
  proof (cases "j = i")
    case True
    then show ?thesis using that assms(4,6) by (simp add: becomes_def)
  next
    case False
    then have "sv_heap s j = Some d" using that assms(4) by (simp add: becomes_def)
    then show ?thesis using assms(1,5) types_known_mono by (simp add: stats_inv_def) blast
  qed
  ultimately show ?thesis by (simp add: stats_inv_def m)
qed

text \<open>Steps away from the manager and the statistics.\<close>

definition apart :: "('p, 'k) control \<Rightarrow> bool" where
  "apart c = (case ct_pending c of Some (Added _ _) \<Rightarrow> False | Some (Closing _ _ _) \<Rightarrow> False | _ \<Rightarrow> True)"

lemma apartD: "apart c \<Longrightarrow> ct_pending c \<noteq> Some (Added m a)" "apart c \<Longrightarrow> ct_pending c \<noteq> Some (Closing n t r)"
  by (auto simp: apart_def)

lemma apart_delta: "apart c \<Longrightarrow> pend_delta t c = 0"
  by (auto simp: apart_def pend_delta_def split: option.splits pending.splits)

lemma apart_known: "apart c' \<Longrightarrow> apart c \<Longrightarrow> held c' = held c \<Longrightarrow> types_known D c \<Longrightarrow> types_known D c'"
  using apartD [of c] apartD [of c'] unfolding types_known_def by metis

lemma same_names: "sv_pxys s' = sv_pxys s \<Longrightarrow> names_of t s' = names_of t s"
  by (simp add: names_of_def)

lemma stats_knownD: "stats_inv s \<Longrightarrow> sv_heap s i = Some c \<Longrightarrow> types_known (known_types (sv_mem s)) c"
  by (simp add: stats_inv_def)

lemma stats_apart:
  assumes "stats_inv s" and "sv_inv E s" and "sv_heap s i = Some c" and "becomes s i c' (sv_pxys s) mem s'"
    and "held c' = held c" and "apart c" and "apart c'"
    and "\<And>t. type_count mem t = type_count (sv_mem s) t" and "known_types mem = known_types (sv_mem s)"
    and "sc_count (ss_ClientCounts mem) = sc_count (ss_ClientCounts (sv_mem s)) + word_of_int (serving c' - serving c)"
  shows "stats_inv s'"
proof (rule stats_step [OF assms(1-4)])
  show "types_known (known_types mem) c'"
    unfolding assms(9) by (rule apart_known [OF assms(7,6,5) stats_knownD [OF assms(1,3)]])
  have "sv_pxys s' = sv_pxys s" using assms(4) by (simp add: becomes_def)
  then show "type_count mem t = type_count (sv_mem s) t +
      word_of_int (int (card (names_of t s')) - int (card (names_of t s)) + (pend_delta t c' - pend_delta t c))" for t
    using assms(8) [of t] apart_delta [OF assms(6), of t] apart_delta [OF assms(7), of t] same_names [of s' s t] by simp
  show "known_types (sv_mem s) \<subseteq> known_types mem" by (simp only: assms(9) subset_refl)
qed (rule assms(10))

text \<open>A name leaves the manager.\<close>

lemma stats_del:
  assumes "stats_inv s" and "sv_inv E s" and "sv_heap s i = Some c" and "becomes s i c' ((sv_pxys s)(n := None)) (sv_mem s) s'"
    and "held c n = Some p" and "held c' = (held c)(n := None)" and "apart c" and "ct_pending c' = Some (Closing k (ptype p) r)"
    and "serving c' = serving c"
  shows "stats_inv s'"
proof (rule stats_step [OF assms(1-4)])
  note K = stats_knownD [OF assms(1,3)]
  have t: "ptype q \<in> known_types (sv_mem s)" if "held c l = Some q" for l q
    using that K apartD(1) [OF assms(7)] unfolding types_known_def by blast
  then have "ptype q \<in> known_types (sv_mem s)" if "held c' l = Some q" for l q
    using that assms(6) by (simp split: if_splits)
  then show "types_known (known_types (sv_mem s)) c'" using assms(5,8) t unfolding types_known_def by auto
  have "sv_pxys s n = Some (i, p)" using assms(2,3,5) by (simp add: sv_inv_def names_ok_def held_at_def)
  moreover have "sv_pxys s' = (sv_pxys s)(n := None)" using assms(4) by (simp add: becomes_def)
  ultimately show "type_count (sv_mem s) t = type_count (sv_mem s) t +
      word_of_int (int (card (names_of t s')) - int (card (names_of t s)) + (pend_delta t c' - pend_delta t c))" for t
    using names_card_del [OF assms(2), of n i p s' t] apart_delta [OF assms(7), of t] assms(8)
    by (cases "ptype p = t") (simp_all add: pend_delta_def)
qed (use assms(9) in simp_all)

lemma stats_inv_tr:
  assumes "sv_tr E s s'" and I: "sv_inv E s" and J: "stats_inv s"
  shows "stats_inv s'"
  using assms(1)
proof cases
  case other
  have n: "counted_type t s' = counted_type t s" "sum_ctls f s' = sum_ctls f s" for t and f :: "('a, 'b) control \<Rightarrow> int"
    using other(1,3,4) by (simp_all add: counted_type_def names_of_def sum_ctls_def)
  from other(5) show ?thesis
  proof (elim disjE exE conjE)
    assume "sv_mem s' = sv_mem s"
    then show ?thesis using J n other(1) by (simp add: stats_inv_def)
  next
    fix now ev
    assume "user_event ev" "sv_mem s' = mem_step (se_clock E) now ev (sv_mem s)"
    then show ?thesis using J n other(1) user_counts [OF \<open>user_event ev\<close>] by (simp add: stats_inv_def)
  qed
next
  case (login now m pass c)
  have c: "ct_pending c = None" "\<not> ct_started c" using login(1) by (auto simp: NewControl_def split: if_splits)
  have h: "held (Replaced d) = held d" "ct_pending (Replaced d) = ct_pending d" for d :: "('a, 'b) control"
    using pending_cong(3) [of "Replaced d" d] by (simp_all add: Replaced_def)
  then have f: "pend_delta t (Replaced d) = pend_delta t d" "serving (Replaced d) = serving d" "types_known D (Replaced d) = types_known D d"
    for t D and d :: "('a, 'b) control" by (simp_all add: pend_delta_def serving_def types_known_def Replaced_def)
  have k: "types_known D c" for D using c(1) ok_new [OF login(1)] by (simp add: types_known_def)
  have "pend_delta t c = 0" "serving c = 0" for t using c by (simp_all add: pend_delta_def serving_def)
  then have "counted_type t s' = counted_type t s" "sum_ctls serving s' = sum_ctls serving s" for t
    using sum_ctls_login [where f = "pend_delta t", OF login(2,4) f(1)] sum_ctls_login [where f = serving, OF login(2,4) f(2)]
      same_names [OF login(5), of t] by (simp_all add: counted_type_def)
  moreover have "types_known (known_types (sv_mem s)) d" if "sv_heap s' j = Some d" for j d
    using that k f(3) stats_knownD [OF J] login(2) by (auto simp: cm_Add_heap split: if_splits)
  ultimately show ?thesis using J login(6) by (simp add: stats_inv_def)
next
  case (quiet i c c')
  have p: "ct_pending c' = ct_pending c" "held c' = held c" "serving c' = serving c"
    using quiet(2) pending_cong(3) [of c' c] by (simp_all add: same_session_def serving_def)
  show ?thesis
  proof (rule stats_step [OF J I quiet(1,4)])
    show "types_known (known_types (sv_mem s)) c'" using stats_knownD [OF J quiet(1)] p by (simp add: types_known_def)
    have "names_of t s' = names_of t s" for t by (rule same_names) (use quiet(4) in \<open>simp add: becomes_def\<close>)
    then show "type_count (sv_mem s) t = type_count (sv_mem s) t +
        word_of_int (int (card (names_of t s')) - int (card (names_of t s)) + (pend_delta t c' - pend_delta t c))" for t
      using p(1) by (simp add: pend_delta_def)
  qed (simp_all add: p)
next
  case (start i c)
  have "ct_pending c = None" "\<not> ct_done c" using sv_invD(2) [OF I start(1)] start(2) by (auto simp: ctl_ok_def)
  then show ?thesis
    using start(2) ok_start [OF sv_invD(2) [OF I start(1)]]
    by (intro stats_apart [OF J I start(1,4)]) (simp_all add: apart_def client_counts serving_def)
next
  case (checked i c p m)
  then show ?thesis
    using ok_checked [OF sv_invD(2) [OF I checked(1)] checked(2-6)]
    by (intro stats_apart [OF J I checked(1,7)]) (auto simp: apart_def ready_def serving_def take_ports_def)
next
  case (dropped i c m p addr)
  then show ?thesis
    using ok_dropped [OF sv_invD(2) [OF I dropped(1)] dropped(2)]
    by (intro stats_apart [OF J I dropped(1,3)]) (auto simp: apart_def serving_def free_ports_def)
next
  case (ran i c m p p' addr)
  then show ?thesis
    using ok_ran [OF sv_invD(2) [OF I ran(1)] ran(2,3)]
    by (intro stats_apart [OF J I ran(1,4)]) (auto simp: apart_def serving_def)
next
  case (added i c m addr p)
  let ?c = "c\<lparr>ct_proxies := (ct_proxies c)(sp_name p \<mapsto> p), ct_pending := Some (Added m addr)\<rparr>"
  note O = sv_invD(2) [OF I added(1)]
  have p: "ptype p = np_ProxyType m" using O added(2) by (auto simp: ctl_ok_def pend_ok_def)
  have "held_at s i (np_ProxyName m) = None"
    using I added(3) by (metis names_ok_def sv_inv_def option.exhaust option.distinct(1))
  then have "held c (np_ProxyName m) = None" using added(1) by (simp add: held_at_def)
  note h = ok_added [OF O added(2) this refl]
  show ?thesis
  proof (rule stats_step [OF J I added(1,4)])
    show "types_known (known_types (sv_mem s)) ?c"
      using h stats_knownD [OF J added(1)] added(2) by (auto simp: types_known_def)
    have "sv_pxys s' = (sv_pxys s)(np_ProxyName m \<mapsto> (i, p))" using added(4) by (simp add: becomes_def)
    then show "type_count (sv_mem s) t = type_count (sv_mem s) t +
        word_of_int (int (card (names_of t s')) - int (card (names_of t s)) + (pend_delta t ?c - pend_delta t c))" for t
      using names_card_add [OF I added(3), of s' i p t] added(2) p by (cases "ptype p = t") (simp_all add: pend_delta_def)
  qed (simp_all add: serving_def)
next
  case (counted i c m addr now)
  let ?mem = "mem_NewProxy (se_clock E) now (np_ProxyName m) (np_ProxyType m) (sv_mem s)"
  note O = sv_invD(2) [OF I counted(1)]
  have h: "held c = ct_proxies c" "held (c\<lparr>ct_pending := None\<rparr>) = held c" using O counted(2) ok_counted [OF O counted(2)] by (auto simp: ctl_ok_def held_def)
  show ?thesis
  proof (rule stats_step [OF J I counted(1,3)])
    obtain q where q: "held c (np_ProxyName m) = Some q" "ptype q = np_ProxyType m"
      using O counted(2) h(1) by (auto simp: ctl_ok_def pend_ok_def)
    have "ptype p \<in> insert (np_ProxyType m) (known_types (sv_mem s))" if "held c n = Some p" for n p
    proof (cases "n = np_ProxyName m")
      case True
      then show ?thesis using that q by simp
    next
      case False
      then show ?thesis using that stats_knownD [OF J counted(1)] counted(2) unfolding types_known_def by auto
    qed
    then show "types_known (known_types ?mem) (c\<lparr>ct_pending := None\<rparr>)" using h(2) by (simp add: types_known_def new_proxy_counts(2))
    have "names_of t s' = names_of t s" for t by (rule same_names) (use counted(3) in \<open>simp add: becomes_def\<close>)
    then show "type_count ?mem t = type_count (sv_mem s) t +
        word_of_int (int (card (names_of t s')) - int (card (names_of t s)) + (pend_delta t (c\<lparr>ct_pending := None\<rparr>) - pend_delta t c))" for t
      using counted(2) by (simp add: pend_delta_def new_proxy_counts(1))
  qed (auto simp: new_proxy_counts serving_def)
next
  case (closed i c name p)
  have n: "sp_name p = name" using sv_invD(2) [OF I closed(1)] closed(3) by (simp add: ctl_ok_def proxy_ok_def)
  have "apart c" using closed(2) by (simp add: apart_def ready_def)
  note C = ok_closed [OF sv_invD(2) [OF I closed(1)] closed(2,3) refl, unfolded n]
  show ?thesis
    using C \<open>apart c\<close> by (intro stats_del [OF J I closed(1) closed(4) [unfolded n], of p name None]) (simp_all add: serving_def free_ports_def)
next
  case (uncounted i c name t rest now)
  let ?c = "c\<lparr>ct_pending := map_option Exiting rest\<rparr>"
  note K = stats_knownD [OF J uncounted(1)]
  have t: "t \<in> known_types (sv_mem s)" using K uncounted(2) by (simp add: types_known_def)
  have h: "held ?c = held c" using ok_uncounted [OF sv_invD(2) [OF I uncounted(1)] uncounted(2)] by simp
  show ?thesis
  proof (rule stats_step [OF J I uncounted(1,3)])
    show "types_known (known_types (mem_CloseProxy now name t (sv_mem s))) ?c"
      unfolding close_proxy_counts(2) [OF t] using K h uncounted(2) by (auto simp: types_known_def)
    have "names_of u s' = names_of u s" for u by (rule same_names) (use uncounted(3) in \<open>simp add: becomes_def\<close>)
    then show "type_count (mem_CloseProxy now name t (sv_mem s)) u = type_count (sv_mem s) u +
        word_of_int (int (card (names_of u s')) - int (card (names_of u s)) + (pend_delta u ?c - pend_delta u c))" for u
      using uncounted(2) by (cases rest) (simp_all add: pend_delta_def close_proxy_counts(1) [OF t])
    show "known_types (sv_mem s) \<subseteq> known_types (mem_CloseProxy now name t (sv_mem s))" by (simp only: close_proxy_counts(2) [OF t] subset_refl)
  qed (simp add: close_proxy_counts(3) [OF t] serving_def)
next
  case (leaving i c order)
  then show ?thesis
    using ok_leaving [OF sv_invD(2) [OF I leaving(1)] leaving(2,4,5) refl]
    by (intro stats_apart [OF J I leaving(1,6)]) (auto simp: apart_def ready_def serving_def)
next
  case (exit_closed i c name names p)
  have n: "sp_name p = name" using sv_invD(2) [OF I exit_closed(1)] exit_closed(3) by (simp add: ctl_ok_def proxy_ok_def)
  have "apart c" using exit_closed(2) by (simp add: apart_def)
  note C = ok_exit_closed [OF sv_invD(2) [OF I exit_closed(1)] exit_closed(2,3) refl, unfolded n]
  show ?thesis
    using C \<open>apart c\<close> by (intro stats_del [OF J I exit_closed(1) exit_closed(4) [unfolded n], of p name "Some names"]) (simp_all add: serving_def)
next
  case (exited i c)
  have "ct_started c" using sv_invD(2) [OF I exited(1)] exited(2) by (auto simp: ctl_ok_def)
  then show ?thesis
    using exited(2,3) ok_exited [OF sv_invD(2) [OF I exited(1)] exited(2)]
    by (intro stats_apart [OF J I exited(1,4)]) (simp_all add: apart_def client_counts serving_def)
next
  case (forgot i c)
  then show ?thesis using J by (simp add: stats_inv_def counted_type_def names_of_def sum_ctls_def)
qed

lemma sv_reachable_stats: "sv_reachable E s \<Longrightarrow> stats_inv s"
proof (induction rule: sv_reachable.induct)
  case (start a ck now rc)
  show ?case
    by (simp add: stats_inv_def counted_type_def names_of_def sum_ctls_def NewServer_def pm_New_def newServerMetrics_def type_count_def NewCounter_def)
qed (blast intro: stats_inv_tr sv_step_tr sv_reachable_inv)

section \<open>Properties\<close>

text \<open>A run for the witnesses: a client logs in and opens an stcp proxy, and starts to open a TCP proxy.\<close>

definition demo_env :: "unit server_env" where
  "demo_env = \<lparr>se_cfg = sample_config, se_scaled = \<lambda>_ _. None, se_qualified = \<lambda>_. True, se_pcomplete = id, se_verify = \<lambda>_ _. None, se_noCipher = \<lambda>_. False,
     se_clock = fixed_clock 0, se_loginPlugins = [], se_newProxyPlugins = [], se_pingPlugins = [], se_workPlugins = []\<rparr>"

definition demo_login :: login_msg where
  "demo_login = \<lparr>lm_RunID = ''r'', lm_User = ''u'', lm_PoolCount = 1, lm_Timestamp = 0, lm_PrivilegeKey = [], lm_AlwaysAuthPass = True\<rparr>"

definition demo_events :: "unit sv_event list" where
  "demo_events = [SvLogin 1 ''r'' True demo_login, SvStart 0,
     SvNewProxy 0 (new_proxy0\<lparr>np_ProxyName := ''ssh'', np_ProxyType := ''stcp''\<rparr>), SvRun 0 sample_env, SvAdd 0 2, SvAdded 0 3]"

definition demo_pending :: "unit sv_event list" where
  "demo_pending = [SvLogin 1 ''r'' True demo_login, SvStart 0, SvWorkConn 1 () \<lparr>km_Timestamp = 0, km_PrivilegeKey = [], wm_RunID = ''r''\<rparr>,
     SvNewProxy 0 (new_proxy0\<lparr>np_ProxyName := ''web'', np_ProxyType := ''tcp'', np_RemotePort := 6000\<rparr>)]"

definition demo_start :: "(unit, unit) server" where
  "demo_start = NewServer AlwaysPass (fixed_clock 0) 0 sample_resources"

lemma demo_reachable:
  "list_all (\<lambda>e. \<not> is_exit e) es \<Longrightarrow> sv_run demo_env es demo_start = Some s \<Longrightarrow> sv_reachable demo_env s"
  using sv_run_reachable [OF sv_reachable.start] unfolding demo_start_def by blast

lemma demo_runs:
  "map_option (\<lambda>s. (map_option fst (sv_pxys s ''ssh''), map_option ct_pending (sv_heap s 0), sv_heap s 1 = None, sv_next s))
     (sv_run demo_env demo_events demo_start) = Some (Some 0, Some None, True, 1)"
  by code_simp

lemma demo_pends:
  "map_option (\<lambda>s. map_option (\<lambda>c. (ct_portsUsedNum c, ct_workConnCh c, ct_poolCount c)) (sv_heap s 0))
     (sv_run demo_env demo_pending demo_start) = Some (Some (1, [()], 1))"
  by code_simp

text \<open>C4: Every name belongs to one client. Whatever the clients do and in whatever order, the proxy manager has a name
  with a proxy of a client exactly when that client holds the proxy: it registered it, and has neither closed it nor
  left. So no two clients hold the same name, and none is left behind.\<close>

theorem names_owned_once:
  assumes "sv_reachable E s"
  shows "sv_pxys s n = Some (i, p) \<longleftrightarrow> (\<exists>c. sv_heap s i = Some c \<and> held c n = Some p)"
  using sv_reachable_inv [OF assms] by (auto simp: sv_inv_def names_ok_def held_at_def split: option.splits)

theorem names_owned_once_witness:
  "\<exists>s p c. sv_reachable demo_env (s :: (unit, unit) server) \<and> sv_pxys s ''ssh'' = Some (0, p) \<and> sv_heap s 0 = Some c \<and> held c ''ssh'' = Some p"
proof -
  obtain s where s: "sv_run demo_env demo_events demo_start = Some s" "map_option fst (sv_pxys s ''ssh'') = Some 0"
    using demo_runs by auto
  have r: "sv_reachable demo_env s" by (rule demo_reachable [OF _ s(1)]) (simp add: demo_events_def)
  obtain p where "sv_pxys s ''ssh'' = Some (0, p)" using s(2) by auto
  then show ?thesis using names_owned_once [OF r, of "''ssh''" 0 p] r by blast
qed

text \<open>C19: The limits of a client are kept. With \<open>maxPortsPerClient\<close> set, the TCP and UDP proxies of a client, with the one it is
  registering, never need more ports than that, and its pool never holds more than \<open>maxPoolCount + 10\<close> work
  connections.\<close>

theorem client_limits:
  assumes "sv_reachable E s" and "sv_heap s i = Some c"
  shows "(sc_MaxPortsPerClient (se_cfg E) > 0 \<longrightarrow>
      (\<Sum>n\<in>dom (ct_proxies c). used_ports (sp_conf (the (ct_proxies c n)))) + pend_ports c \<le> sc_MaxPortsPerClient (se_cfg E)) \<and>
    int (length (ct_workConnCh c)) \<le> sc_MaxPoolCount (se_cfg E) + 10"
proof -
  have ok: "ctl_ok (se_cfg E) c" using sv_invD(2) [OF sv_reachable_inv [OF assms(1)] assms(2)] .
  have "(\<Sum>n\<in>dom (ct_proxies c). used_ports (sp_conf (the (ct_proxies c n)))) = ports_of (ct_proxies c)"
    unfolding ports_of_def using ok by (intro sum.cong) (auto simp: ctl_ok_def proxy_ok_def)
  then show ?thesis using ok by (auto simp: ctl_ok_def pool_ok_def pool_capacity_def)
qed

theorem client_limits_witness:
  "\<exists>s c. sv_reachable demo_env (s :: (unit, unit) server) \<and> sv_heap s 0 = Some c \<and> ct_portsUsedNum c = 1 \<and>
     (\<Sum>n\<in>dom (ct_proxies c). used_ports (sp_conf (the (ct_proxies c n)))) + pend_ports c \<le> 2 \<and> length (ct_workConnCh c) = 1"
proof -
  obtain s c where s: "sv_run demo_env demo_pending demo_start = Some s" "sv_heap s 0 = Some c" "ct_portsUsedNum c = 1" "ct_workConnCh c = [()]"
    using demo_pends by auto
  have r: "sv_reachable demo_env s" by (rule demo_reachable [OF _ s(1)]) (simp add: demo_pending_def)
  show ?thesis using client_limits [OF r s(2)] r s by (auto simp: demo_env_def sample_config_def intro!: exI [of _ s])
qed

text \<open>C9: Of the sessions of a client only one is served at a time. A session that starts with the run id of earlier ones has
  waited for them: they have left, and no name of theirs is in the proxy manager any more, so that the client
  can register its proxies again.\<close>

theorem session_takes_over:
  assumes "sv_reachable E s" and "sv_heap s i = Some old" and "sv_heap s j = Some new" and "i < j"
    and "lm_RunID (ct_login old) = lm_RunID (ct_login new)" and "ct_started new"
  shows "ct_done old \<and> (\<forall>n p. sv_pxys s n \<noteq> Some (i, p))"
proof -
  have "ses_done (session_of old)"
    using ses_order [OF sv_reachable_sessions [OF assms(1)], of i "session_of old" j "session_of new"] assms
    by (simp add: sessions_def session_of_def)
  then have d: "ct_done old" by (simp add: session_of_def)
  have I: "sv_inv E s" using sv_reachable_inv [OF assms(1)] .
  have "ct_pending old = None" using sv_invD(2) [OF I assms(2)] d by (auto simp: ctl_ok_def)
  then have "held_at s i = Map.empty" using d assms(2) by (simp add: held_at_def held_def)
  then show ?thesis using d I by (simp add: sv_inv_def names_ok_def)
qed

text \<open>The client logs in twice; the first session leaves and the second one starts.\<close>

lemma demo_twice:
  "\<exists>s c. sv_run demo_env [SvLogin 1 ''r'' True demo_login, SvStart 0, SvLogin 2 ''r'' True demo_login] demo_start = Some s \<and>
     sv_heap s 0 = Some c \<and> ct_proxies c = Map.empty"
  by (simp add: demo_env_def demo_login_def demo_start_def NewServer_def handleLogin_def RegisterControl_def NewControl_def pool_count_def
      sample_config_def cm_Add_def Replaced_def ctl_Start_def waits_over_def put_ctl_def Let_def)

lemma demo_handover:
  "map_option (\<lambda>s. (map_option ct_done (sv_heap s 0), map_option ct_started (sv_heap s 1),
       map_option (lm_RunID \<circ> ct_login) (sv_heap s 0), map_option (lm_RunID \<circ> ct_login) (sv_heap s 1)))
     (sv_run demo_env ([SvLogin 1 ''r'' True demo_login, SvStart 0, SvLogin 2 ''r'' True demo_login] @ [SvExit 0 [], SvExitEnd 0, SvStart 1]) demo_start) =
   Some (Some True, Some True, Some ''r'', Some ''r'')"
  by code_simp

lemma sv_run_append: "sv_run E (es @ fs) s = Option.bind (sv_run E es s) (sv_run E fs)"
proof (induction es arbitrary: s)
  case (Cons e es)
  then show ?case by (cases "sv_step E e s") simp_all
qed simp

theorem session_takes_over_witness:
  "\<exists>s c d. sv_reachable demo_env (s :: (unit, unit) server) \<and> sv_heap s 0 = Some c \<and> sv_heap s 1 = Some d \<and> ct_started d \<and> ct_done c \<and>
     (\<forall>n p. sv_pxys s n \<noteq> Some (0, p))"
proof -
  obtain t k where t: "sv_run demo_env [SvLogin 1 ''r'' True demo_login, SvStart 0, SvLogin 2 ''r'' True demo_login] demo_start = Some t"
      "sv_heap t 0 = Some k" "ct_proxies k = Map.empty"
    using demo_twice by blast
  have rt: "sv_reachable demo_env t" by (rule demo_reachable [OF _ t(1)]) simp
  have "proper_event (SvExit 0 []) t" using t(2,3) by simp
  then have re: "sv_reachable demo_env (exit_begin [] 0 t)" using sv_reachable.step [OF rt, of "SvExit 0 []"] by simp
  obtain s c d where s: "sv_run demo_env [SvExit 0 [], SvExitEnd 0, SvStart 1] t = Some s" "sv_heap s 0 = Some c" "sv_heap s 1 = Some d"
      "ct_done c" "ct_started d" "lm_RunID (ct_login c) = lm_RunID (ct_login d)"
    using demo_handover unfolding sv_run_append t(1) by auto
  have "sv_run demo_env [SvExitEnd 0, SvStart 1] (exit_begin [] 0 t) = Some s" using s(1) by simp
  then have r: "sv_reachable demo_env s" using sv_run_reachable [OF re, of "[SvExitEnd 0, SvStart 1]"] by simp
  show ?thesis using session_takes_over [OF r s(2,3) _ s(6,5)] r s by auto
qed

text \<open>C20: The statistics count what is there. When no client is in the middle of opening or closing a proxy, the dashboard's
  number of proxies of a type is the number of names in the proxy manager with a proxy of that type, and
  its number of clients the number of sessions that are served.\<close>

theorem dashboard_counts_sessions:
  assumes "sv_reachable E s" and "\<And>i c. sv_heap s i = Some c \<Longrightarrow> ct_pending c = None"
    and "st = fst (mem_GetServer ck now (sv_mem s))" and "card (names_of t s) < 2 ^ 31"
    and "card {i. \<exists>c. sv_heap s i = Some c \<and> ct_started c \<and> \<not> ct_done c} < 2 ^ 31"
  shows "(case sv_ProxyTypeCounts st t of None \<Rightarrow> 0 | Some n \<Rightarrow> sint n) = int (card (names_of t s)) \<and>
    sint (sv_ClientCounts st) = int (card {i. \<exists>c. sv_heap s i = Some c \<and> ct_started c \<and> \<not> ct_done c})"
proof -
  let ?A = "{i. \<exists>c. sv_heap s i = Some c \<and> ct_started c \<and> \<not> ct_done c}"
  note I = sv_reachable_inv [OF assms(1)] and S = sv_reachable_stats [OF assms(1)]
  have "sum_ctls (pend_delta t) s = 0"
    unfolding sum_ctls_def using assms(2) by (intro sum.neutral) (auto simp: pend_delta_def split: option.splits)
  then have t: "type_count (sv_mem s) t = word_of_int (int (card (names_of t s)))" using S by (simp add: stats_inv_def counted_type_def)
  have sub: "?A \<subseteq> {..<sv_next s}" using sv_invD(1) [OF I] by auto
  have "sum_ctls serving s = (\<Sum>i\<in>{..<sv_next s}. if i \<in> ?A then 1 else 0)"
    unfolding sum_ctls_def by (intro sum.cong) (auto simp: serving_def split: option.splits)
  also have "\<dots> = int (card ?A)" using sub by (simp add: sum.If_cases Int_absorb1)
  finally have c: "sc_count (ss_ClientCounts (sv_mem s)) = word_of_int (int (card ?A))" using S by (simp add: stats_inv_def)
  have "(case sv_ProxyTypeCounts st t of None \<Rightarrow> 0 | Some n \<Rightarrow> sint n) = sint (type_count (sv_mem s) t)"
    using assms(3) by (simp add: mem_GetServer_def type_count_def counter_Count_def sint_to_int64 Let_def split: option.splits prod.splits)
  moreover have "sint (sv_ClientCounts st) = sint (sc_count (ss_ClientCounts (sv_mem s)))"
    using assms(3) by (simp add: mem_GetServer_def counter_Count_def sint_to_int64 Let_def split: prod.splits)
  moreover have "sint (word_of_int (int n) :: int32) = int n" if "n < 2 ^ 31" for n
    using that by (intro sint_int32) simp_all
  ultimately show ?thesis using t c assms(4,5) by (simp only:)
qed

lemma demo_once:
  "\<exists>s c. sv_run demo_env [SvLogin 1 ''r'' True demo_login, SvStart 0] demo_start = Some s \<and>
     sv_heap s = [0 \<mapsto> c] \<and> ct_started c \<and> \<not> ct_done c \<and> ct_pending c = None \<and> sv_pxys s = Map.empty"
  by (simp add: demo_env_def demo_login_def demo_start_def NewServer_def handleLogin_def RegisterControl_def NewControl_def pool_count_def
      sample_config_def cm_Add_def Replaced_def ctl_Start_def waits_over_def put_ctl_def pm_New_def Let_def)
    (intro exI conjI, rule refl, simp_all)

theorem dashboard_counts_sessions_witness:
  "\<exists>s. sv_reachable demo_env (s :: (unit, unit) server) \<and> sint (sv_ClientCounts (fst (mem_GetServer (fixed_clock 0) 9 (sv_mem s)))) = 1"
proof -
  obtain s c where s: "sv_run demo_env [SvLogin 1 ''r'' True demo_login, SvStart 0] demo_start = Some s"
      "sv_heap s = [0 \<mapsto> c]" "ct_started c" "\<not> ct_done c" "ct_pending c = None" "sv_pxys s = Map.empty"
    using demo_once by blast
  have r: "sv_reachable demo_env s" by (rule demo_reachable [OF _ s(1)]) simp
  have p: "ct_pending d = None" if "sv_heap s i = Some d" for i d using that s(2,5) by (auto split: if_splits)
  have a: "{i. \<exists>c. sv_heap s i = Some c \<and> ct_started c \<and> \<not> ct_done c} = {0}" using s(2,3,4) by auto
  have n: "names_of ''tcp'' s = {}" using s(6) by (simp add: names_of_def)
  show ?thesis
    using dashboard_counts_sessions [OF r p refl, where t = "''tcp''" and ck = "fixed_clock 0" and now = 9] r unfolding a n by auto
qed

text \<open>C38: A login with a negative pool count stops the server. The size of the channel of work connections is the pool count
  plus ten, and making a channel of a negative size is a panic that nothing recovers: on a server whose limit of the
  pool count is not negative, the login of a client that is accepted brings the process down exactly when the pool
  count is below -10.\<close>

theorem negative_pool_panics:
  assumes "0 \<le> sc_MaxPoolCount (se_cfg E)"
  shows "RegisterControl E now rid internal m s = None \<longleftrightarrow>
    lm_PoolCount m < -10 \<and>
    fst (VerifyLogin (se_verify E now) (if lm_RunID m = [] then m\<lparr>lm_RunID := rid\<rparr> else m)
          (if internal \<and> lm_AlwaysAuthPass m then AlwaysPass else sv_auth s)) = None"
  using assms by (auto simp: RegisterControl_def NewControl_def pool_count_def Let_def split: prod.splits option.splits)

theorem negative_pool_panics_witness:
  "RegisterControl demo_env 1 ''r'' True (demo_login\<lparr>lm_PoolCount := -11\<rparr>) demo_start = None"
  by (subst negative_pool_panics) (simp_all add: demo_env_def sample_config_def demo_login_def)

end
