(* ===== verification/Wait_Backoff.thy ===== *)
theory Wait_Backoff
  imports Client_Health Complex_Main
begin

text \<open>
  Waiting between attempts, \<open>pkg/util/wait/backoff.go\<close>, and the three uses of it in the client: logging in
  (\<open>loopLoginUntilSuccess\<close>), keeping a session (\<open>keepControllerWorking\<close>) and sending heartbeats. Durations are
  nanoseconds; factors are rational numbers, and their product with a duration is exact before it is
  truncated (the code multiplies in floating point, which is exact for factors that are powers of two and
  durations below a hundred days). The time and the random number of a call are arguments.
\<close>

section \<open>The manager of waiting times\<close>

record backoff_options =
  fo_Duration :: int
  fo_Factor :: rat
  fo_Jitter :: rat
  fo_MaxDuration :: int
  fo_InitDurationIfFail :: int
  fo_FastRetryCount :: int
  fo_FastRetryDelay :: int
  fo_FastRetryJitter :: rat
  fo_FastRetryWindow :: int

text \<open>The zero time is \<open>None\<close>.\<close>

record backoff =
  fb_options :: backoff_options
  fb_lastCalledTime :: "int option"
  fb_consecutiveErrCount :: int
  fb_fastRetryCutoffTime :: "int option"
  fb_countsInFastRetryWindow :: int

definition NewFastBackoffManager :: "backoff_options \<Rightarrow> backoff" where
  "NewFastBackoffManager opts = \<lparr>fb_options = opts, fb_lastCalledTime = None, fb_consecutiveErrCount = 0,
     fb_fastRetryCutoffTime = None, fb_countsInFastRetryWindow = 1\<rparr>"

definition scale :: "rat \<Rightarrow> int \<Rightarrow> int" where
  "scale f d = (let x = f * of_int d in if 0 \<le> x then \<lfloor>x\<rfloor> else \<lceil>x\<rceil>)"

text \<open>\<open>u\<close> is the random number, at least 0 and below 1.\<close>

definition Jitter :: "rat \<Rightarrow> int \<Rightarrow> rat \<Rightarrow> int" where
  "Jitter u duration maxFactor = (let mf = (if maxFactor \<le> 0 then 1 else maxFactor) in duration + scale (u * mf) duration)"

definition EmptyOr_ns :: "int \<Rightarrow> int \<Rightarrow> int" where
  "EmptyOr_ns v fallback = (if v = 0 then fallback else v)"

text \<open>The delay after an error that is not a fast retry.\<close>

definition error_delay :: "rat \<Rightarrow> int \<Rightarrow> int \<Rightarrow> backoff_options \<Rightarrow> int" where
  "error_delay u errs previousDuration opts =
     (let d0 = EmptyOr_ns (if errs = 1 then EmptyOr_ns (fo_InitDurationIfFail opts) previousDuration else previousDuration) second_ns;
          d1 = (if fo_Factor opts \<noteq> 0 then scale (fo_Factor opts) d0 else d0);
          d2 = (if 0 < fo_Jitter opts then Jitter u d1 (fo_Jitter opts) else d1)
      in if 0 < fo_MaxDuration opts \<and> fo_MaxDuration opts < d2 then fo_MaxDuration opts else d2)"

definition Backoff :: "int \<Rightarrow> rat \<Rightarrow> int \<Rightarrow> bool \<Rightarrow> backoff \<Rightarrow> int \<times> backoff" where
  "Backoff now u previousDuration previousConditionError f =
     (let opts = fb_options f in
      if fb_lastCalledTime f = None then (fo_Duration opts, f\<lparr>fb_lastCalledTime := Some now\<rparr>)
      else
        (let f1 = f\<lparr>fb_lastCalledTime := Some now,
                   fb_consecutiveErrCount := (if previousConditionError then fb_consecutiveErrCount f + 1 else 0)\<rparr> in
         if 0 < fo_FastRetryCount opts \<and> previousConditionError then
           (let f2 = f1\<lparr>fb_countsInFastRetryWindow := fb_countsInFastRetryWindow f1 + 1\<rparr> in
            if fb_countsInFastRetryWindow f2 \<le> fo_FastRetryCount opts
            then (Jitter u (fo_FastRetryDelay opts) (fo_FastRetryJitter opts), f2)
            else
              (error_delay u (fb_consecutiveErrCount f2) previousDuration opts,
               (case fb_fastRetryCutoffTime f2 of
                  Some c \<Rightarrow> (if c < now then f2\<lparr>fb_fastRetryCutoffTime := Some (now + fo_FastRetryWindow opts), fb_countsInFastRetryWindow := 0\<rparr> else f2)
                | None \<Rightarrow> f2\<lparr>fb_fastRetryCutoffTime := Some (now + fo_FastRetryWindow opts), fb_countsInFastRetryWindow := 0\<rparr>)))
         else if previousConditionError then (error_delay u (fb_consecutiveErrCount f1) previousDuration opts, f1)
         else (fo_Duration opts, f1)))"

section \<open>The loop\<close>

text \<open>\<open>BackoffUntil\<close> with \<open>sliding\<close>: the delays after the attempts, each given by the time at which it ends, its
  random number and whether it failed. The first call of the manager, for the ticker, is not an attempt.\<close>

fun sliding_delays :: "int \<Rightarrow> backoff \<Rightarrow> (int \<times> rat \<times> bool) list \<Rightarrow> int list" where
  "sliding_delays delay f [] = []"
| "sliding_delays delay f ((now, u, failed) # as) =
     (case Backoff now u delay failed f of (d, f') \<Rightarrow> d # sliding_delays d f' as)"

definition BackoffUntil :: "backoff_options \<Rightarrow> int \<Rightarrow> rat \<Rightarrow> (int \<times> rat \<times> bool) list \<Rightarrow> int list" where
  "BackoffUntil opts now u as = sliding_delays 0 (snd (Backoff now u 0 False (NewFastBackoffManager opts))) as"

text \<open>The options of the client.\<close>

definition login_options :: "int \<Rightarrow> backoff_options" where
  "login_options maxInterval = \<lparr>fo_Duration = second_ns, fo_Factor = 2, fo_Jitter = 1 / 10, fo_MaxDuration = maxInterval,
     fo_InitDurationIfFail = 0, fo_FastRetryCount = 0, fo_FastRetryDelay = 0, fo_FastRetryJitter = 0, fo_FastRetryWindow = 0\<rparr>"

definition keep_options :: backoff_options where
  "keep_options = \<lparr>fo_Duration = second_ns, fo_Factor = 2, fo_Jitter = 1 / 10, fo_MaxDuration = 20 * second_ns,
     fo_InitDurationIfFail = 0, fo_FastRetryCount = 3, fo_FastRetryDelay = 200000000, fo_FastRetryJitter = 1 / 2,
     fo_FastRetryWindow = 60 * second_ns\<rparr>"

definition heartbeat_options :: "int \<Rightarrow> backoff_options" where
  "heartbeat_options interval = \<lparr>fo_Duration = interval * second_ns, fo_Factor = 2, fo_Jitter = 1 / 10,
     fo_MaxDuration = interval * second_ns, fo_InitDurationIfFail = second_ns, fo_FastRetryCount = 0, fo_FastRetryDelay = 0,
     fo_FastRetryJitter = 0, fo_FastRetryWindow = 0\<rparr>"

section \<open>Bounds\<close>

lemma scale_mono: "0 \<le> f \<Longrightarrow> 0 \<le> d \<Longrightarrow> d \<le> e \<Longrightarrow> scale f d \<le> scale f e"
  by (auto simp: scale_def Let_def intro!: floor_mono mult_left_mono)

lemma scale_nonneg: "0 \<le> f \<Longrightarrow> 0 \<le> d \<Longrightarrow> 0 \<le> scale f d"
  by (simp add: scale_def Let_def)

lemma scale_2 [simp]: "0 \<le> d \<Longrightarrow> scale 2 d = 2 * d"
proof -
  have "(2::rat) * of_int d = of_int (2 * d)" by simp
  then show "0 \<le> d \<Longrightarrow> scale 2 d = 2 * d" unfolding scale_def Let_def by (simp only: floor_of_int of_int_0_le_iff) simp
qed

lemma Jitter_bounds:
  assumes "0 \<le> u" and "u \<le> 1" and "0 \<le> d" and "0 < mf"
  shows "d \<le> Jitter u d mf" "Jitter u d mf \<le> d + scale mf d"
proof -
  have "u * mf * of_int d \<le> mf * of_int d" using assms by (simp add: mult_left_le_one_le mult_right_mono)
  then have "scale (u * mf) d \<le> scale mf d" using assms by (simp add: scale_def Let_def floor_mono)
  then show "d \<le> Jitter u d mf" "Jitter u d mf \<le> d + scale mf d" using assms scale_nonneg [of "u * mf" d] by (auto simp: Jitter_def Let_def)
qed

text \<open>The delay after an error is at least the doubled one before and at most the largest one.\<close>

definition doubling :: "backoff_options \<Rightarrow> bool" where
  "doubling opts \<longleftrightarrow> fo_Factor opts = 2 \<and> 0 < fo_Jitter opts \<and> 0 < fo_MaxDuration opts \<and> 0 \<le> fo_InitDurationIfFail opts"

lemma error_delay_bounds:
  assumes "doubling opts" and "0 \<le> u" and "u \<le> 1" and "0 \<le> prev"
  shows "min (2 * EmptyOr_ns prev second_ns) (fo_MaxDuration opts) \<le> error_delay u errs prev opts \<or> errs = 1 \<and> fo_InitDurationIfFail opts \<noteq> 0"
    "0 < error_delay u errs prev opts" "error_delay u errs prev opts \<le> fo_MaxDuration opts"
proof -
  let ?d0 = "EmptyOr_ns (if errs = 1 then EmptyOr_ns (fo_InitDurationIfFail opts) prev else prev) second_ns"
  have p: "0 < ?d0" using assms(1,4) by (auto simp: EmptyOr_ns_def second_ns_def doubling_def)
  have j: "2 * ?d0 \<le> Jitter u (2 * ?d0) (fo_Jitter opts)"
    using Jitter_bounds(1) [of u "2 * ?d0" "fo_Jitter opts"] assms p by (simp add: doubling_def)
  have e: "error_delay u errs prev opts = min (fo_MaxDuration opts) (Jitter u (2 * ?d0) (fo_Jitter opts))"
    using assms(1) p by (auto simp: error_delay_def doubling_def Let_def)
  show "0 < error_delay u errs prev opts" "error_delay u errs prev opts \<le> fo_MaxDuration opts"
    using e j p assms(1) by (auto simp: doubling_def)
  show "min (2 * EmptyOr_ns prev second_ns) (fo_MaxDuration opts) \<le> error_delay u errs prev opts \<or> errs = 1 \<and> fo_InitDurationIfFail opts \<noteq> 0"
  proof (cases "errs = 1 \<and> fo_InitDurationIfFail opts \<noteq> 0")
    case False
    then have "?d0 = EmptyOr_ns prev second_ns" by (auto simp: EmptyOr_ns_def)
    with e j have "error_delay u errs prev opts = min (fo_MaxDuration opts) (Jitter u (2 * EmptyOr_ns prev second_ns) (fo_Jitter opts))"
      "2 * EmptyOr_ns prev second_ns \<le> Jitter u (2 * EmptyOr_ns prev second_ns) (fo_Jitter opts)" by simp_all
    then show ?thesis by linarith
  qed simp
qed

lemma Backoff_plain:
  assumes "fb_lastCalledTime f \<noteq> None" and "fo_FastRetryCount (fb_options f) = 0" and "Backoff now u prev True f = (d, f')"
  shows "d = error_delay u (fb_consecutiveErrCount f + 1) prev (fb_options f)"
    "fb_options f' = fb_options f" "fb_lastCalledTime f' \<noteq> None"
  using assms by (auto simp: Backoff_def Let_def)

lemma login_delays:
  assumes "fb_options f = login_options M" and "0 < M" and "fb_lastCalledTime f \<noteq> None" and "0 \<le> prev"
    and "min (2 ^ n * second_ns) M \<le> EmptyOr_ns prev second_ns"
    and "list_all (\<lambda>(now, u, failed). 0 \<le> u \<and> u \<le> 1 \<and> failed) as" and "k < length as"
  shows "min (2 ^ (n + k + 1) * second_ns) M \<le> sliding_delays prev f as ! k \<and> sliding_delays prev f as ! k \<le> M"
  using assms
proof (induction as arbitrary: f prev n k)
  case (Cons a as)
  obtain now u failed where a: "a = (now, u, failed)" by (cases a)
  obtain d f' where d: "Backoff now u prev True f = (d, f')" by (cases "Backoff now u prev True f")
  have u: "0 \<le> u" "u \<le> 1" "failed" using Cons.prems(6) a by auto
  have dbl: "doubling (login_options M)" using Cons.prems(2) by (simp add: doubling_def login_options_def)
  have f0: "fo_FastRetryCount (fb_options f) = 0" using Cons.prems(1) by (simp add: login_options_def)
  note b = Backoff_plain [OF Cons.prems(3) f0 d]
  have D: "min (2 * EmptyOr_ns prev second_ns) M \<le> d" "0 < d" "d \<le> M"
    using error_delay_bounds [OF dbl u(1,2) Cons.prems(4), of "fb_consecutiveErrCount f + 1"] b(1) Cons.prems(1)
    by (auto simp: login_options_def)
  have step: "min (2 ^ (n + 1) * second_ns) M \<le> d"
    using D(1) Cons.prems(2,5) by (auto simp: min_def split: if_splits)
  have sd: "sliding_delays prev f (a # as) = d # sliding_delays d f' as" using a u d by simp
  show ?case
  proof (cases k)
    case 0
    then show ?thesis using sd step D(3) by simp
  next
    case (Suc k')
    have "min (2 ^ ((n + 1) + k' + 1) * second_ns) M \<le> sliding_delays d f' as ! k' \<and> sliding_delays d f' as ! k' \<le> M"
      using Cons.prems Suc b D(2) step by (intro Cons.IH) (auto simp: EmptyOr_ns_def)
    then show ?thesis using sd Suc by simp
  qed
qed simp

text \<open>C31: Logging in backs off. As long as every attempt fails, the wait after the \<open>k\<close>-th attempt is at least
  \<open>2^(k+1)\<close> seconds, or the largest interval if that is less, and never more than the largest interval,
  whatever the random jitter is.\<close>

theorem login_backoff:
  assumes "0 < maxInterval" and "list_all (\<lambda>(now, u, failed). 0 \<le> u \<and> u \<le> 1 \<and> failed) attempts" and "k < length attempts"
    and "delays = BackoffUntil (login_options maxInterval) t0 u0 attempts"
  shows "min (2 ^ (k + 1) * second_ns) maxInterval \<le> delays ! k \<and> delays ! k \<le> maxInterval"
proof -
  have "min (2 ^ (0 + k + 1) * second_ns) maxInterval \<le> delays ! k \<and> delays ! k \<le> maxInterval"
    unfolding assms(4) BackoffUntil_def
    by (rule login_delays) (use assms in \<open>auto simp: Backoff_def NewFastBackoffManager_def EmptyOr_ns_def Let_def\<close>)
  then show ?thesis by simp
qed

theorem login_backoff_witness:
  "BackoffUntil (login_options (10 * second_ns)) 0 0 (replicate 5 (0, 0, True)) ! 4 = 10 * second_ns"
proof -
  have "list_all (\<lambda>(now, u, failed). 0 \<le> u \<and> u \<le> 1 \<and> failed) (replicate 5 (0 :: int, 0 :: rat, True))" by (simp add: list_all_length)
  from login_backoff [OF _ this _ refl, of "10 * second_ns" 4 0 0] show ?thesis by (simp add: second_ns_def)
qed

section \<open>Keeping a session\<close>

text \<open>Every wait of \<open>keepControllerWorking\<close> is positive and at most 20 seconds.\<close>

lemma keep_fast:
  assumes "0 \<le> u" and "u \<le> 1"
  shows "200000000 \<le> Jitter u 200000000 (1 / 2)" "Jitter u 200000000 (1 / 2) \<le> 300000000"
  using Jitter_bounds [OF assms, of 200000000 "1 / 2"] by (simp_all add: scale_def Let_def)

lemma Backoff_keep:
  assumes "fb_options f = keep_options" and "0 \<le> u" and "u \<le> 1" and "0 \<le> prev" and "Backoff now u prev failed f = (d, f')"
  shows "0 < d \<and> d \<le> 20 * second_ns \<and> fb_options f' = keep_options"
proof -
  have dbl: "doubling keep_options" by (simp add: doubling_def keep_options_def second_ns_def)
  have "0 < error_delay u errs prev keep_options \<and> error_delay u errs prev keep_options \<le> 20 * second_ns" for errs
    using error_delay_bounds(2,3) [OF dbl assms(2-4), of errs] by (simp add: keep_options_def)
  moreover have "0 < Jitter u (fo_FastRetryDelay keep_options) (fo_FastRetryJitter keep_options)"
    "Jitter u (fo_FastRetryDelay keep_options) (fo_FastRetryJitter keep_options) \<le> 20 * second_ns"
    "0 < fo_Duration keep_options" "fo_Duration keep_options \<le> 20 * second_ns"
    using keep_fast [OF assms(2,3)] by (simp_all add: keep_options_def second_ns_def)
  ultimately show ?thesis
    using assms(1,5) by (auto simp: Backoff_def Let_def split: if_splits option.splits)
qed

theorem keep_backoff:
  assumes "fb_options f = keep_options" and "0 \<le> prev" and "list_all (\<lambda>(now, u, failed). 0 \<le> u \<and> u \<le> 1) attempts"
  shows "list_all (\<lambda>d. 0 < d \<and> d \<le> 20 * second_ns) (sliding_delays prev f attempts)"
  using assms
proof (induction attempts arbitrary: f prev)
  case (Cons a as)
  obtain now u failed where a: "a = (now, u, failed)" by (cases a)
  obtain d f' where d: "Backoff now u prev failed f = (d, f')" by (cases "Backoff now u prev failed f")
  from Backoff_keep [OF Cons.prems(1) _ _ Cons.prems(2) d] Cons.prems(3) a
  have D: "0 < d \<and> d \<le> 20 * second_ns \<and> fb_options f' = keep_options" by simp
  then show ?case using Cons.IH [of f' d] Cons.prems(3) a d by simp
qed simp

text \<open>The first two failures are followed by a fast retry, the third is not, and the three after it are again.\<close>

theorem fast_retry_pattern:
  assumes "list_all (\<lambda>u. 0 \<le> u \<and> u \<le> 1) us" and "length us = 6" and "now \<le> 60 * second_ns"
    and "ds = BackoffUntil keep_options 0 0 (map (\<lambda>u. (now, u, True)) us)"
  shows "(\<forall>i \<in> {0, 1, 3, 4, 5}. 200000000 \<le> ds ! i \<and> ds ! i \<le> 300000000) \<and> 400000000 \<le> ds ! 2"
proof -
  obtain u0 u1 u2 u3 u4 u5 where us: "us = [u0, u1, u2, u3, u4, u5]"
    using assms(2) by (auto simp: numeral_eq_Suc length_Suc_conv)
  have b: "0 \<le> u0" "u0 \<le> 1" "0 \<le> u1" "u1 \<le> 1" "0 \<le> u2" "u2 \<le> 1" "0 \<le> u3" "u3 \<le> 1" "0 \<le> u4" "u4 \<le> 1" "0 \<le> u5" "u5 \<le> 1"
    using assms(1) us by simp_all
  have dbl: "doubling keep_options" by (simp add: doubling_def keep_options_def second_ns_def)
  note F0 = keep_fast [OF b(1,2)] and F1 = keep_fast [OF b(3,4)] and F3 = keep_fast [OF b(7,8)]
    and F4 = keep_fast [OF b(9,10)] and F5 = keep_fast [OF b(11,12)]
  let ?J = "\<lambda>u. Jitter u 200000000 (1 / 2)"
  have ds: "ds = [?J u0, ?J u1, error_delay u2 3 (?J u1) keep_options, ?J u3, ?J u4, ?J u5]"
    unfolding assms(4) us BackoffUntil_def
    by (simp add: Backoff_def NewFastBackoffManager_def Let_def keep_options_def)
  have "min (2 * EmptyOr_ns (?J u1) second_ns) (20 * second_ns) \<le> error_delay u2 3 (?J u1) keep_options"
    using error_delay_bounds(1) [OF dbl b(5,6), of "?J u1" 3] F1 by (simp add: keep_options_def)
  then have "400000000 \<le> error_delay u2 3 (?J u1) keep_options"
    using F1 by (auto simp: EmptyOr_ns_def second_ns_def min_def split: if_splits)
  then show ?thesis using ds F0 F1 F3 F4 F5 by (simp add: numeral_eq_Suc)
qed

end
