(* ===== verification/Msg_Transport.thy ===== *)
theory Msg_Transport
  imports Frp_Prelude
begin

text \<open>
  Messages on the control connection: the dispatcher (\<open>pkg/msg/handler.go\<close>) with its channel of 100 messages and its
  two loops, and the transporter (\<open>pkg/transport/message.go\<close>), which lets several goroutines wait for the
  answers to their requests at once. Messages are of any type \<open>'m\<close>; the encoding on the wire is left to
  the library. An operation that blocks returns \<open>None\<close> and is tried again later.
\<close>

section \<open>The dispatcher\<close>

definition sendCap :: nat where "sendCap = 100"

record 'm dispatcher =
  dp_sendCh :: "'m list"
  dp_doneCh :: bool
  dp_sending :: bool
  dp_written :: "'m list"

definition NewDispatcher :: "'m dispatcher" where
  "NewDispatcher = \<lparr>dp_sendCh = [], dp_doneCh = False, dp_sending = True, dp_written = []\<rparr>"

text \<open>\<open>Send\<close>: the \<open>select\<close> takes either branch that is ready, \<open>eof\<close> is its choice when both are. The result says
  whether the message was refused.\<close>

definition disp_Send :: "bool \<Rightarrow> 'm \<Rightarrow> 'm dispatcher \<Rightarrow> (bool \<times> 'm dispatcher) option" where
  "disp_Send eof m d =
     (if dp_doneCh d \<and> (eof \<or> sendCap \<le> length (dp_sendCh d)) then Some (True, d)
      else if length (dp_sendCh d) < sendCap then Some (False, d\<lparr>dp_sendCh := dp_sendCh d @ [m]\<rparr>)
      else None)"

text \<open>The two branches of \<open>sendLoop\<close>, and \<open>readLoop\<close>: a read that fails closes \<open>doneCh\<close>.\<close>

definition sendLoop_write :: "'m dispatcher \<Rightarrow> 'm dispatcher" where
  "sendLoop_write d =
     (if dp_sending d then
        (case dp_sendCh d of [] \<Rightarrow> d | m # ms \<Rightarrow> d\<lparr>dp_sendCh := ms, dp_written := dp_written d @ [m]\<rparr>)
      else d)"

definition sendLoop_exit :: "'m dispatcher \<Rightarrow> 'm dispatcher" where
  "sendLoop_exit d = (if dp_doneCh d then d\<lparr>dp_sending := False\<rparr> else d)"

definition readLoop_fail :: "'m dispatcher \<Rightarrow> 'm dispatcher" where
  "readLoop_fail d = d\<lparr>dp_doneCh := True\<rparr>"

text \<open>The handlers by type, with the one for all other types.\<close>

record ('m, 's) handlers =
  hd_msgHandlers :: "string \<rightharpoonup> ('m \<Rightarrow> 's \<Rightarrow> 's)"
  hd_default :: "('m \<Rightarrow> 's \<Rightarrow> 's) option"

definition RegisterHandler :: "string \<Rightarrow> ('m \<Rightarrow> 's \<Rightarrow> 's) \<Rightarrow> ('m, 's) handlers \<Rightarrow> ('m, 's) handlers" where
  "RegisterHandler ty h hs = hs\<lparr>hd_msgHandlers := (hd_msgHandlers hs)(ty \<mapsto> h)\<rparr>"

definition RegisterDefaultHandler :: "('m \<Rightarrow> 's \<Rightarrow> 's) \<Rightarrow> ('m, 's) handlers \<Rightarrow> ('m, 's) handlers" where
  "RegisterDefaultHandler h hs = hs\<lparr>hd_default := Some h\<rparr>"

definition readLoop_msg :: "('m \<Rightarrow> string) \<Rightarrow> ('m, 's) handlers \<Rightarrow> 'm \<Rightarrow> 's \<Rightarrow> 's" where
  "readLoop_msg type_of hs m s =
     (case hd_msgHandlers hs (type_of m) of
        Some h \<Rightarrow> h m s
      | None \<Rightarrow> (case hd_default hs of Some h \<Rightarrow> h m s | None \<Rightarrow> s))"

section \<open>The transporter\<close>

text \<open>\<open>Send\<close> of the transporter writes into the channel of the dispatcher, whether or not its loops still run.\<close>

definition trans_Send :: "'m \<Rightarrow> 'm dispatcher \<Rightarrow> 'm dispatcher option" where
  "trans_Send m d = (if length (dp_sendCh d) < sendCap then Some (d\<lparr>dp_sendCh := dp_sendCh d @ [m]\<rparr>) else None)"

text \<open>A call of \<open>Do\<close>. Its channel, of one message, is closed when it has returned.\<close>

datatype 'm do_stage = Waiting | Got "'m option" | Unregistered "'m option" | Returned "'m option"

record 'm do_call =
  rq_lane :: string
  rq_type :: string
  rq_stage :: "'m do_stage"
  rq_buf :: "'m list"

text \<open>\<open>tp_dispatch\<close> is the answer that \<open>DispatchWithType\<close> holds between the lookup and the write: the handlers run one
  after the other, so there is one at a time.\<close>

record 'm transporter =
  tp_registry :: "string \<rightharpoonup> (string \<rightharpoonup> nat)"
  tp_calls :: "nat \<rightharpoonup> 'm do_call"
  tp_next :: nat
  tp_dispatch :: "(nat \<times> 'm) option"

definition NewMessageTransporter :: "'m transporter" where
  "NewMessageTransporter = \<lparr>tp_registry = Map.empty, tp_calls = Map.empty, tp_next = 0, tp_dispatch = None\<rparr>"

definition reg_lookup :: "string \<Rightarrow> string \<Rightarrow> 'm transporter \<Rightarrow> nat option" where
  "reg_lookup ty lane t = (case tp_registry t ty of None \<Rightarrow> None | Some byLaneKey \<Rightarrow> byLaneKey lane)"

definition registerMsgChan :: "nat \<Rightarrow> string \<Rightarrow> string \<Rightarrow> 'm transporter \<Rightarrow> 'm transporter" where
  "registerMsgChan i lane ty t =
     (let byLaneKey = (case tp_registry t ty of None \<Rightarrow> Map.empty | Some m \<Rightarrow> m) in
      t\<lparr>tp_registry := (tp_registry t)(ty \<mapsto> byLaneKey(lane \<mapsto> i))\<rparr>)"

definition unregister :: "string \<Rightarrow> string \<Rightarrow> 'm transporter \<Rightarrow> 'm transporter" where
  "unregister lane ty t =
     (case tp_registry t ty of None \<Rightarrow> t | Some m \<Rightarrow> t\<lparr>tp_registry := (tp_registry t)(ty \<mapsto> m(lane := None))\<rparr>)"

definition do_begin :: "string \<Rightarrow> string \<Rightarrow> 'm transporter \<Rightarrow> 'm transporter" where
  "do_begin lane ty t =
     registerMsgChan (tp_next t) lane ty
       (t\<lparr>tp_calls := (tp_calls t)(tp_next t \<mapsto> \<lparr>rq_lane = lane, rq_type = ty, rq_stage = Waiting, rq_buf = []\<rparr>), tp_next := Suc (tp_next t)\<rparr>)"

definition upd_call :: "nat \<Rightarrow> ('m do_call \<Rightarrow> 'm do_call) \<Rightarrow> 'm transporter \<Rightarrow> 'm transporter" where
  "upd_call i f t = (case tp_calls t i of None \<Rightarrow> t | Some c \<Rightarrow> t\<lparr>tp_calls := (tp_calls t)(i \<mapsto> f c)\<rparr>)"

text \<open>The two branches of the \<open>select\<close> of \<open>Do\<close>, then its two deferred calls.\<close>

definition do_recv :: "nat \<Rightarrow> 'm transporter \<Rightarrow> 'm transporter" where
  "do_recv i = upd_call i (\<lambda>c. case (rq_stage c, rq_buf c) of
      (Waiting, m # ms) \<Rightarrow> c\<lparr>rq_stage := Got (Some m), rq_buf := ms\<rparr> | _ \<Rightarrow> c)"

definition do_cancel :: "nat \<Rightarrow> 'm transporter \<Rightarrow> 'm transporter" where
  "do_cancel i = upd_call i (\<lambda>c. if rq_stage c = Waiting then c\<lparr>rq_stage := Got None\<rparr> else c)"

definition do_unregister :: "nat \<Rightarrow> 'm transporter \<Rightarrow> 'm transporter" where
  "do_unregister i t =
     (case tp_calls t i of
        Some c \<Rightarrow>
          (case rq_stage c of
             Got r \<Rightarrow> upd_call i (\<lambda>c. c\<lparr>rq_stage := Unregistered r\<rparr>) (unregister (rq_lane c) (rq_type c) t)
           | _ \<Rightarrow> t)
      | None \<Rightarrow> t)"

definition do_return :: "nat \<Rightarrow> 'm transporter \<Rightarrow> 'm transporter" where
  "do_return i = upd_call i (\<lambda>c. case rq_stage c of Unregistered r \<Rightarrow> c\<lparr>rq_stage := Returned r\<rparr> | _ \<Rightarrow> c)"

text \<open>\<open>DispatchWithType\<close>: the lookup, and the write, which blocks while the channel is full and fails when it is
  closed.\<close>

definition dispatch_find :: "'m \<Rightarrow> string \<Rightarrow> string \<Rightarrow> 'm transporter \<Rightarrow> 'm transporter" where
  "dispatch_find m ty lane t =
     (if tp_dispatch t \<noteq> None then t else t\<lparr>tp_dispatch := map_option (\<lambda>i. (i, m)) (reg_lookup ty lane t)\<rparr>)"

fun is_returned :: "'m do_stage \<Rightarrow> bool" where
  "is_returned (Returned _) = True"
| "is_returned _ = False"

definition dispatch_put :: "'m transporter \<Rightarrow> 'm transporter" where
  "dispatch_put t =
     (case tp_dispatch t of
        None \<Rightarrow> t
      | Some (i, m) \<Rightarrow>
          (case tp_calls t i of
             None \<Rightarrow> t\<lparr>tp_dispatch := None\<rparr>
           | Some c \<Rightarrow>
               if is_returned (rq_stage c) then t\<lparr>tp_dispatch := None\<rparr>
               else if rq_buf c = [] then (upd_call i (\<lambda>c. c\<lparr>rq_buf := [m]\<rparr>) t)\<lparr>tp_dispatch := None\<rparr>
               else t))"

datatype 'm tp_event =
    TDo string string | TRecv nat | TCancel nat | TUnregister nat | TReturn nat | TFind 'm string string | TPut

fun tp_step :: "'m transporter \<Rightarrow> 'm tp_event \<Rightarrow> 'm transporter" where
  "tp_step t (TDo lane ty) = do_begin lane ty t"
| "tp_step t (TRecv i) = do_recv i t"
| "tp_step t (TCancel i) = do_cancel i t"
| "tp_step t (TUnregister i) = do_unregister i t"
| "tp_step t (TReturn i) = do_return i t"
| "tp_step t (TFind m ty lane) = dispatch_find m ty lane t"
| "tp_step t TPut = dispatch_put t"

definition tp_run :: "'m tp_event list \<Rightarrow> 'm transporter" where
  "tp_run evs = foldl tp_step NewMessageTransporter evs"

lemma tp_run_snoc: "tp_run (evs @ [ev]) = tp_step (tp_run evs) ev"
  by (simp add: tp_run_def)

section \<open>Answers reach their requests\<close>

text \<open>The answer \<open>m\<close> was dispatched to the type and the lane of the call, after the call had begun.\<close>

definition answered_to :: "'m tp_event list \<Rightarrow> nat \<Rightarrow> string \<Rightarrow> string \<Rightarrow> 'm \<Rightarrow> bool" where
  "answered_to evs i ty lane m \<longleftrightarrow>
     (\<exists>evs1 evs2. evs = evs1 @ TFind m ty lane # evs2 \<and> i < tp_next (tp_run evs1))"

fun stage_result :: "'m do_stage \<Rightarrow> 'm option" where
  "stage_result Waiting = None"
| "stage_result (Got r) = r"
| "stage_result (Unregistered r) = r"
| "stage_result (Returned r) = r"

text \<open>The invariant, in three parts; \<open>A i ty lane m\<close> stands for \<open>answered_to\<close>.\<close>

definition call_is :: "'m transporter \<Rightarrow> nat \<Rightarrow> string \<Rightarrow> string \<Rightarrow> bool" where
  "call_is t i ty lane \<longleftrightarrow> (case tp_calls t i of None \<Rightarrow> False | Some c \<Rightarrow> rq_type c = ty \<and> rq_lane c = lane)"

definition reg_ok :: "'m transporter \<Rightarrow> bool" where
  "reg_ok t \<longleftrightarrow> (\<forall>ty lane i. reg_lookup ty lane t = Some i \<longrightarrow> call_is t i ty lane)"

definition call_ok :: "(nat \<Rightarrow> string \<Rightarrow> string \<Rightarrow> 'm \<Rightarrow> bool) \<Rightarrow> nat \<Rightarrow> 'm do_call \<Rightarrow> bool" where
  "call_ok A i c \<longleftrightarrow> length (rq_buf c) \<le> 1 \<and> (\<forall>m \<in> set (rq_buf c). A i (rq_type c) (rq_lane c) m) \<and>
     (\<forall>m. stage_result (rq_stage c) = Some m \<longrightarrow> A i (rq_type c) (rq_lane c) m)"

definition calls_ok :: "(nat \<Rightarrow> string \<Rightarrow> string \<Rightarrow> 'm \<Rightarrow> bool) \<Rightarrow> 'm transporter \<Rightarrow> bool" where
  "calls_ok A t \<longleftrightarrow> (\<forall>i c. tp_calls t i = Some c \<longrightarrow> i < tp_next t \<and> call_ok A i c)"

definition disp_ok :: "(nat \<Rightarrow> string \<Rightarrow> string \<Rightarrow> 'm \<Rightarrow> bool) \<Rightarrow> 'm transporter \<Rightarrow> bool" where
  "disp_ok A t \<longleftrightarrow> (\<forall>i m. tp_dispatch t = Some (i, m) \<longrightarrow> (\<exists>ty lane. call_is t i ty lane \<and> A i ty lane m))"

definition tp_inv :: "(nat \<Rightarrow> string \<Rightarrow> string \<Rightarrow> 'm \<Rightarrow> bool) \<Rightarrow> 'm transporter \<Rightarrow> bool" where
  "tp_inv A t \<longleftrightarrow> reg_ok t \<and> calls_ok A t \<and> disp_ok A t"

lemma upd_call_sel [simp]:
  "tp_registry (upd_call i f t) = tp_registry t" "tp_next (upd_call i f t) = tp_next t"
  "tp_dispatch (upd_call i f t) = tp_dispatch t" "reg_lookup ty lane (upd_call i f t) = reg_lookup ty lane t"
  "tp_calls (upd_call i f t) j = (if j = i then map_option f (tp_calls t i) else tp_calls t j)"
  by (auto simp: upd_call_def reg_lookup_def split: option.splits)

lemma call_is_upd:
  "(\<And>c. rq_type (f c) = rq_type c \<and> rq_lane (f c) = rq_lane c) \<Longrightarrow> call_is (upd_call i f t) j ty lane = call_is t j ty lane"
  by (simp add: call_is_def split: option.splits)

lemma tp_inv_upd:
  assumes "tp_inv A t" and k: "\<And>c. rq_type (f c) = rq_type c \<and> rq_lane (f c) = rq_lane c"
    and "\<And>c. tp_calls t i = Some c \<Longrightarrow> call_ok A i c \<Longrightarrow> call_ok A i (f c)"
  shows "tp_inv A (upd_call i f t)"
  using assms(1,3) call_is_upd [OF k, of i t] by (auto simp: tp_inv_def reg_ok_def calls_ok_def disp_ok_def)

lemma tp_inv_no_dispatch: "tp_inv A t \<Longrightarrow> tp_inv A (t\<lparr>tp_dispatch := None\<rparr>)"
  by (simp add: tp_inv_def reg_ok_def calls_ok_def disp_ok_def call_is_def reg_lookup_def)

lemma tp_inv_mono: "tp_inv A t \<Longrightarrow> (\<And>i ty lane m. A i ty lane m \<Longrightarrow> B i ty lane m) \<Longrightarrow> tp_inv B t"
  unfolding tp_inv_def calls_ok_def call_ok_def disp_ok_def by blast

lemma unregister_lookup:
  "reg_lookup ty' lane' (unregister lane ty t) = (if ty' = ty \<and> lane' = lane then None else reg_lookup ty' lane' t)"
  by (auto simp: reg_lookup_def unregister_def split: option.splits)

lemma unregister_sel [simp]:
  "tp_calls (unregister lane ty t) = tp_calls t" "tp_next (unregister lane ty t) = tp_next t"
  "tp_dispatch (unregister lane ty t) = tp_dispatch t"
  by (auto simp: unregister_def split: option.splits)

lemma tp_inv_unregister: "tp_inv A t \<Longrightarrow> tp_inv A (unregister lane ty t)"
  by (auto simp: tp_inv_def reg_ok_def calls_ok_def disp_ok_def call_is_def unregister_lookup split: if_splits)

lemma do_begin_sel [simp]:
  "tp_calls (do_begin lane ty t) = (tp_calls t)(tp_next t \<mapsto> \<lparr>rq_lane = lane, rq_type = ty, rq_stage = Waiting, rq_buf = []\<rparr>)"
  "tp_next (do_begin lane ty t) = Suc (tp_next t)" "tp_dispatch (do_begin lane ty t) = tp_dispatch t"
  "reg_lookup ty' lane' (do_begin lane ty t) = (if ty' = ty \<and> lane' = lane then Some (tp_next t) else reg_lookup ty' lane' t)"
  by (auto simp: do_begin_def registerMsgChan_def reg_lookup_def Let_def split: option.splits)

lemma tp_inv_begin:
  assumes "tp_inv A t"
  shows "tp_inv A (do_begin lane ty t)"
proof -
  have n: "tp_calls t (tp_next t) = None" using assms by (cases "tp_calls t (tp_next t)") (auto simp: tp_inv_def calls_ok_def)
  then have "call_is t i ty' lane' \<Longrightarrow> call_is (do_begin lane ty t) i ty' lane'" for i ty' lane'
    by (auto simp: call_is_def split: option.splits)
  moreover have "call_is (do_begin lane ty t) (tp_next t) ty lane" by (simp add: call_is_def)
  moreover have "calls_ok A (do_begin lane ty t)"
    using assms by (auto simp: tp_inv_def calls_ok_def call_ok_def less_Suc_eq split: if_splits)
  ultimately show ?thesis
    using assms unfolding tp_inv_def reg_ok_def disp_ok_def by (auto split: if_splits) blast
qed

lemma tp_inv_step:
  assumes "tp_inv A t"
    and "\<And>m ty lane i. ev = TFind m ty lane \<Longrightarrow> reg_lookup ty lane t = Some i \<Longrightarrow> A i ty lane m"
  shows "tp_inv A (tp_step t ev)"
proof (cases ev)
  case (TDo lane ty)
  then show ?thesis using assms(1) by (simp add: tp_inv_begin)
next
  case (TRecv i)
  show ?thesis
    unfolding TRecv tp_step.simps do_recv_def
    by (rule tp_inv_upd [OF assms(1)]) (auto simp: call_ok_def split: do_stage.splits list.splits)
next
  case (TCancel i)
  show ?thesis
    unfolding TCancel tp_step.simps do_cancel_def by (rule tp_inv_upd [OF assms(1)]) (auto simp: call_ok_def)
next
  case (TUnregister i)
  show ?thesis
  proof (cases "\<exists>c r. tp_calls t i = Some c \<and> rq_stage c = Got r")
    case True
    then obtain c r where c: "tp_calls t i = Some c" "rq_stage c = Got r" by blast
    have "tp_inv A (upd_call i (\<lambda>c. c\<lparr>rq_stage := Unregistered r\<rparr>) (unregister (rq_lane c) (rq_type c) t))"
      by (rule tp_inv_upd [OF tp_inv_unregister [OF assms(1)]]) (use c in \<open>auto simp: call_ok_def\<close>)
    then show ?thesis using TUnregister c by (simp add: do_unregister_def)
  next
    case False
    then show ?thesis using TUnregister assms(1) by (auto simp: do_unregister_def split: option.splits do_stage.splits)
  qed
next
  case (TReturn i)
  show ?thesis
    unfolding TReturn tp_step.simps do_return_def
    by (rule tp_inv_upd [OF assms(1)]) (auto simp: call_ok_def split: do_stage.splits)
next
  case (TFind m ty lane)
  have "disp_ok A (t\<lparr>tp_dispatch := map_option (\<lambda>i. (i, m)) (reg_lookup ty lane t)\<rparr>)"
  proof -
    have "call_is t i ty lane \<and> A i ty lane m" if "reg_lookup ty lane t = Some i" for i
      using assms TFind that by (simp add: tp_inv_def reg_ok_def)
    then show ?thesis by (force simp: disp_ok_def call_is_def)
  qed
  then show ?thesis
    using assms(1) TFind by (auto simp: dispatch_find_def tp_inv_def reg_ok_def calls_ok_def call_is_def reg_lookup_def)
next
  case TPut
  show ?thesis
  proof (cases "tp_dispatch t")
    case (Some im)
    obtain i m where im: "im = (i, m)" by (cases im)
    then obtain c where c: "tp_calls t i = Some c" "A i (rq_type c) (rq_lane c) m"
      using assms(1) Some by (fastforce simp: tp_inv_def disp_ok_def call_is_def split: option.splits)
    have "tp_inv A (upd_call i (\<lambda>c. c\<lparr>rq_buf := [m]\<rparr>) t)"
      by (rule tp_inv_upd [OF assms(1)]) (use c in \<open>auto simp: call_ok_def\<close>)
    then show ?thesis using TPut Some im c assms(1) by (simp add: dispatch_put_def tp_inv_no_dispatch)
  qed (use TPut assms(1) in \<open>simp add: dispatch_put_def\<close>)
qed

lemma answered_to_mono: "answered_to evs i ty lane m \<Longrightarrow> answered_to (evs @ evs') i ty lane m"
  unfolding answered_to_def by fastforce

lemma tp_inv_run: "tp_inv (answered_to evs) (tp_run evs)"
proof (induction evs rule: rev_induct)
  case Nil
  then show ?case
    by (simp add: tp_run_def NewMessageTransporter_def tp_inv_def reg_ok_def calls_ok_def disp_ok_def reg_lookup_def)
next
  case (snoc ev evs)
  have i: "tp_inv (answered_to (evs @ [ev])) (tp_run evs)" using snoc by (rule tp_inv_mono) (rule answered_to_mono)
  have "answered_to (evs @ [ev]) i ty lane m" if "ev = TFind m ty lane" "reg_lookup ty lane (tp_run evs) = Some i" for m ty lane i
  proof -
    have "i < tp_next (tp_run evs)"
      using snoc that(2) by (fastforce simp: tp_inv_def reg_ok_def calls_ok_def call_is_def split: option.splits)
    then show ?thesis unfolding answered_to_def that(1) by (intro exI [of _ evs] exI [of _ "[]"]) simp
  qed
  then show ?case unfolding tp_run_snoc by (rule tp_inv_step [OF i])
qed

text \<open>C30: An answer is never given to the wrong request. However requests, answers, cancellations and returns
  interleave, what a request returns was dispatched to its own type and lane, after it had begun; and no
  channel ever holds more than one answer.\<close>

theorem answers_reach_requests:
  assumes "tp_calls (tp_run evs) i = Some c"
  shows "length (rq_buf c) \<le> 1 \<and> (\<forall>m. rq_stage c = Returned (Some m) \<longrightarrow> answered_to evs i (rq_type c) (rq_lane c) m)"
  using tp_inv_run [of evs] assms unfolding tp_inv_def calls_ok_def call_ok_def by (auto dest: spec [of _ i])

theorem answers_reach_requests_witness:
  "answered_to [TDo ''a'' ''t'', TDo ''b'' ''t'', TFind (7 :: nat) ''t'' ''b'', TPut, TRecv 1, TUnregister 1, TReturn 1] 1 ''t'' ''b'' 7"
proof -
  let ?evs = "[TDo ''a'' ''t'', TDo ''b'' ''t'', TFind (7 :: nat) ''t'' ''b'', TPut, TRecv 1, TUnregister 1, TReturn 1]"
  have "tp_calls (tp_run ?evs) 1 = Some \<lparr>rq_lane = ''b'', rq_type = ''t'', rq_stage = Returned (Some 7), rq_buf = []\<rparr>"
    by code_simp
  from answers_reach_requests [OF this] show ?thesis by simp
qed

section \<open>Waiting ends with the answer\<close>

text \<open>A call that is registered, with nothing under way, gets the answer that is dispatched to it.\<close>

theorem answer_arrives:
  assumes "tp_dispatch t = None" and "reg_lookup ty lane t = Some i" and "tp_calls t i = Some c"
    and "rq_stage c = Waiting" and "rq_buf c = []"
  shows "\<exists>c'. tp_calls (foldl tp_step t [TFind m ty lane, TPut, TRecv i]) i = Some c' \<and> rq_stage c' = Got (Some m)"
  using assms by (simp add: dispatch_find_def dispatch_put_def do_recv_def)

text \<open>Two calls that share a lane: the end of the first removes the registration of the second, whose answer is
  then dropped.\<close>

theorem shared_lane_lost:
  "tp_dispatch (tp_run [TDo l t, TDo l t, TCancel 0, TUnregister 0, TFind m t l]) = None \<and>
   (\<exists>c. tp_calls (tp_run [TDo l t, TDo l t, TCancel 0, TUnregister 0, TFind m t l]) 1 = Some c \<and> rq_stage c = Waiting \<and> rq_buf c = [])"
  by (simp add: tp_run_def NewMessageTransporter_def do_cancel_def do_unregister_def dispatch_find_def unregister_lookup)

end
