(* ===== verification/Client_Control.thy ===== *)
theory Client_Control
  imports Client_Api Msg_Transport Wait_Backoff
begin

text \<open>
  A session of the client, \<open>client/control.go\<close>: the control with its managers, its dispatcher and its worker. The
  handlers of messages, the rounds of the proxies' workers, heartbeats, reloads and the closing of the
  session are steps that interleave. A message to the server is written into the channel of the
  dispatcher, which can be full: what an operation still has to write is \<open>cn_pending\<close>, and as long as it is
  not empty the operation holds the lock of the proxy manager, so that no other one gets in. (A worker
  of one proxy holds only the lock of that proxy in the code; here it counts as holding the manager.) A
  step that is not possible in a state is \<open>None\<close>. \<open>cn_graceful\<close> says that \<open>GracefulClose\<close> has begun.
\<close>

section \<open>State\<close>

datatype to_server = CtlProxy client_msg | CtlPing

datatype ctl_stage = Serving | Leaving | Exited

record ('p, 'c, 'v) client_control =
  cn_pm :: "'p proxies"
  cn_vm :: "('c, 'v) vis_manager"
  cn_vmClosed :: bool
  cn_connOpen :: bool
  cn_lastPong :: int
  cn_disp :: "to_server dispatcher"
  cn_pending :: "to_server list"
  cn_stage :: ctl_stage
  cn_graceful :: bool

text \<open>\<open>heartbeatInterval\<close> and \<open>heartbeatTimeout\<close> of the configuration, in seconds.\<close>

record heartbeat_config =
  hb_interval :: int
  hb_timeout :: int

definition NewControl_c :: "int \<Rightarrow> ('p, 'c, 'v) client_control" where
  "NewControl_c now = \<lparr>cn_pm = Map.empty, cn_vm = \<lparr>vm_cfgs = Map.empty, vm_visitors = Map.empty\<rparr>, cn_vmClosed = False,
     cn_connOpen = True, cn_lastPong = now, cn_disp = NewDispatcher, cn_pending = [], cn_stage = Serving,
     cn_graceful = False\<rparr>"

section \<open>Operations\<close>

text \<open>Messages for the server, and the writing of the first of them.\<close>

definition emit :: "client_msg list \<Rightarrow> ('p, 'c, 'v) client_control \<Rightarrow> ('p, 'c, 'v) client_control" where
  "emit ms c = c\<lparr>cn_pending := cn_pending c @ map CtlProxy ms\<rparr>"

definition put_pending :: "('p, 'c, 'v) client_control \<Rightarrow> ('p, 'c, 'v) client_control option" where
  "put_pending c =
     (case cn_pending c of
        [] \<Rightarrow> None
      | m # ms \<Rightarrow>
          (case trans_Send m (cn_disp c) of None \<Rightarrow> None | Some d \<Rightarrow> Some (c\<lparr>cn_disp := d, cn_pending := ms\<rparr>)))"

definition closeSession :: "('p, 'c, 'v) client_control \<Rightarrow> ('p, 'c, 'v) client_control" where
  "closeSession c = c\<lparr>cn_connOpen := False\<rparr>"

definition handleNewProxyResp :: "int \<Rightarrow> string option \<Rightarrow> string \<Rightarrow> string \<Rightarrow> string \<Rightarrow> ('p, 'c, 'v) client_control \<Rightarrow> ('p, 'c, 'v) client_control" where
  "handleNewProxyResp now run name remoteAddr err c =
     (case StartProxy now run name remoteAddr err (cn_pm c) of (_, ms, pm) \<Rightarrow> emit ms (c\<lparr>cn_pm := pm\<rparr>))"

definition handlePong :: "int \<Rightarrow> string \<Rightarrow> ('p, 'c, 'v) client_control \<Rightarrow> ('p, 'c, 'v) client_control" where
  "handlePong now err c = (if err \<noteq> [] then closeSession c else c\<lparr>cn_lastPong := now\<rparr>)"

text \<open>\<open>handleReqWorkConn\<close>: \<open>start\<close> is the name in the answer to the new work connection, or nothing when it could
  not be opened, written, read, or had an error. The result says whether a proxy takes the connection.\<close>

definition handleReqWorkConn :: "string option \<Rightarrow> ('p, 'c, 'v) client_control \<Rightarrow> bool" where
  "handleReqWorkConn start c = (case start of None \<Rightarrow> False | Some name \<Rightarrow> HandleWorkConn name (cn_pm c))"

text \<open>A heartbeat; \<open>eof\<close> is the choice of the dispatcher. The check of the timeout closes the session.\<close>

definition sendHeartBeat :: "bool \<Rightarrow> ('p, 'c, 'v) client_control \<Rightarrow> ('p, 'c, 'v) client_control option" where
  "sendHeartBeat eof c =
     (case disp_Send eof CtlPing (cn_disp c) of None \<Rightarrow> None | Some (_, d) \<Rightarrow> Some (c\<lparr>cn_disp := d\<rparr>))"

definition checkHeartbeat :: "heartbeat_config \<Rightarrow> int \<Rightarrow> ('p, 'c, 'v) client_control \<Rightarrow> ('p, 'c, 'v) client_control" where
  "checkHeartbeat hb now c =
     (if 0 < hb_interval hb \<and> 0 < hb_timeout hb \<and> hb_timeout hb * second_ns < now - cn_lastPong c
      then closeSession c else c)"

text \<open>The managers of the control follow the configuration.\<close>

definition ctl_UpdateAllConfigurer ::
  "('c \<Rightarrow> string) \<Rightarrow> ('c \<Rightarrow> 'v option) \<Rightarrow> string list \<Rightarrow> string list \<Rightarrow> 'p proxy_config list \<Rightarrow> 'c list \<Rightarrow>
   ('p, 'c, 'v) client_control \<Rightarrow> ('p, 'c, 'v) client_control" where
  "ctl_UpdateAllConfigurer vname start vorder order proxyCfgs visitorCfgs c =
     (let c1 = c\<lparr>cn_vm := vis_UpdateAll vname start vorder visitorCfgs (cn_vm c)\<rparr> in
      case UpdateAll order proxyCfgs (cn_pm c1) of (ms, pm) \<Rightarrow> emit ms (c1\<lparr>cn_pm := pm\<rparr>))"

text \<open>\<open>pm.Close\<close>.\<close>

definition close_proxies :: "string list \<Rightarrow> ('p, 'c, 'v) client_control \<Rightarrow> ('p, 'c, 'v) client_control" where
  "close_proxies order c = (case pxys_Close order (cn_pm c) of (ms, pm) \<Rightarrow> emit ms (c\<lparr>cn_pm := pm\<rparr>))"

text \<open>\<open>GracefulClose\<close>: the proxies, and when their messages are written the visitors and, after the pause, the session.\<close>

definition graceful_begin :: "string list \<Rightarrow> ('p, 'c, 'v) client_control \<Rightarrow> ('p, 'c, 'v) client_control" where
  "graceful_begin order c = (close_proxies order c)\<lparr>cn_graceful := True\<rparr>"

definition graceful_end :: "('p, 'c, 'v) client_control \<Rightarrow> ('p, 'c, 'v) client_control" where
  "graceful_end c = closeSession (c\<lparr>cn_vmClosed := True\<rparr>)"

text \<open>The worker, once the dispatcher is done: it closes the session and the proxies; when the messages of
  the proxies are written, the visitors, and then \<open>doneCh\<close>.\<close>

definition worker_exit :: "string list \<Rightarrow> ('p, 'c, 'v) client_control \<Rightarrow> ('p, 'c, 'v) client_control option" where
  "worker_exit order c =
     (if cn_stage c = Serving \<and> dp_doneCh (cn_disp c) \<and> cn_pending c = []
      then Some (close_proxies order (closeSession (c\<lparr>cn_stage := Leaving\<rparr>))) else None)"

definition worker_done :: "('p, 'c, 'v) client_control \<Rightarrow> ('p, 'c, 'v) client_control option" where
  "worker_done c =
     (if cn_stage c = Leaving \<and> cn_pending c = [] then Some (c\<lparr>cn_vmClosed := True, cn_stage := Exited\<rparr>) else None)"

section \<open>Steps\<close>

datatype ('p, 'c) ctl_event =
    EResp int "string option" string string string
  | EPong int string
  | EWorker string int
  | EMonitor string bool
  | EPing bool
  | ETimeout int
  | EReload "string list" "string list" "'p proxy_config list" "'c list"
  | EGraceful "string list"
  | EGracefulEnd
  | EPut
  | EWrite
  | ESendExit
  | EReadFail
  | EExit "string list"
  | EDone

text \<open>The answers of the server are handled as long as the dispatcher reads; a failing read ends it, and once the
  connection is closed every read fails. What touches the proxies needs the lock.\<close>

definition reading :: "('p, 'c, 'v) client_control \<Rightarrow> bool" where
  "reading c \<longleftrightarrow> \<not> dp_doneCh (cn_disp c) \<and> cn_connOpen c"

definition locked :: "('p, 'c, 'v) client_control \<Rightarrow> bool" where
  "locked c \<longleftrightarrow> cn_pending c \<noteq> []"

definition on_wrapper :: "string \<Rightarrow> ('p wrapper \<Rightarrow> client_msg list \<times> 'p wrapper) \<Rightarrow> ('p, 'c, 'v) client_control \<Rightarrow> ('p, 'c, 'v) client_control" where
  "on_wrapper name f c =
     (case cn_pm c name of
        None \<Rightarrow> c | Some pw \<Rightarrow> (case f pw of (ms, pw') \<Rightarrow> emit ms (c\<lparr>cn_pm := (cn_pm c)(name \<mapsto> pw')\<rparr>)))"

fun ctl_step ::
  "heartbeat_config \<Rightarrow> ('c \<Rightarrow> string) \<Rightarrow> ('c \<Rightarrow> 'v option) \<Rightarrow> ('p, 'c, 'v) client_control \<Rightarrow> ('p, 'c) ctl_event \<Rightarrow> ('p, 'c, 'v) client_control option" where
  "ctl_step hb vname start c (EResp now run name addr err) =
     (if reading c \<and> \<not> locked c then Some (handleNewProxyResp now run name addr err c) else None)"
| "ctl_step hb vname start c (EPong now err) = (if reading c then Some (handlePong now err c) else None)"
| "ctl_step hb vname start c (EWorker name now) = (if locked c then None else Some (on_wrapper name (wrapper_check now) c))"
| "ctl_step hb vname start c (EMonitor name ok) = (if locked c then None else Some (on_wrapper name (\<lambda>pw. ([], wrapper_monitor ok pw)) c))"
| "ctl_step hb vname start c (EPing eof) = (if cn_stage c = Exited \<or> hb_interval hb \<le> 0 then None else sendHeartBeat eof c)"
| "ctl_step hb vname start c (ETimeout now) = (if cn_stage c = Exited then None else Some (checkHeartbeat hb now c))"
| "ctl_step hb vname start c (EReload vorder order ps vs) =
     (if locked c then None else Some (ctl_UpdateAllConfigurer vname start vorder order ps vs c))"
| "ctl_step hb vname start c (EGraceful order) = (if locked c then None else Some (graceful_begin order c))"
| "ctl_step hb vname start c EGracefulEnd = (if cn_graceful c \<and> \<not> locked c then Some (graceful_end c) else None)"
| "ctl_step hb vname start c EPut = put_pending c"
| "ctl_step hb vname start c EWrite = Some (c\<lparr>cn_disp := sendLoop_write (cn_disp c)\<rparr>)"
| "ctl_step hb vname start c ESendExit = Some (c\<lparr>cn_disp := sendLoop_exit (cn_disp c)\<rparr>)"
| "ctl_step hb vname start c EReadFail = Some (c\<lparr>cn_disp := readLoop_fail (cn_disp c)\<rparr>)"
| "ctl_step hb vname start c (EExit order) = worker_exit order c"
| "ctl_step hb vname start c EDone = worker_done c"

fun ctl_run ::
  "heartbeat_config \<Rightarrow> ('c \<Rightarrow> string) \<Rightarrow> ('c \<Rightarrow> 'v option) \<Rightarrow> ('p, 'c, 'v) client_control \<Rightarrow> ('p, 'c) ctl_event list \<Rightarrow> ('p, 'c, 'v) client_control option" where
  "ctl_run hb vname start c [] = Some c"
| "ctl_run hb vname start c (ev # evs) =
     (case ctl_step hb vname start c ev of None \<Rightarrow> None | Some c' \<Rightarrow> ctl_run hb vname start c' evs)"


lemmas session_defs = emit_def closeSession_def handleNewProxyResp_def handlePong_def sendHeartBeat_def checkHeartbeat_def
  ctl_UpdateAllConfigurer_def close_proxies_def graceful_begin_def graceful_end_def worker_exit_def worker_done_def put_pending_def
  on_wrapper_def Let_def

section \<open>Heartbeats\<close>

text \<open>What of a run bears on the connection: the answers to heartbeats, the checks, and the ends of the session.\<close>

fun stays_open :: "heartbeat_config \<Rightarrow> int \<Rightarrow> ('p, 'c) ctl_event list \<Rightarrow> bool" where
  "stays_open hb pong [] = True"
| "stays_open hb pong (EPong now err # evs) = (err = [] \<and> stays_open hb now evs)"
| "stays_open hb pong (ETimeout now # evs) =
     ((0 < hb_interval hb \<and> 0 < hb_timeout hb \<longrightarrow> now - pong \<le> hb_timeout hb * second_ns) \<and> stays_open hb pong evs)"
| "stays_open hb pong (EExit order # evs) = False"
| "stays_open hb pong (EGracefulEnd # evs) = False"
| "stays_open hb pong (ev # evs) = stays_open hb pong evs"

lemma conn_closed_stays:
  "ctl_step hb vname start c ev = Some c' \<Longrightarrow> \<not> cn_connOpen c \<Longrightarrow> \<not> cn_connOpen c'"
  by (cases ev) (auto simp: session_defs split: if_splits option.splits prod.splits list.splits)

lemma conn_closed_run: "ctl_run hb vname start c evs = Some c' \<Longrightarrow> \<not> cn_connOpen c \<Longrightarrow> \<not> cn_connOpen c'"
  by (induction evs arbitrary: c) (auto split: option.splits dest: conn_closed_stays)

text \<open>The other events leave the connection and the time of the last answer alone.\<close>

fun conn_event :: "('p, 'c) ctl_event \<Rightarrow> bool" where
  "conn_event (EPong _ _) = True"
| "conn_event (ETimeout _) = True"
| "conn_event (EExit _) = True"
| "conn_event EGracefulEnd = True"
| "conn_event _ = False"

lemma other_event:
  assumes "ctl_step hb vname start c ev = Some c'" and "\<not> conn_event ev"
  shows "cn_connOpen c' = cn_connOpen c \<and> cn_lastPong c' = cn_lastPong c"
  using assms by (cases ev) (auto simp: session_defs split: if_splits option.splits prod.splits list.splits)

lemma stays_open_other: "\<not> conn_event ev \<Longrightarrow> stays_open hb pong (ev # evs) = stays_open hb pong evs"
  by (cases ev) simp_all

text \<open>C17: The connection of a session is given up exactly when it should be. In every run from an open connection
  it is still open at the end just if no answer to a heartbeat had an error, at every check the last
  answer was not longer ago than the timeout, and the session was ended neither by the dispatcher nor by
  a graceful close; nothing else closes it, and once closed it stays so.\<close>

theorem heartbeat_decides:
  assumes "ctl_run hb vname start c evs = Some c'" and "cn_connOpen c"
  shows "cn_connOpen c' \<longleftrightarrow> stays_open hb (cn_lastPong c) evs"
  using assms
proof (induction evs arbitrary: c)
  case (Cons ev evs)
  obtain d where d: "ctl_step hb vname start c ev = Some d" "ctl_run hb vname start d evs = Some c'"
    using Cons.prems(1) by (auto split: option.splits)
  note closed = conn_closed_run [OF d(2)]
  show ?case
  proof (cases "conn_event ev")
    case False
    then show ?thesis using Cons.IH [OF d(2)] Cons.prems(2) other_event [OF d(1) False] by (simp add: stays_open_other)
  next
    case True
    then consider (pong) now err where "ev = EPong now err" | (timeout) now where "ev = ETimeout now"
      | (exit) order where "ev = EExit order" | (graceful) "ev = EGracefulEnd" by (cases ev) simp_all
    then show ?thesis
    proof cases
      case pong
      then show ?thesis using Cons.IH [OF d(2)] Cons.prems(2) closed d(1) by (cases "err = []") (auto simp: session_defs split: if_splits)
    next
      case timeout
      then show ?thesis using Cons.IH [OF d(2)] Cons.prems(2) closed d(1) by (auto simp: session_defs split: if_splits)
    next
      case exit
      then show ?thesis using closed d(1) by (auto simp: session_defs split: if_splits prod.splits)
    next
      case graceful
      then show ?thesis using closed d(1) by (auto simp: session_defs split: if_splits)
    qed
  qed
qed simp

theorem heartbeat_decides_witness:
  "\<not> cn_connOpen (the (ctl_run \<lparr>hb_interval = 30, hb_timeout = 90\<rparr> (\<lambda>c. c) (\<lambda>_. None) (NewControl_c 0 :: (unit, string, unit) client_control)
     [EPing False, EPong (10 * second_ns) [], ETimeout (60 * second_ns), ETimeout (101 * second_ns)]))"
proof -
  let ?hb = "\<lparr>hb_interval = 30, hb_timeout = 90\<rparr>" and ?c = "NewControl_c 0 :: (unit, string, unit) client_control"
  let ?evs = "[EPing False, EPong (10 * second_ns) [], ETimeout (60 * second_ns), ETimeout (101 * second_ns)] :: (unit, string) ctl_event list"
  obtain c' where "ctl_run ?hb (\<lambda>c. c) (\<lambda>_. None) ?c ?evs = Some c'"
    by (simp add: session_defs NewControl_c_def NewDispatcher_def disp_Send_def sendCap_def reading_def second_ns_def)
  moreover have "cn_connOpen ?c" by (simp add: NewControl_c_def)
  ultimately show ?thesis
    using heartbeat_decides [of ?hb "\<lambda>c. c" "\<lambda>_. None" ?c ?evs c'] by (simp add: NewControl_c_def second_ns_def)
qed

section \<open>The end of a session\<close>





















end
