(* ===== verification/Client_Service.thy ===== *)
theory Client_Service
  imports Client_Control
begin

text \<open>
  The service of the client, \<open>client/service.go\<close>: logging in, the session that follows, reloading the configuration
  and stopping. The service holds the configuration and the current control; a login reads the
  configuration, starts a new control with it and installs the control afterwards, and a reload stores the new
  configuration and then passes it to the control that is installed at that time. These are separate
  steps, because the code takes the two locks one after the other; a login that is under way when the service
  stops can still succeed. The steps are a labelled relation; the
  order in which a table is walked is any list of its names.
\<close>

section \<open>State and steps\<close>

text \<open>\<open>LoggingIn\<close> has the flag \<open>firstLoginExit\<close>; \<open>Working\<close> is the wait for the control to be done.\<close>

datatype svc_phase = LoggingIn bool | Installing | Working | GivenUp

record ('p, 'c, 'v) service =
  sv_ctl :: "('p, 'c, 'v) client_control option"
  sv_runID :: string
  sv_proxyCfgs :: "'p proxy_config list"
  sv_visitorCfgs :: "'c list"
  sv_phase :: svc_phase
  sv_new :: "('p, 'c, 'v) client_control option"
  sv_reloads :: "('p proxy_config list \<times> 'c list) list"
  sv_cancelled :: bool
  sv_stopped :: bool

definition NewService :: "'p proxy_config list \<Rightarrow> 'c list \<Rightarrow> bool \<Rightarrow> ('p, 'c, 'v) service" where
  "NewService ps vs loginFailExit = \<lparr>sv_ctl = None, sv_runID = [], sv_proxyCfgs = ps, sv_visitorCfgs = vs,
     sv_phase = LoggingIn loginFailExit, sv_new = None, sv_reloads = [], sv_cancelled = False, sv_stopped = False\<rparr>"

text \<open>\<open>Run\<close> of a control: the proxies, then the visitors. Its table is empty, so nothing is walked.\<close>

definition ctl_Run ::
  "('c \<Rightarrow> string) \<Rightarrow> ('c \<Rightarrow> 'v option) \<Rightarrow> 'p proxy_config list \<Rightarrow> 'c list \<Rightarrow> ('p, 'c, 'v) client_control \<Rightarrow> ('p, 'c, 'v) client_control" where
  "ctl_Run vname start ps vs c =
     (case UpdateAll [] ps (cn_pm c) of
        (ms, pm) \<Rightarrow> (let c1 = emit ms (c\<lparr>cn_pm := pm\<rparr>) in c1\<lparr>cn_vm := vis_UpdateAll vname start [] vs (cn_vm c1)\<rparr>))"

text \<open>\<open>loginFunc\<close>: the login fails, or succeeds with the answer \<open>rid\<close>, and then the control is installed. The control
  cannot be made when there is no cipher; the attempt has then failed as well.\<close>

definition login_failed :: "('p, 'c, 'v) service \<Rightarrow> ('p, 'c, 'v) service" where
  "login_failed s = (let s1 = (if sv_phase s = LoggingIn True then s\<lparr>sv_cancelled := True\<rparr> else s)
     in if sv_cancelled s1 then s1\<lparr>sv_phase := GivenUp\<rparr> else s1)"

definition login_no_control :: "string \<Rightarrow> ('p, 'c, 'v) service \<Rightarrow> ('p, 'c, 'v) service" where
  "login_no_control rid s = s\<lparr>sv_runID := rid, sv_phase := (if sv_cancelled s then GivenUp else sv_phase s)\<rparr>"

definition login_ok :: "('c \<Rightarrow> string) \<Rightarrow> ('c \<Rightarrow> 'v option) \<Rightarrow> int \<Rightarrow> string \<Rightarrow> ('p, 'c, 'v) service \<Rightarrow> ('p, 'c, 'v) service" where
  "login_ok vname start now rid s = s\<lparr>sv_runID := rid, sv_phase := Installing,
     sv_new := Some (ctl_Run vname start (sv_proxyCfgs s) (sv_visitorCfgs s) (NewControl_c now))\<rparr>"

definition install :: "('p, 'c, 'v) service \<Rightarrow> ('p, 'c, 'v) service" where
  "install s = s\<lparr>sv_ctl := sv_new s, sv_new := None, sv_phase := Working\<rparr>"

text \<open>\<open>UpdateAllConfigurer\<close>, in its two parts.\<close>

definition reload_store :: "'p proxy_config list \<Rightarrow> 'c list \<Rightarrow> ('p, 'c, 'v) service \<Rightarrow> ('p, 'c, 'v) service" where
  "reload_store ps vs s = s\<lparr>sv_proxyCfgs := ps, sv_visitorCfgs := vs, sv_reloads := sv_reloads s @ [(ps, vs)]\<rparr>"

definition reload_done :: "nat \<Rightarrow> ('p, 'c, 'v) client_control option \<Rightarrow> ('p, 'c, 'v) service \<Rightarrow> ('p, 'c, 'v) service" where
  "reload_done i ctl s = s\<lparr>sv_ctl := ctl, sv_reloads := take i (sv_reloads s) @ drop (Suc i) (sv_reloads s)\<rparr>"

text \<open>The walk of an event is over the names of the table.\<close>

fun walk_ok :: "('p, 'c) ctl_event \<Rightarrow> ('p, 'c, 'v) client_control \<Rightarrow> bool" where
  "walk_ok (EReload vorder order ps vs) c \<longleftrightarrow> set order = dom (cn_pm c) \<and> distinct order"
| "walk_ok (EGraceful order) c \<longleftrightarrow> set order = dom (cn_pm c) \<and> distinct order"
| "walk_ok (EExit order) c \<longleftrightarrow> set order = dom (cn_pm c) \<and> distinct order"
| "walk_ok ev c \<longleftrightarrow> True"

text \<open>Events of a control that come from the service are not events of its own.\<close>

fun own_event :: "('p, 'c) ctl_event \<Rightarrow> bool" where
  "own_event (EReload _ _ _ _) = False"
| "own_event (EGraceful _) = False"
| "own_event ev = True"

datatype ('p, 'c) svc_event =
    LoginFailed | LoginNoControl string | LoginOk int string | Install | Relogin | Store "'p proxy_config list" "'c list" | Apply nat
  | Ctl "('p, 'c) ctl_event" | NewCtl "('p, 'c) ctl_event" | Cancelled | Stop

inductive svc_step ::
  "heartbeat_config \<Rightarrow> ('c \<Rightarrow> string) \<Rightarrow> ('c \<Rightarrow> 'v option) \<Rightarrow> ('p, 'c, 'v) service \<Rightarrow> ('p, 'c) svc_event \<Rightarrow> ('p, 'c, 'v) service \<Rightarrow> bool"
  for hb vname start where
  failed: "sv_phase s = LoggingIn first \<Longrightarrow> svc_step hb vname start s LoginFailed (login_failed s)"
| no_control: "sv_phase s = LoggingIn first \<Longrightarrow> svc_step hb vname start s (LoginNoControl rid) (login_no_control rid s)"
| login: "sv_phase s = LoggingIn first \<Longrightarrow> svc_step hb vname start s (LoginOk now rid) (login_ok vname start now rid s)"
| install_first: "sv_phase s = Installing \<Longrightarrow> sv_ctl s = None \<Longrightarrow> svc_step hb vname start s Install (install s)"
| install_next: "sv_phase s = Installing \<Longrightarrow> sv_ctl s = Some old \<Longrightarrow> walk_ok (EGraceful order) old \<Longrightarrow>
    ctl_step hb vname start old (EGraceful order) = Some old' \<Longrightarrow> svc_step hb vname start s Install (install s)"
| relogin: "sv_phase s = Working \<Longrightarrow> sv_ctl s = Some c \<Longrightarrow> cn_stage c = Exited \<Longrightarrow>
    svc_step hb vname start s Relogin (s\<lparr>sv_phase := LoggingIn False\<rparr>)"
| store: "svc_step hb vname start s (Store ps vs) (reload_store ps vs s)"
| apply_none: "i < length (sv_reloads s) \<Longrightarrow> sv_ctl s = None \<Longrightarrow> svc_step hb vname start s (Apply i) (reload_done i None s)"
| apply_ctl: "i < length (sv_reloads s) \<Longrightarrow> sv_reloads s ! i = (ps, vs) \<Longrightarrow> sv_ctl s = Some c \<Longrightarrow> ev = EReload vorder order ps vs \<Longrightarrow>
    walk_ok ev c \<Longrightarrow> ctl_step hb vname start c ev = Some c' \<Longrightarrow> svc_step hb vname start s (Apply i) (reload_done i (Some c') s)"
| ctl: "sv_ctl s = Some c \<Longrightarrow> own_event ev \<Longrightarrow> walk_ok ev c \<Longrightarrow> ctl_step hb vname start c ev = Some c' \<Longrightarrow>
    svc_step hb vname start s (Ctl ev) (s\<lparr>sv_ctl := Some c'\<rparr>)"
| new_ctl: "sv_new s = Some c \<Longrightarrow> own_event ev \<Longrightarrow> walk_ok ev c \<Longrightarrow> ctl_step hb vname start c ev = Some c' \<Longrightarrow>
    svc_step hb vname start s (NewCtl ev) (s\<lparr>sv_new := Some c'\<rparr>)"
| cancel: "svc_step hb vname start s Cancelled (s\<lparr>sv_cancelled := True\<rparr>)"
| stop: "sv_cancelled s \<Longrightarrow> \<not> sv_stopped s \<Longrightarrow> sv_ctl s = Some c \<Longrightarrow> walk_ok (EGraceful order) c \<Longrightarrow>
    ctl_step hb vname start c (EGraceful order) = Some c' \<Longrightarrow> svc_step hb vname start s Stop (s\<lparr>sv_ctl := None, sv_stopped := True\<rparr>)"

inductive svc_run ::
  "heartbeat_config \<Rightarrow> ('c \<Rightarrow> string) \<Rightarrow> ('c \<Rightarrow> 'v option) \<Rightarrow> ('p, 'c, 'v) service \<Rightarrow> ('p, 'c) svc_event list \<Rightarrow> ('p, 'c, 'v) service \<Rightarrow> bool"
  for hb vname start where
  run_nil: "svc_run hb vname start s [] s"
| run_step: "svc_run hb vname start s evs t \<Longrightarrow> svc_step hb vname start t ev u \<Longrightarrow> svc_run hb vname start s (evs @ [ev]) u"

section \<open>The configuration that is in force\<close>

text \<open>Reloads that do not overlap with logins and, among each other, are passed on in the order in which they were
  stored: the state says what is under way, for reloads how many besides the first one.\<close>

datatype busy = Idle | Reloading nat | Entering

fun next_busy :: "busy \<Rightarrow> ('p, 'c) svc_event \<Rightarrow> busy option" where
  "next_busy Idle (Store ps vs) = Some (Reloading 0)"
| "next_busy Idle (LoginOk now rid) = Some Entering"
| "next_busy (Reloading k) (Store ps vs) = Some (Reloading (Suc k))"
| "next_busy (Reloading k) (LoginOk now rid) = None"
| "next_busy (Reloading k) (Apply i) =
     (if i \<noteq> 0 then None else (case k of 0 \<Rightarrow> Some Idle | Suc j \<Rightarrow> Some (Reloading j)))"
| "next_busy Entering (Store ps vs) = None"
| "next_busy Entering Install = Some Idle"
| "next_busy b ev = Some b"

definition serial :: "('p, 'c) svc_event list \<Rightarrow> busy option" where
  "serial evs = foldl (\<lambda>b ev. Option.bind b (\<lambda>b. next_busy b ev)) (Some Idle) evs"

fun cfgs_distinct :: "('p, 'c) svc_event \<Rightarrow> bool" where
  "cfgs_distinct (Store ps vs) = distinct (map cfg_name ps)"
| "cfgs_distinct ev = True"

text \<open>The control runs the configuration, unless it is being closed.\<close>

definition in_force :: "'p proxy_config list \<Rightarrow> ('p, 'c, 'v) client_control \<Rightarrow> bool" where
  "in_force ps c \<longleftrightarrow> (cn_stage c = Serving \<and> \<not> cn_graceful c \<longrightarrow> (\<forall>n. map_option ws_Cfg (cn_pm c n) = key_by cfg_name ps n))"

lemma wrapper_cfg_kept:
  "ws_Cfg (snd (wrapper_check now pw)) = ws_Cfg pw" "ws_Name (snd (wrapper_check now pw)) = ws_Name pw"
  "ws_Cfg (snd (snd (SetRunningStatus now run addr err pw))) = ws_Cfg pw"
  "ws_Name (snd (snd (SetRunningStatus now run addr err pw))) = ws_Name pw"
  using wrapper_step_identity [of "WCheck now" pw] wrapper_step_identity [of "WResp now run addr err" pw] by simp_all

lemma same_config:
  assumes "pm n = Some pw" and "ws_Cfg pw' = ws_Cfg pw" and "ws_Name pw' = ws_Name pw"
  shows "pxys_ok (pm(n \<mapsto> pw')) = pxys_ok pm" "map_option ws_Cfg ((pm(n \<mapsto> pw')) m) = map_option ws_Cfg (pm m)"
proof -
  have "(\<forall>pw. (pm(n \<mapsto> pw')) k = Some pw \<longrightarrow> ws_Name pw = k \<and> cfg_name (ws_Cfg pw) = k) \<longleftrightarrow>
    (\<forall>pw. pm k = Some pw \<longrightarrow> ws_Name pw = k \<and> cfg_name (ws_Cfg pw) = k)" for k
    by (cases "k = n") (simp_all add: assms)
  then show "pxys_ok (pm(n \<mapsto> pw')) = pxys_ok pm" by (simp only: pxys_ok_def)
  show "map_option ws_Cfg ((pm(n \<mapsto> pw')) m) = map_option ws_Cfg (pm m)" by (simp add: assms)
qed

lemma on_wrapper_keeps:
  assumes "\<And>pw. ws_Cfg (snd (f pw)) = ws_Cfg pw \<and> ws_Name (snd (f pw)) = ws_Name pw"
  shows "pxys_ok (cn_pm (on_wrapper name f c)) = pxys_ok (cn_pm c) \<and> in_force ps (on_wrapper name f c) = in_force ps c"
proof (cases "cn_pm c name")
  case (Some pw)
  have a: "ws_Cfg (snd (f pw)) = ws_Cfg pw" "ws_Name (snd (f pw)) = ws_Name pw" using assms by simp_all
  show ?thesis
    using Some same_config [where pm = "cn_pm c", OF Some a]
    by (simp add: on_wrapper_def emit_def in_force_def split_beta del: fun_upd_apply)
qed (simp add: on_wrapper_def)

lemma handleNewProxyResp_on_wrapper:
  "handleNewProxyResp now run name addr err c = on_wrapper name (\<lambda>pw. snd (SetRunningStatus now run addr err pw)) c"
  by (auto simp: handleNewProxyResp_def on_wrapper_def StartProxy_def emit_def split: option.splits prod.splits)

text \<open>An event of the control itself keeps the configurations of its proxies, or it closes them all.\<close>

lemma own_event_keeps:
  assumes "ctl_step hb vname start c ev = Some c'" and "own_event ev" and "pxys_ok (cn_pm c)"
  shows "pxys_ok (cn_pm c')" "in_force ps c \<Longrightarrow> in_force ps c'"
proof -
  have "pxys_ok (cn_pm c') \<and> (in_force ps c \<longrightarrow> in_force ps c')"
  proof (cases ev)
    case (EResp now run name addr err)
    then show ?thesis
      using assms on_wrapper_keeps [where f = "\<lambda>pw. snd (SetRunningStatus now run addr err pw)" and name = name and c = c and ps = ps]
      by (auto simp: wrapper_cfg_kept handleNewProxyResp_on_wrapper split: if_splits)
  next
    case (EWorker name now)
    then show ?thesis
      using assms on_wrapper_keeps [where f = "wrapper_check now" and name = name and c = c and ps = ps] by (auto simp: wrapper_cfg_kept split: if_splits)
  next
    case (EMonitor name ok)
    then show ?thesis
      using assms on_wrapper_keeps [where f = "\<lambda>pw. ([], wrapper_monitor ok pw)" and name = name and c = c and ps = ps] by (auto split: if_splits)
  next
    case (EExit order)
    then show ?thesis
      using assms by (auto simp: in_force_def session_defs pxys_Close_def pxys_ok_def split: if_splits)
  qed (use assms in \<open>auto simp: in_force_def session_defs split: if_splits option.splits prod.splits list.splits\<close>)
  then show "pxys_ok (cn_pm c')" "in_force ps c \<Longrightarrow> in_force ps c'" by simp_all
qed

text \<open>A reload and a new control put the configuration in force.\<close>

lemma reload_in_force:
  assumes "ctl_step hb vname start c (EReload vorder order ps vs) = Some c'" and "walk_ok (EReload vorder order ps vs) c"
    and "pxys_ok (cn_pm c)" and "distinct (map cfg_name ps)"
  shows "pxys_ok (cn_pm c')" "in_force ps c'"
proof -
  have o: "set order = dom (cn_pm c)" "distinct order" using assms(2) by simp_all
  have "cn_pm c' = snd (UpdateAll order ps (cn_pm c))"
    using assms(1) by (auto simp: ctl_UpdateAllConfigurer_def emit_def split_beta split: if_splits)
  then show "pxys_ok (cn_pm c')" "in_force ps c'"
    using UpdateAll_ok [OF assms(3) o assms(4)] proxy_sync.sync_configs [OF assms(3) o assms(4)] by (simp_all add: in_force_def)
qed

lemma ctl_Run_in_force:
  assumes "distinct (map cfg_name ps)"
  shows "pxys_ok (cn_pm (ctl_Run vname start ps vs (NewControl_c now)))" "in_force ps (ctl_Run vname start ps vs (NewControl_c now))"
proof -
  have e: "pxys_ok Map.empty" "set [] = dom (Map.empty :: 'a proxies)" "distinct []" by (simp_all add: pxys_ok_def)
  have "cn_pm (ctl_Run vname start ps vs (NewControl_c now)) = snd (UpdateAll [] ps Map.empty)"
    by (simp add: ctl_Run_def NewControl_c_def emit_def split_beta Let_def)
  then show "pxys_ok (cn_pm (ctl_Run vname start ps vs (NewControl_c now)))" "in_force ps (ctl_Run vname start ps vs (NewControl_c now))"
    using UpdateAll_ok [OF e assms] proxy_sync.sync_configs [OF e assms] by (simp_all add: in_force_def)
qed

text \<open>The invariant of the service, for what is under way.\<close>

definition cfg_ok :: "'p proxy_config list \<Rightarrow> ('p, 'c, 'v) client_control option \<Rightarrow> bool" where
  "cfg_ok ps ctl \<longleftrightarrow> (case ctl of None \<Rightarrow> True | Some c \<Rightarrow> pxys_ok (cn_pm c) \<and> in_force ps c)"

definition ctl_names_ok :: "('p, 'c, 'v) client_control option \<Rightarrow> bool" where
  "ctl_names_ok ctl \<longleftrightarrow> (case ctl of None \<Rightarrow> True | Some c \<Rightarrow> pxys_ok (cn_pm c))"

fun svc_inv :: "busy \<Rightarrow> ('p, 'c, 'v) service \<Rightarrow> bool" where
  "svc_inv Idle s \<longleftrightarrow> sv_new s = None \<and> sv_reloads s = [] \<and> sv_phase s \<noteq> Installing \<and> cfg_ok (sv_proxyCfgs s) (sv_ctl s)"
| "svc_inv (Reloading k) s \<longleftrightarrow> sv_new s = None \<and> sv_phase s \<noteq> Installing \<and> ctl_names_ok (sv_ctl s) \<and> length (sv_reloads s) = Suc k \<and>
     last (sv_reloads s) = (sv_proxyCfgs s, sv_visitorCfgs s) \<and> list_all (\<lambda>r. distinct (map cfg_name (fst r))) (sv_reloads s)"
| "svc_inv Entering s \<longleftrightarrow> sv_phase s = Installing \<and> sv_reloads s = [] \<and> cfg_ok (sv_proxyCfgs s) (sv_new s) \<and> cfg_ok (sv_proxyCfgs s) (sv_ctl s)"

lemma cfg_ok_names: "cfg_ok ps ctl \<Longrightarrow> ctl_names_ok ctl"
  by (simp add: cfg_ok_def ctl_names_ok_def split: option.splits)

lemma cfg_ok_own:
  assumes "ctl_step hb vname start c ev = Some c'" and "own_event ev"
  shows "cfg_ok ps (Some c) \<Longrightarrow> cfg_ok ps (Some c')" "ctl_names_ok (Some c) \<Longrightarrow> ctl_names_ok (Some c')"
  using own_event_keeps [OF assms] by (auto simp: cfg_ok_def ctl_names_ok_def)

lemma svc_inv_own:
  assumes "ctl_step hb vname start c ev = Some c'" and "own_event ev"
  shows "sv_ctl s = Some c \<Longrightarrow> svc_inv b s \<Longrightarrow> svc_inv b (s\<lparr>sv_ctl := Some c'\<rparr>)"
    "sv_new s = Some c \<Longrightarrow> svc_inv b s \<Longrightarrow> svc_inv b (s\<lparr>sv_new := Some c'\<rparr>)"
  by (cases b; simp add: cfg_ok_own [OF assms])+

lemma svc_inv_step:
  assumes "svc_step hb vname start s ev t" and "svc_inv b s" and "distinct (map cfg_name (sv_proxyCfgs s))" and "cfgs_distinct ev"
    and "next_busy b ev = Some b'"
  shows "svc_inv b' t \<and> distinct (map cfg_name (sv_proxyCfgs t))"
  using assms
proof (cases rule: svc_step.cases)
  case (login first now rid)
  then show ?thesis
    using assms by (cases b) (auto simp: login_ok_def cfg_ok_def ctl_Run_in_force)
next
  case (apply_ctl i ps vs c ev' vorder order c')
  obtain k where b: "b = Reloading k" using assms(2) apply_ctl(3) by (cases b) auto
  then have i: "i = 0" using assms(5) apply_ctl(1) by (simp split: if_splits)
  then obtain rs where rs: "sv_reloads s = (ps, vs) # rs" using apply_ctl(3,4) by (cases "sv_reloads s") auto
  have p: "distinct (map cfg_name ps)" "ctl_names_ok (Some c)" using assms(2) b rs apply_ctl(5) by simp_all
  have c': "pxys_ok (cn_pm c')" "in_force ps c'"
    using reload_in_force [of hb vname start c vorder order ps vs c'] apply_ctl(6-8) p by (auto simp: ctl_names_ok_def)
  show ?thesis
    using assms b i rs c' apply_ctl(1,2)
    by (cases rs) (auto simp: reload_done_def cfg_ok_def ctl_names_ok_def split: nat.splits)
next
  case (ctl c ev' c')
  then show ?thesis using assms svc_inv_own(1) [OF ctl(6,4,3) assms(2)] by (cases b) auto
next
  case (new_ctl c ev' c')
  then show ?thesis using assms svc_inv_own(2) [OF new_ctl(6,4,3) assms(2)] by (cases b) auto
next
  case failed
  then show ?thesis using assms by (cases b) (auto simp: login_failed_def Let_def)
next
  case no_control
  then show ?thesis using assms by (cases b) (auto simp: login_no_control_def)
next
  case install_first
  then show ?thesis using assms by (cases b) (auto simp: install_def)
next
  case install_next
  then show ?thesis using assms by (cases b) (auto simp: install_def)
next
  case relogin
  then show ?thesis using assms by (cases b) auto
next
  case store
  then show ?thesis using assms by (cases b) (auto simp: reload_store_def intro: cfg_ok_names)
next
  case (apply_none i)
  then show ?thesis
    using assms by (cases b; cases "sv_reloads s") (auto simp: reload_done_def cfg_ok_def ctl_names_ok_def split: nat.splits if_splits)
next
  case stop
  then show ?thesis using assms by (cases b) (auto simp: cfg_ok_def ctl_names_ok_def)
next
  case cancel
  then show ?thesis using assms by (cases b) auto
qed

lemma serial_snoc: "serial (evs @ [ev]) = Option.bind (serial evs) (\<lambda>b. next_busy b ev)"
  by (simp add: serial_def)

lemma svc_inv_run:
  assumes "svc_run hb vname start s0 evs s" and "serial evs = Some b" and "list_all cfgs_distinct evs"
    and "svc_inv Idle s0" and "distinct (map cfg_name (sv_proxyCfgs s0))"
  shows "svc_inv b s \<and> distinct (map cfg_name (sv_proxyCfgs s))"
  using assms
proof (induction arbitrary: b rule: svc_run.induct)
  case (run_nil s)
  then show ?case by (simp add: serial_def)
next
  case (run_step s evs t ev u)
  obtain b0 where b0: "serial evs = Some b0" "next_busy b0 ev = Some b"
    using run_step.prems(1) by (auto simp: serial_snoc bind_eq_Some_conv)
  have "svc_inv b0 t \<and> distinct (map cfg_name (sv_proxyCfgs t))" using run_step b0 by simp
  then show ?case using svc_inv_step [OF run_step.hyps(2) _ _ _ b0(2)] run_step.prems(2) by simp
qed

lemma NewService_inv: "svc_inv Idle (NewService ps vs first)" "sv_proxyCfgs (NewService ps vs first) = ps"
  by (simp_all add: NewService_def cfg_ok_def)

text \<open>C14: The configuration of the service is in force. Through logins, lost sessions, reconnections and reloads, as
  long as no reload overlaps with a login and reloads that overlap with each other are passed to the control in the
  order in which the service stored them, a session that serves and is not being closed has, once no reload or login
  is under way, exactly one proxy for each configuration that was loaded last, and no other. The names within one
  configuration are distinct. Neither of the two conditions can be dropped: a reload that falls into a login is
  lost, and of two reloads that overtake each other the older one stays in force.\<close>

theorem config_in_force:
  assumes "svc_run hb vname start (NewService ps vs first) evs s" and "serial evs = Some Idle" and "list_all cfgs_distinct evs"
    and "distinct (map cfg_name ps)" and "sv_ctl s = Some c" and "cn_stage c = Serving" and "\<not> cn_graceful c"
  shows "(\<exists>pw. cn_pm c n = Some pw \<and> ws_Cfg pw = cfg) \<longleftrightarrow> cfg \<in> set (sv_proxyCfgs s) \<and> cfg_name cfg = n"
proof -
  have i: "svc_inv Idle s" and d: "distinct (map cfg_name (sv_proxyCfgs s))" 
    using svc_inv_run [OF assms(1-3) NewService_inv(1)] assms(4) by (simp_all add: NewService_inv(2))
  then have "map_option ws_Cfg (cn_pm c n) = key_by cfg_name (sv_proxyCfgs s) n" using assms(5-7) by (simp add: cfg_ok_def in_force_def)
  then show ?thesis using key_by_distinct [OF d, of n cfg] by (cases "cn_pm c n") auto
qed

text \<open>A session that starts with no proxies; then one is loaded.\<close>

definition demo_hb :: heartbeat_config where
  "demo_hb = \<lparr>hb_interval = 30, hb_timeout = 90\<rparr>"

definition demo_service :: "(unit, string, unit) service" where
  "demo_service = NewService [] [] False"

definition demo_entered :: "(unit, string, unit) service" where
  "demo_entered = login_ok (\<lambda>c. c) (\<lambda>_. None) 0 ''id'' demo_service"

lemmas demo_defs = demo_hb_def demo_service_def demo_entered_def NewService_def NewControl_c_def login_ok_def install_def reload_store_def reload_done_def
  ctl_Run_def UpdateAll_def vis_UpdateAll_def key_by_def emit_def locked_def ctl_UpdateAllConfigurer_def Let_def

lemma demo_run_login: "svc_run demo_hb (\<lambda>c. c) (\<lambda>_. None) demo_service [LoginOk 0 ''id''] demo_entered"
  using run_step [OF run_nil login [of demo_service False demo_hb "\<lambda>c. c" "\<lambda>_. None" 0 "''id''"]] by (simp add: demo_defs)

definition demo_control :: "(unit, string, unit) client_control" where
  "demo_control = ctl_Run (\<lambda>c. c) (\<lambda>_. None) [] [] (NewControl_c 0)"

lemma demo_control_empty: "cn_pm demo_control = Map.empty" "cn_pending demo_control = []" "cn_stage demo_control = Serving" "\<not> cn_graceful demo_control"
  by (simp_all add: demo_control_def demo_defs)

definition demo_loaded :: "(unit, string, unit) client_control" where
  "demo_loaded = ctl_UpdateAllConfigurer (\<lambda>c. c) (\<lambda>_. None) [] [] [tcp_demo] [] demo_control"

lemma demo_loaded_stage: "cn_stage demo_loaded = Serving" "\<not> cn_graceful demo_loaded"
  by (simp_all add: demo_loaded_def ctl_UpdateAllConfigurer_def emit_def Let_def split_beta demo_control_empty)

lemma demo_apply:
  assumes "sv_ctl s = Some demo_control" and "sv_reloads s = [([tcp_demo], [])]"
  shows "svc_step demo_hb (\<lambda>c. c) (\<lambda>_. None) s (Apply 0) (reload_done 0 (Some demo_loaded) s)"
  by (rule apply_ctl [where vorder = "[]" and order = "[]", OF _ _ assms(1) refl])
     (use assms in \<open>simp_all add: demo_control_empty locked_def demo_loaded_def\<close>)

theorem config_in_force_witness:
  "\<exists>s c pw. svc_run demo_hb (\<lambda>c. c) (\<lambda>_. None) demo_service [LoginOk 0 ''id'', Install, Store [tcp_demo] [], Apply 0] s \<and>
     sv_ctl s = Some c \<and> cn_pm c ''ssh'' = Some pw \<and> ws_Cfg pw = tcp_demo"
proof -
  let ?s2 = "install demo_entered" let ?s3 = "reload_store [tcp_demo] [] ?s2" let ?s4 = "reload_done 0 (Some demo_loaded) ?s3"
  let ?evs = "[LoginOk 0 ''id'', Install, Store [tcp_demo] [], Apply 0] :: (unit, string) svc_event list"
  have l: "sv_new demo_entered = Some demo_control" "sv_ctl demo_entered = None" "sv_phase demo_entered = Installing" "sv_reloads demo_entered = []"
    by (simp_all add: demo_entered_def login_ok_def demo_service_def NewService_def demo_control_def)
  have "svc_run demo_hb (\<lambda>c. c) (\<lambda>_. None) demo_service ([LoginOk 0 ''id''] @ [Install]) ?s2"
    by (rule run_step [OF demo_run_login install_first]) (simp_all add: l)
  from run_step [OF this store] have "svc_run demo_hb (\<lambda>c. c) (\<lambda>_. None) demo_service (([LoginOk 0 ''id''] @ [Install]) @ [Store [tcp_demo] []]) ?s3" .
  from run_step [OF this demo_apply] have r: "svc_run demo_hb (\<lambda>c. c) (\<lambda>_. None) demo_service ?evs ?s4"
    by (simp add: install_def reload_store_def l)
  moreover have "serial ?evs = Some Idle" by (simp add: serial_def)
  moreover have "sv_ctl ?s4 = Some demo_loaded" "sv_proxyCfgs ?s4 = [tcp_demo]" by (simp_all add: reload_done_def reload_store_def)
  moreover have "cfg_name tcp_demo = ''ssh''" by (simp add: cfg_name_def tcp_demo_def)
  ultimately show ?thesis
    using config_in_force [of demo_hb "\<lambda>c. c" "\<lambda>_. None" "[]" "[]" False ?evs ?s4 demo_loaded "''ssh''" tcp_demo] demo_loaded_stage
    unfolding demo_service_def by auto
qed

text \<open>A reload is lost when it falls between a login and the installation of its control: the service stores the new
  configuration, finds no control or the one that has ended, and the session that follows serves with the
  configuration from before the reload, with nothing left to be done.\<close>

theorem reload_lost:
  "\<exists>s c. svc_run demo_hb (\<lambda>c. c) (\<lambda>_. None) demo_service [LoginOk 0 ''id'', Store [tcp_demo] [], Apply 0, Install] s \<and>
     sv_proxyCfgs s = [tcp_demo] \<and> sv_reloads s = [] \<and> sv_new s = None \<and> sv_phase s = Working \<and>
     sv_ctl s = Some c \<and> cn_stage c = Serving \<and> \<not> cn_graceful c \<and> cn_pm c = Map.empty"
proof -
  let ?s2 = "reload_store [tcp_demo] [] demo_entered" let ?s3 = "reload_done 0 None ?s2" let ?s4 = "install ?s3"
  have l: "sv_new demo_entered = Some demo_control" "sv_ctl demo_entered = None" "sv_phase demo_entered = Installing" "sv_reloads demo_entered = []"
    by (simp_all add: demo_entered_def login_ok_def demo_service_def NewService_def demo_control_def)
  have "svc_run demo_hb (\<lambda>c. c) (\<lambda>_. None) demo_service (([LoginOk 0 ''id''] @ [Store [tcp_demo] []]) @ [Apply 0]) ?s3"
    by (rule run_step [OF run_step [OF demo_run_login store] apply_none]) (simp_all add: reload_store_def l)
  from run_step [OF this install_first]
  have "svc_run demo_hb (\<lambda>c. c) (\<lambda>_. None) demo_service [LoginOk 0 ''id'', Store [tcp_demo] [], Apply 0, Install] ?s4"
    by (simp add: reload_store_def reload_done_def l)
  moreover have "sv_ctl ?s4 = Some demo_control" "sv_proxyCfgs ?s4 = [tcp_demo]" "sv_reloads ?s4 = []" "sv_new ?s4 = None" "sv_phase ?s4 = Working"
    by (simp_all add: install_def reload_done_def reload_store_def l)
  ultimately show ?thesis using demo_control_empty by blast
qed

text \<open>Two reloads that overtake each other: the first one has stored its configuration, a second one stores its own and
  passes it on, and then the first one passes on the older one. The session serves with it, although the service
  holds the newer one, and nothing is left to be done.\<close>

lemma demo_reload_nothing:
  "ctl_UpdateAllConfigurer (\<lambda>c. c) (\<lambda>_. None) [] [] [] [] demo_control = demo_control"
  by (simp add: demo_control_def demo_defs)

theorem reloads_overtake:
  "\<exists>s c pw. svc_run demo_hb (\<lambda>c. c) (\<lambda>_. None) demo_service
       [LoginOk 0 ''id'', Install, Store [tcp_demo] [], Store [] [], Apply 1, Apply 0] s \<and>
     sv_proxyCfgs s = [] \<and> sv_reloads s = [] \<and> sv_new s = None \<and> sv_phase s = Working \<and>
     sv_ctl s = Some c \<and> cn_stage c = Serving \<and> \<not> cn_graceful c \<and> cn_pm c ''ssh'' = Some pw"
proof -
  let ?run = "svc_run demo_hb (\<lambda>c. c) (\<lambda>_. None) demo_service"
  define s4 where "s4 = reload_store [] [] (reload_store [tcp_demo] [] (install demo_entered))"
  have l: "sv_new demo_entered = Some demo_control" "sv_ctl demo_entered = None" "sv_phase demo_entered = Installing" "sv_reloads demo_entered = []"
    by (simp_all add: demo_entered_def login_ok_def demo_service_def NewService_def demo_control_def)
  have s4: "sv_ctl s4 = Some demo_control" "sv_reloads s4 = [([tcp_demo], []), ([], [])]" "sv_proxyCfgs s4 = []" "sv_new s4 = None" "sv_phase s4 = Working"
    by (simp_all add: s4_def reload_store_def install_def l)
  let ?s5 = "reload_done 1 (Some demo_control) s4" let ?s6 = "reload_done 0 (Some demo_loaded) ?s5"
  have "?run ([LoginOk 0 ''id''] @ [Install]) (install demo_entered)"
    by (rule run_step [OF demo_run_login install_first]) (simp_all add: l)
  from run_step [OF run_step [OF this store] store]
  have "?run [LoginOk 0 ''id'', Install, Store [tcp_demo] [], Store [] []] s4" by (simp add: s4_def)
  moreover have "svc_step demo_hb (\<lambda>c. c) (\<lambda>_. None) s4 (Apply 1) ?s5"
    by (rule apply_ctl [where vorder = "[]" and order = "[]", OF _ _ s4(1) refl])
      (use demo_reload_nothing in \<open>simp_all add: s4 demo_control_empty locked_def\<close>)
  moreover have "svc_step demo_hb (\<lambda>c. c) (\<lambda>_. None) ?s5 (Apply 0) ?s6"
    by (rule demo_apply) (simp_all add: reload_done_def s4)
  ultimately have "?run (([LoginOk 0 ''id'', Install, Store [tcp_demo] [], Store [] []] @ [Apply 1]) @ [Apply 0]) ?s6"
    by (intro run_step)
  moreover have "sv_ctl ?s6 = Some demo_loaded" "sv_proxyCfgs ?s6 = []" "sv_reloads ?s6 = []" "sv_new ?s6 = None" "sv_phase ?s6 = Working"
    by (simp_all add: reload_done_def s4)
  moreover have "cn_pm demo_loaded ''ssh'' \<noteq> None"
    by (simp add: demo_loaded_def demo_control_def demo_defs cfg_name_def tcp_demo_def)
  ultimately show ?thesis using demo_loaded_stage by (auto simp del: One_nat_def)
qed

text \<open>A service that stops between a login after a lost session and the installation of its control: it has been
  stopped, which happens once, and yet a control serves.\<close>

lemma demo_end:
  assumes "sv_ctl s = Some demo_control" and "svc_run demo_hb (\<lambda>c. c) (\<lambda>_. None) s0 evs s"
  shows "\<exists>e. svc_run demo_hb (\<lambda>c. c) (\<lambda>_. None) s0 (((evs @ [Ctl EReadFail]) @ [Ctl (EExit [])]) @ [Ctl EDone]) (s\<lparr>sv_ctl := Some e\<rparr>) \<and>
     cn_stage e = Exited \<and> cn_pm e = Map.empty \<and> cn_pending e = []"
proof -
  let ?step = "ctl_step demo_hb (\<lambda>c. c) (\<lambda>_. None)" and ?run = "svc_run demo_hb (\<lambda>c. c) (\<lambda>_. None) s0"
  define c1 where "c1 = demo_control\<lparr>cn_disp := readLoop_fail (cn_disp demo_control)\<rparr>"
  define c2 where "c2 = close_proxies [] (closeSession (c1\<lparr>cn_stage := Leaving\<rparr>))"
  define c3 where "c3 = c2\<lparr>cn_vmClosed := True, cn_stage := Exited\<rparr>"
  have e1: "?step demo_control EReadFail = Some c1" by (simp add: c1_def)
  have e2: "?step c1 (EExit []) = Some c2"
    by (simp add: c2_def worker_exit_def) (simp add: c1_def demo_control_empty readLoop_fail_def)
  have p2: "cn_pm c2 = Map.empty" "cn_pending c2 = []" "cn_stage c2 = Leaving"
    by (simp_all add: c2_def c1_def close_proxies_def pxys_Close_def closeSession_def emit_def demo_control_empty)
  have e3: "?step c2 EDone = Some c3" by (simp add: c3_def worker_done_def p2)
  have w: "walk_ok (EExit []) c1" by (simp add: c1_def demo_control_empty)
  have "?run (evs @ [Ctl EReadFail]) (s\<lparr>sv_ctl := Some c1\<rparr>)"
    using run_step [OF assms(2) svc_step.ctl [OF assms(1) _ _ e1]] by simp
  from run_step [OF this svc_step.ctl [OF _ _ w e2]]
  have "?run ((evs @ [Ctl EReadFail]) @ [Ctl (EExit [])]) (s\<lparr>sv_ctl := Some c2\<rparr>)" by simp
  from run_step [OF this svc_step.ctl [OF _ _ _ e3]]
  have "?run (((evs @ [Ctl EReadFail]) @ [Ctl (EExit [])]) @ [Ctl EDone]) (s\<lparr>sv_ctl := Some c3\<rparr>)" by simp
  then show ?thesis using p2 by (intro exI [of _ c3]) (simp add: c3_def)
qed

theorem stop_missed:
  "\<exists>s c. svc_run demo_hb (\<lambda>c. c) (\<lambda>_. None) demo_service
       [LoginOk 0 ''id'', Install, Ctl EReadFail, Ctl (EExit []), Ctl EDone, Relogin, LoginOk 0 ''id'', Cancelled, Stop, Install] s \<and>
     sv_stopped s \<and> sv_ctl s = Some c \<and> cn_stage c = Serving \<and> cn_connOpen c"
proof -
  let ?run = "svc_run demo_hb (\<lambda>c. c) (\<lambda>_. None) demo_service"
  have l: "sv_new demo_entered = Some demo_control" "sv_ctl demo_entered = None" "sv_phase demo_entered = Installing"
     "sv_proxyCfgs demo_entered = []" "sv_visitorCfgs demo_entered = []" "\<not> sv_stopped demo_entered"
    by (simp_all add: demo_entered_def login_ok_def demo_service_def NewService_def demo_control_def)
  let ?s2 = "install demo_entered"
  have "?run ([LoginOk 0 ''id''] @ [Install]) ?s2" by (rule run_step [OF demo_run_login install_first]) (simp_all add: l)
  from demo_end [OF _ this] obtain e where e: "cn_stage e = Exited" "cn_pm e = Map.empty" "cn_pending e = []" and
    r: "?run [LoginOk 0 ''id'', Install, Ctl EReadFail, Ctl (EExit []), Ctl EDone] (?s2\<lparr>sv_ctl := Some e\<rparr>)"
    by (auto simp: install_def l)
  define s4 where "s4 = login_ok (\<lambda>c. c) (\<lambda>_. None) 0 ''id'' (?s2\<lparr>sv_ctl := Some e, sv_phase := LoggingIn False\<rparr>)"
  have s4: "sv_new s4 = Some demo_control" "sv_ctl s4 = Some e" "sv_phase s4 = Installing" "\<not> sv_stopped s4"
    by (simp_all add: s4_def login_ok_def install_def l demo_control_def)
  have "?run ([LoginOk 0 ''id'', Install, Ctl EReadFail, Ctl (EExit []), Ctl EDone] @ [Relogin]) (?s2\<lparr>sv_ctl := Some e, sv_phase := LoggingIn False\<rparr>)"
    using run_step [OF r relogin] e by (simp add: install_def)
  from run_step [OF run_step [OF this login [where first = False and now = 0 and rid = "''id''"]] cancel]
  have "?run ((([LoginOk 0 ''id'', Install, Ctl EReadFail, Ctl (EExit []), Ctl EDone] @ [Relogin]) @ [LoginOk 0 ''id'']) @ [Cancelled]) (s4\<lparr>sv_cancelled := True\<rparr>)"
    by (simp add: s4_def)
  from run_step [OF run_step [OF this stop [where order = "[]" and c = e]] install_first]
  have "?run [LoginOk 0 ''id'', Install, Ctl EReadFail, Ctl (EExit []), Ctl EDone, Relogin, LoginOk 0 ''id'', Cancelled, Stop, Install]
     (install (s4\<lparr>sv_cancelled := True, sv_ctl := None, sv_stopped := True\<rparr>))"
    using s4 e by (simp add: locked_def)
  moreover have "cn_connOpen demo_control" by (simp add: demo_control_def demo_defs)
  ultimately show ?thesis using demo_control_empty s4 by (fastforce simp: install_def)
qed

end
