(* ===== verification/Client_Server.thy ===== *)
theory Client_Server
  imports Client_Service Server_Sessions
begin

text \<open>
  A session from both ends: the control of a client (\<open>Client_Control\<close>) and the server with this and all its
  other sessions (\<open>Server_Control\<close>), joined by the control connection. What the client has written and the server has
  not read yet is the rest of \<open>dp_written\<close> from the position \<open>ln_up\<close>; what the server has answered and the client
  has not read is \<open>ln_down\<close>. Both are read in order; everything else interleaves.
\<close>

section \<open>Messages between the two\<close>

text \<open>What a session sends to its client in an event of the server, and whose event it is.\<close>

fun sv_out :: "'p server_env \<Rightarrow> 'k sv_event \<Rightarrow> ('p, 'k) server \<Rightarrow> ctl_msg list" where
  "sv_out E (SvStart i) s = fst (ctl_Start i s)"
| "sv_out E (SvNewProxy i m) s = fst (np_begin E i m s)"
| "sv_out E (SvRun i env) s = (case np_run E env i s of None \<Rightarrow> [] | Some (ms, _) \<Rightarrow> ms)"
| "sv_out E (SvAdd i now) s = (case np_add E now i s of None \<Rightarrow> [] | Some (ms, _) \<Rightarrow> ms)"
| "sv_out E (SvAdded i now) s = fst (np_done E now i s)"
| "sv_out E (SvPing i now m) s = fst (handlePing E now i m s)"
| "sv_out E (SvTake i) s = fst (snd (GetWorkConn i s))"
| "sv_out E ev s = []"

fun sv_target :: "'k sv_event \<Rightarrow> nat option" where
  "sv_target (SvStart i) = Some i"
| "sv_target (SvNewProxy i m) = Some i"
| "sv_target (SvRun i env) = Some i"
| "sv_target (SvAdd i now) = Some i"
| "sv_target (SvAdded i now) = Some i"
| "sv_target (SvCloseProxy i now name) = Some i"
| "sv_target (SvStats i now) = Some i"
| "sv_target (SvConnClose i) = Some i"
| "sv_target (SvExit i order) = Some i"
| "sv_target (SvExitOne i now) = Some i"
| "sv_target (SvExitEnd i) = Some i"
| "sv_target (SvForget i) = Some i"
| "sv_target (SvPing i now m) = Some i"
| "sv_target (SvHeartbeat i now) = Some i"
| "sv_target (SvTake i) = Some i"
| "sv_target ev = None"

text \<open>The handlers of the messages of the client.\<close>

fun is_request :: "'k sv_event \<Rightarrow> bool" where
  "is_request (SvNewProxy i m) = True"
| "is_request (SvCloseProxy i now name) = True"
| "is_request (SvPing i now m) = True"
| "is_request ev = False"

fun request_event :: "nat \<Rightarrow> int \<Rightarrow> key_msg \<Rightarrow> to_server \<Rightarrow> 'k sv_event" where
  "request_event i now key (CtlProxy (MsgNewProxy m)) = SvNewProxy i m"
| "request_event i now key (CtlProxy (MsgCloseProxy name)) = SvCloseProxy i now name"
| "request_event i now key CtlPing = SvPing i now key"

text \<open>The text of an error in an answer: of a plugin that refuses it is the reason the plugin gives, of other errors it
  is \<open>text\<close>.\<close>

fun error_message :: "(ctl_error \<Rightarrow> string) \<Rightarrow> ctl_error \<Rightarrow> string" where
  "error_message text (CtlPlugin (PluginReject reason)) = reason"
| "error_message text e = text e"

fun answer_event :: "(ctl_error \<Rightarrow> string) \<Rightarrow> bool \<Rightarrow> int \<Rightarrow> string option \<Rightarrow> ctl_msg \<Rightarrow> ('q, 'c) ctl_event option" where
  "answer_event text detailed now run (NewProxyResp name (Inr addr)) = Some (EResp now run name addr [])"
| "answer_event text detailed now run (NewProxyResp name (Inl e)) =
     Some (EResp now run name [] (GenerateResponseErrorString (''new proxy ['' @ name @ ''] error'') (error_message text e) detailed))"
| "answer_event text detailed now run (Pong None) = Some (EPong now [])"
| "answer_event text detailed now run (Pong (Some e)) =
     Some (EPong now (GenerateResponseErrorString ''invalid ping'' (error_message text e) detailed))"
| "answer_event text detailed now run m = None"

fun is_answer :: "('q, 'c) ctl_event \<Rightarrow> bool" where
  "is_answer (EResp now run name addr err) = True"
| "is_answer (EPong now err) = True"
| "is_answer ev = False"

section \<open>Steps\<close>

record ('q, 'c, 'v, 'p, 'k) link =
  ln_client :: "('q, 'c, 'v) client_control"
  ln_server :: "('p, 'k) server"
  ln_up :: nat
  ln_down :: "ctl_msg list"

text \<open>What is given: the environments of both ends, the session \<open>i\<close> of the server, and the texts of errors.\<close>

record ('c, 'v, 'p) link_env =
  le_hb :: heartbeat_config
  le_vname :: "'c \<Rightarrow> string"
  le_start :: "'c \<Rightarrow> 'v option"
  le_server :: "'p server_env"
  le_session :: nat
  le_text :: "ctl_error \<Rightarrow> string"
  le_detailed :: bool

inductive link_step ::
  "('c, 'v, 'p) link_env \<Rightarrow> ('q, 'c, 'v, 'p, 'k) link \<Rightarrow> ('q, 'c, 'v, 'p, 'k) link \<Rightarrow> bool" for L where
  client: "\<not> is_answer ev \<Longrightarrow> walk_ok ev (ln_client l) \<Longrightarrow>
    ctl_step (le_hb L) (le_vname L) (le_start L) (ln_client l) ev = Some c \<Longrightarrow> link_step L l (l\<lparr>ln_client := c\<rparr>)"
| request: "ln_up l < length (dp_written (cn_disp (ln_client l))) \<Longrightarrow> sv_heap (ln_server l) (le_session L) = Some ct \<Longrightarrow> ready ct \<Longrightarrow>
    ev = request_event (le_session L) now key (dp_written (cn_disp (ln_client l)) ! ln_up l) \<Longrightarrow>
    sv_step (le_server L) ev (ln_server l) = Some s \<Longrightarrow>
    link_step L l (l\<lparr>ln_server := s, ln_up := Suc (ln_up l), ln_down := ln_down l @ sv_out (le_server L) ev (ln_server l)\<rparr>)"
| session: "sv_target ev = Some (le_session L) \<Longrightarrow> \<not> is_request ev \<Longrightarrow> proper_event ev (ln_server l) \<Longrightarrow>
    sv_step (le_server L) ev (ln_server l) = Some s \<Longrightarrow>
    link_step L l (l\<lparr>ln_server := s, ln_down := ln_down l @ sv_out (le_server L) ev (ln_server l)\<rparr>)"
| others: "sv_target ev \<noteq> Some (le_session L) \<Longrightarrow> proper_event ev (ln_server l) \<Longrightarrow>
    sv_step (le_server L) ev (ln_server l) = Some s \<Longrightarrow> link_step L l (l\<lparr>ln_server := s\<rparr>)"
| answer: "ln_down l = m # ms \<Longrightarrow> answer_event (le_text L) (le_detailed L) now run m = Some ev \<Longrightarrow>
    ctl_step (le_hb L) (le_vname L) (le_start L) (ln_client l) ev = Some c \<Longrightarrow> link_step L l (l\<lparr>ln_client := c, ln_down := ms\<rparr>)"
| skip: "ln_down l = m # ms \<Longrightarrow> m = ReqWorkConn \<or> (\<exists>r. m = LoginResp r) \<Longrightarrow> link_step L l (l\<lparr>ln_down := ms\<rparr>)"

text \<open>A link begins with a new control of the client and a session of a server in any reachable state.\<close>

inductive link_reachable :: "('c, 'v, 'p) link_env \<Rightarrow> ('q, 'c, 'v, 'p, 'k) link \<Rightarrow> bool" for L where
  begin_link: "sv_reachable (le_server L) s \<Longrightarrow> sv_heap s (le_session L) \<noteq> None \<Longrightarrow>
    link_reachable L \<lparr>ln_client = NewControl_c now, ln_server = s, ln_up = 0, ln_down = []\<rparr>"
| step_link: "link_reachable L l \<Longrightarrow> link_step L l l' \<Longrightarrow> link_reachable L l'"

section \<open>The table of names under one event\<close>

lemma np_run_cases:
  assumes "np_run E env i s = Some (ms, s')"
  obtains "ms = []" "s' = s"
  | c m p rc e where "sv_heap s i = Some c" "ct_pending c = Some (Checked m p)" "ms = [NewProxyResp (np_ProxyName m) (Inl (CtlRun e))]"
      "s' = (put_ctl i ((free_ports (se_cfg E) p c)\<lparr>ct_pending := None\<rparr>) s)\<lparr>sv_rc := rc\<rparr>"
  | c m p rc addr p' where "sv_heap s i = Some c" "ct_pending c = Some (Checked m p)" "ms = []"
      "s' = (put_ctl i (c\<lparr>ct_pending := Some (Ran m addr p')\<rparr>) s)\<lparr>sv_rc := rc\<rparr>"
proof (cases "\<exists>c m p. sv_heap s i = Some c \<and> ct_pending c = Some (Checked m p)")
  case True
  then obtain c m p where c: "sv_heap s i = Some c" "ct_pending c = Some (Checked m p)" by blast
  then obtain r p' rc where R: "pxy_Run env (se_cfg E) p (sv_rc s) = Some (r, p', rc)" using assms by (auto simp: np_run_def)
  show thesis by (cases r) (use assms c R that(2) [OF c] that(3) [OF c] in \<open>auto simp: np_run_def\<close>)
next
  case False
  then show thesis using assms that(1) by (auto simp: np_run_def split: option.splits pending.splits)
qed

lemma table_same:
  assumes "sv_step E e s = Some s'" and "\<not> (\<exists>i now. e = SvAdd i now)" and "\<not> (\<exists>i now name. e = SvCloseProxy i now name)"
    and "\<not> (\<exists>i now. e = SvExitOne i now)"
  shows "sv_pxys s' = sv_pxys s"
proof (cases e)
  case (SvRun i env)
  then obtain ms where "np_run E env i s = Some (ms, s')" using assms(1) by auto
  then show ?thesis by (cases rule: np_run_cases) (simp_all add: put_ctl_def)
qed (use assms in \<open>auto simp: handleLogin_def RegisterControl_def ctl_Start_def np_begin_def np_done_def close_stats_def conn_Close_def
      exit_begin_def exit_end_def forget_def cm_Del_def handlePing_def heartbeat_round_def RegisterWorkConn_def GetWorkConn_def
      RegisterVisitorConn_def put_ctl_def Let_def
      split: option.splits sum.splits prod.splits pending.splits if_splits list.splits\<close>)

lemma held_name: "sv_inv E s \<Longrightarrow> sv_heap s j = Some c \<Longrightarrow> held c n = Some p \<Longrightarrow> sv_pxys s n = Some (j, p)"
  by (simp add: sv_inv_def names_ok_def held_at_def)

text \<open>A name goes only when its own session closes it or leaves.\<close>

lemma kept_name:
  assumes "sv_step E e s = Some s'" and "sv_inv E s" and "sv_pxys s n = Some (i, p)"
  shows "sv_pxys s' n = Some (i, p) \<or> (\<exists>now. e = SvCloseProxy i now n) \<or>
    (\<exists>now c ns. e = SvExitOne i now \<and> sv_heap s i = Some c \<and> ct_pending c = Some (Exiting ns))"
proof -
  consider (add) j now where "e = SvAdd j now" | (close) j now name where "e = SvCloseProxy j now name"
    | (exit) j now where "e = SvExitOne j now" | (same) "sv_pxys s' = sv_pxys s"
    using table_same [OF assms(1)] by blast
  then show ?thesis
  proof cases
    case (add j now)
    then show ?thesis
      using assms(1,3) by (auto simp: np_add_def pm_Add_def put_ctl_def split: option.splits pending.splits prod.splits sum.splits)
  next
    case (close j now name)
    show ?thesis
    proof (cases "\<exists>c q. sv_heap s j = Some c \<and> ready c \<and> ct_proxies c name = Some q")
      case True
      then obtain c q where c: "sv_heap s j = Some c" "ready c" "ct_proxies c name = Some q" by blast
      have ok: "ctl_ok (se_cfg E) c" using sv_invD(2) [OF assms(2) c(1)] .
      then have q: "sp_name q = name" using c(3) by (auto simp: ctl_ok_def proxy_ok_def)
      have "sv_pxys s name = Some (j, q)" using held_name [OF assms(2) c(1)] ok_closed [OF ok c(2,3) refl] by blast
      moreover have "sv_pxys s' = pm_Del name (sv_pxys s)"
        using assms(1) close c q by (auto simp: ctl_CloseProxy_def put_ctl_def split: option.splits)
      ultimately show ?thesis using close assms(3) by (cases "n = name") (auto simp: pm_Del_def)
    next
      case False
      then show ?thesis using assms(1,3) close by (auto simp: ctl_CloseProxy_def split: option.splits if_splits)
    qed
  next
    case (exit j now)
    show ?thesis
    proof (cases "\<exists>c name names q. sv_heap s j = Some c \<and> ct_pending c = Some (Exiting (name # names)) \<and> ct_proxies c name = Some q")
      case True
      then obtain c name names q where c: "sv_heap s j = Some c" "ct_pending c = Some (Exiting (name # names))" "ct_proxies c name = Some q" by blast
      have ok: "ctl_ok (se_cfg E) c" using sv_invD(2) [OF assms(2) c(1)] .
      then have q: "sp_name q = name" using c(3) by (auto simp: ctl_ok_def proxy_ok_def)
      have "sv_pxys s name = Some (j, q)" using held_name [OF assms(2) c(1)] ok_exit_closed [OF ok c(2,3) refl] by blast
      moreover have "sv_pxys s' = pm_Del name (sv_pxys s)"
        using assms(1) exit c q by (auto simp: exit_one_def put_ctl_def split: option.splits)
      ultimately show ?thesis using exit assms(3) c by (cases "n = name") (auto simp: pm_Del_def)
    next
      case False
      then show ?thesis using assms(1,3) exit by (auto simp: exit_one_def split: option.splits pending.splits list.splits)
    qed
  qed (use assms(3) in simp)
qed

text \<open>A session leaves only after its connection was closed, which stays closed.\<close>

definition leaving_now :: "('p, 'k) control \<Rightarrow> bool" where
  "leaving_now c \<longleftrightarrow> (case ct_pending c of Some (Exiting _) \<Rightarrow> True | Some (Closing _ _ (Some _)) \<Rightarrow> True | _ \<Rightarrow> False)"

definition conn_move :: "('p, 'k) control option \<Rightarrow> ('p, 'k) control option \<Rightarrow> bool" where
  "conn_move c c' \<longleftrightarrow>
     (case c' of None \<Rightarrow> c = None
      | Some d' \<Rightarrow> (case c of None \<Rightarrow> ct_pending d' = None
                   | Some d \<Rightarrow> (ct_connClosed d \<longrightarrow> ct_connClosed d') \<and> (leaving_now d' \<longrightarrow> leaving_now d \<or> ct_connClosed d)))"

lemma conn_move_same [simp]: "conn_move c c"
  by (simp add: conn_move_def split: option.splits)

lemma conn_move_Some [simp]:
  "conn_move (Some d) (Some d') \<longleftrightarrow> (ct_connClosed d \<longrightarrow> ct_connClosed d') \<and> (leaving_now d' \<longrightarrow> leaving_now d \<or> ct_connClosed d)"
  by (simp add: conn_move_def)

lemma conn_put:
  "sv_heap s i = Some c \<Longrightarrow> conn_move (Some c) (Some c') \<Longrightarrow> conn_move (sv_heap s j) (((sv_heap s)(i \<mapsto> c')) j)"
  by simp

lemma free_ports_conn [simp]:
  "ct_connClosed (free_ports cfg p c) = ct_connClosed c" "ct_pending (free_ports cfg p c) = ct_pending c"
  by (simp_all add: free_ports_def)

lemma conn_np_begin: "conn_move (sv_heap s j) (sv_heap (snd (np_begin E i m s)) j)"
proof (cases "\<exists>c l m'. sv_heap s i = Some c \<and> ready c \<and> run_plugins (se_newProxyPlugins E) (ct_login c, m) = Inr (l, m')")
  case True
  then obtain c l m' where c: "sv_heap s i = Some c" "ready c" "run_plugins (se_newProxyPlugins E) (ct_login c, m) = Inr (l, m')" by blast
  obtain r c' where R: "RegisterProxy_check E m' (sv_pxys s) c = (r, c')" by (cases "RegisterProxy_check E m' (sv_pxys s) c")
  show ?thesis
  proof (cases r)
    case (Inl e)
    then show ?thesis using c R RegisterProxy_check_Inl [OF R [unfolded Inl]] by (auto simp: np_begin_def put_ctl_def)
  next
    case (Inr p)
    then show ?thesis using c R RegisterProxy_check_Inr(1) [OF R [unfolded Inr]]
      by (auto simp: np_begin_def put_ctl_def take_ports_def leaving_now_def simp del: fun_upd_apply split: option.splits intro!: conn_put)
  qed
next
  case False
  then show ?thesis by (auto simp: np_begin_def split: option.splits sum.splits)
qed

lemma conn_np_run: "np_run E env i s = Some (ms, s') \<Longrightarrow> conn_move (sv_heap s j) (sv_heap s' j)"
  by (erule np_run_cases) (auto simp: put_ctl_def leaving_now_def simp del: fun_upd_apply intro!: conn_put)

lemma conn_np_add: "np_add E now i s = Some (ms, s') \<Longrightarrow> conn_move (sv_heap s j) (sv_heap s' j)"
  by (auto simp: np_add_def put_ctl_def leaving_now_def simp del: fun_upd_apply split: option.splits pending.splits sum.splits prod.splits intro!: conn_put)

lemma conn_np_done: "conn_move (sv_heap s j) (sv_heap (snd (np_done E now i s)) j)"
  by (auto simp: np_done_def put_ctl_def leaving_now_def simp del: fun_upd_apply split: option.splits pending.splits intro!: conn_put)

lemma conn_close: "ctl_CloseProxy E now i name s = Some s' \<Longrightarrow> conn_move (sv_heap s j) (sv_heap s' j)"
  by (auto simp: ctl_CloseProxy_def put_ctl_def leaving_now_def simp del: fun_upd_apply split: option.splits if_splits intro!: conn_put)

lemma conn_stats: "conn_move (sv_heap s j) (sv_heap (close_stats now i s) j)"
  by (auto simp: close_stats_def put_ctl_def leaving_now_def simp del: fun_upd_apply split: option.splits pending.splits intro!: conn_put)

lemma conn_exit_one: "exit_one now i s = Some s' \<Longrightarrow> conn_move (sv_heap s j) (sv_heap s' j)"
  by (auto simp: exit_one_def put_ctl_def leaving_now_def simp del: fun_upd_apply split: option.splits pending.splits list.splits intro!: conn_put)

lemma conn_exit: "conn_move (sv_heap s j) (sv_heap (exit_begin order i s) j)" "conn_move (sv_heap s j) (sv_heap (exit_end i s) j)"
  by (auto simp: exit_begin_def exit_end_def put_ctl_def leaving_now_def simp del: fun_upd_apply split: option.splits intro!: conn_put)

lemma conn_conn: "conn_move (sv_heap s j) (sv_heap (conn_Close i s) j)" "conn_move (sv_heap s j) (sv_heap (heartbeat_round E now i s) j)"
  "conn_move (sv_heap s j) (sv_heap (snd (handlePing E now i m s)) j)" "conn_move (sv_heap s j) (sv_heap (snd (ctl_Start i s)) j)"
  by (auto simp: conn_Close_def heartbeat_round_def handlePing_def ctl_Start_def put_ctl_def leaving_now_def simp del: fun_upd_apply split: option.splits sum.splits intro!: conn_put)

lemma conn_work: "conn_move (sv_heap s j) (sv_heap (snd (RegisterWorkConn E now conn m s)) j)" "conn_move (sv_heap s j) (sv_heap (snd (snd (GetWorkConn i s))) j)"
  by (auto simp: RegisterWorkConn_def ctl_RegisterWorkConn_def GetWorkConn_def put_ctl_def leaving_now_def bind_eq_Some_conv simp del: fun_upd_apply
      split: option.splits sum.splits list.splits intro!: conn_put)

lemma conn_login:
  assumes "handleLogin E now rid internal m s = Some (r, s')" and "sv_heap s (sv_next s) = None"
  shows "conn_move (sv_heap s j) (sv_heap s' j)"
  using assms
  by (auto simp: handleLogin_def RegisterControl_def NewControl_def cm_Add_heap conn_move_def Replaced_def leaving_now_def Let_def
      split: option.splits sum.splits prod.splits if_splits)

lemma conn_step:
  assumes "sv_step E e s = Some s'" and "sv_inv E s"
  shows "conn_move (sv_heap s j) (sv_heap s' j)"
proof -
  have n: "sv_heap s (sv_next s) = None" using sv_invD(1) [OF assms(2), of "sv_next s"] by fastforce
  show ?thesis
  proof (cases e)
    case (SvVisitor wrap runID name conn ts key)
    then have "s' = snd (RegisterVisitorConn wrap runID name conn ts key s)" using assms(1) by simp
    then have "sv_heap s' = sv_heap s" by (simp add: RegisterVisitorConn_def Let_def split: option.splits prod.splits)
    then show ?thesis by simp
  next
    case (SvForget i)
    then have "sv_heap s' = sv_heap s" using assms(1) by (auto simp: forget_def cm_Del_def split: option.splits)
    then show ?thesis by simp
  qed (use assms(1) n conn_login conn_np_begin conn_np_run conn_np_add conn_np_done conn_close conn_stats conn_exit_one conn_exit conn_conn conn_work
       in \<open>auto simp del: conn_move_same intro: conn_move_same split: if_splits\<close>)
qed

section \<open>What the server answers\<close>

text \<open>An answer without an error is given for a name that the session has in the table; a refusal without a reason comes
  from a plugin that gives none.\<close>

lemma np_add_out: "np_add E now i s = Some (ms, s') \<Longrightarrow> m \<in> set ms \<Longrightarrow> \<exists>n e. m = NewProxyResp n (Inl (CtlName e))"
  by (auto simp: np_add_def split: option.splits pending.splits sum.splits)

lemma answer_ok:
  assumes "sv_inv E s" and "NewProxyResp n (Inr a) \<in> set (sv_out E e s)"
  shows "\<exists>i now p. e = SvAdded i now \<and> sv_pxys s n = Some (i, p)"
proof (cases e)
  case (SvAdded i now)
  then obtain c m where c: "sv_heap s i = Some c" "ct_pending c = Some (Added m a)" "n = np_ProxyName m"
    using assms(2) by (auto simp: np_done_def split: option.splits pending.splits)
  then obtain p where "ct_proxies c n = Some p" using sv_invD(2) [OF assms(1) c(1)] by (auto simp: ctl_ok_def pend_ok_def)
  moreover have "\<not> ct_done c" using sv_invD(2) [OF assms(1) c(1)] c(2) by (simp add: ctl_ok_def)
  ultimately have "held c n = Some p" using c(2) by (simp add: held_def)
  then show ?thesis using SvAdded held_name [OF assms(1) c(1)] by blast
next
  case (SvRun i env)
  show ?thesis
  proof (cases "np_run E env i s")
    case (Some r)
    then show ?thesis using SvRun assms(2) by (cases r) (auto elim!: np_run_cases)
  qed (use SvRun assms(2) in simp)
next
  case (SvAdd i now)
  show ?thesis
  proof (cases "np_add E now i s")
    case (Some r)
    then show ?thesis using SvAdd assms(2) by (cases r) (auto dest: np_add_out)
  qed (use SvAdd assms(2) in simp)
qed (use assms(2) in \<open>auto simp: ctl_Start_def np_begin_def handlePing_def GetWorkConn_def
       split: option.splits sum.splits prod.splits pending.splits if_splits list.splits\<close>)

lemma run_plugins_reject:
  "run_plugins ps x = Inl (PluginReject r) \<Longrightarrow> \<exists>p \<in> set ps. \<exists>y. p y = PluginRejects r"
  by (induction ps x rule: run_plugins.induct) (auto split: plugin_result.splits)

lemma answer_reason:
  assumes "NewProxyResp n (Inl (CtlPlugin (PluginReject r))) \<in> set (sv_out E e s)"
  shows "\<exists>p \<in> set (se_newProxyPlugins E). \<exists>y. p y = PluginRejects r"
proof (cases e)
  case (SvNewProxy i m)
  have "RegisterProxy_check E m' pm c \<noteq> (Inl (CtlPlugin x), c')" for m' pm x and c c' :: "('a, 'b) control"
    by (auto simp: RegisterProxy_check_def Let_def split: sum.splits)
  then show ?thesis
    using SvNewProxy assms run_plugins_reject by (fastforce simp: np_begin_def split: option.splits sum.splits prod.splits if_splits)
next
  case (SvRun i env)
  show ?thesis
  proof (cases "np_run E env i s")
    case (Some r)
    then show ?thesis using SvRun assms by (cases r) (auto elim!: np_run_cases)
  qed (use SvRun assms in simp)
next
  case (SvAdd i now)
  show ?thesis
  proof (cases "np_add E now i s")
    case (Some r)
    then show ?thesis using SvAdd assms by (cases r) (auto dest: np_add_out)
  qed (use SvAdd assms in simp)
qed (use assms in \<open>auto simp: ctl_Start_def np_done_def handlePing_def GetWorkConn_def
       split: option.splits sum.splits prod.splits pending.splits if_splits list.splits\<close>)

section \<open>What makes a proxy of the client run\<close>

definition runs :: "string \<Rightarrow> ('q, 'c, 'v) client_control \<Rightarrow> bool" where
  "runs n c \<longleftrightarrow> (\<exists>pw. cn_pm c n = Some pw \<and> ws_Phase pw = PhaseRunning)"

lemma remove_stale_le: "snd (remove_stale wanted order pm) n = Some pw \<Longrightarrow> pm n = Some pw"
  by (induction wanted order pm rule: remove_stale.induct) (auto split: option.splits if_splits prod.splits)

lemma add_missing_new: "add_missing cfgs pm n = Some pw \<Longrightarrow> pm n = Some pw \<or> ws_Phase pw = PhaseNew"
  by (induction cfgs pm rule: add_missing.induct) (auto split: if_splits)

lemma UpdateAll_runs: "snd (UpdateAll order cfgs pm) n = Some pw \<Longrightarrow> ws_Phase pw = PhaseRunning \<Longrightarrow> pm n = Some pw"
  using add_missing_new remove_stale_le by (fastforce simp: UpdateAll_def split_beta)

lemma on_wrapper_runs:
  assumes "runs n (on_wrapper name f c)" and "\<And>pw. ws_Phase (snd (f pw)) = PhaseRunning \<Longrightarrow> ws_Phase pw = PhaseRunning \<or> P"
  shows "runs n c \<or> P \<and> name = n"
proof (cases "cn_pm c name")
  case (Some pw)
  have "cn_pm (on_wrapper name f c) = (cn_pm c)(name \<mapsto> snd (f pw))" using Some by (simp add: on_wrapper_def emit_def split_beta)
  then show ?thesis using assms(1) assms(2) [of pw] Some by (cases "name = n") (auto simp: runs_def)
qed (use assms(1) in \<open>simp add: on_wrapper_def\<close>)

lemma client_runs:
  assumes "ctl_step hb vname start c ev = Some c'" and "runs n c'"
  shows "runs n c \<or> (\<exists>now addr. ev = EResp now None n addr [])"
proof (cases ev)
  case (EResp now run name addr err)
  have c': "c' = on_wrapper name (\<lambda>pw. snd (SetRunningStatus now run addr err pw)) c"
    using assms(1) EResp by (simp add: handleNewProxyResp_on_wrapper split: if_splits)
  have "runs n c \<or> (run = None \<and> err = []) \<and> name = n"
    by (rule on_wrapper_runs [OF assms(2) [unfolded c']]) (auto simp: SetRunningStatus_def Let_def split: option.splits if_splits)
  then show ?thesis using EResp by blast
next
  case (EWorker name now)
  have "runs n c \<or> False \<and> name = n"
    by (rule on_wrapper_runs [where name = name and f = "wrapper_check now"])
      (use assms EWorker in \<open>auto simp: wrapper_check_def split: if_splits\<close>)
  then show ?thesis by simp
next
  case (EMonitor name ok)
  have "runs n c \<or> False \<and> name = n"
    by (rule on_wrapper_runs [where name = name and f = "\<lambda>pw. ([], wrapper_monitor ok pw)"])
      (use assms EMonitor in \<open>auto split: if_splits\<close>)
  then show ?thesis by simp
next
  case (EReload vorder order ps vs)
  then have "cn_pm c' = snd (UpdateAll order ps (cn_pm c))"
    using assms(1) by (auto simp: ctl_UpdateAllConfigurer_def emit_def split_beta Let_def split: if_splits)
  then show ?thesis using assms(2) UpdateAll_runs by (fastforce simp: runs_def)
qed (use assms in \<open>auto simp: runs_def session_defs pxys_Close_def split: if_splits option.splits prod.splits list.splits\<close>)

lemma written_grows:
  assumes "ctl_step hb vname start c ev = Some c'"
  shows "set (dp_written (cn_disp c)) \<subseteq> set (dp_written (cn_disp c'))"
  using assms
  by (cases ev) (auto simp: session_defs trans_Send_def disp_Send_def sendLoop_write_def sendLoop_exit_def readLoop_fail_def
      split: if_splits option.splits prod.splits list.splits)

section \<open>Running and registered\<close>

definition registered :: "('p, 'k) server \<Rightarrow> nat \<Rightarrow> string \<Rightarrow> bool" where
  "registered s i n \<longleftrightarrow> (\<exists>p. sv_pxys s n = Some (i, p))"

definition open_at :: "('p, 'k) server \<Rightarrow> nat \<Rightarrow> bool" where
  "open_at s i \<longleftrightarrow> (\<exists>c. sv_heap s i = Some c \<and> \<not> ct_connClosed c)"

definition srv_ok :: "'p server_env \<Rightarrow> nat \<Rightarrow> ('p, 'k) server \<Rightarrow> bool" where
  "srv_ok E i s \<longleftrightarrow> sv_inv E s \<and> (\<forall>j c. sv_heap s j = Some c \<and> leaving_now c \<longrightarrow> ct_connClosed c) \<and> sv_heap s i \<noteq> None"

lemma srv_ok_step:
  assumes "sv_step E e s = Some s'" and "proper_event e s" and "srv_ok E i s"
  shows "srv_ok E i s'" "open_at s' i \<Longrightarrow> open_at s i"
    "open_at s' i \<Longrightarrow> registered s i n \<Longrightarrow> \<not> (\<exists>now. e = SvCloseProxy i now n) \<Longrightarrow> registered s' i n"
proof -
  have inv: "sv_inv E s" using assms(3) by (simp add: srv_ok_def)
  have mv: "conn_move (sv_heap s j) (sv_heap s' j)" for j by (rule conn_step [OF assms(1) inv])
  have h: "sv_heap s' i \<noteq> None" using mv [of i] assms(3) by (cases "sv_heap s' i") (auto simp: conn_move_def srv_ok_def)
  have l: "ct_connClosed c" if "sv_heap s' j = Some c" "leaving_now c" for j c
    using mv [of j] that assms(3) by (cases "sv_heap s j") (auto simp: conn_move_def srv_ok_def leaving_now_def)
  show "srv_ok E i s'" using sv_inv_tr [OF sv_step_tr [OF assms(1,2)] inv] l h unfolding srv_ok_def by blast
  show o: "open_at s' i \<Longrightarrow> open_at s i" using mv [of i] assms(3) by (auto simp: open_at_def conn_move_def srv_ok_def split: option.splits)
  show "registered s' i n" if op: "open_at s' i" and rg: "registered s i n" and nc: "\<not> (\<exists>now. e = SvCloseProxy i now n)"
  proof -
    obtain p where p: "sv_pxys s n = Some (i, p)" using rg by (auto simp: registered_def)
    obtain c where c: "sv_heap s i = Some c" "\<not> ct_connClosed c" using o [OF op] by (auto simp: open_at_def)
    then have "\<not> leaving_now c" using assms(3) by (auto simp: srv_ok_def)
    then show ?thesis using kept_name [OF assms(1) inv p] nc c by (auto simp: registered_def leaving_now_def)
  qed
qed

lemma srv_ok_start: "sv_reachable E s \<Longrightarrow> sv_heap s i \<noteq> None \<Longrightarrow> srv_ok E i s"
proof -
  have "(\<forall>j c. sv_heap s j = Some c \<and> leaving_now c \<longrightarrow> ct_connClosed c)" if "sv_reachable E s"
    using that
  proof (induction rule: sv_reachable.induct)
    case (start a ck now rc)
    then show ?case by (simp add: NewServer_def)
  next
    case (step s e s')
    have mv: "conn_move (sv_heap s j) (sv_heap s' j)" for j by (rule conn_step [OF step.hyps(3) sv_reachable_inv [OF step.hyps(1)]])
    show ?case
    proof (intro allI impI)
      fix j c
      assume "sv_heap s' j = Some c \<and> leaving_now c"
      then show "ct_connClosed c" using mv [of j] step.IH by (cases "sv_heap s j") (auto simp: conn_move_def leaving_now_def)
    qed
  qed
  then show "sv_reachable E s \<Longrightarrow> sv_heap s i \<noteq> None \<Longrightarrow> srv_ok E i s" using sv_reachable_inv by (auto simp: srv_ok_def)
qed

text \<open>The errors of the server have a text, and with detailed errors every plugin that refuses a proxy says why.\<close>

definition reasons_given :: "('c, 'v, 'p) link_env \<Rightarrow> bool" where
  "reasons_given L \<longleftrightarrow> (\<forall>e. le_text L e \<noteq> []) \<and>
     (le_detailed L \<longrightarrow> (\<forall>p \<in> set (se_newProxyPlugins (le_server L)). \<forall>x. p x \<noteq> PluginRejects []))"

definition promised :: "string \<Rightarrow> ('q, 'c, 'v, 'p, 'k) link \<Rightarrow> bool" where
  "promised n l \<longleftrightarrow> runs n (ln_client l) \<or> (\<exists>a. NewProxyResp n (Inr a) \<in> set (ln_down l))"

definition not_closed :: "nat \<Rightarrow> string \<Rightarrow> ('q, 'c, 'v, 'p, 'k) link \<Rightarrow> bool" where
  "not_closed i n l \<longleftrightarrow> CtlProxy (MsgCloseProxy n) \<notin> set (dp_written (cn_disp (ln_client l))) \<and> open_at (ln_server l) i"

definition reasons_ok :: "('c, 'v, 'p) link_env \<Rightarrow> ctl_msg list \<Rightarrow> bool" where
  "reasons_ok L ms \<longleftrightarrow> (le_detailed L \<longrightarrow> (\<forall>m. NewProxyResp m (Inl (CtlPlugin (PluginReject []))) \<notin> set ms))"

definition link_inv :: "('c, 'v, 'p) link_env \<Rightarrow> string \<Rightarrow> ('q, 'c, 'v, 'p, 'k) link \<Rightarrow> bool" where
  "link_inv L n l \<longleftrightarrow> srv_ok (le_server L) (le_session L) (ln_server l) \<and> reasons_ok L (ln_down l) \<and>
     (not_closed (le_session L) n l \<longrightarrow> promised n l \<longrightarrow> registered (ln_server l) (le_session L) n)"

lemma reasons_out: "reasons_given L \<Longrightarrow> reasons_ok L (sv_out (le_server L) e s)"
  using answer_reason by (fastforce simp: reasons_given_def reasons_ok_def)

lemma answer_runs:
  assumes "answer_event text detailed now run m = Some (EResp now' None n addr [])" and "\<forall>e. text e \<noteq> []"
    and "detailed \<longrightarrow> m \<noteq> NewProxyResp n (Inl (CtlPlugin (PluginReject [])))"
  shows "m = NewProxyResp n (Inr addr)"
proof (cases "(text, detailed, now, run, m)" rule: answer_event.cases)
  case (2 t d now run name e)
  have "error_message text e \<noteq> [] \<or> e = CtlPlugin (PluginReject [])"
    using assms(2) 2 by (cases "(text, e)" rule: error_message.cases) auto
  then show ?thesis using assms 2 by (auto simp: GenerateResponseErrorString_def split: if_splits)
qed (use assms(1) in auto)

lemma link_inv_step:
  assumes "link_step L l l'" and "link_inv L n l" and "reasons_given L"
  shows "link_inv L n l'"
proof -
  let ?i = "le_session L" and ?E = "le_server L"
  have srv: "srv_ok ?E ?i (ln_server l)" and ro: "reasons_ok L (ln_down l)"
    and reg: "not_closed ?i n l \<Longrightarrow> promised n l \<Longrightarrow> registered (ln_server l) ?i n" using assms(2) by (auto simp: link_inv_def)
  have inv: "sv_inv ?E (ln_server l)" using srv by (simp add: srv_ok_def)
  have server: "link_inv L n (l\<lparr>ln_server := s, ln_up := k, ln_down := ln_down l @ ms\<rparr>)"
    if "sv_step ?E ev (ln_server l) = Some s" "proper_event ev (ln_server l)" "ms = [] \<or> ms = sv_out ?E ev (ln_server l) \<and> sv_target ev = Some ?i"
      "not_closed ?i n l \<Longrightarrow> \<not> (\<exists>now. ev = SvCloseProxy ?i now n)" for ev s k ms
  proof -
    note st = srv_ok_step [OF that(1,2) srv]
    have "registered s ?i n" if c: "not_closed ?i n (l\<lparr>ln_server := s, ln_up := k, ln_down := ln_down l @ ms\<rparr>)"
      and p: "promised n (l\<lparr>ln_server := s, ln_up := k, ln_down := ln_down l @ ms\<rparr>)"
    proof -
      have c': "not_closed ?i n l" "open_at s ?i" using c st(2) by (auto simp: not_closed_def)
      show ?thesis
      proof (cases "promised n l")
        case True
        then show ?thesis using st(3) [OF c'(2)] reg [OF c'(1)] \<open>not_closed ?i n l \<Longrightarrow> \<not> (\<exists>now. ev = SvCloseProxy ?i now n)\<close> c'(1) by blast
      next
        case False
        then obtain a where "NewProxyResp n (Inr a) \<in> set (sv_out ?E ev (ln_server l))" "sv_target ev = Some ?i"
          using p \<open>ms = [] \<or> _\<close> by (auto simp: promised_def)
        then have "registered (ln_server l) ?i n" using answer_ok [OF inv] by (fastforce simp: registered_def)
        then show ?thesis using st(3) [OF c'(2)] \<open>not_closed ?i n l \<Longrightarrow> \<not> (\<exists>now. ev = SvCloseProxy ?i now n)\<close> c'(1) by blast
      qed
    qed
    moreover have "reasons_ok L (ln_down l @ ms)" using ro that(3) reasons_out [OF assms(3)] by (auto simp: reasons_ok_def)
    ultimately show ?thesis using st(1) by (simp add: link_inv_def)
  qed
  from assms(1) show ?thesis
  proof cases
    case (client ev c)
    have "runs n (ln_client l)" if "runs n c" using client_runs [OF client(4) that] client(2) by auto
    then show ?thesis
      using client(1) srv ro reg written_grows [OF client(4)] by (auto simp: link_inv_def not_closed_def promised_def)
  next
    case (request ct ev now key s)
    have "\<not> (\<exists>now. ev = SvCloseProxy ?i now n)" if "not_closed ?i n l"
    proof -
      let ?m = "dp_written (cn_disp (ln_client l)) ! ln_up l"
      have "?m \<noteq> CtlProxy (MsgCloseProxy n)" using request(2) that by (auto simp: not_closed_def dest: nth_mem)
      then show ?thesis using request(5) by (cases "(?i, now, key, ?m)" rule: request_event.cases) auto
    qed
    moreover have "proper_event ev (ln_server l)"
      using request(5) by (cases "(?i, now, key, dp_written (cn_disp (ln_client l)) ! ln_up l)" rule: request_event.cases) auto
    moreover have "sv_target ev = Some ?i"
      using request(5) by (cases "(?i, now, key, dp_written (cn_disp (ln_client l)) ! ln_up l)" rule: request_event.cases) auto
    ultimately show ?thesis using server [OF request(6)] request(1) by simp
  next
    case (session ev s)
    have "\<not> (\<exists>now. ev = SvCloseProxy ?i now n)" using session(3) by auto
    then show ?thesis using server [OF session(5,4), of _ "ln_up l"] session(1,2) by simp
  next
    case (others ev s)
    have "\<not> (\<exists>now. ev = SvCloseProxy ?i now n)" using others(2) by auto
    then show ?thesis using server [OF others(4,3), of "[]" "ln_up l"] others(1) by simp
  next
    case (answer m ms now run ev c)
    have "promised n l" if pr: "promised n l'"
    proof (cases "runs n (ln_client l) \<or> (\<exists>a. NewProxyResp n (Inr a) \<in> set ms)")
      case False
      then have "runs n c" "\<not> runs n (ln_client l)" using pr answer(1) by (auto simp: promised_def)
      then obtain now' addr where "ev = EResp now' None n addr []" using client_runs [OF answer(4)] by blast
      then have "m = NewProxyResp n (Inr addr)"
        using answer(2,3) ro assms(3) by (intro answer_runs [of "le_text L" "le_detailed L" now run]) (auto simp: reasons_ok_def reasons_given_def)
      then show ?thesis using answer(2) by (auto simp: promised_def)
    qed (use answer(2) in \<open>auto simp: promised_def\<close>)
    then show ?thesis
      using answer(1,2) srv ro reg written_grows [OF answer(4)] by (auto simp: link_inv_def not_closed_def reasons_ok_def)
  next
    case (skip m ms)
    then show ?thesis using srv ro reg by (auto simp: link_inv_def not_closed_def promised_def reasons_ok_def)
  qed
qed

lemma link_inv_reachable:
  assumes "link_reachable L l" and "reasons_given L"
  shows "link_inv L n l"
  using assms(1)
proof (induction rule: link_reachable.induct)
  case (begin_link s now)
  then show ?case using srv_ok_start by (auto simp: link_inv_def reasons_ok_def promised_def runs_def NewControl_c_def)
qed (rule link_inv_step [OF _ _ assms(2)])

section \<open>Runs of a link\<close>

text \<open>An executable part of the steps: without the other sessions and without walks over a table.\<close>

datatype ('q, 'c, 'k) link_event = LClient "('q, 'c) ctl_event" | LRequest int key_msg | LSession "'k sv_event" | LAnswer int "string option"

fun walks :: "('q, 'c) ctl_event \<Rightarrow> bool" where
  "walks (EReload vorder order ps vs) = True"
| "walks (EGraceful order) = True"
| "walks (EExit order) = True"
| "walks ev = False"

fun link_do :: "('c, 'v, 'p) link_env \<Rightarrow> ('q, 'c, 'v, 'p, 'k) link \<Rightarrow> ('q, 'c, 'k) link_event \<Rightarrow> ('q, 'c, 'v, 'p, 'k) link option" where
  "link_do L l (LClient ev) =
     (if is_answer ev \<or> walks ev then None
      else map_option (\<lambda>c. l\<lparr>ln_client := c\<rparr>) (ctl_step (le_hb L) (le_vname L) (le_start L) (ln_client l) ev))"
| "link_do L l (LRequest now key) =
     (case sv_heap (ln_server l) (le_session L) of
        None \<Rightarrow> None
      | Some ct \<Rightarrow>
          if ready ct \<and> ln_up l < length (dp_written (cn_disp (ln_client l))) then
            (let ev = request_event (le_session L) now key (dp_written (cn_disp (ln_client l)) ! ln_up l) in
             map_option (\<lambda>s. l\<lparr>ln_server := s, ln_up := Suc (ln_up l), ln_down := ln_down l @ sv_out (le_server L) ev (ln_server l)\<rparr>)
               (sv_step (le_server L) ev (ln_server l)))
          else None)"
| "link_do L l (LSession ev) =
     (if sv_target ev = Some (le_session L) \<and> \<not> is_request ev \<and> \<not> is_exit ev then
        map_option (\<lambda>s. l\<lparr>ln_server := s, ln_down := ln_down l @ sv_out (le_server L) ev (ln_server l)\<rparr>)
          (sv_step (le_server L) ev (ln_server l))
      else None)"
| "link_do L l (LAnswer now run) =
     (case ln_down l of
        [] \<Rightarrow> None
      | m # ms \<Rightarrow>
          (case answer_event (le_text L) (le_detailed L) now run m of
             None \<Rightarrow> Some (l\<lparr>ln_down := ms\<rparr>)
           | Some ev \<Rightarrow> map_option (\<lambda>c. l\<lparr>ln_client := c, ln_down := ms\<rparr>)
               (ctl_step (le_hb L) (le_vname L) (le_start L) (ln_client l) ev)))"

fun link_run :: "('c, 'v, 'p) link_env \<Rightarrow> ('q, 'c, 'v, 'p, 'k) link \<Rightarrow> ('q, 'c, 'k) link_event list \<Rightarrow> ('q, 'c, 'v, 'p, 'k) link option" where
  "link_run L l [] = Some l"
| "link_run L l (ev # evs) = (case link_do L l ev of None \<Rightarrow> None | Some l' \<Rightarrow> link_run L l' evs)"

lemma no_answer: "answer_event text detailed now run m = None \<Longrightarrow> m = ReqWorkConn \<or> (\<exists>r. m = LoginResp r)"
  by (cases "(text, detailed, now, run, m)" rule: answer_event.cases) auto

lemma walk_ok_free: "\<not> walks ev \<Longrightarrow> walk_ok ev c"
  by (cases ev) simp_all

lemma proper_free: "\<not> is_exit ev \<Longrightarrow> proper_event ev s"
  by (cases ev) simp_all

lemma link_do_step:
  assumes "link_do L l ev = Some l'"
  shows "link_step L l l'"
proof (cases ev)
  case (LClient e)
  then show ?thesis using assms by (auto intro: link_step.client walk_ok_free split: if_splits)
next
  case (LRequest now key)
  then show ?thesis using assms by (auto simp: Let_def intro: link_step.request [OF _ _ _ refl] split: option.splits if_splits)
next
  case (LSession e)
  then show ?thesis using assms by (auto intro: link_step.session proper_free split: if_splits)
next
  case (LAnswer now run)
  then show ?thesis using assms by (auto intro: link_step.answer link_step.skip dest: no_answer split: list.splits option.splits)
qed

lemma link_run_reachable: "link_reachable L l \<Longrightarrow> link_run L l evs = Some l' \<Longrightarrow> link_reachable L l'"
proof (induction evs arbitrary: l)
  case (Cons ev evs)
  then obtain m where m: "link_do L l ev = Some m" "link_run L m evs = Some l'" by (auto split: option.splits)
  show ?case by (rule Cons.IH [OF step_link [OF Cons.prems(1) link_do_step [OF m(1)]] m(2)])
qed simp

section \<open>Properties\<close>

text \<open>C5: Both ends of a session agree on what runs. However the messages of the client, the answers, the work of the
  session and all other sessions of the server interleave: as long as the server has not closed the connection of the
  session and the client has not asked it to close the name, a proxy that counts as running on the client is in the
  table of the server, under this session, provided that a plugin that refuses a proxy gives a reason (or the
  server does not send details) and the other errors of the server have a text.\<close>

theorem running_is_registered:
  assumes "link_reachable L l" and "reasons_given L"
    and "cn_pm (ln_client l) n = Some pw" and "ws_Phase pw = PhaseRunning"
    and "CtlProxy (MsgCloseProxy n) \<notin> set (dp_written (cn_disp (ln_client l)))"
    and "sv_heap (ln_server l) (le_session L) = Some ct" and "\<not> ct_connClosed ct"
  shows "\<exists>p. sv_pxys (ln_server l) n = Some (le_session L, p)"
  using link_inv_reachable [OF assms(1,2), of n] assms(3-7)
  by (auto simp: link_inv_def not_closed_def promised_def runs_def open_at_def registered_def)

text \<open>A client with one proxy, from its start until the answer of the server.\<close>

definition secret_demo :: "unit proxy_config" where
  "secret_demo = STCPProxyConfig (proxy_base0\<lparr>pb_Name := ''ssh'', pb_Type := ''stcp''\<rparr>) ''sk'' []"

definition demo_link_env :: "unit server_env \<Rightarrow> (string, unit, unit) link_env" where
  "demo_link_env E = \<lparr>le_hb = demo_hb, le_vname = \<lambda>c. c, le_start = \<lambda>_. None, le_server = E, le_session = 0,
     le_text = \<lambda>_. ''error'', le_detailed = True\<rparr>"

definition demo_client :: "(unit, string, unit) client_control" where
  "demo_client = ctl_UpdateAllConfigurer (\<lambda>c. c) (\<lambda>_. None) [] [] [secret_demo] [] (NewControl_c 0)"

definition demo_session :: "unit server_env \<Rightarrow> (unit, unit) server option" where
  "demo_session E = sv_run E [SvLogin 1 ''r'' True demo_login, SvStart 0] demo_start"

definition asking :: "(unit, string, unit) link_event list" where
  "asking = [LClient (EWorker ''ssh'' 0), LClient EPut, LClient EWrite, LRequest 1 \<lparr>km_Timestamp = 0, km_PrivilegeKey = []\<rparr>]"

definition accepted_run :: "(unit, string, unit) link_event list" where
  "accepted_run = [LSession (SvRun 0 sample_env), LSession (SvAdd 0 2), LSession (SvAdded 0 3), LAnswer 4 None]"

definition demo_link :: "unit server_env \<Rightarrow> (unit, string, unit) link_event list \<Rightarrow> (unit, string, unit, unit, unit) link option" where
  "demo_link E evs = Option.bind (demo_session E) (\<lambda>s.
     link_run (demo_link_env E) \<lparr>ln_client = demo_client, ln_server = s, ln_up = 0, ln_down = []\<rparr> evs)"

text \<open>What a link shows: the phase on the client, whether a close was written, whether the session is open and who has
  the name.\<close>

definition link_view :: "('q, 'c, 'v, 'p, 'k) link \<Rightarrow> phase option \<times> bool \<times> bool option \<times> nat option" where
  "link_view l = (map_option ws_Phase (cn_pm (ln_client l) ''ssh''), CtlProxy (MsgCloseProxy ''ssh'') \<in> set (dp_written (cn_disp (ln_client l))),
     map_option ct_connClosed (sv_heap (ln_server l) 0), map_option fst (sv_pxys (ln_server l) ''ssh''))"

lemma demo_link_serves: "map_option link_view (demo_link demo_env (asking @ accepted_run)) = Some (Some PhaseRunning, False, Some False, Some 0)"
  by code_simp

definition refusing_env :: "unit server_env" where
  "refusing_env = demo_env\<lparr>se_newProxyPlugins := [\<lambda>_. PluginRejects []]\<rparr>"

lemma demo_link_refused: "map_option link_view (demo_link refusing_env (asking @ [LAnswer 4 None])) = Some (Some PhaseRunning, False, Some False, None)"
  by code_simp

lemma demo_session_there:
  "map_option (\<lambda>s. Option.is_none (sv_heap s 0)) (demo_session demo_env) = Some False"
  "map_option (\<lambda>s. Option.is_none (sv_heap s 0)) (demo_session refusing_env) = Some False"
  by code_simp+

lemma demo_link_reachable:
  assumes "demo_link E evs = Some l" and "map_option (\<lambda>s. Option.is_none (sv_heap s 0)) (demo_session E) = Some False"
  shows "link_reachable (demo_link_env E) l"
proof -
  let ?L = "demo_link_env E"
  obtain s where s: "demo_session E = Some s" "sv_heap s 0 \<noteq> None"
    and r: "link_run ?L \<lparr>ln_client = demo_client, ln_server = s, ln_up = 0, ln_down = []\<rparr> evs = Some l"
    using assms by (auto simp: demo_link_def bind_eq_Some_conv Option.is_none_def)
  have "sv_reachable E s"
    using sv_run_reachable [OF sv_reachable.start, of "[SvLogin 1 ''r'' True demo_login, SvStart 0]"] s(1)
    unfolding demo_session_def demo_start_def by simp
  then have b: "link_reachable ?L \<lparr>ln_client = NewControl_c 0 :: (unit, string, unit) client_control, ln_server = s, ln_up = 0, ln_down = []\<rparr>"
    using s(2) by (intro begin_link) (simp_all add: demo_link_env_def)
  have "ctl_step (le_hb ?L) (le_vname ?L) (le_start ?L) (NewControl_c 0) (EReload [] [] [secret_demo] []) = Some demo_client"
    by (simp add: demo_link_env_def demo_client_def locked_def NewControl_c_def)
  then have "link_reachable ?L \<lparr>ln_client = demo_client, ln_server = s, ln_up = 0, ln_down = []\<rparr>"
    using step_link [OF b link_step.client [where ev = "EReload [] [] [secret_demo] []"]] by (simp add: NewControl_c_def)
  then show ?thesis using link_run_reachable r by blast
qed

theorem running_is_registered_witness:
  "\<exists>l p. demo_link demo_env (asking @ accepted_run) = Some l \<and> sv_pxys (ln_server l) ''ssh'' = Some (0, p)"
proof -
  obtain l where l: "demo_link demo_env (asking @ accepted_run) = Some l" "link_view l = (Some PhaseRunning, False, Some False, Some 0)"
    using demo_link_serves by auto
  obtain pw ct where "cn_pm (ln_client l) ''ssh'' = Some pw" "ws_Phase pw = PhaseRunning" "sv_heap (ln_server l) 0 = Some ct" "\<not> ct_connClosed ct"
    "CtlProxy (MsgCloseProxy ''ssh'') \<notin> set (dp_written (cn_disp (ln_client l)))"
    using l(2) by (auto simp: link_view_def)
  moreover have "reasons_given (demo_link_env demo_env)" by (simp add: reasons_given_def demo_link_env_def demo_env_def)
  ultimately show ?thesis
    using running_is_registered [OF demo_link_reachable [OF l(1) demo_session_there(1)]] l(1) by (auto simp: demo_link_env_def)
qed

text \<open>A refusal without a reason is taken for consent. When a plugin refuses a proxy and gives no reason, and the server
  sends details, the answer has no error: the proxy runs on the client, and no session of the server has its name.\<close>

theorem empty_reason_runs:
  "\<exists>(l :: (unit, string, unit, unit, unit) link) pw ct. link_reachable (demo_link_env refusing_env) l \<and> cn_pm (ln_client l) ''ssh'' = Some pw \<and> ws_Phase pw = PhaseRunning \<and>
     sv_heap (ln_server l) 0 = Some ct \<and> \<not> ct_connClosed ct \<and> sv_pxys (ln_server l) ''ssh'' = None"
proof -
  obtain l where l: "demo_link refusing_env (asking @ [LAnswer 4 None]) = Some l" "link_view l = (Some PhaseRunning, False, Some False, None)"
    using demo_link_refused by auto
  then show ?thesis using demo_link_reachable [OF l(1) demo_session_there(2)] by (auto simp: link_view_def)
qed

end
