(* ===== verification/Spec2Isabelle.thy ===== *)
theory Spec2Isabelle
  imports Ports Vhost_Router Vhost Group_Http Group_Listener Group_Worker Nathole Counters Mem_Metrics Port_Ranges Http_Util
    Web_Proxy Web_Chart Web_Client Web_App Web_Page Web_Types Auth Proxy_Config Dashboard_Api Client_Api Config_Page
    Nathole_Ctl Server_Visitor Server_Proxy Server_Control Server_Sessions Wait_Backoff Msg_Transport Client_Control Client_Service
    Client_Server
begin

text \<open>
  \<^bold>\<open>frp, a fast reverse proxy\<close>: a verification library of its server, its client and its dashboards.

  \<^bold>\<open>The program.\<close> A client (\<open>frpc\<close>, \<open>client/\<close>) logs in to a server (\<open>frps\<close>, \<open>server/\<close>) and registers proxies: ports or
  host names of the server that lead to services behind the client. The server keeps the ports, the table
  of virtual hosts, groups of proxies that share an entry, the names in use, the listeners of
  visitors and the table for hole punching; it counts connections and traffic; and it has a dashboard, a
  web page (\<open>web/frps\<close>) on an HTTP interface (\<open>server/dashboard_api.go\<close>). The client has a dashboard of its own
  (\<open>web/frpc\<close>, \<open>client/admin_api.go\<close>) that shows the state of its proxies and edits its configuration.

  \<^bold>\<open>The theories.\<close> Paths are those of the repository; definitions have the names of the code, with a suffix or
  prefix where a name is taken.

  \<^item> Shared: \<open>Frp_Prelude\<close> (strings of Go and JavaScript, lists and maps), \<open>Js_Value\<close> (the values and operators of
    JavaScript that the dashboards use, \<open>fetch\<close>), \<open>Go_Crypto\<close> (the digest of the keys), \<open>Registry\<close> (the contract
    of a table with one entry per name, as the locale \<open>name_registry\<close>).
  \<^item> Resources of the server: \<open>Ports\<close> (\<open>server/ports/ports.go\<close>), \<open>Port_Ranges\<close> (\<open>pkg/config/types/types.go\<close>,
    \<open>pkg/util/util/util.go\<close>), \<open>Http_Util\<close> (\<open>pkg/util/http/http.go\<close>), \<open>Vhost_Router\<close> and \<open>Vhost\<close> (\<open>pkg/util/vhost\<close>,
    \<open>pkg/util/tcpmux\<close>), \<open>Group_Http\<close>, \<open>Group_Listener\<close> and \<open>Group_Worker\<close> (\<open>server/group\<close>), \<open>Proxy_Manager\<close> (\<open>server/proxy/proxy.go\<close>),
    \<open>Server_Visitor\<close> (\<open>server/visitor\<close>, \<open>pkg/util/net/listener.go\<close>), \<open>Nathole\<close> and \<open>Nathole_Ctl\<close> (\<open>pkg/nathole\<close>).
  \<^item> Sessions: \<open>Auth\<close> (\<open>pkg/auth\<close>), \<open>Proxy_Config\<close> (\<open>pkg/config/v1\<close>, its validation and \<open>pkg/msg\<close>), \<open>Server_Proxy\<close>
    (\<open>server/proxy/*.go\<close>: what \<open>Run\<close> takes from the resources and \<open>Close\<close> gives back), \<open>Server_Control\<close>
    (\<open>server/control.go\<close>, \<open>server/service.go\<close>, \<open>pkg/plugin/server\<close>) and \<open>Server_Sessions\<close>, its invariants.
  \<^item> Statistics and interface: \<open>Counters\<close> (\<open>pkg/util/metric\<close>), \<open>Mem_Metrics\<close> (\<open>pkg/metrics/mem\<close>), \<open>Dashboard_Api\<close>
    (\<open>server/dashboard_api.go\<close>).
  \<^item> Client: \<open>Client_Health\<close>, \<open>Client_Proxy\<close>, \<open>Client_Manager\<close>, \<open>Client_Api\<close> (\<open>client/health\<close>, \<open>client/proxy\<close>,
    \<open>client/visitor\<close>, \<open>client/admin_api.go\<close>); \<open>Msg_Transport\<close> (\<open>pkg/msg/handler.go\<close>, \<open>pkg/transport/message.go\<close>: the channel of the
    control connection, requests and answers), \<open>Wait_Backoff\<close> (\<open>pkg/util/wait\<close>), \<open>Client_Control\<close> (\<open>client/control.go\<close>: a session
    from its start to its end) and \<open>Client_Service\<close> (\<open>client/service.go\<close>: logins, reconnections, reloads, stop).
  \<^item> Both ends: \<open>Client_Server\<close> joins the control of a client and the server with all its sessions by the messages of the
    control connection.
  \<^item> Dashboards: \<open>Web_Proxy\<close>, \<open>Web_Page\<close>, \<open>Web_Types\<close> (the lists: rows, the page as an event machine, its types),
    \<open>Web_Chart\<close> (overview and charts), \<open>Web_Client\<close>, \<open>Config_Page\<close> (status and configuration of the client),
    \<open>Web_App\<close> (frame, theme and menu).

  \<^bold>\<open>State and operations.\<close> A struct or component is a record, a Go map is a map, an operation is a function from
  the state to the state and a result; an error is a value of a sum type, and a Go panic is \<open>None\<close>. What a mutex
  makes atomic is one function; what runs between two critical sections is two steps. So a session of
  the server is a set of steps (\<open>sv_step\<close>, with the relation \<open>sv_tr\<close> and the reachable states \<open>sv_reachable\<close>), in which
  logins, registrations and exits of different clients interleave, and joining an HTTP group is the two
  locked parts of the code. A session of the client is steps as well (\<open>ctl_step\<close>, where a step that would block is \<open>None\<close>),
  and its service a labelled relation (\<open>svc_step\<close>) in which a login and the installation of its control,
  and the two parts of a reload, are separate. A page of a dashboard is a machine over its refs and its open requests,
  whose events are clicks and answers in any order; on the configuration page the client is part of the machine,
  and an upload is written to its file in steps between which anything can happen. Integers have their width where it can matter (counters
  of 32 and 64 bits, ports taken from them), and are \<open>int\<close> otherwise.

  \<^bold>\<open>Parameters.\<close> The clock with its time zone, the order in which a Go map is iterated, the branch that a Go select takes, errors of the
  operating system, random numbers, the answers of plugins, the OpenID library with what it accepts at a time and the token that a client gets for a message, the decoder of configuration files, the
  start of a visitor, \<open>Humanize.fileSize\<close> and the texts of JavaScript errors, vueuse and the menu are
  arguments. What is relied on of them is a hypothesis of the theorem: an order enumerates the map, times
  do not go back, a toggle called with a value sets it.

  \<^bold>\<open>What is shown.\<close>
  \<^item> Resources are neither lost nor given twice: the ports are partitioned into free, used and reserved
    (\<open>ports_partition\<close>), a name belongs to one client (\<open>names_owned_once\<close>), limits hold (\<open>client_limits\<close>,
    \<open>visitor_queue_bounded\<close>), a group has its route exactly while it has members (\<open>group_route_iff_members\<close>,
    \<open>tcp_group_close\<close>), and a new session of a client is served only when the old one has gone
    (\<open>session_takes_over\<close>).
  \<^item> Requests go where they should: the longest prefix wins (\<open>routers_Get_longest_prefix\<close>), hosts and
    wildcards are tried in order (\<open>getVhost_first_candidate\<close>), connections are delivered (\<open>mux_handle_delivers\<close>),
    credentials are checked (\<open>ServeHTTP_checks_auth\<close>, \<open>auth_session_accepted\<close>, \<open>visitor_conn_admitted\<close>), members of a
    group take turns (\<open>chooseEndpoint_round_robin\<close>) and get each connection once (\<open>group_hands_on\<close>), both peers of a hole get matching answers
    and listen while the other one sends (\<open>hole_answers_match\<close>).
  \<^item> The client keeps its proxies as configured: \<open>client_reload\<close>, \<open>wrapper_phase_agrees\<close>, \<open>wrapper_recovers\<close>, and through lost
    sessions and new ones \<open>config_in_force\<close>; its messages carry the whole configuration (\<open>config_msg_roundtrip\<close>) and
    an answer goes to the request it belongs to (\<open>answers_reach_requests\<close>); it gives a connection up exactly when the
    heartbeats say so (\<open>heartbeat_decides\<close>); what it counts as running the server has registered for it
    (\<open>running_is_registered\<close>); and it waits longer and longer between logins (\<open>login_backoff\<close>).
  \<^item> The dashboards tell the truth: from the events of the server through its counters and its interface to
    the cells, bars and numbers of the pages (\<open>dashboard_counts_sessions\<close>, \<open>GetLastDaysCount_history\<close>,
    \<open>list_page_shows_statistics\<close>, \<open>traffic_dialog_history\<close>, \<open>overview_page_counts\<close>, \<open>clear_offline_refresh\<close>,
    \<open>status_page_rows\<close>); in any order of clicks and answers the rows of a page are those of the latest list
    that answered an open request, no request is answered twice, the rows are well typed, and waiting ends
    (\<open>page_rows_of_one_answer\<close>, \<open>page_type_sound\<close>, \<open>page_quiesces\<close>); only what was confirmed is written to the file of the client, it can be read back,
    and every upload ends in one message (\<open>config_only_confirmed\<close>, \<open>config_upload_roundtrip\<close>,
    \<open>uploads_accounted\<close>).
  \<^item> Where the code falls short of this, a theorem says how: \<open>negative_pool_panics\<close>, \<open>proxy_request_bypasses_auth\<close>,
    \<open>range_loop_terminates\<close> (exactly when the loop ends), \<open>session_end_iff\<close> (exactly as long as what a lost session
    can still come to its end), \<open>config_only_confirmed\<close> (what a failed or concurrent upload leaves of the file),
    and, among the lemmas, \<open>register_race_leaks_route\<close>,
    \<open>reserved_port_granted_twice\<close>, \<open>page_shows_older_answer\<close>, \<open>upload_always_success\<close>, \<open>error_text_uploaded\<close>, \<open>edit_lost\<close>, \<open>udp_second_close_frees\<close>,
    \<open>uploads_mix\<close>, \<open>repeated_address_no_ports\<close>, \<open>reload_lost\<close>, \<open>reloads_overtake\<close>, \<open>stop_missed\<close>, \<open>empty_reason_runs\<close>, \<open>stale_answer\<close>, \<open>shared_lane_lost\<close>, \<open>fast_retry_pattern\<close>.

  \<^bold>\<open>Interfaces.\<close> \<open>name_registry\<close> is interpreted by the proxy manager, the visitor manager, the clients of hole punching
  and the route table; \<open>port_pool\<close> by the port manager; \<open>auth_pair\<close> by the setters and verifiers of \<open>pkg/auth\<close>;
  \<open>config_sync\<close> by the proxy manager and by the visitor manager of the client.

  \<^bold>\<open>Loops.\<close> All functions but one are total, and no fuel is used; loops that run for ever (the workers, the reading of
  messages) are the sequences of steps of their machines. The loop over a range of numbers does not end when the
  range ends at the largest integer; it is a partial function in which not returning is \<open>None\<close>, and the theorem
  says for exactly which ranges it returns.

  \<^bold>\<open>Not modelled.\<close> Reading and writing of connections: the goroutines that copy data, encryption, compression,
  the bandwidth limiter, TLS, QUIC, KCP, websocket and the multiplexing of a connection; the encoding of
  messages on the wire and the connector of the client; the plugins of the client; the ssh gateway and the virtual network; the decoding of configuration files, the
  legacy ini format, command lines, logging, Prometheus; styles and layout of the pages, and the built
  bundles under \<open>assets/\<close>, which are compiled from \<open>web/\<close>. These parts are input and output or calls of
  libraries, without a state of their own that the modelled parts depend on.
\<close>

section \<open>The dashboard: server and browser\<close>

text \<open>What the browser gets for a body of JSON.\<close>

lemma res_json_reply [simp]: "res_json (Inr (json_reply v)) = Inr v"
  by (simp add: res_json_def json_reply_def)

lemma ins_sorted_from:
  assumes "sorted (t0 # map fst evs @ [now])"
  shows "sorted (t0 # map fst (ins_of name evs) @ [now])" "sorted (t0 # map fst (outs_of name evs) @ [now])"
  using assms sorted_ins_of [of evs name] sorted_outs_of [of evs name] ins_of_times [of _ name evs] outs_of_times [of _ name evs]
  by (fastforce simp: sorted_append)+

text \<open>C7: The traffic dialog shows the history of the proxy. From the moment a proxy is started, whatever the
  server counts until now (without a clearing, and in time order), the bar that the chart draws over the label of the day
  \<open>j\<close> days ago, for the last seven days, is the number of bytes of that proxy on that day, in and
  out, when the browser and the server are in the same zone and agree on the day.\<close>

theorem traffic_dialog_history:
  assumes "sorted (t0 # map fst evs @ [now])"
    and "list_all (\<lambda>e. keeps_stats name t (snd e)) evs"
    and "ss_ProxyStatistics m0 name = None" and "m = mem_run (fixed_clock z) evs (mem_NewProxy (fixed_clock z) t0 name t m0)"
    and "today = ck_day (fixed_clock z) now" and "100 \<le> getFullYear (today - 6)" and "j \<le> 6"
  shows "\<exists>opt. fetchData_traffic err today el (Inr (fst (apiProxyTraffic (fixed_clock z) now name m))) =
      ([ChartInit el, ShowLoading, SetOption opt, HideLoading], None) \<and>
    bo_dates opt ! (6 - j) = date_label (today - int j) \<and>
    bo_in opt ! (6 - j) = jnum64 (day_total z (ins_of name evs) (today - int j)) \<and>
    bo_out opt ! (6 - j) = jnum64 (day_total z (outs_of name evs) (today - int j))"
proof -
  let ?ck = "fixed_clock z"
  let ?c = "NewDateCounter ?ck t0 ReserveDays"
  obtain ps0 where ps0: "ss_ProxyStatistics (mem_NewProxy ?ck t0 name t m0) name = Some ps0"
      "ps_ProxyType ps0 = t" "ps_TrafficIn ps0 = ?c" "ps_TrafficOut ps0 = ?c"
    using assms(3) by (simp add: mem_NewProxy_def Let_def)
  obtain ps where ps: "ss_ProxyStatistics m name = Some ps"
      "ps_TrafficIn ps = run_incs ?ck (ins_of name evs) ?c" "ps_TrafficOut ps = run_incs ?ck (outs_of name evs) ?c"
    using mem_run_stats [OF ps0(1), of evs ?ck] assms(2,4) ps0(2-4) by auto
  have r: "(1::int) \<le> ReserveDays" "0 \<le> ReserveDays" "nat (min ReserveDays ReserveDays) = 7" by (simp_all add: ReserveDays_def)
  obtain tin cin where tin: "GetLastDaysCount ?ck now ReserveDays (ps_TrafficIn ps) = Some (tin, cin)"
      "length tin = 7" "\<forall>i < 7. tin ! i = day_total z (ins_of name evs) (today - int i)"
    using GetLastDaysCount_sums [OF ins_sorted_from(1) [OF assms(1), of name] r(1,2), of z] ps(2) r(3) assms(5) by auto
  obtain tout cout where tout: "GetLastDaysCount ?ck now ReserveDays (ps_TrafficOut ps) = Some (tout, cout)"
      "length tout = 7" "\<forall>i < 7. tout ! i = day_total z (outs_of name evs) (today - int i)"
    using GetLastDaysCount_sums [OF ins_sorted_from(2) [OF assms(1), of name] r(1,2), of z] ps(3) r(3) assms(5) by auto
  have "fst (apiProxyTraffic ?ck now name m) =
      json_reply (JObj [(''name'', JStr name), (''trafficIn'', JArr (map jnum64 tin)), (''trafficOut'', JArr (map jnum64 tout))])"
    using ps(1) tin(1) tout(1) by (simp add: apiProxyTraffic_def GetProxyTraffic_def)
  then have "fetchData_traffic err today el (Inr (fst (apiProxyTraffic ?ck now name m))) =
      (DrawProxyTrafficChart today el (map jnum64 tin) (map jnum64 tout), None)"
    by (simp add: fetchData_traffic_def js_eq_null_def js_opt_get_obj)
  then show ?thesis
    using chart_days [OF assms(6), of "map jnum64 tin" "map jnum64 tout" j el] tin(2,3) tout(2,3) assms(7) by auto
qed


theorem traffic_dialog_history_witness:
  "\<exists>opt. fetchData_traffic (\<lambda>_. []) 18322 ''p'' (Inr (fst (apiProxyTraffic (fixed_clock 0) (18322 * day_ns) ''p''
        (mem_run (fixed_clock 0) [(18321 * day_ns, EvIn ''p'' 5)]
          (mem_NewProxy (fixed_clock 0) 0 ''p'' ''tcp'' (newServerMetrics (fixed_clock 0) 0)))))) =
      ([ChartInit ''p'', ShowLoading, SetOption opt, HideLoading], None) \<and>
    bo_dates opt ! 5 = ''2020-2-29'' \<and> bo_in opt ! 5 = JNum 5"
proof -
  have s: "sorted (0 # map fst [(18321 * day_ns, EvIn ''p'' 5)] @ [18322 * day_ns])"
    and d: "18322 = ck_day (fixed_clock 0) (18322 * day_ns)"
    by (simp_all add: day_ns_def fixed_clock_def)
  have l: "date_label 18321 = ''2020-2-29''" "100 \<le> getFullYear (18322 - 6)" by code_simp+
  have t: "jnum64 (day_total 0 (ins_of ''p'' [(18321 * day_ns, EvIn ''p'' 5)]) 18321) = JNum 5"
    by (simp add: jnum64_def day_total_def ins_of_def fixed_clock_def day_ns_def)
  have n: "ss_ProxyStatistics (newServerMetrics (fixed_clock 0) 0) ''p'' = None" by (simp add: newServerMetrics_def)
  show ?thesis
    using traffic_dialog_history [OF s _ n refl d l(2), of "''tcp''" 1 "\<lambda>_. []" "''p''"] t l(1) by auto
qed

text \<open>The names of the proxies of a type that the server has statistics of.\<close>

definition names_of :: "string \<Rightarrow> server_statistics \<Rightarrow> string set" where
  "names_of t m = {name. \<exists>ps. ss_ProxyStatistics m name = Some ps \<and> ps_ProxyType ps = t}"

lemma listed_names:
  assumes "distinct order" and "set order = dom (ss_ProxyStatistics m)"
  shows "map px_Name (sort_key px_Name (List.map_filter (listed ck fmt now t m) order)) = sorted_list_of_set (names_of t m)"
proof -
  let ?l = "List.map_filter (listed ck fmt now t m) order"
  have n: "map px_Name (List.map_filter (listed ck fmt now t m) xs) = filter (\<lambda>n. n \<in> names_of t m) xs" for xs
    by (induction xs) (auto simp: map_filter_simps listed_def names_of_def split: option.splits)
  have "map px_Name (sort_key px_Name ?l) = sort (map px_Name ?l)"
  proof (rule sorted_distinct_set_unique)
    have "distinct (map px_Name ?l)" using assms(1) by (simp add: n)
    then show "distinct (sort (map px_Name ?l))" by simp
    then show "distinct (map px_Name (sort_key px_Name ?l))" by (simp add: distinct_map)
  qed simp_all
  also have "\<dots> = sorted_list_of_set (set (filter (\<lambda>n. n \<in> names_of t m) order))"
    using assms(1) by (subst sorted_list_of_set_sort_remdups) (simp add: n distinct_remdups_id)
  also have "set (filter (\<lambda>n. n \<in> names_of t m) order) = names_of t m"
    using assms(2) by (auto simp: names_of_def)
  finally show ?thesis .
qed

lemma row_of_info:
  assumes "t \<in> set row_types"
  shows "\<exists>r. make_row t (proxy_info pjson pm ps) port host = Inr r \<and> bp_name r = JStr (px_Name ps) \<and>
    bp_status r = JStr (if pm (px_Name ps) = None then ''offline'' else ''online'') \<and>
    bp_conns r = jnum64 (px_CurConns ps) \<and> bp_trafficIn r = jnum64 (px_TodayTrafficIn ps) \<and>
    bp_trafficOut r = jnum64 (px_TodayTrafficOut ps)"
proof -
  have n: "\<not> js_eq_null (proxy_info pjson pm ps)" by (simp add: js_eq_null_def proxy_info_def)
  from BaseProxy_Inr [OF this] obtain r0 where r0: "BaseProxy (proxy_info pjson pm ps) = Inr r0" by blast
  then have "bp_name r0 = JStr (px_Name ps)" "bp_conns r0 = jnum64 (px_CurConns ps)"
      "bp_status r0 = JStr (if pm (px_Name ps) = None then ''offline'' else ''online'')"
      "bp_trafficIn r0 = jnum64 (px_TodayTrafficIn ps)" "bp_trafficOut r0 = jnum64 (px_TodayTrafficOut ps)"
    using n by (auto simp: BaseProxy_def Let_def proxy_info_get)
  then show ?thesis using make_row_base [OF r0 assms, of port host] by auto
qed

text \<open>A row shows a proxy: its state, its connections and its traffic of today.\<close>

definition row_shows :: "clock \<Rightarrow> int \<Rightarrow> 'v pxy_manager \<Rightarrow> server_statistics \<Rightarrow> proxy_row \<Rightarrow> bool" where
  "row_shows ck now pm m r \<longleftrightarrow>
     (\<exists>name ps. ss_ProxyStatistics m name = Some ps \<and> bp_name r = JStr name \<and>
       bp_status r = JStr (if pm name = None then ''offline'' else ''online'') \<and>
       bp_conns r = jnum64 (to_int64 (counter_Count (ps_CurConns ps))) \<and>
       bp_trafficIn r = jnum64 (fst (TodayCount ck now (ps_TrafficIn ps))) \<and>
       bp_trafficOut r = jnum64 (fst (TodayCount ck now (ps_TrafficOut ps))))"

lemma push_info:
  assumes "\<And>ps. f (h ps) = Inr (g ps)"
  shows "push_all f (map h xs) acc = (acc @ map g xs, None)"
  using assms by (induction xs arbitrary: acc) auto

lemma list_page:
  assumes "distinct order" and "set order = dom (ss_ProxyStatistics m)" and "t \<in> set row_types"
    and "apiProxyByType ck fmt pjson now order t pm m = (reply, m')"
  shows "\<exists>rows. load_rows (\<lambda>v. make_row t v port host) (Inr reply) old = (rows, None) \<and>
    map bp_name rows = map JStr (sorted_list_of_set (names_of t m)) \<and>
    list_all (row_shows ck now pm m) rows"
proof -
  let ?l = "sort_key px_Name (List.map_filter (listed ck fmt now t m) order)"
  define g where "g ps = projr (make_row t (proxy_info pjson pm ps) port host)" for ps
  have g: "make_row t (proxy_info pjson pm ps) port host = Inr (g ps) \<and> bp_name (g ps) = JStr (px_Name ps) \<and>
    bp_status (g ps) = JStr (if pm (px_Name ps) = None then ''offline'' else ''online'') \<and>
    bp_conns (g ps) = jnum64 (px_CurConns ps) \<and> bp_trafficIn (g ps) = jnum64 (px_TodayTrafficIn ps) \<and>
    bp_trafficOut (g ps) = jnum64 (px_TodayTrafficOut ps)" for ps
    using row_of_info [OF assms(3), of pjson pm ps port host] by (auto simp: g_def)
  have "reply = json_reply (JObj [(''proxies'', JArr (map (proxy_info pjson pm) ?l))])"
    using assms(4) GetProxiesByType_list [OF assms(1), of ck fmt now t m]
    by (auto simp: apiProxyByType_def split: prod.splits)
  moreover have "push_all (\<lambda>v. make_row t v port host) (map (proxy_info pjson pm) ?l) [] = (map g ?l, None)"
    using push_info [where f = "\<lambda>v. make_row t v port host" and h = "proxy_info pjson pm" and g = g and acc = "[]"] g by simp
  ultimately have L: "load_rows (\<lambda>v. make_row t v port host) (Inr reply) old = (map g ?l, None)"
    by (simp add: load_rows_def js_get_obj)
  have N: "map bp_name (map g ?l) = map JStr (sorted_list_of_set (names_of t m))"
    using listed_names [OF assms(1,2), of ck fmt now t, symmetric] g by simp
  have "row_shows ck now pm m (g x)" if "x \<in> set ?l" for x
  proof -
    from that obtain name where "listed ck fmt now t m name = Some x"
      by (auto simp: List.map_filter_def)
    then obtain ps where "ss_ProxyStatistics m name = Some ps" "x = fst (stats_of ck fmt now name ps)"
      by (auto simp: listed_def split: option.splits if_splits)
    then show ?thesis using g [of x] by (auto simp: row_shows_def stats_of_def split: prod.splits)
  qed
  then have "list_all (row_shows ck now pm m) (map g ?l)" by (simp add: list_all_iff)
  then show ?thesis using L N by blast
qed

text \<open>C2: The list page of a proxy type shows what the server knows. It has exactly one row for every proxy of
  the type that the server has statistics of, sorted by name; the row says whether a proxy of that name
  is running now, and has its open connections and its traffic of today.\<close>

theorem list_page_shows_statistics:
  assumes "distinct order" and "set order = dom (ss_ProxyStatistics m)" and "t \<in> set row_types"
    and "apiProxyByType ck fmt pjson now order t pm m = (reply, m')"
  shows "\<exists>rows. load_rows (\<lambda>v. make_row t v port host) (Inr reply) old = (rows, None) \<and>
    map bp_name rows = map JStr (sorted_list_of_set (names_of t m)) \<and>
    list_all (row_shows ck now pm m) rows"
  using assms by (rule list_page)

lemma mem_demo_dom: "dom (ss_ProxyStatistics mem_demo) = {''a''}" "names_of ''tcp'' mem_demo = {''a''}"
  by (auto simp: mem_demo_def mem_run_def mem_NewProxy_def mem_CloseProxy_def newServerMetrics_def names_of_def Let_def
      split: if_splits)

theorem list_page_shows_statistics_witness:
  "\<exists>rows. load_rows (\<lambda>v. make_row ''tcp'' v JUndef JUndef)
     (Inr (fst (apiProxyByType (fixed_clock 0) (\<lambda>_. []) (\<lambda>_ :: unit. JNull) 30 [''a''] ''tcp'' Map.empty mem_demo))) [] = (rows, None) \<and>
    map bp_name rows = [JStr ''a'']"
  using list_page_shows_statistics [of "[''a'']" mem_demo "''tcp''" "fixed_clock 0" "\<lambda>_. []" "\<lambda>_ :: unit. JNull" 30 Map.empty,
      OF _ _ _ prod.collapse [symmetric], of JUndef JUndef "[]"]
  by (auto simp: mem_demo_dom row_types_def)

text \<open>C37: Clearing offline proxies works end to end: the click sends a request that the server answers with
  success, so the page reports success and refreshes, and the refreshed list no longer has the
  proxies that were closed before that moment and not started since, and has all others.\<close>

theorem clear_offline_refresh:
  assumes "distinct order" and "set order = dom (ss_ProxyStatistics m)" and "t \<in> set row_types"
    and "deleteProxies now order ''offline'' m = (reply, m1)"
    and "distinct order1" and "set order1 = dom (ss_ProxyStatistics m1)"
    and "apiProxyByType ck fmt pjson now' order1 t pm m1 = (reply1, m2)"
  shows "clearOfflineProxies emsg (Inr reply) = ((MSuccess, ''Successfully cleared offline proxies''), True) \<and>
    (\<exists>rows. load_rows (\<lambda>v. make_row t v port host) (Inr reply1) old = (rows, None) \<and>
      map bp_name rows = map JStr (sorted_list_of_set
        {name \<in> names_of t m. \<forall>ps. ss_ProxyStatistics m name = Some ps \<longrightarrow>
           \<not> (ps_LastCloseTime ps \<noteq> zero_time \<and> ps_LastStartTime ps < ps_LastCloseTime ps \<and> ps_LastCloseTime ps < now)}))"
proof -
  have "reply = text_reply 200 ''OK'' []" and m1: "m1 = snd (ClearOfflineProxies now order m)"
    using assms(4) by (simp_all add: deleteProxies_def)
  then have "clearOfflineProxies emsg (Inr reply) = ((MSuccess, ''Successfully cleared offline proxies''), True)"
    by (simp add: clearOfflineProxies_def text_reply_def)
  moreover have "names_of t m1 = {name \<in> names_of t m. \<forall>ps. ss_ProxyStatistics m name = Some ps \<longrightarrow>
      \<not> (ps_LastCloseTime ps \<noteq> zero_time \<and> ps_LastStartTime ps < ps_LastCloseTime ps \<and> ps_LastCloseTime ps < now)}"
    by (auto simp: m1 names_of_def ClearOfflineProxies_def clearUselessInfo_def Let_def useless_def)
  ultimately show ?thesis using list_page [OF assms(5,6,3,7), of port host old] by auto
qed

theorem clear_offline_refresh_witness:
  "\<exists>rows. load_rows (\<lambda>v. make_row ''tcp'' v JUndef JUndef)
     (Inr (fst (apiProxyByType (fixed_clock 0) (\<lambda>_. []) (\<lambda>_ :: unit. JNull) 31 [] ''tcp'' Map.empty
        (snd (deleteProxies 30 [''a''] ''offline'' mem_demo))))) [] = (rows, None) \<and> map bp_name rows = []"
proof -
  have a: "ss_ProxyStatistics mem_demo ''a'' = Some ps \<Longrightarrow>
      ps_LastCloseTime ps \<noteq> zero_time \<and> ps_LastStartTime ps < ps_LastCloseTime ps \<and> ps_LastCloseTime ps < 30" for ps
    by (auto simp: mem_demo_def mem_run_def mem_NewProxy_def mem_CloseProxy_def newServerMetrics_def zero_time_def Let_def)
  obtain pa where pa: "ss_ProxyStatistics mem_demo ''a'' = Some pa" using mem_demo_dom(1) by blast
  have "ss_ProxyStatistics (snd (deleteProxies 30 [''a''] ''offline'' mem_demo)) name = None" for name
    using mem_demo_dom(1) a
    by (cases "name = ''a''") (auto simp: deleteProxies_def ClearOfflineProxies_def clearUselessInfo_def Let_def useless_def)
  then have e: "{} = dom (ss_ProxyStatistics (snd (deleteProxies 30 [''a''] ''offline'' mem_demo)))" by auto
  obtain reply m1 where d: "deleteProxies 30 [''a''] ''offline'' mem_demo = (reply, m1)" by fastforce
  obtain reply1 m2 where p: "apiProxyByType (fixed_clock 0) (\<lambda>_. []) (\<lambda>_ :: unit. JNull) 31 [] ''tcp'' Map.empty m1 = (reply1, m2)"
    by fastforce
  have o: "distinct [''a'']" "set [''a''] = dom (ss_ProxyStatistics mem_demo)" "''tcp'' \<in> set row_types"
    "distinct ([] :: string list)" "set [] = dom (ss_ProxyStatistics m1)"
    using e d by (auto simp: mem_demo_dom row_types_def)
  have em: "{name \<in> names_of ''tcp'' mem_demo. \<forall>ps. ss_ProxyStatistics mem_demo name = Some ps \<longrightarrow>
      \<not> (ps_LastCloseTime ps \<noteq> zero_time \<and> ps_LastStartTime ps < ps_LastCloseTime ps \<and> ps_LastCloseTime ps < 30)} = {}"
    using a pa mem_demo_dom(2) by auto
  show ?thesis
    using clear_offline_refresh [OF o(1-3) d o(4,5) p, of "\<lambda>_. []" JUndef JUndef "[]", unfolded em] d p by simp
qed

section \<open>The overview page\<close>

lemma api_info_get:
  assumes "set keys = dom (ss_ProxyTypeCounts m)" and "mem_GetServer ck now m = (st, m')"
    and "fst (apiServerInfo ck now keys cfg allow m) = json_reply v"
  shows "js_opt_get v ''clientCounts'' = jnum64 (sv_ClientCounts st)" "js_opt_get v ''curConns'' = jnum64 (sv_CurConns st)"
    "js_opt_get v ''allowPortsStr'' =
       (if PortsRangeSlice_String allow = [] then JUndef else JStr (PortsRangeSlice_String allow))"
    "js_opt_get (js_opt_get v ''proxyTypeCount'') t =
       (case sv_ProxyTypeCounts st t of None \<Rightarrow> JUndef | Some n \<Rightarrow> jnum64 n)"
    "\<not> js_eq_null v" "\<not> js_eq_null (js_opt_get v ''proxyTypeCount'')"
proof -
  let ?f = "\<lambda>k. map_option (\<lambda>n. (k, jnum64 n)) (sv_ProxyTypeCounts st k)"
  have f: "map_of (List.map_filter ?f ks) k = (if k \<in> set ks then map_option jnum64 (sv_ProxyTypeCounts st k) else None)" for ks k
    by (induction ks) (auto simp: map_filter_simps split: option.splits)
  have d: "sv_ProxyTypeCounts st k \<noteq> None \<Longrightarrow> k \<in> set keys" for k
    using assms(1,2) by (auto simp: mem_GetServer_def split: prod.splits)
  have v: "v = JObj ([(''version'', JStr (sc_Version cfg)), (''bindPort'', JNum (sc_BindPort cfg)),
               (''vhostHTTPPort'', JNum (sc_VhostHTTPPort cfg)), (''vhostHTTPSPort'', JNum (sc_VhostHTTPSPort cfg)),
               (''tcpmuxHTTPConnectPort'', JNum (sc_TCPMuxHTTPConnectPort cfg)),
               (''kcpBindPort'', JNum (sc_KCPBindPort cfg)), (''quicBindPort'', JNum (sc_QUICBindPort cfg)),
               (''subdomainHost'', JStr (sc_SubDomainHost cfg)), (''maxPoolCount'', JNum (sc_MaxPoolCount cfg)),
               (''maxPortsPerClient'', JNum (sc_MaxPortsPerClient cfg)),
               (''heartbeatTimeout'', JNum (sc_HeartbeatTimeout cfg))] @
              jstr ''allowPortsStr'' (PortsRangeSlice_String allow) @ jbool ''tlsForce'' (sc_TLSForce cfg) @
              [(''totalTrafficIn'', jnum64 (sv_TotalTrafficIn st)), (''totalTrafficOut'', jnum64 (sv_TotalTrafficOut st)),
               (''curConns'', jnum64 (sv_CurConns st)), (''clientCounts'', jnum64 (sv_ClientCounts st)),
               (''proxyTypeCount'', JObj (List.map_filter ?f keys))])"
    using assms(2,3) by (simp add: apiServerInfo_def json_reply_def)
  show "js_opt_get v ''clientCounts'' = jnum64 (sv_ClientCounts st)" "js_opt_get v ''curConns'' = jnum64 (sv_CurConns st)"
    "js_opt_get v ''allowPortsStr'' =
       (if PortsRangeSlice_String allow = [] then JUndef else JStr (PortsRangeSlice_String allow))"
    "\<not> js_eq_null v"
    by (simp_all add: v js_opt_get_obj jstr_def jbool_def js_eq_null_def)
  have p: "js_opt_get v ''proxyTypeCount'' = JObj (List.map_filter ?f keys)"
    by (simp add: v js_opt_get_obj jstr_def jbool_def)
  show "\<not> js_eq_null (js_opt_get v ''proxyTypeCount'')" by (simp add: p js_eq_null_def)
  show "js_opt_get (js_opt_get v ''proxyTypeCount'') t = (case sv_ProxyTypeCounts st t of None \<Rightarrow> JUndef | Some n \<Rightarrow> jnum64 n)"
    using d [of t] by (auto simp: p js_opt_get_obj f split: option.splits)
qed

lemma apiServerInfo_json: "\<exists>v. fst (apiServerInfo ck now keys cfg allow m) = json_reply v"
  by (cases "mem_GetServer ck now m") (auto simp: apiServerInfo_def)

lemma fetchData_overview_reply:
  assumes "\<not> js_eq_null v" and "\<not> js_eq_null (js_opt_get v ''proxyTypeCount'')"
  shows "fst (fetchData_overview (Inr (json_reply v)) d) = fill_overview v"
  using assms js_get_Inr [OF assms(1), of "''proxyTypeCount''"]
  by (auto simp: fetchData_overview_def DrawProxyChart_def Let_def dest: js_opt_get_eq split: prod.splits option.splits)

text \<open>When the server has no list of allowed ports it leaves the field out of its answer, and the overview
  page, which hides the item for an empty text only, shows the item ''Allow Ports'' with the value
  undefined; with a list it shows the list.\<close>

theorem allow_ports_item:
  assumes "set keys = dom (ss_ProxyTypeCounts m)"
  shows "(''Allow Ports'', v) \<in> set (overview_items
       (fst (fetchData_overview (Inr (fst (apiServerInfo ck now keys cfg allow m))) d))) \<longleftrightarrow>
     v = (if PortsRangeSlice_String allow = [] then JUndef else JStr (PortsRangeSlice_String allow))"
proof -
  obtain w where w: "fst (apiServerInfo ck now keys cfg allow m) = json_reply w" using apiServerInfo_json by blast
  obtain st m' where "mem_GetServer ck now m = (st, m')" by fastforce
  note g = api_info_get [OF assms this w]
  show ?thesis
    using g(3) fetchData_overview_reply [OF g(5,6), of d] by (auto simp: w overview_items_def fill_overview_def Let_def)
qed

theorem allow_ports_item_witness:
  "(''Allow Ports'', JUndef) \<in> set (overview_items (fst (fetchData_overview
     (Inr (fst (apiServerInfo (fixed_clock 0) 0 [] server_demo [] (newServerMetrics (fixed_clock 0) 0)))) overview_init)))"
proof -
  have "set [] = dom (ss_ProxyTypeCounts (newServerMetrics (fixed_clock 0) 0))" by (simp add: newServerMetrics_def)
  from allow_ports_item [OF this, of JUndef "fixed_clock 0" 0 server_demo "[]" overview_init] show ?thesis
    by (simp add: PortsRangeSlice_String_def)
qed

text \<open>C21: The numbers of the overview page are those of the server's history. After any sequence of events in
  which no proxy is closed before one of its type was opened, the page shows as clients and as
  connections the ones opened less the ones closed, and as proxies the sum of these differences over
  the seven types it counts, which tcpmux is not one of.\<close>

theorem overview_page_counts:
  assumes "closes_opened {} evs" and "m = mem_run ck evs (newServerMetrics ck t0)"
    and "set keys = dom (ss_ProxyTypeCounts m)"
    and "\<bar>\<Sum>e\<leftarrow>evs. client_delta (snd e)\<bar> < 2 ^ 31" and "\<bar>\<Sum>e\<leftarrow>evs. conn_delta (snd e)\<bar> < 2 ^ 31"
    and "\<forall>t. \<bar>\<Sum>e\<leftarrow>evs. type_delta t (snd e)\<bar> < 2 ^ 31"
    and "ov = fst (fetchData_overview (Inr (fst (apiServerInfo ck now keys cfg allow m))) d)"
  shows "ov_clientCounts ov = JNum (\<Sum>e\<leftarrow>evs. client_delta (snd e)) \<and>
    ov_curConns ov = JNum (\<Sum>e\<leftarrow>evs. conn_delta (snd e)) \<and>
    ov_proxyCounts ov = JNum (\<Sum>t\<leftarrow>[''tcp'', ''udp'', ''http'', ''https'', ''stcp'', ''sudp'', ''xtcp''].
      \<Sum>e\<leftarrow>evs. type_delta t (snd e))"
proof -
  obtain w where w: "fst (apiServerInfo ck now keys cfg allow m) = json_reply w" using apiServerInfo_json by blast
  obtain st m' where st: "mem_GetServer ck now m = (st, m')" by fastforce
  then have st': "st = fst (mem_GetServer ck now m)" by simp
  note g = api_info_get [OF assms(3) st w]
  have c: "sint (sv_ClientCounts st) = (\<Sum>e\<leftarrow>evs. client_delta (snd e))"
    "sint (sv_CurConns st) = (\<Sum>e\<leftarrow>evs. conn_delta (snd e))"
    and t: "(case sv_ProxyTypeCounts st t of None \<Rightarrow> 0 | Some n \<Rightarrow> sint n) = (\<Sum>e\<leftarrow>evs. type_delta t (snd e))" for t
    using GetServer_sums [OF assms(1,2) st' assms(4,5), of t] assms(6) by auto
  let ?n = "js_opt_get w ''proxyTypeCount''"
  have "count_of ?n k = (\<Sum>e\<leftarrow>evs. type_delta k (snd e))" "num_or_absent (js_opt_get ?n k)" for k
    using t [of k] g(4) [of k] by (auto simp: count_of_def jnum64_def js_eq_null_def split: option.splits)
  then have "proxy_counts ?n = JNum (\<Sum>t\<leftarrow>[''tcp'', ''udp'', ''http'', ''https'', ''stcp'', ''sudp'', ''xtcp''].
      \<Sum>e\<leftarrow>evs. type_delta t (snd e))"
    using add_count_fold [of ?n "[''tcp'', ''udp'', ''http'', ''https'', ''stcp'', ''sudp'', ''xtcp'']" 0] g(6)
    by (simp add: proxy_counts_def)
  then show ?thesis
    using c g(1,2) fetchData_overview_reply [OF g(5,6), of d] by (simp add: assms(7) w fill_overview_def Let_def jnum64_def)
qed

theorem overview_page_counts_witness:
  "ov_proxyCounts (fst (fetchData_overview (Inr (fst (apiServerInfo (fixed_clock 0) 9 [''tcp'', ''tcpmux''] server_demo []
      (mem_run (fixed_clock 0) [(1, EvNewProxy ''a'' ''tcp''), (2, EvNewProxy ''b'' ''tcpmux'')]
        (newServerMetrics (fixed_clock 0) 0))))) overview_init)) = JNum 1"
proof -
  let ?evs = "[(1, EvNewProxy ''a'' ''tcp''), (2, EvNewProxy ''b'' ''tcpmux'')]"
  have k: "set [''tcp'', ''tcpmux''] = dom (ss_ProxyTypeCounts (mem_run (fixed_clock 0) ?evs (newServerMetrics (fixed_clock 0) 0)))"
    by (auto simp: mem_run_def mem_NewProxy_def newServerMetrics_def Let_def split: if_splits)
  show ?thesis using overview_page_counts [OF _ refl k _ _ _ refl, of 9 server_demo "[]" overview_init] by simp
qed

end
